(* ===== verification/Earlnux_Prelude.thy ===== *)
theory Earlnux_Prelude
  imports Main "HOL-Library.Word" "HOL-Library.Monad_Syntax" "HOL-Library.Signed_Division"
begin

text \<open>
  Shared vocabulary of the development: the fixed-width types and the macros of
  \<^verbatim>\<open>include/types.h\<close>, the reading of undefined behaviour as the value \<open>None\<close>, C
  strings as byte lists, and the generic lemmas on words, lists and loops that the component
  theories use.

  Conventions.  A machine integer is a word of its width (\<open>u8\<close>, \<open>u16\<close>, \<open>u32\<close>, \<open>u64\<close>), so that
  wrap-around is the wrap-around of the code.  An operation whose C code can leave the bounds of
  an object, divide by zero or overflow a signed integer has result type \<open>'a option\<close>, and
  \<open>None\<close> is that undefined behaviour; the C results NULL and -1 are ordinary values.
  A \<open>for (i = 0; i < n; i++)\<close> loop without early exit is \<open>fold\<close> over \<open>[0..<n]\<close>.
\<close>

unbundle bit_operations_syntax

section \<open>Types of include/types.h\<close>

type_synonym u8 = "8 word"
type_synonym u16 = "16 word"
type_synonym u32 = "32 word"
type_synonym u64 = "64 word"

type_synonym bytes = "u8 list"

text \<open>Collections of rules the component theories add to.\<close>

named_theorems byte_defs \<open>definitions of single bytes and character classes\<close>
named_theorems frame_simps \<open>what an operation leaves unchanged\<close>

section \<open>Macros of include/types.h\<close>

definition ALIGN_UP :: "u32 \<Rightarrow> u32 \<Rightarrow> u32" where
  "ALIGN_UP x align = (x + align - 1) AND NOT (align - 1)"

definition ALIGN_DOWN :: "u32 \<Rightarrow> u32 \<Rightarrow> u32" where
  "ALIGN_DOWN x align = x AND NOT (align - 1)"

definition IS_ALIGNED :: "u32 \<Rightarrow> u32 \<Rightarrow> bool" where
  "IS_ALIGNED x align = (x AND (align - 1) = 0)"

definition BIT :: "nat \<Rightarrow> u32" where
  "BIT n = push_bit n 1"

definition PAGE_SIZE :: u32 where "PAGE_SIZE = 4096"
definition PAGE_SHIFT :: nat where "PAGE_SHIFT = 12"
definition KERNEL_BASE :: u32 where "KERNEL_BASE = 0xC0000000"

text \<open>A loop whose body may be undefined.\<close>

primrec foldo :: "('a \<Rightarrow> 's \<Rightarrow> 's option) \<Rightarrow> 'a list \<Rightarrow> 's \<Rightarrow> 's option" where
  "foldo f [] s = Some s"
| "foldo f (x # xs) s = (case f x s of None \<Rightarrow> None | Some s' \<Rightarrow> foldo f xs s')"

lemma foldo_append: "foldo f (xs @ ys) s = (case foldo f xs s of None \<Rightarrow> None | Some s' \<Rightarrow> foldo f ys s')"
  by (induction xs arbitrary: s) (auto split: option.splits)

lemma foldo_total: "(\<And>x s. x \<in> set xs \<Longrightarrow> f x s = Some (g x s)) \<Longrightarrow> foldo f xs s = Some (fold g xs s)"
  by (induction xs arbitrary: s) auto

subsection \<open>Ranges of machine integers\<close>

lemma unat_u32_bounds [simp]:
  "unat (x::u32) < 4294967296" "unat (x::u32) \<le> 4294967296" "unat (x::u32) \<le> 4294967295"
  using unsigned_less [where w = x and 'a = nat] by simp_all

lemma unat_u8_bounds [simp]:
  "unat (x::u8) < 256" "unat (x::u8) \<le> 255"
  using unsigned_less [where w = x and 'a = nat] by simp_all

lemma unat_u16_bounds [simp]:
  "unat (x::u16) < 65536" "unat (x::u16) \<le> 65535"
  using unsigned_less [where w = x and 'a = nat] by simp_all

lemma uint_eq_uint_iff [simp]: "uint (a::'a::len word) = uint b \<longleftrightarrow> a = b"
  by (auto intro: unsigned_word_eqI)

lemma uint_eq_zero_iff [simp]: "uint (a::'a::len word) = 0 \<longleftrightarrow> a = 0"
  by (metis unsigned_0 uint_eq_uint_iff)

lemma unat_eq_unat_iff [simp]: "unat (a::'a::len word) = unat b \<longleftrightarrow> a = b"
  by (auto intro: unsigned_word_eqI)

subsection \<open>Alignment\<close>

text \<open>Clearing the low bits of a word is rounding its value down to a multiple of the power of two.\<close>

lemma and_not_mask_push_drop:
  fixes x :: "'a::len word"
  shows "x AND NOT (2 ^ k - 1) = push_bit k (drop_bit k x)"
  by (rule bit_word_eqI) (auto simp: bit_simps mask_eq_exp_minus_1 [symmetric])

lemma unat_and_not_mask:
  fixes x :: "'a::len word"
  shows "unat (x AND NOT (2 ^ k - 1)) = unat x div 2 ^ k * 2 ^ k"
proof -
  have le: "unat x div 2 ^ k * 2 ^ k < 2 ^ LENGTH('a)"
    by (rule le_less_trans [OF div_times_less_eq_dividend]) simp
  have "unat (x AND NOT (2 ^ k - 1)) = take_bit LENGTH('a) (push_bit k (drop_bit k (unat x)))"
    by (simp add: and_not_mask_push_drop unsigned_push_bit_eq unat_drop_bit_eq)
  then show ?thesis
    using le by (simp add: push_bit_eq_mult drop_bit_eq_div take_bit_nat_eq_self)
qed

lemma unat_2p: "k < LENGTH('a) \<Longrightarrow> unat ((2::'a::len word) ^ k) = 2 ^ k"
proof -
  assume "k < LENGTH('a)"
  then have "(2::nat) ^ k < 2 ^ LENGTH('a)" by simp
  moreover have "(2::'a word) ^ k = of_nat (2 ^ k)" by simp
  ultimately show ?thesis by (metis mod_less unat_of_nat)
qed

lemma unat_ALIGN_DOWN:
  assumes "align = 2 ^ k"
  shows "unat (ALIGN_DOWN x align) = unat x div 2 ^ k * 2 ^ k"
  using assms by (simp add: ALIGN_DOWN_def unat_and_not_mask)

lemma unat_ALIGN_UP:
  assumes "align = 2 ^ k" "k < 32" "unat x + 2 ^ k \<le> 2 ^ 32"
  shows "unat (ALIGN_UP x align) = (unat x + 2 ^ k - 1) div 2 ^ k * 2 ^ k"
proof -
  have "unat (x + 2 ^ k - 1) = unat x + 2 ^ k - 1"
  proof -
    have "unat ((2::u32) ^ k) \<noteq> 0"
      using unat_2p [where 'a = 32, of k] assms(2) by simp
    then have "(2::u32) ^ k \<noteq> 0"
      by (simp only: unat_0_iff) simp
    then have p: "unat ((2::u32) ^ k - 1) = 2 ^ k - 1"
      using assms(2) by (simp add: unat_minus_one unat_2p)
    have "unat (x + (2 ^ k - 1)) = unat x + (2 ^ k - 1)"
      using assms(3) p by (subst unat_add_lem [THEN iffD1]) auto
    then show ?thesis by (simp add: algebra_simps)
  qed
  with assms(1) show ?thesis by (simp add: ALIGN_UP_def unat_and_not_mask)
qed

end
