(* ===== verification/Digits.thy ===== *)
theory Digits
  imports Earlnux_Prelude
begin

text \<open>
  Positional notation, independent of the code: the digits of a number in a base, their value, and
  the characters that print them.  The number printers of \<^verbatim>\<open>string.c\<close> and
  \<^verbatim>\<open>printf.c\<close> are shown to store these digits, the parsers of \<^verbatim>\<open>string.c\<close>,
  \<^verbatim>\<open>net.c\<close> and \<^verbatim>\<open>shell_math.c\<close> to read their value.
\<close>

fun rev_digits :: "nat \<Rightarrow> nat \<Rightarrow> nat list" where
  "rev_digits base n = (if n = 0 \<or> base < 2 then [] else n mod base # rev_digits base (n div base))"

declare rev_digits.simps [simp del]

definition digits_value :: "nat \<Rightarrow> nat \<Rightarrow> nat list \<Rightarrow> nat" where
  "digits_value base acc ds = foldl (\<lambda>a d. a * base + d) acc ds"

definition digit_char :: "nat \<Rightarrow> u8" where
  "digit_char d = of_nat (if d < 10 then 48 + d else 87 + d)"

lemma rev_digits_0 [simp]: "rev_digits base 0 = []"
  by (simp add: rev_digits.simps)

lemma rev_digits_pos:
  "0 < n \<Longrightarrow> 2 \<le> base \<Longrightarrow> rev_digits base n = n mod base # rev_digits base (n div base)"
  by (simp add: rev_digits.simps [of base n])

lemma rev_digits_eq_Nil [simp]: "2 \<le> base \<Longrightarrow> rev_digits base n = [] \<longleftrightarrow> n = 0"
  by (cases "n = 0") (simp_all add: rev_digits_pos)

lemma digits_value_simps [simp]:
  "digits_value base acc [] = acc"
  "digits_value base acc (d # ds) = digits_value base (acc * base + d) ds"
  "digits_value base acc (ds @ es) = digits_value base (digits_value base acc ds) es"
  by (simp_all add: digits_value_def)

lemma digits_value_rev_digits: "2 \<le> base \<Longrightarrow> digits_value base 0 (rev (rev_digits base n)) = n"
proof (induction base n rule: rev_digits.induct)
  case (1 base n)
  then show ?case by (cases "n = 0") (simp_all add: rev_digits_pos)
qed

lemma rev_digits_less: "2 \<le> base \<Longrightarrow> d \<in> set (rev_digits base n) \<Longrightarrow> d < base"
proof (induction base n rule: rev_digits.induct)
  case (1 base n)
  then show ?case by (cases "n = 0") (auto simp: rev_digits_pos)
qed

lemma rev_digits_length: "2 \<le> base \<Longrightarrow> n < base ^ k \<Longrightarrow> length (rev_digits base n) \<le> k"
proof (induction k arbitrary: n)
  case 0
  then show ?case by simp
next
  case (Suc k)
  show ?case
  proof (cases "n = 0")
    case False
    have "n div base < base ^ k"
      using Suc.prems by (simp add: less_mult_imp_div_less mult.commute)
    with Suc False show ?thesis by (simp add: rev_digits_pos)
  qed simp
qed

lemma digits_value_mono: "acc \<le> digits_value base acc ds" if "1 \<le> base"
  using that
proof (induction ds arbitrary: acc)
  case (Cons d ds)
  have "acc \<le> acc * base + d" using Cons.prems by (simp add: trans_le_add1)
  also have "\<dots> \<le> digits_value base (acc * base + d) ds" using Cons by blast
  finally show ?case by simp
qed simp

subsection \<open>Digit characters\<close>

lemma unat_digit_char: "d < 16 \<Longrightarrow> unat (digit_char d) = (if d < 10 then 48 + d else 87 + d)"
  by (simp add: digit_char_def unat_of_nat)

lemma digit_char_decimal:
  assumes "d < 10"
  shows "48 \<le> digit_char d" "digit_char d \<le> 57" "uint (digit_char d) - 48 = int d"
    "unat (digit_char d - 48) = d"
proof -
  have u: "unat (digit_char d) = 48 + d" using assms by (simp add: unat_digit_char)
  then show ge: "48 \<le> digit_char d" and "digit_char d \<le> 57"
    using assms by (simp_all add: word_le_nat_alt)
  show "uint (digit_char d) - 48 = int d" using u by (simp add: uint_nat)
  show "unat (digit_char d - 48) = d" using u ge by (simp add: unat_sub)
qed

lemma digit_char_nonzero: "d < 16 \<Longrightarrow> digit_char d \<noteq> 0"
proof
  assume "d < 16" "digit_char d = 0"
  then show False using unat_digit_char [of d] by (simp split: if_splits)
qed

lemma inj_digit_char:
  assumes "d < 16" "e < 16"
  shows "digit_char d = digit_char e \<longleftrightarrow> d = e"
proof
  assume "digit_char d = digit_char e"
  then have "(if d < 10 then 48 + d else 87 + d) = (if e < 10 then 48 + e else 87 + e)"
    using unat_digit_char [OF assms(1)] unat_digit_char [OF assms(2)] by simp
  then show "d = e" using assms by (simp split: if_splits)
qed simp

definition dec :: "nat \<Rightarrow> bytes" where
  "dec n = (if n = 0 then [48] else map digit_char (rev (rev_digits 10 n)))"

definition hex :: "nat \<Rightarrow> bytes" where
  "hex n = (if n = 0 then [48] else map digit_char (rev (rev_digits 16 n)))"

lemma dec_digits: "\<exists>ds. dec n = map digit_char ds \<and> ds \<noteq> [] \<and> (\<forall>d \<in> set ds. d < 10) \<and> digits_value 10 0 ds = n"
proof (cases "n = 0")
  case True
  then show ?thesis by (intro exI [of _ "[0]"]) (simp add: dec_def digit_char_def)
next
  case False
  then show ?thesis
    by (intro exI [of _ "rev (rev_digits 10 n)"])
      (auto simp: dec_def digits_value_rev_digits rev_digits_less)
qed

lemma dec_no_zero: "0 \<notin> set (dec n)"
  using dec_digits [of n] digit_char_nonzero by fastforce

lemma dec_length: "n < 10 ^ k \<Longrightarrow> 0 < k \<Longrightarrow> length (dec n) \<le> k"
  by (simp add: dec_def rev_digits_length)

end
