(* ===== verification/Memory.thy ===== *)
theory Memory
  imports Earlnux_Prelude
begin

text \<open>
  The byte-addressed memory of the machine, with 32-bit little-endian accesses.  Addresses are
  \<open>u32\<close> and wrap.  The lemmas say when two accesses do not interfere: aligned words at different
  addresses, and words of different page frames.
\<close>

type_synonym mem = "u32 \<Rightarrow> u8"

definition load32 :: "mem \<Rightarrow> u32 \<Rightarrow> u32" where
  "load32 m a = ucast (m a) OR push_bit 8 (ucast (m (a + 1))) OR
     push_bit 16 (ucast (m (a + 2))) OR push_bit 24 (ucast (m (a + 3)))"

definition store32 :: "u32 \<Rightarrow> u32 \<Rightarrow> mem \<Rightarrow> mem" where
  "store32 a v m = m(a := ucast v, a + 1 := ucast (drop_bit 8 v),
     a + 2 := ucast (drop_bit 16 v), a + 3 := ucast (drop_bit 24 v))"

lemma load32_store32 [simp]: "load32 (store32 a v m) a = v"
proof -
  have "load32 (store32 a v m) a = ucast (ucast v :: u8) OR
      push_bit 8 (ucast (ucast (drop_bit 8 v) :: u8)) OR
      push_bit 16 (ucast (ucast (drop_bit 16 v) :: u8)) OR
      push_bit 24 (ucast (ucast (drop_bit 24 v) :: u8))"
    by (simp add: load32_def store32_def)
  also have "\<dots> = v"
  proof (rule bit_word_eqI)
    fix n assume "n < LENGTH(32)"
    then have "n < 8 \<or> 8 \<le> n \<and> n < 16 \<or> 16 \<le> n \<and> n < 24 \<or> 24 \<le> n \<and> n < 32" by auto
    then show "bit (ucast (ucast v :: u8) OR
      push_bit 8 (ucast (ucast (drop_bit 8 v) :: u8)) OR
      push_bit 16 (ucast (ucast (drop_bit 16 v) :: u8)) OR
      push_bit 24 (ucast (ucast (drop_bit 24 v) :: u8)) :: u32) n = bit v n"
      by (auto simp: bit_simps)
  qed
  finally show ?thesis .
qed

lemma load32_cong:
  assumes "\<And>i. i < 4 \<Longrightarrow> m (a + of_nat i) = m' (a + of_nat i)"
  shows "load32 m a = load32 m' a"
  using assms [of 0] assms [of 1] assms [of 2] assms [of 3] by (simp add: load32_def)

lemma store32_other: "(\<And>i. i < 4 \<Longrightarrow> b \<noteq> a + of_nat i) \<Longrightarrow> store32 a v m b = m b"
proof -
  assume n: "\<And>i. i < 4 \<Longrightarrow> b \<noteq> a + of_nat i"
  show ?thesis using n [of 0] n [of 1] n [of 2] n [of 3] by (simp add: store32_def)
qed

section \<open>Aligned words\<close>

lemma unat_add_small:
  fixes a :: u32
  assumes "unat a + n < 4294967296"
  shows "unat (a + of_nat n) = unat a + n"
proof -
  have "unat (of_nat n :: u32) = n" using assms by (simp add: unat_of_nat)
  then show ?thesis using assms by (subst unat_add_lem [THEN iffD1]) simp_all
qed

lemma unat_word_byte:
  fixes a :: u32
  assumes "4 dvd unat a" "i < 4"
  shows "unat (a + of_nat i) = unat a + i"
proof -
  obtain q where "unat a = 4 * q" using assms(1) ..
  moreover have "unat a < 4294967296" by simp
  ultimately show ?thesis using assms(2) by (intro unat_add_small) arith
qed

lemma load32_store32_other:
  assumes "4 dvd unat a" "4 dvd unat b" "a \<noteq> b"
  shows "load32 (store32 b v m) a = load32 m a"
proof (rule load32_cong, rule store32_other)
  fix i j :: nat assume ij: "i < 4" "j < 4"
  show "a + of_nat i \<noteq> b + of_nat j"
  proof
    assume "a + of_nat i = b + of_nat j"
    then have "unat a + i = unat b + j" using unat_word_byte assms(1,2) ij by metis
    moreover obtain q r where "unat a = 4 * q" "unat b = 4 * r" using assms(1,2) by (auto elim!: dvdE)
    ultimately have "unat a = unat b" using ij by arith
    then show False using assms(3) by simp
  qed
qed

section \<open>Page frames\<close>

lemma page_aligned_dvd: "(f::u32) AND 0xFFF = 0 \<longleftrightarrow> 4096 dvd unat f"
proof -
  have m: "(0xFFF::u32) = mask 12" by (simp add: mask_eq_exp_minus_1)
  have "unat (f AND 0xFFF) = take_bit 12 (unat f)"
    unfolding m take_bit_eq_mask [symmetric] by (simp only: unsigned_take_bit_eq)
  then have "unat (f AND 0xFFF) = unat f mod 4096" by (simp add: take_bit_eq_mod)
  then show ?thesis by (metis dvd_eq_mod_eq_0 unat_eq_unat_iff unsigned_0)
qed

text \<open>The page frame an address lies in, and the address of the \<open>i\<close>th word of an array.\<close>

definition frame_of :: "u32 \<Rightarrow> nat" where
  "frame_of a = unat a div 4096"

definition entry :: "u32 \<Rightarrow> nat \<Rightarrow> u32" where
  "entry base i = base + of_nat (4 * i)"

lemma unat_in_frame:
  fixes f :: u32
  assumes "4096 dvd unat f" "n < 4096"
  shows "unat (f + of_nat n) = unat f + n" "frame_of (f + of_nat n) = frame_of f"
proof -
  obtain q where q: "unat f = 4096 * q" using assms(1) ..
  have "unat f < 4294967296" by simp
  then have "q < 1048576" using q by simp
  then have "unat f + n < 4294967296" using assms(2) q by simp
  then show u: "unat (f + of_nat n) = unat f + n" by (rule unat_add_small)
  have "(4096 * q + n) div 4096 = q" using assms(2) by (simp add: div_nat_eqI)
  then show "frame_of (f + of_nat n) = frame_of f" using q by (simp add: frame_of_def u)
qed

lemma unat_entry:
  assumes "4096 dvd unat f" "i < 1024"
  shows "unat (entry f i) = unat f + 4 * i" "4 dvd unat (entry f i)" "frame_of (entry f i) = frame_of f"
proof -
  show u: "unat (entry f i) = unat f + 4 * i" "frame_of (entry f i) = frame_of f"
    using unat_in_frame [OF assms(1), of "4 * i"] assms(2) by (simp_all add: entry_def)
  show "4 dvd unat (entry f i)" using assms(1) by (auto simp: u(1) elim!: dvdE)
qed

lemma frame_of_eq: "4096 dvd unat f \<Longrightarrow> 4096 dvd unat g \<Longrightarrow> frame_of f = frame_of g \<longleftrightarrow> f = g"
  unfolding frame_of_def by (metis dvd_div_eq_iff unat_eq_unat_iff)

lemma entry_eq_iff:
  assumes "4096 dvd unat f" "4096 dvd unat g" "i < 1024" "j < 1024"
  shows "entry f i = entry g j \<longleftrightarrow> f = g \<and> i = j"
proof
  assume e: "entry f i = entry g j"
  then have "f = g" using unat_entry(3) frame_of_eq assms by metis
  moreover have "unat f + 4 * i = unat g + 4 * j" using e unat_entry(1) assms by metis
  ultimately show "f = g \<and> i = j" by simp
qed simp

lemma load_store_entry:
  assumes "4096 dvd unat f" "4096 dvd unat g" "i < 1024" "j < 1024"
  shows "load32 (store32 (entry g j) v m) (entry f i) =
    (if f = g \<and> i = j then v else load32 m (entry f i))"
  using load32_store32_other [OF unat_entry(2) unat_entry(2)] entry_eq_iff assms by simp

lemma div_4096: "n div 4096 = n div 4 div (1024::nat)"
  by (simp add: div_mult2_eq [symmetric])

lemma store32_frame:
  assumes "4 dvd unat a" "frame_of b \<noteq> frame_of a"
  shows "store32 a v m b = m b"
proof (rule store32_other)
  fix i :: nat assume i: "i < 4"
  obtain q where "unat a = 4 * q" using assms(1) ..
  then have "frame_of (a + of_nat i) = frame_of a"
    using unat_word_byte [OF assms(1) i] i 
    by (simp add: frame_of_def div_4096)
  then show "b \<noteq> a + of_nat i" using assms(2) by auto
qed

text \<open>An access to a word of a frame depends on the bytes of that frame only.\<close>

lemma load32_frame:
  assumes "4096 dvd unat f" "i < 1024" "\<And>a. frame_of a = frame_of f \<Longrightarrow> m a = m' a"
  shows "load32 m (entry f i) = load32 m' (entry f i)"
proof (rule load32_cong)
  fix j :: nat assume j: "j < 4"
  have "entry f i + of_nat j = f + of_nat (4 * i + j)" by (simp add: entry_def)
  then have "frame_of (entry f i + of_nat j) = frame_of f"
    using unat_in_frame(2) [OF assms(1), of "4 * i + j"] assms(2) j by (simp only:)
  then show "m (entry f i + of_nat j) = m' (entry f i + of_nat j)" by (rule assms(3))
qed

end
