(* ===== verification/C_String.thy ===== *)
theory C_String
  imports Digits Memory "HOL-Library.Sublist"
begin

text \<open>
  \<^verbatim>\<open>kernel/lib/string.c\<close>.

  The \<open>mem\<close> operations work on the flat byte memory of the machine (\<open>mem\<close>, addresses are
  \<open>u32\<close> and wrap), so that overlapping arguments of \<open>memmove\<close> are what they are in the code.
  The \<open>str\<close> operations read through a pointer into an object: the model of such a pointer is
  the list of the bytes from the pointer to the end of the object, and reading past the object
  is \<open>None\<close>.  A returned pointer is an offset from the argument, a returned NULL is
  \<open>Some None\<close>.  Operations that write take the bytes of the destination object from the
  pointer on, and writing past it is \<open>None\<close>.  Destination and source are distinct objects.
\<close>

section \<open>Memory operations\<close>

primrec copy_up :: "nat \<Rightarrow> mem \<Rightarrow> u32 \<Rightarrow> u32 \<Rightarrow> mem" where
  "copy_up 0 m d s = m"
| "copy_up (Suc n) m d s = copy_up n (m(d := m s)) (d + 1) (s + 1)"

primrec copy_down :: "nat \<Rightarrow> mem \<Rightarrow> u32 \<Rightarrow> u32 \<Rightarrow> mem" where
  "copy_down 0 m d s = m"
| "copy_down (Suc n) m d s = copy_down n (m(d - 1 := m (s - 1))) (d - 1) (s - 1)"

definition memcpy :: "mem \<Rightarrow> u32 \<Rightarrow> u32 \<Rightarrow> u32 \<Rightarrow> mem" where
  "memcpy m dest src n = copy_up (unat n) m dest src"

definition memmove :: "mem \<Rightarrow> u32 \<Rightarrow> u32 \<Rightarrow> u32 \<Rightarrow> mem" where
  "memmove m d s n =
     (if d < s \<and> d + n > s then copy_up (unat n) m d s
      else if d > s \<and> s + n > d then copy_down (unat n) m (d + n) (s + n)
      else copy_up (unat n) m d s)"

primrec fill_up :: "nat \<Rightarrow> mem \<Rightarrow> u32 \<Rightarrow> u8 \<Rightarrow> mem" where
  "fill_up 0 m p c = m"
| "fill_up (Suc n) m p c = fill_up n (m(p := c)) (p + 1) c"

definition memset :: "mem \<Rightarrow> u32 \<Rightarrow> u32 \<Rightarrow> u32 \<Rightarrow> mem" where
  "memset m s c n = fill_up (unat n) m s (ucast c)"

primrec memcmp_loop :: "nat \<Rightarrow> mem \<Rightarrow> u32 \<Rightarrow> u32 \<Rightarrow> int" where
  "memcmp_loop 0 m pa pb = 0"
| "memcmp_loop (Suc n) m pa pb =
     (if m pa \<noteq> m pb then uint (m pa) - uint (m pb) else memcmp_loop n m (pa + 1) (pb + 1))"

definition memcmp :: "mem \<Rightarrow> u32 \<Rightarrow> u32 \<Rightarrow> u32 \<Rightarrow> int" where
  "memcmp m a b n = memcmp_loop (unat n) m a b"

primrec memchr_loop :: "nat \<Rightarrow> mem \<Rightarrow> u32 \<Rightarrow> u8 \<Rightarrow> u32 option" where
  "memchr_loop 0 m p c = None"
| "memchr_loop (Suc n) m p c = (if m p = c then Some p else memchr_loop n m (p + 1) c)"

definition memchr :: "mem \<Rightarrow> u32 \<Rightarrow> u32 \<Rightarrow> u32 \<Rightarrow> u32 option" where
  "memchr m s c n = memchr_loop (unat n) m s (ucast c)"

section \<open>Scanning a string\<close>

text \<open>The abstract string a pointer stands for, and that it is terminated inside its object.\<close>

definition cstr :: "bytes \<Rightarrow> bytes" where
  "cstr b = takeWhile (\<lambda>c. c \<noteq> 0) b"

definition terminated :: "bytes \<Rightarrow> bool" where
  "terminated b \<longleftrightarrow> 0 \<in> set b"

fun strlen :: "bytes \<Rightarrow> nat option" where
  "strlen [] = None"
| "strlen (c # cs) = (if c = 0 then Some 0 else map_option Suc (strlen cs))"

fun strcmp :: "bytes \<Rightarrow> bytes \<Rightarrow> int option" where
  "strcmp (a # as) (b # bs) =
     (if a \<noteq> 0 \<and> b \<noteq> 0 \<and> a = b then strcmp as bs else Some (uint a - uint b))"
| "strcmp _ _ = None"

fun strncmp :: "bytes \<Rightarrow> bytes \<Rightarrow> nat \<Rightarrow> int option" where
  "strncmp _ _ 0 = Some 0"
| "strncmp (a # as) (b # bs) (Suc n) =
     (if a \<noteq> 0 \<and> b \<noteq> 0 \<and> a = b then strncmp as bs n else Some (uint a - uint b))"
| "strncmp _ _ (Suc n) = None"

fun strchr :: "bytes \<Rightarrow> u8 \<Rightarrow> nat option option" where
  "strchr [] c = None"
| "strchr (x # xs) c =
     (if x \<noteq> 0 \<and> x \<noteq> c then map_option (map_option Suc) (strchr xs c)
      else Some (if x = c then Some 0 else None))"

text \<open>The loop of \<open>strrchr\<close>: \<open>i\<close> is the offset of \<open>s\<close>, \<open>found\<close> the last match.\<close>

fun strrchr_loop :: "bytes \<Rightarrow> u8 \<Rightarrow> nat \<Rightarrow> nat option \<Rightarrow> (nat \<times> nat option) option" where
  "strrchr_loop [] c i found = None"
| "strrchr_loop (x # xs) c i found =
     (if x = 0 then Some (i, found)
      else strrchr_loop xs c (Suc i) (if x = c then Some i else found))"

definition strrchr :: "bytes \<Rightarrow> u8 \<Rightarrow> nat option option" where
  "strrchr s c = map_option (\<lambda>(i, found). if c = 0 then Some i else found) (strrchr_loop s c 0 None)"

fun strspn :: "bytes \<Rightarrow> bytes \<Rightarrow> nat option" where
  "strspn [] accept = None"
| "strspn (x # xs) accept =
     (if x = 0 then Some 0
      else case strchr accept x of
             None \<Rightarrow> None
           | Some None \<Rightarrow> Some 0
           | Some (Some _) \<Rightarrow> map_option Suc (strspn xs accept))"

fun strcspn :: "bytes \<Rightarrow> bytes \<Rightarrow> nat option" where
  "strcspn [] reject = None"
| "strcspn (x # xs) reject =
     (if x = 0 then Some 0
      else case strchr reject x of
             None \<Rightarrow> None
           | Some (Some _) \<Rightarrow> Some 0
           | Some None \<Rightarrow> map_option Suc (strcspn xs reject))"

fun strpbrk :: "bytes \<Rightarrow> bytes \<Rightarrow> nat option option" where
  "strpbrk [] accept = None"
| "strpbrk (x # xs) accept =
     (if x = 0 then Some None
      else case strchr accept x of
             None \<Rightarrow> None
           | Some (Some _) \<Rightarrow> Some (Some 0)
           | Some None \<Rightarrow> map_option (map_option Suc) (strpbrk xs accept))"

text \<open>The inner loop of \<open>strstr\<close>: does the needle end (\<open>!*n\<close>) where the comparison stops?\<close>

fun strstr_here :: "bytes \<Rightarrow> bytes \<Rightarrow> bool option" where
  "strstr_here (h # hs) (n # ns) =
     (if h \<noteq> 0 \<and> n \<noteq> 0 \<and> h = n then strstr_here hs ns else Some (n = 0))"
| "strstr_here _ _ = None"

fun strstr_loop :: "bytes \<Rightarrow> bytes \<Rightarrow> nat option option" where
  "strstr_loop [] needle = None"
| "strstr_loop (h # hs) needle =
     (if h = 0 then Some None
      else case strstr_here (h # hs) needle of
             None \<Rightarrow> None
           | Some True \<Rightarrow> Some (Some 0)
           | Some False \<Rightarrow> map_option (map_option Suc) (strstr_loop hs needle))"

definition strstr :: "bytes \<Rightarrow> bytes \<Rightarrow> nat option option" where
  "strstr haystack needle =
     (case needle of [] \<Rightarrow> None
      | n # _ \<Rightarrow> if n = 0 then Some (Some 0) else strstr_loop haystack needle)"

section \<open>Copying into an object\<close>

text \<open>
  Bytes read from an object and bytes stored into it, \<open>None\<close> out of its bounds: what
  \<open>memcpy\<close> and indexed stores do to distinct objects (\<open>memcpy_object\<close> below).
\<close>

definition get_bytes :: "bytes \<Rightarrow> nat \<Rightarrow> nat \<Rightarrow> bytes option" where
  "get_bytes b off n = (if off + n \<le> length b then Some (take n (drop off b)) else None)"

definition put_bytes :: "bytes \<Rightarrow> nat \<Rightarrow> bytes \<Rightarrow> bytes option" where
  "put_bytes b off xs =
     (if off + length xs \<le> length b
      then Some (take off b @ xs @ drop (off + length xs) b) else None)"

fun strcpy :: "bytes \<Rightarrow> bytes \<Rightarrow> bytes option" where
  "strcpy (d # ds) (c # cs) =
     (if c = 0 then Some (0 # ds) else map_option ((#) c) (strcpy ds cs))"
| "strcpy _ _ = None"

text \<open>
  In \<open>strncpy\<close> the copy of the terminator leaves \<open>n\<close> as it was (the loop condition fails
  before \<open>n--\<close>), so the padding loop then writes \<open>n\<close> more bytes.
\<close>

fun pad_zero :: "bytes \<Rightarrow> nat \<Rightarrow> bytes option" where
  "pad_zero ds 0 = Some ds"
| "pad_zero (d # ds) (Suc n) = map_option ((#) 0) (pad_zero ds n)"
| "pad_zero [] (Suc n) = None"

fun strncpy :: "bytes \<Rightarrow> bytes \<Rightarrow> nat \<Rightarrow> bytes option" where
  "strncpy ds cs 0 = Some ds"
| "strncpy (d # ds) (c # cs) (Suc n) =
     (if c = 0 then map_option ((#) 0) (pad_zero ds (Suc n))
      else map_option ((#) c) (strncpy ds cs n))"
| "strncpy _ _ (Suc n) = None"

definition strlcpy :: "bytes \<Rightarrow> bytes \<Rightarrow> nat \<Rightarrow> (bytes \<times> nat) option" where
  "strlcpy dest src sz =
     do { ret \<leftarrow> strlen src;
          if sz \<noteq> 0
          then do { let len = (if ret \<ge> sz then sz - 1 else ret);
                    bs \<leftarrow> get_bytes src 0 len;
                    d1 \<leftarrow> put_bytes dest 0 bs;
                    d2 \<leftarrow> put_bytes d1 len [0];
                    Some (d2, ret) }
          else Some (dest, ret) }"

text \<open>The swap loop of \<open>strrev\<close> and \<open>reverse_str\<close>, between the offsets \<open>i\<close> and \<open>j\<close>.\<close>

function swap_loop :: "bytes \<Rightarrow> nat \<Rightarrow> nat \<Rightarrow> bytes" where
  "swap_loop b i j =
     (if i < j then swap_loop (b[i := b ! j, j := b ! i]) (Suc i) (j - 1) else b)"
  by pat_completeness auto
termination by (relation "measure (\<lambda>(b, i, j). j - i)") auto

declare swap_loop.simps [simp del]

definition strrev :: "bytes \<Rightarrow> bytes option" where
  "strrev s = map_option (\<lambda>n. swap_loop s 0 (n - 1)) (strlen s)"

definition reverse_str :: "bytes \<Rightarrow> nat \<Rightarrow> bytes" where
  "reverse_str s len = swap_loop s 0 (len - 1)"

section \<open>Conversions\<close>

definition is_digit :: "u8 \<Rightarrow> bool" where
  "is_digit c \<longleftrightarrow> 48 \<le> c \<and> c \<le> 57"

fun skip_blanks :: "bytes \<Rightarrow> bytes option" where
  "skip_blanks [] = None"
| "skip_blanks (c # cs) = (if c = 32 \<or> c = 9 then skip_blanks cs else Some (c # cs))"

definition int32_ok :: "int \<Rightarrow> bool" where
  "int32_ok v \<longleftrightarrow> - (2 ^ 31) \<le> v \<and> v < 2 ^ 31"

text \<open>The digit loop, \<open>None\<close> where \<open>val * 10 + (*s - '0')\<close> overflows a signed int.\<close>

fun digit_loop :: "bytes \<Rightarrow> int \<Rightarrow> int option" where
  "digit_loop [] val = None"
| "digit_loop (c # cs) val =
     (if is_digit c
      then (let v = val * 10 + (uint c - 48) in if int32_ok v then digit_loop cs v else None)
      else Some val)"

fun read_sign :: "bytes \<Rightarrow> (int \<times> bytes) option" where
  "read_sign [] = None"
| "read_sign (c # cs) =
     (if c = 45 then Some (-1, cs) else if c = 43 then Some (1, cs) else Some (1, c # cs))"

definition atoi :: "bytes \<Rightarrow> int option" where
  "atoi s = do { s1 \<leftarrow> skip_blanks s; (sign, s2) \<leftarrow> read_sign s1;
                 val \<leftarrow> digit_loop s2 0; Some (sign * val) }"

text \<open>On this target \<open>long\<close> is 32 bits wide, so \<open>atol\<close> has the arithmetic of \<open>atoi\<close>.\<close>

definition atol :: "bytes \<Rightarrow> int option" where
  "atol s = do { s1 \<leftarrow> skip_blanks s; (sign, s2) \<leftarrow> read_sign s1;
                 val \<leftarrow> digit_loop s2 0; Some (sign * val) }"

text \<open>
  The digit loop of \<open>itoa\<close>: bytes in the order they are stored (least digit first).  C division
  truncates (\<open>sdiv\<close>, \<open>smod\<close>); with base -1, 0 or 1 the loop traps or does not end.
\<close>

function itoa_loop :: "int \<Rightarrow> int \<Rightarrow> bytes option" where
  "itoa_loop value base =
     (if value = 0 then Some []
      else if \<bar>base\<bar> < 2 then None
      else (let digit = value smod base;
                c = word_of_int (if digit < 10 then 48 + digit else 97 + digit - 10)
            in map_option ((#) c) (itoa_loop (value sdiv base) base)))"
  by pat_completeness auto
termination
proof (relation "measure (\<lambda>(v, b). nat \<bar>v\<bar>)", goal_cases)
  case 1
  then show ?case by simp
next
  case (2 v b x y)
  have "\<bar>v\<bar> div \<bar>b\<bar> < \<bar>v\<bar>"
    using 2 by (intro int_div_less_self) auto
  moreover have "0 \<le> \<bar>v\<bar> div \<bar>b\<bar>"
    using 2 by (intro div_int_pos_iff [THEN iffD2]) auto
  ultimately have "\<bar>v sdiv b\<bar> < \<bar>v\<bar>"
    using 2 by (auto simp: signed_divide_int_def abs_mult abs_sgn_eq)
  then show ?case by simp
qed

declare itoa_loop.simps [simp del]

definition itoa :: "int \<Rightarrow> bytes \<Rightarrow> int \<Rightarrow> bytes option" where
  "itoa value str base =
     (if value = 0 then put_bytes str 0 [48, 0]
      else do { let sign = (value < 0 \<and> base = 10);
                v \<leftarrow> (if sign then (if int32_ok (- value) then Some (- value) else None)
                      else Some value);
                digits \<leftarrow> itoa_loop v base;
                let text = digits @ (if sign then [45] else []);
                s1 \<leftarrow> put_bytes str 0 (text @ [0]);
                Some (reverse_str s1 (length text)) })"

definition bcd_to_bin :: "u8 \<Rightarrow> u8" where
  "bcd_to_bin bcd = (bcd AND 0x0F) + (drop_bit 4 bcd) * 10"

definition bin_to_bcd :: "u8 \<Rightarrow> u8" where
  "bin_to_bcd bin = (push_bit 4 (bin div 10)) OR (bin mod 10)"

text \<open>The stub \<open>snprintf\<close>: an empty string, whatever the format.\<close>

definition snprintf :: "bytes option \<Rightarrow> nat \<Rightarrow> (bytes option \<times> int) option" where
  "snprintf str sz =
     (case str of None \<Rightarrow> Some (None, 0)
      | Some b \<Rightarrow> if sz = 0 then Some (Some b, 0)
                  else map_option (\<lambda>b'. (Some b', 0)) (put_bytes b 0 [0]))"

section \<open>Memory operations: correctness\<close>

text \<open>The \<open>n\<close> bytes from address \<open>p\<close> on, and the set of their addresses.\<close>

definition region :: "mem \<Rightarrow> u32 \<Rightarrow> nat \<Rightarrow> bytes" where
  "region m p n = map (\<lambda>i. m (p + of_nat i)) [0..<n]"

definition addrs :: "u32 \<Rightarrow> nat \<Rightarrow> u32 set" where
  "addrs p n = (\<lambda>i. p + of_nat i) ` {0..<n}"

lemma word_add_of_nat_eq:
  fixes p :: u32
  assumes "i < 2 ^ 32" "j < 2 ^ 32"
  shows "p + of_nat i = p + of_nat j \<longleftrightarrow> i = j"
  using assms by (auto dest!: arg_cong [where f = unat] simp: unat_of_nat)

lemma unat_diff_of_nat:
  fixes d s :: u32
  assumes "s + of_nat k = d" "k < 2 ^ 32"
  shows "unat (d - s) = k"
  using assms by (auto simp: unat_of_nat)

lemma addrs_Suc: "addrs p (Suc n) = insert p (addrs (p + 1) n)"
  unfolding addrs_def atLeast0_lessThan_Suc_eq_insert_0 image_insert image_image
  by (simp add: algebra_simps)

lemma addrs_0 [simp]: "addrs p 0 = {}"
  by (simp add: addrs_def)

lemma not_in_addrs_next:
  assumes "n < 2 ^ 32"
  shows "p \<notin> addrs (p + 1) n"
proof
  assume "p \<in> addrs (p + 1) n"
  then obtain i where "i < n" "p + of_nat 0 = p + of_nat (Suc i)"
    by (auto simp: addrs_def algebra_simps)
  then show False using assms by (subst (asm) word_add_of_nat_eq) auto
qed

lemma region_Suc: "region m p (Suc n) = m p # region m (p + 1) n"
  by (simp add: region_def upt_conv_Cons map_Suc_upt [symmetric] del: upt_Suc) (simp add: algebra_simps)

lemma region_0 [simp]: "region m p 0 = []"
  by (simp add: region_def)

lemma length_region [simp]: "length (region m p n) = n"
  by (simp add: region_def)

lemma region_upd_other: "a \<notin> addrs p n \<Longrightarrow> region (m(a := v)) p n = region m p n"
  by (auto simp: region_def addrs_def)

lemma copy_up_frame [frame_simps]: "a \<notin> addrs d n \<Longrightarrow> copy_up n m d s a = m a"
  by (induction n arbitrary: m d s) (auto simp: addrs_Suc)

lemma copy_up_region:
  assumes "n \<le> 2 ^ 32" "d = s \<or> n \<le> unat (d - s)"
  shows "region (copy_up n m d s) d n = region m s n"
  using assms
proof (induction n arbitrary: m d s)
  case 0
  then show ?case by simp
next
  case (Suc n)
  have keep: "d \<notin> addrs (d + 1) n"
    using Suc.prems(1) by (intro not_in_addrs_next) simp
  have unread: "d \<notin> addrs (s + 1) n"
  proof
    assume "d \<in> addrs (s + 1) n"
    then obtain i where i: "i < n" "s + of_nat (Suc i) = d"
      by (auto simp: addrs_def algebra_simps)
    then have "unat (d - s) = Suc i"
      using Suc.prems(1) by (intro unat_diff_of_nat) auto
    then show False using Suc.prems(2) i(1) by auto
  qed
  have "region (copy_up n (m(d := m s)) (d + 1) (s + 1)) (d + 1) n
        = region (m(d := m s)) (s + 1) n"
    using Suc.prems by (intro Suc.IH) auto
  then show ?case
    using keep unread by (simp add: region_Suc copy_up_frame region_upd_other)
qed

text \<open>The backward loop writes the same region, from its end.\<close>

lemma region_snoc: "region m p (Suc n) = region m p n @ [m (p + of_nat n)]"
  by (simp add: region_def)

lemma addrs_snoc: "addrs p (Suc n) = insert (p + of_nat n) (addrs p n)"
  by (auto simp: addrs_def atLeastLessThanSuc)

lemma copy_down_frame [frame_simps]:
  "a \<notin> addrs d n \<Longrightarrow> copy_down n m (d + of_nat n) (s + of_nat n) a = m a"
proof (induction n arbitrary: m)
  case (Suc n)
  then show ?case by (simp add: addrs_snoc algebra_simps)
qed simp

lemma not_in_addrs_end:
  assumes "n < 2 ^ 32"
  shows "p + of_nat n \<notin> addrs p n"
  using assms by (auto simp: addrs_def simp del: add_left_cancel dest!: word_add_of_nat_eq [THEN iffD1, rotated 2])

lemma copy_down_region:
  assumes "n \<le> 2 ^ 32" "d = s \<or> n \<le> unat (s - d)"
  shows "region (copy_down n m (d + of_nat n) (s + of_nat n)) d n = region m s n"
  using assms
proof (induction n arbitrary: m)
  case 0
  then show ?case by simp
next
  case (Suc n)
  let ?m = "m(d + of_nat n := m (s + of_nat n))"
  have keep: "d + of_nat n \<notin> addrs d n"
    using Suc.prems(1) by (intro not_in_addrs_end) simp
  have unread: "d + of_nat n \<notin> addrs s n"
  proof
    assume "d + of_nat n \<in> addrs s n"
    then obtain i where i: "i < n" "d + of_nat n = s + of_nat i"
      by (auto simp: addrs_def)
    then have "d + of_nat (n - i) = s" by (simp add: of_nat_diff algebra_simps)
    then have "unat (s - d) = n - i"
      using Suc.prems(1) by (intro unat_diff_of_nat) auto
    then show False using Suc.prems(2) i keep by (auto simp: addrs_def)
  qed
  have "region (copy_down n ?m (d + of_nat n) (s + of_nat n)) d n = region ?m s n"
    using Suc.prems by (intro Suc.IH) auto
  then show ?case
    using keep unread by (simp add: region_snoc copy_down_frame region_upd_other algebra_simps)
qed

lemma fill_up_region: "n \<le> 2 ^ 32 \<Longrightarrow> region (fill_up n m p c) p n = replicate n c"
proof (induction n arbitrary: m p)
  case (Suc n)
  have "fill_up n (m(p := c)) (p + 1) c p = c"
  proof -
    have "a \<notin> addrs q k \<Longrightarrow> fill_up k m' q c a = m' a" for a q k m'
      by (induction k arbitrary: m' q) (auto simp: addrs_Suc)
    then show ?thesis using Suc.prems by (simp add: not_in_addrs_next)
  qed
  with Suc show ?case by (simp add: region_Suc)
qed simp

lemma region_addrs_frame: "(\<And>a. a \<in> addrs p n \<Longrightarrow> m a = m' a) \<Longrightarrow> region m p n = region m' p n"
  by (auto simp: region_def addrs_def)

lemma unat_diff_less:
  fixes d s :: u32
  shows "s \<le> d \<Longrightarrow> unat (d - s) = unat d - unat s"
    and "d < s \<Longrightarrow> unat (d - s) = 2 ^ 32 - (unat s - unat d)"
proof -
  show "s \<le> d \<Longrightarrow> unat (d - s) = unat d - unat s"
    by (simp add: unat_sub)
  assume "d < s"
  then have "unat d < unat s" by (simp add: word_less_nat_alt)
  moreover have "unat s < 2 ^ 32" using unsigned_less [of s] by simp
  ultimately show "unat (d - s) = 2 ^ 32 - (unat s - unat d)"
    by (simp add: unat_sub_if_size size_word_def)
qed

text \<open>C12. \<open>memmove\<close> copies correctly whether or not the two objects overlap: afterwards the
  destination holds the bytes the source held before, and every other byte is unchanged.  The
  objects only have to lie in the 32-bit address space without wrapping round its end.\<close>

theorem memmove_correct:
  assumes "unat d + unat n \<le> 2 ^ 32" "unat s + unat n \<le> 2 ^ 32"
  shows "region (memmove m d s n) d (unat n) = region m s (unat n) \<and>
    (\<forall>a. a \<notin> addrs d (unat n) \<longrightarrow> memmove m d s n a = m a)"
proof (intro conjI allI impI)
  have up: "region (copy_up (unat n) m d s) d (unat n) = region m s (unat n)"
    if "d = s \<or> unat n \<le> unat (d - s)"
    using that by (intro copy_up_region) auto
  have down: "region (copy_down (unat n) m (d + n) (s + n)) d (unat n) = region m s (unat n)"
    if "s < d"
  proof -
    have "unat n \<le> unat (s - d)"
      using that assms by (simp add: unat_diff_less word_less_nat_alt)
    then show ?thesis
      using copy_down_region [of "unat n" d s m] by simp
  qed
  have "unat n \<le> unat (d - s)" if "d < s"
    using that assms by (simp add: unat_diff_less word_less_nat_alt)
  moreover have "unat n \<le> unat (d - s)" if "s < d" "\<not> s + n > d"
  proof -
    have "unat s + unat n < 2 ^ 32"
      using that(1) assms(1) by (simp add: word_less_nat_alt)
    then have "unat (s + n) = unat s + unat n"
      by (simp add: unat_add_lem [THEN iffD1])
    then show ?thesis
      using that unat_diff_less(1) [of s d] by (simp add: word_less_nat_alt word_le_nat_alt)
  qed
  ultimately show "region (memmove m d s n) d (unat n) = region m s (unat n)"
    using up down by (auto simp: memmove_def not_less_iff_gr_or_eq)
  show "memmove m d s n a = m a" if "a \<notin> addrs d (unat n)" for a
    using that copy_down_frame [of a d "unat n" m s]
    by (simp add: memmove_def copy_up_frame)
qed

theorem memmove_correct_witness:
  "region (memmove (\<lambda>a. ucast a) 2 1 3) 2 3 = [1, 2, 3] \<and>
   memmove (\<lambda>a. ucast a) 2 1 3 9 = 9"
proof -
  have h: "unat (2::u32) + unat (3::u32) \<le> 2 ^ 32" "unat (1::u32) + unat (3::u32) \<le> 2 ^ 32"
    by simp_all
  have "region (\<lambda>a. ucast a) 1 3 = [1, 2, 3 :: u8]"
    by (simp add: region_def upt_rec)
  moreover have "(9::u32) \<notin> addrs 2 (unat (3::u32))"
    by (simp add: addrs_def atLeastLessThan_upt upt_rec del: set_upt)
  ultimately show ?thesis
    using memmove_correct [OF h, of "\<lambda>a. ucast a"] by simp
qed

text \<open>Copying between distinct objects of the flat memory is \<open>get_bytes\<close> and \<open>put_bytes\<close>.\<close>

lemma region_drop: "off \<le> n \<Longrightarrow> drop off (region m p n) = region m (p + of_nat off) (n - off)"
  by (rule nth_equalityI) (auto simp: region_def algebra_simps)

lemma region_take: "k \<le> n \<Longrightarrow> take k (region m p n) = region m p k"
  by (rule nth_equalityI) (auto simp: region_def)

lemma memcpy_region:
  assumes "unat d + unat n \<le> 2 ^ 32" "unat s + unat n \<le> 2 ^ 32"
    and "unat d + unat n \<le> unat s \<or> unat s + unat n \<le> unat d"
  shows "region (memcpy m d s n) d (unat n) = region m s (unat n)"
proof -
  have "unat n \<le> unat (d - s)"
  proof (cases "s \<le> d")
    case True
    then show ?thesis using assms by (auto simp: unat_diff_less word_le_nat_alt)
  next
    case False
    then have "d < s" by simp
    then show ?thesis using assms by (simp add: unat_diff_less word_less_nat_alt)
  qed
  then show ?thesis by (simp add: memcpy_def copy_up_region)
qed

section \<open>Strings: correctness\<close>

lemma cstr_Cons [simp]: "cstr (c # cs) = (if c = 0 then [] else c # cstr cs)"
  by (simp add: cstr_def)

lemma cstr_Nil [simp]: "cstr [] = []"
  by (simp add: cstr_def)

lemma terminated_Cons [simp]: "terminated (c # cs) \<longleftrightarrow> c = 0 \<or> terminated cs"
  by (auto simp: terminated_def)

lemma not_terminated_Nil [simp]: "\<not> terminated []"
  by (simp add: terminated_def)

lemma cstr_no_zero: "0 \<notin> set (cstr b)"
  by (auto simp: cstr_def dest: set_takeWhileD)

lemma terminated_split: "terminated b \<Longrightarrow> \<exists>rest. b = cstr b @ 0 # rest"
  by (induction b) auto

lemma cstr_append_zero [simp]: "0 \<notin> set xs \<Longrightarrow> cstr (xs @ 0 # ys) = xs"
  by (induction xs) auto

lemma terminated_append [simp]: "terminated (xs @ ys) \<longleftrightarrow> terminated xs \<or> terminated ys"
  by (auto simp: terminated_def)

lemma length_cstr_less: "terminated b \<Longrightarrow> length (cstr b) < length b"
  by (induction b) auto

lemma strlen_cstr: "strlen b = (if terminated b then Some (length (cstr b)) else None)"
  by (induction b) auto

lemma strcmp_eq: "terminated a \<Longrightarrow> terminated b \<Longrightarrow> strcmp a b = Some r \<Longrightarrow> r = 0 \<longleftrightarrow> cstr a = cstr b"
  by (induction a b arbitrary: r rule: strcmp.induct) (auto split: if_splits)

lemma strcmp_defined: "terminated a \<Longrightarrow> terminated b \<Longrightarrow> \<exists>r. strcmp a b = Some r"
  by (induction a b rule: strcmp.induct) auto

lemma strcmp_zero_iff:
  "terminated a \<Longrightarrow> terminated b \<Longrightarrow> strcmp a b = Some 0 \<longleftrightarrow> cstr a = cstr b"
  using strcmp_eq strcmp_defined by blast

lemma strncmp_defined: "terminated a \<Longrightarrow> terminated b \<Longrightarrow> \<exists>r. strncmp a b n = Some r"
  by (induction a b n rule: strncmp.induct) auto

lemma strncmp_eq:
  "terminated a \<Longrightarrow> terminated b \<Longrightarrow> strncmp a b n = Some r \<Longrightarrow>
   r = 0 \<longleftrightarrow> take n (cstr a) = take n (cstr b)"
  by (induction a b n arbitrary: r rule: strncmp.induct) (auto split: if_splits)

lemma strncmp_zero_iff:
  "terminated a \<Longrightarrow> terminated b \<Longrightarrow>
   strncmp a b n = Some 0 \<longleftrightarrow> take n (cstr a) = take n (cstr b)"
  using strncmp_eq strncmp_defined by blast

lemma strchr_found:
  "terminated s \<Longrightarrow> c \<noteq> 0 \<Longrightarrow>
   strchr s c = Some (if c \<in> set (cstr s) then Some (length (takeWhile (\<lambda>x. x \<noteq> c) (cstr s))) else None)"
  by (induction s) auto

lemma strchr_zero: "terminated s \<Longrightarrow> strchr s 0 = Some (Some (length (cstr s)))"
  by (induction s) auto

text \<open>\<open>strncpy\<close>: the bytes stored, and how many they are.\<close>

lemma pad_zero_eq:
  "pad_zero ds n = (if n \<le> length ds then Some (replicate n 0 @ drop n ds) else None)"
  by (induction ds n rule: pad_zero.induct) auto

lemma strncpy_eq:
  assumes "terminated cs" "0 < n"
  shows "strncpy ds cs n =
    (let xs = (if n \<le> length (cstr cs) then take n (cstr cs)
               else cstr cs @ replicate (Suc n - length (cstr cs)) 0)
     in put_bytes ds 0 xs)"
  using assms
proof (induction ds cs n rule: strncpy.induct)
  case (2 d ds c cs n)
  show ?case
  proof (cases "c = 0")
    case True
    then show ?thesis by (auto simp: pad_zero_eq put_bytes_def)
  next
    case False
    show ?thesis
    proof (cases "n = 0")
      case True
      with False show ?thesis by (simp add: put_bytes_def)
    next
      case n: False
      then have IH: "strncpy ds cs n = put_bytes ds 0
          (if n \<le> length (cstr cs) then take n (cstr cs)
           else cstr cs @ replicate (Suc n - length (cstr cs)) 0)"
        using "2.IH" "2.prems" False by (simp add: Let_def)
      show ?thesis using False by (simp add: IH put_bytes_def)
    qed
  qed
qed (auto simp: put_bytes_def Let_def)

lemma get_bytes_Some: "off + n \<le> length b \<Longrightarrow> get_bytes b off n = Some (take n (drop off b))"
  by (simp add: get_bytes_def)

lemma put_bytes_Some:
  "off + length xs \<le> length b \<Longrightarrow>
   put_bytes b off xs = Some (take off b @ xs @ drop (off + length xs) b)"
  by (simp add: put_bytes_def)

lemma put_bytes_length: "put_bytes b off xs = Some b' \<Longrightarrow> length b' = length b"
  by (auto simp: put_bytes_def split: if_splits)

lemma take_cstr: "n \<le> length (cstr b) \<Longrightarrow> take n (cstr b) = take n b"
  by (induction b arbitrary: n) (auto simp: take_Cons split: nat.split if_splits)

lemma strlcpy_eq:
  assumes "terminated src" "0 < sz" "sz \<le> length dest"
  shows "strlcpy dest src sz =
    (let xs = take (sz - 1) (cstr src)
     in Some (xs @ 0 # drop (Suc (length xs)) dest, length (cstr src)))"
proof -
  define n where "n = length (cstr src)"
  define k where "k = min (sz - 1) n"
  have len: "(if sz \<le> n then sz - 1 else n) = k" "k \<le> n" "k < length dest" "k < length src"
    using assms length_cstr_less [OF assms(1)] by (auto simp: k_def n_def)
  have "take (sz - 1) (cstr src) = take k (cstr src)"
    by (simp add: k_def n_def min_def)
  then have xs: "take (sz - 1) (cstr src) = take k src"
    using len(2) by (simp add: n_def take_cstr)
  have "strlcpy dest src sz = Some (take k src @ 0 # drop (Suc k) dest, n)"
    using assms(1,2) len
    by (simp add: strlcpy_def strlen_cstr n_def [symmetric] get_bytes_def put_bytes_def)
  then show ?thesis
    unfolding xs Let_def using len by (simp add: n_def)
qed

section \<open>Reversal\<close>

lemma swap_loop_length [simp]: "length (swap_loop b i j) = length b"
  by (induction b i j rule: swap_loop.induct) (simp add: swap_loop.simps)

lemma swap_loop_nth:
  assumes "j < length b" "k < length b"
  shows "swap_loop b i j ! k = (if i \<le> k \<and> k \<le> j then b ! (i + j - k) else b ! k)"
  using assms
proof (induction b i j arbitrary: k rule: swap_loop.induct)
  case (1 b i j)
  show ?case
  proof (cases "i < j")
    case True
    then show ?thesis
      using "1.IH" [OF True, of k] "1.prems"
      by (auto simp: swap_loop.simps [of b i j] nth_list_update)
  next
    case False
    then have "i + j - k = k" if "i \<le> k" "k \<le> j" using that by arith
    with False show ?thesis by (auto simp: swap_loop.simps [of b i j])
  qed
qed

lemma reverse_str_prefix: "reverse_str (xs @ ys) (length xs) = rev xs @ ys"
proof (cases "xs = []")
  case True
  then show ?thesis by (simp add: reverse_str_def swap_loop.simps)
next
  case False
  then have "0 < length xs" by simp
  then have "i \<le> length xs - 1 \<longleftrightarrow> i < length xs" for i by linarith
  with False show ?thesis
    by (intro nth_equalityI)
      (auto simp: reverse_str_def swap_loop_nth nth_append rev_nth Suc_diff_Suc)
qed

lemma strrev_cstr:
  assumes "terminated s"
  shows "strrev s = Some (rev (cstr s) @ drop (length (cstr s)) s)"
proof -
  obtain rest where "s = cstr s @ 0 # rest" using assms terminated_split by blast
  then show ?thesis
    using reverse_str_prefix [of "cstr s" "0 # rest"] assms
    by (simp add: strrev_def strlen_cstr reverse_str_def) (metis append_eq_conv_conj)
qed

section \<open>Searching a substring\<close>

lemma strstr_here_prefix:
  "terminated h \<Longrightarrow> terminated n \<Longrightarrow> strstr_here h n = Some (prefix (cstr n) (cstr h))"
  by (induction h n rule: strstr_here.induct) (auto simp: prefix_def)

definition first_at :: "bytes \<Rightarrow> bytes \<Rightarrow> nat \<Rightarrow> bool" where
  "first_at n h i \<longleftrightarrow> i \<le> length h \<and> prefix n (drop i h) \<and> (\<forall>j<i. \<not> prefix n (drop j h))"

lemma first_at_0: "first_at n h 0 \<longleftrightarrow> prefix n h"
  by (simp add: first_at_def)

lemma first_at_Suc: "\<not> prefix n (x # h) \<Longrightarrow> first_at n (x # h) (Suc i) \<longleftrightarrow> first_at n h i"
  by (auto simp: first_at_def less_Suc_eq_0_disj)

lemma strstr_loop_spec:
  assumes "terminated h" "terminated n" "cstr n \<noteq> []"
  shows "\<exists>r. strstr_loop h n = Some r \<and>
    (case r of None \<Rightarrow> \<not> sublist (cstr n) (cstr h) | Some i \<Rightarrow> first_at (cstr n) (cstr h) i)"
  using assms
proof (induction h)
  case (Cons c h)
  show ?case
  proof (cases "c = 0")
    case True
    with Cons.prems show ?thesis by (simp add: sublist_def)
  next
    case False
    have here: "strstr_here (c # h) n = Some (prefix (cstr n) (c # cstr h))"
      using strstr_here_prefix [of "c # h" n] Cons.prems False by simp
    show ?thesis
    proof (cases "prefix (cstr n) (c # cstr h)")
      case True
      with here False show ?thesis by (simp add: first_at_0)
    next
      case notpre: False
      obtain r where r: "strstr_loop h n = Some r"
        "case r of None \<Rightarrow> \<not> sublist (cstr n) (cstr h) | Some i \<Rightarrow> first_at (cstr n) (cstr h) i"
        using Cons False by auto
      with here False notpre show ?thesis
        by (auto simp: first_at_Suc sublist_Cons_right split: option.splits)
    qed
  qed
qed simp

lemma first_at_unique: "first_at n h i \<Longrightarrow> first_at n h j \<Longrightarrow> i = j"
  by (metis first_at_def linorder_neqE_nat)

lemma first_at_sublist: "first_at n h i \<Longrightarrow> sublist n h"
  by (meson first_at_def prefix_imp_sublist sublist_drop sublist_order.order_trans)

lemma strstr_at:
  assumes "terminated h" "terminated n" "cstr n \<noteq> []"
  shows "first_at (cstr n) (cstr h) i \<Longrightarrow> strstr h n = Some (Some i)"
    "\<not> sublist (cstr n) (cstr h) \<Longrightarrow> strstr h n = Some None"
proof -
  have "strstr h n = strstr_loop h n" using assms(3) by (cases n) (auto simp: strstr_def)
  then obtain r where r: "strstr h n = Some r"
    "case r of None \<Rightarrow> \<not> sublist (cstr n) (cstr h) | Some i \<Rightarrow> first_at (cstr n) (cstr h) i"
    using strstr_loop_spec [OF assms] by auto
  show "first_at (cstr n) (cstr h) i \<Longrightarrow> strstr h n = Some (Some i)"
    using r first_at_unique first_at_sublist by (cases r) auto
  show "\<not> sublist (cstr n) (cstr h) \<Longrightarrow> strstr h n = Some None"
    using r first_at_sublist by (cases r) auto
qed

text \<open>C27. \<open>strstr\<close> of two terminated strings always returns: the first offset at which the needle
  occurs in the haystack, and NULL exactly when it occurs nowhere.\<close>

theorem strstr_first_occurrence:
  assumes "terminated h" "terminated n"
  shows "\<exists>r. strstr h n = Some r \<and>
    (case r of None \<Rightarrow> \<not> sublist (cstr n) (cstr h) | Some i \<Rightarrow> first_at (cstr n) (cstr h) i)"
proof (cases "cstr n = []")
  case True
  then obtain ns where "n = 0 # ns" using assms(2) by (cases n) (auto split: if_splits)
  then show ?thesis by (auto simp: strstr_def first_at_0)
next
  case False
  then have "strstr h n = strstr_loop h n"
    by (cases n) (auto simp: strstr_def)
  with False assms show ?thesis by (simp add: strstr_loop_spec)
qed

theorem strstr_first_occurrence_witness:
  "\<exists>r. strstr [97, 98, 99, 0] [98, 99, 0] = Some r \<and>
    (case r of None \<Rightarrow> \<not> sublist (cstr [98, 99, 0]) (cstr [97, 98, 99, 0])
             | Some i \<Rightarrow> first_at (cstr [98, 99, 0]) (cstr [97, 98, 99, 0]) i)"
proof -
  have h: "terminated [97, 98, 99, 0]" "terminated [98, 99, 0]" by simp_all
  show ?thesis using strstr_first_occurrence [OF h] .
qed

text \<open>\<open>strncpy\<close> stores \<open>n\<close> bytes when the source has at least \<open>n\<close> characters, and \<open>n + 1\<close>
  when it is shorter: the terminator is copied without counting it and \<open>n\<close> is then padded from
  there.  Into an object of exactly \<open>n\<close> bytes, the size its callers pass, it writes out of bounds
  for every shorter source.\<close>

theorem strncpy_writes_past_n:
  assumes "terminated src" "0 < n" "length (cstr src) < n"
  shows "strncpy dest src n =
      put_bytes dest 0 (cstr src @ replicate (Suc n - length (cstr src)) 0) \<and>
    (length dest = n \<longrightarrow> strncpy dest src n = None)"
  using assms by (simp add: strncpy_eq put_bytes_def)

theorem strncpy_writes_past_n_witness:
  "strncpy [9, 9, 9, 9] [97, 0] 3 = put_bytes [9, 9, 9, 9] 0 [97, 0, 0, 0] \<and>
   strncpy [9, 9, 9] [97, 0] 3 = None"
proof -
  have h: "terminated [97, 0 :: u8]" "0 < (3::nat)" "length (cstr [97, 0]) < 3" by simp_all
  show ?thesis
    using strncpy_writes_past_n [OF h, of "[9, 9, 9, 9]"] strncpy_writes_past_n [OF h, of "[9, 9, 9]"]
    by (simp add: numeral_3_eq_3)
qed

text \<open>\<open>strlcpy\<close> never leaves the destination: for any size that is not 0 and at most the size of
  the destination, it stores the longest prefix of the source that leaves room for the terminator,
  terminates it, keeps the rest of the destination, and returns the source's length.\<close>

theorem strlcpy_safe:
  assumes "terminated src" "0 < sz" "sz \<le> length dest"
  shows "\<exists>d. strlcpy dest src sz = Some (d, length (cstr src)) \<and> length d = length dest \<and>
    terminated d \<and> cstr d = take (sz - 1) (cstr src) \<and> drop sz d = drop sz dest"
proof -
  let ?xs = "take (sz - 1) (cstr src)"
  have nz: "0 \<notin> set ?xs" using cstr_no_zero [of src] by (meson in_set_takeD)
  have le: "Suc (length ?xs) \<le> sz" using assms(2) by simp
  then have "drop sz (?xs @ 0 # drop (Suc (length ?xs)) dest) = drop sz dest"
    by (simp add: drop_Cons' del: length_take)
  with assms le nz show ?thesis
    by (simp add: strlcpy_eq Let_def del: length_take)
qed

theorem strlcpy_safe_witness:
  "\<exists>d. strlcpy [9, 9, 9] [97, 98, 99, 0] 3 = Some (d, 3) \<and> length d = 3 \<and> terminated d \<and>
    cstr d = [97, 98] \<and> drop 3 d = []"
proof -
  have h: "terminated [97, 98, 99, 0 :: u8]" "0 < (3::nat)" "3 \<le> length [9, 9, 9 :: u8]" by simp_all
  show ?thesis using strlcpy_safe [OF h] by (simp add: numeral_3_eq_3)
qed

section \<open>Numbers: round trip\<close>

lemma int32_ok_mono: "int32_ok w \<Longrightarrow> 0 \<le> v \<Longrightarrow> v \<le> w \<Longrightarrow> int32_ok v"
  by (simp add: int32_ok_def)

lemma is_digit_digit_char [simp]: "d < 10 \<Longrightarrow> is_digit (digit_char d)"
  by (simp add: is_digit_def digit_char_decimal)

lemma digit_loop_digits:
  assumes "\<forall>d \<in> set ds. d < 10" "\<not> is_digit c" "int32_ok (int (digits_value 10 acc ds))"
  shows "digit_loop (map digit_char ds @ c # rest) (int acc) = Some (int (digits_value 10 acc ds))"
  using assms
proof (induction ds arbitrary: acc)
  case (Cons d ds)
  have "int (acc * 10 + d) \<le> int (digits_value 10 (acc * 10 + d) ds)"
    using digits_value_mono [of 10 "acc * 10 + d" ds] by simp
  then have ok: "int32_ok (int acc * 10 + int d)"
    using Cons.prems(3) int32_ok_mono [of "int (digits_value 10 (acc * 10 + d) ds)" "int (acc * 10 + d)"]
    by simp
  have "digit_loop (map digit_char ds @ c # rest) (int (acc * 10 + d)) =
      Some (int (digits_value 10 (acc * 10 + d) ds))"
    using Cons.prems by (intro Cons.IH) auto
  then show ?case
    using Cons.prems ok by (simp add: digit_char_decimal Let_def)
qed simp

lemma itoa_loop_decimal: "0 \<le> v \<Longrightarrow> itoa_loop v 10 = Some (map digit_char (rev_digits 10 (nat v)))"
proof (induction v "10::int" rule: itoa_loop.induct)
  case (1 v)
  show ?case
  proof (cases "v = 0")
    case True
    then show ?thesis by (simp add: itoa_loop.simps)
  next
    case False
    have "0 < v" using 1(2) False by simp
    then have s: "v sdiv 10 = v div 10" "v smod 10 = v mod 10"
      by (simp_all add: signed_divide_int_def signed_modulo_int_def minus_mult_div_eq_mod)
    have c: "(word_of_int (48 + v mod 10) :: u8) = digit_char (nat v mod 10)"
    proof -
      have "48 + v mod 10 = int (48 + nat v mod 10)"
        using 1 False by (simp add: zmod_int nat_mod_distrib)
      then show ?thesis by (simp add: digit_char_def del: of_nat_add)
    qed
    have "itoa_loop (v div 10) 10 = Some (map digit_char (rev_digits 10 (nat v div 10)))"
      using "1.hyps" [OF False _ refl refl] False 1(2) by (simp add: s nat_div_distrib)
    moreover have "v mod 10 < 10" by simp
    ultimately show ?thesis
      using False 1(2) by (subst itoa_loop.simps) (simp add: s c [simplified] rev_digits_pos Let_def)
  qed
qed

lemma itoa_stores:
  assumes "int32_ok v" "v \<noteq> 0" "v \<noteq> - (2 ^ 31)"
    and "text = (if v < 0 then [45] else []) @ dec (nat \<bar>v\<bar>)" "Suc (length text) \<le> length str"
  shows "itoa v str 10 = Some (text @ 0 # drop (Suc (length text)) str)"
proof -
  let ?lsb = "map digit_char (rev_digits 10 (nat \<bar>v\<bar>)) @ (if v < 0 then [45] else [])"
  have t: "text = rev ?lsb" using assms(2,4) by (simp add: dec_def rev_map)
  have "itoa v str 10 = map_option (\<lambda>s. reverse_str s (length ?lsb)) (put_bytes str 0 (?lsb @ [0]))"
    using assms(1-3) itoa_loop_decimal [of "\<bar>v\<bar>"]
    by (cases "v < 0") (auto simp: itoa_def int32_ok_def map_conv_bind_option comp_def)
  also have "\<dots> = Some (reverse_str (?lsb @ 0 # drop (Suc (length ?lsb)) str) (length ?lsb))"
    using assms(5) by (simp add: put_bytes_def t)
  also have "\<dots> = Some (text @ 0 # drop (Suc (length text)) str)"
    by (simp only: reverse_str_prefix t length_rev)
  finally show ?thesis .
qed

text \<open>C28. Printing a number and reading it back is the identity: for every int except INT_MIN, whose
  negation overflows, \<open>itoa\<close> in base 10 into a buffer of 12 bytes or more succeeds and stores a
  terminated string from which \<open>atoi\<close> reads the same number.\<close>

theorem itoa_atoi_roundtrip:
  assumes "- (2 ^ 31) < v" "v < 2 ^ 31" "12 \<le> length str"
  shows "\<exists>s. itoa v str 10 = Some s \<and> terminated s \<and> length s = length str \<and> atoi s = Some v"
proof (cases "v = 0")
  case True
  then show ?thesis
    using assms(3) by (simp add: itoa_def put_bytes_def atoi_def is_digit_def int32_ok_def)
next
  case False
  let ?sgn = "if v < 0 then [45] else [] :: bytes"
  define body where "body = ?sgn @ dec (nat \<bar>v\<bar>)"
  have "nat \<bar>v\<bar> < 10 ^ 10" using assms by simp
  then have "length (dec (nat \<bar>v\<bar>)) \<le> 10" by (rule dec_length) simp
  then have len: "Suc (length body) \<le> length str" using assms(3) by (cases "v < 0") (simp_all add: body_def)
  have ok: "int32_ok v" "int32_ok \<bar>v\<bar>" using assms by (auto simp: int32_ok_def)
  have st: "itoa v str 10 = Some (body @ 0 # drop (Suc (length body)) str)"
    using ok(1) False assms(1) body_def len by (intro itoa_stores) simp_all
  obtain ds where ds: "dec (nat \<bar>v\<bar>) = map digit_char ds" "ds \<noteq> []" "\<forall>d\<in>set ds. d < 10"
    "digits_value 10 0 ds = nat \<bar>v\<bar>" using dec_digits by blast
  obtain d ds' where d: "ds = d # ds'" "d < 10" using ds(2,3) by (cases ds) auto
  have dc: "digit_char d \<noteq> 32" "digit_char d \<noteq> 9" "digit_char d \<noteq> 45" "digit_char d \<noteq> 43"
    using digit_char_decimal(1,2) [OF d(2)] by (auto simp: word_le_nat_alt)
  have loop: "digit_loop (map digit_char ds @ 0 # rest) 0 = Some \<bar>v\<bar>" for rest
    using digit_loop_digits [of ds 0 0 rest] ds ok(2) by (simp add: is_digit_def)
  have "atoi (body @ 0 # rest) = Some v" for rest
    using loop [of rest] dc by (auto simp: atoi_def body_def ds(1) d(1))
  then show ?thesis using st len by (auto simp: terminated_def)
qed

theorem itoa_atoi_roundtrip_witness:
  "\<exists>s. itoa (-2147483647) (replicate 12 7) 10 = Some s \<and> terminated s \<and> length s = 12 \<and>
    atoi s = Some (-2147483647)"
  using itoa_atoi_roundtrip [of "-2147483647" "replicate 12 7"] by simp

end
