(* ===== verification/Buddy.thy ===== *)
theory Buddy
  imports Earlnux_Prelude
begin

text \<open>
  \<^verbatim>\<open>kernel/mm/pmm.c\<close> and the PMM part of \<^verbatim>\<open>include/mm/mm.h\<close>: the buddy
  allocator of physical page frames.

  The state is the code's static data: the three zones with their free-list heads and counters,
  the page descriptors and the two limits.  A page frame number is a \<open>nat\<close>: every one the code
  forms is a physical address shifted right by 12, plus at most \<open>2 ^ 11\<close>, so the 32-bit sums
  on them cannot wrap.  A \<open>page_t *\<close> is the number of the page it points to, or NULL.  The
  descriptor array is a function on page numbers; the C array has the first 262144 of them.
\<close>

section \<open>State\<close>

datatype zone_id = DMA | NORMAL | HIGHMEM

text \<open>Zones are ordered as in memory.\<close>

fun zone_index :: "zone_id \<Rightarrow> nat" where
  "zone_index DMA = 0"
| "zone_index NORMAL = 1"
| "zone_index HIGHMEM = 2"

instantiation zone_id :: linorder
begin

definition "z \<le> z' \<longleftrightarrow> zone_index z \<le> zone_index z'"
definition "z < z' \<longleftrightarrow> zone_index z < zone_index z'"

instance
proof
  fix x y :: zone_id
  show "x \<le> y \<Longrightarrow> y \<le> x \<Longrightarrow> x = y"
    by (cases x; cases y) (simp_all add: less_eq_zone_id_def)
qed (auto simp: less_eq_zone_id_def less_zone_id_def)

end

record page =
  pg_flags :: u32
  pg_ref_count :: u32
  pg_order :: nat
  pg_next :: "nat option"
  pg_prev :: "nat option"
  pg_virt_addr :: u32

definition PMM_MAX_ORDER :: nat where "PMM_MAX_ORDER = 11"

definition PAGE_FLAG_FREE :: u32 where "PAGE_FLAG_FREE = BIT 0"
definition PAGE_FLAG_RESERVED :: u32 where "PAGE_FLAG_RESERVED = BIT 1"
definition PAGE_FLAG_KERNEL :: u32 where "PAGE_FLAG_KERNEL = BIT 2"

record buddy_zone =
  z_free_list :: "nat \<Rightarrow> nat option"
  z_free_count :: "nat \<Rightarrow> u32"
  z_base_pfn :: nat
  z_end_pfn :: nat
  z_total_pages :: u32
  z_free_pages :: u32
  z_name :: string

record pmm =
  zones :: "zone_id \<Rightarrow> buddy_zone"
  page_array :: "nat \<Rightarrow> page"
  total_page_frames :: nat
  phys_memory_end :: u32
  pmm_ready :: bool

text \<open>The zero-initialised static data before \<open>pmm_init\<close>.\<close>

definition pmm0 :: pmm where
  "pmm0 = \<lparr> zones = (\<lambda>_. \<lparr> z_free_list = (\<lambda>_. None), z_free_count = (\<lambda>_. 0), z_base_pfn = 0,
                           z_end_pfn = 0, z_total_pages = 0, z_free_pages = 0, z_name = [] \<rparr>),
            page_array = (\<lambda>_. \<lparr> pg_flags = 0, pg_ref_count = 0, pg_order = 0,
                                pg_next = None, pg_prev = None, pg_virt_addr = 0 \<rparr>),
            total_page_frames = 0, phys_memory_end = 0, pmm_ready = False \<rparr>"

definition PAGE_ARRAY_LEN :: nat where "PAGE_ARRAY_LEN = 262144"

section \<open>Helpers\<close>

definition phys_to_pfn :: "u32 \<Rightarrow> nat" where
  "phys_to_pfn phys = unat (drop_bit PAGE_SHIFT phys)"

definition pfn_to_phys :: "nat \<Rightarrow> u32" where
  "pfn_to_phys pfn = push_bit PAGE_SHIFT (of_nat pfn)"

definition pfn_valid :: "pmm \<Rightarrow> nat \<Rightarrow> bool" where
  "pfn_valid st pfn \<longleftrightarrow> pfn < total_page_frames st"

definition buddy_pfn :: "nat \<Rightarrow> nat \<Rightarrow> nat" where
  "buddy_pfn pfn ord = pfn XOR push_bit ord 1"

definition is_free :: "pmm \<Rightarrow> nat \<Rightarrow> bool" where
  "is_free st pfn \<longleftrightarrow> pg_flags (page_array st pfn) AND PAGE_FLAG_FREE \<noteq> 0"

definition upd_page :: "nat \<Rightarrow> (page \<Rightarrow> page) \<Rightarrow> pmm \<Rightarrow> pmm" where
  "upd_page pfn f st = st\<lparr>page_array := (page_array st)(pfn := f (page_array st pfn))\<rparr>"

definition upd_zone :: "zone_id \<Rightarrow> (buddy_zone \<Rightarrow> buddy_zone) \<Rightarrow> pmm \<Rightarrow> pmm" where
  "upd_zone z f st = st\<lparr>zones := (zones st)(z := f (zones st z))\<rparr>"

text \<open>
  Put page \<open>p\<close> at the head of the free list of an order: the same nine statements at the end of
  \<open>buddy_free_range\<close>'s loop body, in the split loop of \<open>buddy_alloc\<close> and at the end of
  \<open>buddy_free\<close>, in their order (the old head is read before \<open>p\<close> becomes the head).
\<close>

definition free_list_push :: "zone_id \<Rightarrow> nat \<Rightarrow> nat \<Rightarrow> pmm \<Rightarrow> pmm" where
  "free_list_push z ord p st =
     (let head = z_free_list (zones st z) ord;
          st1 = upd_page p (\<lambda>pg. pg\<lparr>pg_flags := PAGE_FLAG_FREE, pg_order := ord,
                                    pg_next := head, pg_prev := None\<rparr>) st;
          st2 = (case head of None \<Rightarrow> st1
                 | Some h \<Rightarrow> upd_page h (\<lambda>pg. pg\<lparr>pg_prev := Some p\<rparr>) st1)
      in upd_zone z (\<lambda>zn. zn\<lparr>z_free_list := (z_free_list zn)(ord := Some p),
                             z_free_count := (z_free_count zn)(ord := z_free_count zn ord + 1),
                             z_free_pages := z_free_pages zn + push_bit ord 1\<rparr>) st2)"

section \<open>buddy_free_range\<close>

fun range_order :: "nat \<Rightarrow> nat \<Rightarrow> nat \<Rightarrow> nat" where
  "range_order pfn end_pfn 0 = 0"
| "range_order pfn end_pfn (Suc k) =
     (if pfn AND (push_bit (Suc k) 1 - 1) = 0 \<and> pfn + push_bit (Suc k) 1 \<le> end_pfn
      then Suc k else range_order pfn end_pfn k)"

function buddy_free_range :: "zone_id \<Rightarrow> nat \<Rightarrow> nat \<Rightarrow> pmm \<Rightarrow> pmm" where
  "buddy_free_range z pfn end_pfn st =
     (if pfn < end_pfn
      then (let ord = range_order pfn end_pfn PMM_MAX_ORDER
            in buddy_free_range z (pfn + push_bit ord 1) end_pfn (free_list_push z ord pfn st))
      else st)"
  by pat_completeness auto
termination
  by (relation "measure (\<lambda>(z, pfn, end_pfn, st). end_pfn - pfn)")
    (auto simp: push_bit_eq_mult intro!: diff_less_mono2)

declare buddy_free_range.simps [simp del]

section \<open>buddy_alloc\<close>

function find_order :: "buddy_zone \<Rightarrow> nat \<Rightarrow> nat" where
  "find_order zn found =
     (if found \<le> PMM_MAX_ORDER \<and> z_free_list zn found = None then find_order zn (Suc found) else found)"
  by pat_completeness auto
termination by (relation "measure (\<lambda>(zn, f). Suc PMM_MAX_ORDER - f)") auto

declare find_order.simps [simp del]

text \<open>Take the head \<open>p\<close> off the free list of its order.\<close>

definition free_list_pop :: "zone_id \<Rightarrow> nat \<Rightarrow> nat \<Rightarrow> pmm \<Rightarrow> pmm" where
  "free_list_pop z ord p st =
     (let nxt = pg_next (page_array st p);
          st1 = upd_zone z (\<lambda>zn. zn\<lparr>z_free_list := (z_free_list zn)(ord := nxt)\<rparr>) st;
          st2 = (case nxt of None \<Rightarrow> st1 | Some n \<Rightarrow> upd_page n (\<lambda>pg. pg\<lparr>pg_prev := None\<rparr>) st1)
      in upd_zone z (\<lambda>zn. zn\<lparr>z_free_count := (z_free_count zn)(ord := z_free_count zn ord - 1),
                             z_free_pages := z_free_pages zn - push_bit ord 1\<rparr>) st2)"

fun split_loop :: "zone_id \<Rightarrow> nat \<Rightarrow> nat \<Rightarrow> nat \<Rightarrow> pmm \<Rightarrow> pmm" where
  "split_loop z p 0 ord st = st"
| "split_loop z p (Suc found) ord st =
     (if Suc found > ord
      then (let b = p + push_bit found 1
            in split_loop z p found ord (if pfn_valid st b then free_list_push z found b st else st))
      else st)"

definition buddy_alloc :: "zone_id \<Rightarrow> nat \<Rightarrow> pmm \<Rightarrow> u32 \<times> pmm" where
  "buddy_alloc z ord st =
     (let found = find_order (zones st z) ord
      in if found > PMM_MAX_ORDER then (0, st)
         else case z_free_list (zones st z) found of
                None \<Rightarrow> (0, st)
              | Some p \<Rightarrow>
                  (let st1 = free_list_pop z found p st;
                       st2 = split_loop z p found ord st1;
                       st3 = upd_page p (\<lambda>pg. pg\<lparr>pg_flags := pg_flags pg AND NOT PAGE_FLAG_FREE,
                                                 pg_order := ord, pg_ref_count := 1\<rparr>) st2
                   in (pfn_to_phys p, st3)))"

section \<open>buddy_free\<close>

text \<open>Unlink a buddy from wherever it is in its list.\<close>

definition free_list_unlink :: "zone_id \<Rightarrow> nat \<Rightarrow> nat \<Rightarrow> pmm \<Rightarrow> pmm" where
  "free_list_unlink z ord b st =
     (let nxt = pg_next (page_array st b); prv = pg_prev (page_array st b);
          st1 = (case prv of
                   Some q \<Rightarrow> upd_page q (\<lambda>pg. pg\<lparr>pg_next := nxt\<rparr>) st
                 | None \<Rightarrow> upd_zone z (\<lambda>zn. zn\<lparr>z_free_list := (z_free_list zn)(ord := nxt)\<rparr>) st);
          st2 = (case nxt of Some n \<Rightarrow> upd_page n (\<lambda>pg. pg\<lparr>pg_prev := prv\<rparr>) st1 | None \<Rightarrow> st1);
          st3 = upd_zone z (\<lambda>zn. zn\<lparr>z_free_count := (z_free_count zn)(ord := z_free_count zn ord - 1),
                                    z_free_pages := z_free_pages zn - push_bit ord 1\<rparr>) st2
      in upd_page b (\<lambda>pg. pg\<lparr>pg_flags := 0\<rparr>) st3)"

function merge_loop :: "zone_id \<Rightarrow> nat \<Rightarrow> nat \<Rightarrow> pmm \<Rightarrow> nat \<times> nat \<times> pmm" where
  "merge_loop z p ord st =
     (if ord < PMM_MAX_ORDER
      then (let b = buddy_pfn p ord
            in if \<not> pfn_valid st b then (p, ord, st)
               else if \<not> is_free st b \<or> pg_order (page_array st b) \<noteq> ord then (p, ord, st)
               else merge_loop z (if b < p then b else p) (Suc ord) (free_list_unlink z ord b st))
      else (p, ord, st))"
  by pat_completeness auto
termination by (relation "measure (\<lambda>(z, p, ord, st). PMM_MAX_ORDER - ord)") auto

declare merge_loop.simps [simp del]

definition buddy_free :: "zone_id \<Rightarrow> u32 \<Rightarrow> nat \<Rightarrow> pmm \<Rightarrow> pmm" where
  "buddy_free z phys ord st =
     (let pfn = phys_to_pfn phys
      in if \<not> pfn_valid st pfn then st
         else (let st1 = upd_page pfn (\<lambda>pg. pg\<lparr>pg_ref_count := 0\<rparr>) st;
                   (p, k, st2) = merge_loop z pfn ord st1
               in free_list_push z k p st2))"

section \<open>Public interface\<close>

definition select_zone :: "u32 \<Rightarrow> zone_id" where
  "select_zone phys =
     (if phys < 16 * 1024 * 1024 then DMA
      else if phys < 896 * 1024 * 1024 then NORMAL else HIGHMEM)"

definition pmm_alloc_pages :: "nat \<Rightarrow> pmm \<Rightarrow> u32 \<times> pmm" where
  "pmm_alloc_pages ord st =
     (if \<not> pmm_ready st then (0, st)
      else (let (phys, st1) = buddy_alloc NORMAL ord st
            in if phys = 0 then buddy_alloc DMA ord st1 else (phys, st1)))"

definition pmm_alloc_page :: "pmm \<Rightarrow> u32 \<times> pmm" where
  "pmm_alloc_page st = pmm_alloc_pages 0 st"

definition pmm_free_pages :: "u32 \<Rightarrow> nat \<Rightarrow> pmm \<Rightarrow> pmm" where
  "pmm_free_pages phys ord st =
     (if \<not> pmm_ready st \<or> phys = 0 then st else buddy_free (select_zone phys) phys ord st)"

definition pmm_free_page :: "u32 \<Rightarrow> pmm \<Rightarrow> pmm" where
  "pmm_free_page phys st = pmm_free_pages phys 0 st"

section \<open>Initialisation and statistics\<close>

datatype mem_type =
  MEMTYPE_USABLE | MEMTYPE_RESERVED | MEMTYPE_ACPI_RECLAIM | MEMTYPE_ACPI_NVS | MEMTYPE_BAD

record mem_map_entry =
  mm_base :: u64
  mm_length :: u64
  mm_type :: mem_type

text \<open>The descriptor loop over one region, cut at the length of the descriptor array.\<close>

definition mark_usable :: "nat \<Rightarrow> nat \<Rightarrow> pmm \<Rightarrow> pmm" where
  "mark_usable pfn_start pfn_end st =
     fold (\<lambda>pfn. upd_page pfn (\<lambda>pg. pg\<lparr>pg_flags := PAGE_FLAG_FREE, pg_ref_count := 0,
                                      pg_next := None, pg_prev := None\<rparr>))
       [pfn_start..<min pfn_end PAGE_ARRAY_LEN] st"

definition init_zone :: "zone_id \<Rightarrow> string \<Rightarrow> nat \<Rightarrow> nat \<Rightarrow> pmm \<Rightarrow> pmm" where
  "init_zone z nm b e = upd_zone z (\<lambda>zn. zn\<lparr>z_name := nm, z_base_pfn := b, z_end_pfn := e\<rparr>)"

definition init_zones :: "pmm \<Rightarrow> pmm" where
  "init_zones st =
     (let dma_end = phys_to_pfn (16 * 1024 * 1024); normal_end = phys_to_pfn (896 * 1024 * 1024)
      in init_zone HIGHMEM ''HighMem'' normal_end (phys_to_pfn 0xFFFFFFFF)
           (init_zone NORMAL ''Normal'' dma_end normal_end (init_zone DMA ''DMA'' 0 dma_end st)))"

text \<open>The bounds of the region in bytes after alignment and the 1 MB floor; the casts to 32 bits.\<close>

definition region_start :: "mem_map_entry \<Rightarrow> u32" where
  "region_start e =
     (let start = ALIGN_UP (ucast (mm_base e)) PAGE_SIZE
      in if start < 0x100000 then 0x100000 else start)"

definition region_end :: "mem_map_entry \<Rightarrow> u32" where
  "region_end e = ALIGN_DOWN (ucast (mm_base e + mm_length e)) PAGE_SIZE"

definition add_region :: "mem_map_entry \<Rightarrow> pmm \<Rightarrow> pmm" where
  "add_region e st =
     (if mm_type e \<noteq> MEMTYPE_USABLE then st
      else if mm_base e + mm_length e \<le> 0x100000 then st
      else if region_end e \<le> region_start e then st
      else
        (let start = region_start e; finish = region_end e;
             pfn_start = phys_to_pfn start; pfn_end = phys_to_pfn finish;
             st1 = st\<lparr>phys_memory_end := max (phys_memory_end st) finish,
                      total_page_frames := max (total_page_frames st) pfn_end\<rparr>;
             st2 = mark_usable pfn_start pfn_end st1;
             z = select_zone start;
             st3 = buddy_free_range z pfn_start (min pfn_end (z_end_pfn (zones st2 z))) st2;
             dma_end = z_end_pfn (zones st3 DMA); normal_end = z_end_pfn (zones st3 NORMAL);
             st4 = (if pfn_end > dma_end \<and> pfn_start < normal_end
                    then (let ns = max pfn_start dma_end; ne = min pfn_end normal_end
                          in if ns < ne then buddy_free_range NORMAL ns ne st3 else st3)
                    else st3)
         in upd_zone z (\<lambda>zn. zn\<lparr>z_total_pages := z_total_pages zn + of_nat (pfn_end - pfn_start)\<rparr>) st4))"

definition reserve_kernel :: "pmm \<Rightarrow> pmm" where
  "reserve_kernel st =
     fold (\<lambda>pfn. upd_page pfn (\<lambda>pg. pg\<lparr>pg_flags := PAGE_FLAG_KERNEL OR PAGE_FLAG_RESERVED,
                                      pg_ref_count := 1\<rparr>))
       [phys_to_pfn 0x100000..<phys_to_pfn 0x200000] st"

definition pmm_init :: "mem_map_entry list \<Rightarrow> pmm \<Rightarrow> pmm" where
  "pmm_init entries st = (reserve_kernel (fold add_region entries (init_zones st)))\<lparr>pmm_ready := True\<rparr>"

record pmm_stats =
  s_total_pages :: u32
  s_free_pages :: u32
  s_total_phys :: u32
  s_usable_phys :: u32
  s_free_phys :: u32
  s_kernel_phys :: u32
  s_reserved_phys :: u32

definition pmm_get_stats :: "pmm \<Rightarrow> pmm_stats" where
  "pmm_get_stats st =
     (let zs = map (zones st) [DMA, NORMAL, HIGHMEM];
          total_free = sum_list (map z_free_pages zs); total_pgs = sum_list (map z_total_pages zs);
          total_phys = ucast ((ucast total_pgs :: u64) * ucast PAGE_SIZE)
      in \<lparr> s_total_pages = total_pgs, s_free_pages = total_free,
           s_total_phys = total_phys, s_usable_phys = total_phys,
           s_free_phys = ucast ((ucast total_free :: u64) * ucast PAGE_SIZE),
           s_kernel_phys = 0x200000 - 0x100000, s_reserved_phys = 0x100000 \<rparr>)"

end
