(* ===== verification/Linked_Lists.thy ===== *)
theory Linked_Lists
  imports Main
begin

text \<open>
  Doubly linked lists over a store: \<open>nx\<close> and \<open>pv\<close> are the two link fields of the cells, as
  functions of the cell's name, with None for NULL.  Used for the free lists of the buddy
  allocator and of the kernel heap.
\<close>

section \<open>Doubly linked segments\<close>

text \<open>\<open>dseg nx pv p h xs q m\<close>: from the pointer \<open>h\<close> the pages \<open>xs\<close> are linked in both directions;
  the first one's \<open>prev\<close> is \<open>p\<close>, the last one is \<open>q\<close> and its \<open>next\<close> is \<open>m\<close>.\<close>

primrec dseg :: "('a \<Rightarrow> 'a option) \<Rightarrow> ('a \<Rightarrow> 'a option) \<Rightarrow> 'a option \<Rightarrow> 'a option \<Rightarrow> 'a list \<Rightarrow> 'a option \<Rightarrow> 'a option \<Rightarrow> bool" where
  "dseg nx pv p h [] q m \<longleftrightarrow> h = m \<and> p = q"
| "dseg nx pv p h (x # xs) q m \<longleftrightarrow>
     h = Some x \<and> pv x = p \<and> dseg nx pv (Some x) (nx x) xs q m"

definition dll :: "('a \<Rightarrow> 'a option) \<Rightarrow> ('a \<Rightarrow> 'a option) \<Rightarrow> 'a option \<Rightarrow> 'a list \<Rightarrow> bool" where
  "dll nx pv h xs \<longleftrightarrow> (\<exists>q. dseg nx pv None h xs q None)"

lemma dseg_append:
  "dseg nx pv p h (xs @ ys) q m \<longleftrightarrow> (\<exists>r n. dseg nx pv p h xs r n \<and> dseg nx pv r n ys q m)"
  by (induction xs arbitrary: p h) auto

lemma dseg_cong:
  assumes "\<And>x. x \<in> set xs \<Longrightarrow> nx x = nx' x \<and> pv x = pv' x"
  shows "dseg nx pv p h xs q m \<longleftrightarrow> dseg nx' pv' p h xs q m"
  using assms
proof (induction xs arbitrary: p h)
  case (Cons x xs)
  have "dseg nx pv (Some x) n xs q m \<longleftrightarrow> dseg nx' pv' (Some x) n xs q m" for n
    by (rule Cons.IH) (simp add: Cons.prems)
  with Cons.prems [of x] show ?case by simp
qed simp

lemma dll_cong:
  assumes "\<And>x. x \<in> set xs \<Longrightarrow> nx x = nx' x \<and> pv x = pv' x"
  shows "dll nx pv h xs \<longleftrightarrow> dll nx' pv' h xs"
  unfolding dll_def by (intro ex_cong1 dseg_cong) (rule assms)

lemma dll_Nil [simp]: "dll nx pv h [] \<longleftrightarrow> h = None"
  by (auto simp: dll_def)

lemma dll_head: "dll nx pv h xs \<Longrightarrow> h = (case xs of [] \<Rightarrow> None | x # _ \<Rightarrow> Some x)"
  by (cases xs) (auto simp: dll_def)

lemma dll_Cons_next: "dll nx pv h (x # xs) \<Longrightarrow> nx x = (case xs of [] \<Rightarrow> None | y # _ \<Rightarrow> Some y)"
  by (cases xs) (auto simp: dll_def)

text \<open>A new first element.\<close>

lemma dll_push:
  assumes "dll nx pv h xs" "p \<notin> set xs" "distinct xs"
    and "nx' p = h" "pv' p = None"
    and "\<And>x. x \<noteq> p \<Longrightarrow> nx' x = nx x"
    and "\<And>x. x \<noteq> p \<Longrightarrow> h \<noteq> Some x \<Longrightarrow> pv' x = pv x"
    and "\<And>x. h = Some x \<Longrightarrow> pv' x = Some p"
  shows "dll nx' pv' (Some p) (p # xs)"
proof (cases xs)
  case Nil
  with assms show ?thesis by (auto simp: dll_def)
next
  case (Cons y ys)
  obtain q where q: "h = Some y" "dseg nx pv (Some y) (nx y) ys q None"
    using assms(1) Cons by (auto simp: dll_def)
  have ne: "x \<noteq> p \<and> h \<noteq> Some x" if "x \<in> set ys" for x
    using that assms(2,3) Cons q(1) by auto
  have "dseg nx pv (Some y) (nx y) ys q None = dseg nx' pv' (Some y) (nx y) ys q None"
    using ne assms(6,7) by (intro dseg_cong) auto
  with q have "dseg nx' pv' (Some y) (nx' y) ys q None"
    using assms(2,6) Cons by auto
  then show ?thesis
    using assms(4,5,8) q(1) Cons by (auto simp: dll_def)
qed

text \<open>Removing an element: its neighbours are joined.\<close>

lemma dll_unlink:
  assumes "dll nx pv h (xs @ b # ys)" "distinct (xs @ b # ys)"
    and nxt: "\<And>x. x \<in> set xs \<Longrightarrow> nx' x =
      (if pv b = Some x then nx b else nx x)"
    and nxt': "\<And>x. x \<in> set ys \<Longrightarrow> nx' x = nx x"
    and prv: "\<And>x. x \<in> set ys \<Longrightarrow> pv' x =
      (if nx b = Some x then pv b else pv x)"
    and prv': "\<And>x. x \<in> set xs \<Longrightarrow> pv' x = pv x"
  shows "dll nx' pv' (if pv b = None then nx b else h) (xs @ ys)"
proof -
  obtain r q where s: "dseg nx pv None h xs r (Some b)" "pv b = r"
    "dseg nx pv (Some b) (nx b) ys q None"
    using assms(1) by (auto simp: dll_def dseg_append)
  have left: "dseg nx' pv' None (if r = None then nx b else h) xs r (nx b)"
  proof (cases xs rule: rev_cases)
    case Nil
    with s(1) show ?thesis by auto
  next
    case (snoc xs' x)
    obtain r' n where "dseg nx pv None h xs' r' n" "dseg nx pv r' n [x] r (Some b)"
      using s(1) unfolding snoc dseg_append by blast
    then have t: "dseg nx pv None h xs' r' (Some x)" "r = Some x" "pv x = r'" by auto
    have keep: "nx z = nx' z \<and> pv z = pv' z"
      if "z \<in> set xs'" for z
    proof -
      have "z \<noteq> x" "z \<in> set xs" using that assms(2) snoc by auto
      then show ?thesis using nxt [of z] prv' [of z] s(2) t(2) by simp
    qed
    have "dseg nx pv None h xs' r' (Some x) = dseg nx' pv' None h xs' r' (Some x)"
      by (rule dseg_cong) (rule keep)
    then show ?thesis
      using t nxt [of x] prv' [of x] s(2) unfolding snoc dseg_append by auto
  qed
  have right: "\<exists>q'. dseg nx' pv' r (nx b) ys q' None"
  proof (cases ys)
    case Nil
    with s(3) show ?thesis by auto
  next
    case (Cons y ys')
    have keep: "nx z = nx' z \<and> pv z = pv' z"
      if "z \<in> set ys'" for z
    proof -
      have "z \<noteq> y" "z \<in> set ys" "nx b = Some y" using that assms(2) Cons s(3) by auto
      then show ?thesis using nxt' [of z] prv [of z] by simp
    qed
    have "dseg nx pv (Some y) (nx y) ys' q None = dseg nx' pv' (Some y) (nx y) ys' q None"
      by (rule dseg_cong) (rule keep)
    then show ?thesis
      using s Cons nxt' [of y] prv [of y] by auto
  qed
  show ?thesis
    using left right s(2) unfolding dll_def dseg_append by blast
qed

end
