(* ===== verification/Buddy_Lists.thy ===== *)
theory Buddy_Lists
  imports Buddy Linked_Lists
begin

text \<open>
  The free lists of the buddy allocator as lists: a doubly linked list of page descriptors stands
  for the list of the page numbers on it, and pushing, popping and unlinking a page are the list
  operations, on the pointers, the counters and the other lists alike.
\<close>

abbreviation page_dll :: "(nat \<Rightarrow> page) \<Rightarrow> nat option \<Rightarrow> nat list \<Rightarrow> bool" where
  "page_dll pa \<equiv> dll (\<lambda>x. pg_next (pa x)) (\<lambda>x. pg_prev (pa x))"

section \<open>The free lists of a state\<close>

text \<open>
  \<open>L z k\<close> is the list of the pages on the free list of order \<open>k\<close> of zone \<open>z\<close>.  Every list is
  linked as its pointers say and counted; every page of it has the order of the list; no page is
  on two lists; the zone's page counter is the sum over its lists.
\<close>

type_synonym lists = "zone_id \<Rightarrow> nat \<Rightarrow> nat list"

definition upd_list :: "zone_id \<Rightarrow> nat \<Rightarrow> nat list \<Rightarrow> lists \<Rightarrow> lists" where
  "upd_list z k xs L = L(z := (L z)(k := xs))"

definition free_sum :: "lists \<Rightarrow> zone_id \<Rightarrow> nat" where
  "free_sum L z = (\<Sum>k\<le>PMM_MAX_ORDER. 2 ^ k * length (L z k))"

definition on_lists :: "lists \<Rightarrow> nat set" where
  "on_lists L = (\<Union>z. \<Union>k. set (L z k))"

definition lists_ok :: "pmm \<Rightarrow> lists \<Rightarrow> bool" where
  "lists_ok st L \<longleftrightarrow>
     (\<forall>z k. page_dll (page_array st) (z_free_list (zones st z) k) (L z k) \<and> distinct (L z k) \<and>
            z_free_count (zones st z) k = of_nat (length (L z k))) \<and>
     (\<forall>z. z_free_pages (zones st z) = of_nat (free_sum L z)) \<and>
     (\<forall>z k p. p \<in> set (L z k) \<longrightarrow> k \<le> PMM_MAX_ORDER \<and> pg_order (page_array st p) = k) \<and>
     (\<forall>z k z' k' p. p \<in> set (L z k) \<longrightarrow> p \<in> set (L z' k') \<longrightarrow> z = z' \<and> k = k')"

lemma upd_list_apply [simp]:
  "upd_list z k xs L z' k' = (if z' = z \<and> k' = k then xs else L z' k')"
  by (simp add: upd_list_def)

lemma in_on_lists: "p \<in> on_lists L \<longleftrightarrow> (\<exists>z k. p \<in> set (L z k))"
  by (simp add: on_lists_def)

lemma lists_okD:
  assumes "lists_ok st L"
  shows "page_dll (page_array st) (z_free_list (zones st z) k) (L z k)" "distinct (L z k)"
    "z_free_count (zones st z) k = of_nat (length (L z k))"
    "z_free_pages (zones st z) = of_nat (free_sum L z)"
    "p \<in> set (L z k) \<Longrightarrow> k \<le> PMM_MAX_ORDER"
    "p \<in> set (L z k) \<Longrightarrow> pg_order (page_array st p) = k"
    "p \<in> set (L z k) \<Longrightarrow> p \<in> set (L z' k') \<Longrightarrow> z' = z \<and> k' = k"
  using assms unfolding lists_ok_def by blast+

lemma free_sum_upd:
  assumes "k \<le> PMM_MAX_ORDER"
  shows "free_sum (upd_list z k xs L) z' + (if z' = z then 2 ^ k * length (L z k) else 0) =
    free_sum L z' + (if z' = z then 2 ^ k * length xs else 0)"
proof (cases "z' = z")
  case True
  have fin: "finite {..PMM_MAX_ORDER}" "k \<in> {..PMM_MAX_ORDER}" using assms by auto
  have "(\<Sum>j\<in>{..PMM_MAX_ORDER} - {k}. 2 ^ j * length (upd_list z k xs L z j)) =
        (\<Sum>j\<in>{..PMM_MAX_ORDER} - {k}. 2 ^ j * length (L z j))"
    by (intro sum.cong) auto
  then show ?thesis
    using True by (simp add: free_sum_def sum.remove [OF fin])
qed (simp add: free_sum_def)

subsection \<open>What the updates do to each field\<close>

lemma upd_simps [simp]:
  "page_array (upd_page p f st) = (page_array st)(p := f (page_array st p))"
  "zones (upd_page p f st) = zones st"
  "total_page_frames (upd_page p f st) = total_page_frames st"
  "phys_memory_end (upd_page p f st) = phys_memory_end st"
  "pmm_ready (upd_page p f st) = pmm_ready st"
  "zones (upd_zone z g st) = (zones st)(z := g (zones st z))"
  "page_array (upd_zone z g st) = page_array st"
  "total_page_frames (upd_zone z g st) = total_page_frames st"
  "phys_memory_end (upd_zone z g st) = phys_memory_end st"
  "pmm_ready (upd_zone z g st) = pmm_ready st"
  by (simp_all add: upd_page_def upd_zone_def)

lemma upd_page_order_only:
  assumes "lists_ok st L" "\<And>pg. pg_next (f pg) = pg_next pg \<and> pg_prev (f pg) = pg_prev pg"
    and "p \<in> on_lists L \<Longrightarrow> pg_order (f (page_array st p)) = pg_order (page_array st p)"
  shows "lists_ok (upd_page p f st) L"
proof -
  have "page_dll (page_array (upd_page p f st)) h xs = page_dll (page_array st) h xs" for h xs
    using assms(2) by (intro dll_cong) auto
  moreover have "pg_order (page_array (upd_page p f st) q) = pg_order (page_array st q)"
    if "q \<in> set (L z k)" for q z k
    using that assms(3) by (auto simp: in_on_lists)
  ultimately show ?thesis
    using assms(1) unfolding lists_ok_def by (simp del: upd_simps(1))
qed

text \<open>The fields after a push, a pop and an unlink.\<close>

lemma push_fields:
  "page_array (free_list_push z k p st) q =
     (let pg = page_array st q; head = z_free_list (zones st z) k;
          pg1 = (if q = p then pg\<lparr>pg_flags := PAGE_FLAG_FREE, pg_order := k,
                                  pg_next := head, pg_prev := None\<rparr> else pg)
      in if head = Some q then pg1\<lparr>pg_prev := Some p\<rparr> else pg1)"
  "z_free_list (zones (free_list_push z k p st) z') k' =
     (if z' = z \<and> k' = k then Some p else z_free_list (zones st z') k')"
  "z_free_count (zones (free_list_push z k p st) z') k' =
     z_free_count (zones st z') k' + (if z' = z \<and> k' = k then 1 else 0)"
  "z_free_pages (zones (free_list_push z k p st) z') =
     z_free_pages (zones st z') + (if z' = z then 2 ^ k else 0)"
  "total_page_frames (free_list_push z k p st) = total_page_frames st"
  "phys_memory_end (free_list_push z k p st) = phys_memory_end st"
  "pmm_ready (free_list_push z k p st) = pmm_ready st"
  "z_end_pfn (zones (free_list_push z k p st) z') = z_end_pfn (zones st z')"
  "z_base_pfn (zones (free_list_push z k p st) z') = z_base_pfn (zones st z')"
  "z_total_pages (zones (free_list_push z k p st) z') = z_total_pages (zones st z')"
  by (auto simp: free_list_push_def Let_def push_bit_eq_mult split: option.splits)

lemma pop_fields:
  "page_array (free_list_pop z k p st) q =
     (if pg_next (page_array st p) = Some q then (page_array st q)\<lparr>pg_prev := None\<rparr>
      else page_array st q)"
  "z_free_list (zones (free_list_pop z k p st) z') k' =
     (if z' = z \<and> k' = k then pg_next (page_array st p) else z_free_list (zones st z') k')"
  "z_free_count (zones (free_list_pop z k p st) z') k' =
     z_free_count (zones st z') k' - (if z' = z \<and> k' = k then 1 else 0)"
  "z_free_pages (zones (free_list_pop z k p st) z') =
     z_free_pages (zones st z') - (if z' = z then 2 ^ k else 0)"
  "total_page_frames (free_list_pop z k p st) = total_page_frames st"
  "phys_memory_end (free_list_pop z k p st) = phys_memory_end st"
  "pmm_ready (free_list_pop z k p st) = pmm_ready st"
  "z_end_pfn (zones (free_list_pop z k p st) z') = z_end_pfn (zones st z')"
  by (auto simp: free_list_pop_def Let_def push_bit_eq_mult split: option.splits)

lemma unlink_fields:
  "page_array (free_list_unlink z k b st) q =
     (let pb = page_array st b; pg = page_array st q;
          pg1 = (if pg_prev pb = Some q then pg\<lparr>pg_next := pg_next pb\<rparr> else pg);
          pg2 = (if pg_next pb = Some q then pg1\<lparr>pg_prev := pg_prev pb\<rparr> else pg1)
      in if q = b then pg2\<lparr>pg_flags := 0\<rparr> else pg2)"
  "z_free_list (zones (free_list_unlink z k b st) z') k' =
     (if z' = z \<and> k' = k \<and> pg_prev (page_array st b) = None then pg_next (page_array st b)
      else z_free_list (zones st z') k')"
  "z_free_count (zones (free_list_unlink z k b st) z') k' =
     z_free_count (zones st z') k' - (if z' = z \<and> k' = k then 1 else 0)"
  "z_free_pages (zones (free_list_unlink z k b st) z') =
     z_free_pages (zones st z') - (if z' = z then 2 ^ k else 0)"
  "total_page_frames (free_list_unlink z k b st) = total_page_frames st"
  "phys_memory_end (free_list_unlink z k b st) = phys_memory_end st"
  "pmm_ready (free_list_unlink z k b st) = pmm_ready st"
  "z_end_pfn (zones (free_list_unlink z k b st) z') = z_end_pfn (zones st z')"
  by (auto simp: free_list_unlink_def Let_def push_bit_eq_mult split: option.splits)

subsection \<open>The list operations keep the lists\<close>

lemma lists_ok_push:
  assumes ok: "lists_ok st L" and p: "p \<notin> on_lists L" and k: "k \<le> PMM_MAX_ORDER"
  shows "lists_ok (free_list_push z k p st) (upd_list z k (p # L z k) L)"
proof -
  let ?st = "free_list_push z k p st" and ?L = "upd_list z k (p # L z k) L"
  note D = lists_okD [OF ok]
  have notp: "p \<notin> set (L z' k')" for z' k' using p by (auto simp: in_on_lists)
  have head: "z_free_list (zones st z) k = Some h \<Longrightarrow> h \<in> set (L z k)" for h
    using dll_head [OF D(1) [of z k]] by (auto split: list.splits)
  have dll: "page_dll (page_array ?st) (z_free_list (zones ?st z') k') (?L z' k')" for z' k'
  proof (cases "z' = z \<and> k' = k")
    case True
    have "page_dll (page_array ?st) (Some p) (p # L z k)"
      using D(1,2) notp head by (intro dll_push [of "\<lambda>x. pg_next (page_array st x)"
            "\<lambda>x. pg_prev (page_array st x)" "z_free_list (zones st z) k"])
        (auto simp: push_fields Let_def)
    with True show ?thesis by (simp add: push_fields)
  next
    case False
    have "page_dll (page_array ?st) (z_free_list (zones st z') k') (L z' k') =
        page_dll (page_array st) (z_free_list (zones st z') k') (L z' k')"
    proof (rule dll_cong)
      fix x assume x: "x \<in> set (L z' k')"
      have "x \<noteq> p" using x notp by blast
      moreover have "z_free_list (zones st z) k \<noteq> Some x"
        using D(7) [OF x] head [of x] False by blast
      ultimately show "pg_next (page_array ?st x) = pg_next (page_array st x) \<and>
          pg_prev (page_array ?st x) = pg_prev (page_array st x)"
        by (simp add: push_fields Let_def)
    qed
    with False D(1) show ?thesis by (auto simp: push_fields)
  qed
  have sum: "free_sum ?L z' = free_sum L z' + (if z' = z then 2 ^ k else 0)" for z'
    using free_sum_upd [OF k, of z "p # L z k" L z'] by (simp split: if_splits)
  have ord: "q \<in> set (?L z' k') \<Longrightarrow> k' \<le> PMM_MAX_ORDER \<and> pg_order (page_array ?st q) = k'" for q z' k'
    using D(5,6) k notp by (auto simp: push_fields Let_def split: if_splits)
  have uniq: "q \<in> set (?L z1 k1) \<Longrightarrow> q \<in> set (?L z2 k2) \<Longrightarrow> z1 = z2 \<and> k1 = k2" for q z1 k1 z2 k2
    using D(7) notp by (auto split: if_splits)
  have cnt: "distinct (?L z' k') \<and> z_free_count (zones ?st z') k' = of_nat (length (?L z' k'))" for z' k'
    using D(2,3) notp by (simp add: push_fields)
  have pages: "z_free_pages (zones ?st z') = of_nat (free_sum ?L z')" for z'
    using D(4) [of z'] by (simp add: push_fields sum)
  show ?thesis unfolding lists_ok_def using dll cnt pages ord uniq by blast
qed

lemma lists_ok_pop:
  assumes ok: "lists_ok st L" and L: "L z k = p # xs"
  shows "lists_ok (free_list_pop z k p st) (upd_list z k xs L)"
proof -
  let ?st = "free_list_pop z k p st" and ?L = "upd_list z k xs L"
  note D = lists_okD [OF ok]
  have k: "k \<le> PMM_MAX_ORDER" using D(5) [of p z k] L by simp
  have nxt: "pg_next (page_array st p) = (case xs of [] \<Rightarrow> None | y # _ \<Rightarrow> Some y)"
    using dll_Cons_next D(1) [of z k] L by metis
  have prv: "pg_prev (page_array st p) = None"
    using D(1) [of z k] L by (auto simp: dll_def)
  have nxt_in: "pg_next (page_array st p) = Some x \<Longrightarrow> x \<in> set (L z k)" for x
    using nxt L by (auto split: list.splits)
  have dll: "page_dll (page_array ?st) (z_free_list (zones ?st z') k') (?L z' k')" for z' k'
  proof (cases "z' = z \<and> k' = k")
    case True
    have "page_dll (page_array ?st) (if pg_prev (page_array st p) = None then pg_next (page_array st p)
        else z_free_list (zones st z) k) ([] @ xs)"
      using D(1,2) [of z k] L prv by (intro dll_unlink) (auto simp: pop_fields)
    with True prv show ?thesis by (simp add: pop_fields)
  next
    case False
    have "page_dll (page_array ?st) (z_free_list (zones st z') k') (L z' k') =
        page_dll (page_array st) (z_free_list (zones st z') k') (L z' k')"
      using D(7) nxt_in False by (intro dll_cong) (auto simp: pop_fields)
    with False D(1) show ?thesis by (auto simp: pop_fields)
  qed
  have sum: "free_sum ?L z' + (if z' = z then 2 ^ k else 0) = free_sum L z'" for z'
    using free_sum_upd [OF k, of z xs L z'] L by (simp split: if_splits)
  have ord: "q \<in> set (?L z' k') \<Longrightarrow> k' \<le> PMM_MAX_ORDER \<and> pg_order (page_array ?st q) = k'" for q z' k'
  proof -
    assume "q \<in> set (?L z' k')"
    then have "q \<in> set (L z' k')" using L by (auto split: if_splits)
    moreover have "pg_order (page_array ?st q) = pg_order (page_array st q)"
      by (simp add: pop_fields)
    ultimately show ?thesis using D(5,6) by simp
  qed
  have uniq: "q \<in> set (?L z1 k1) \<Longrightarrow> q \<in> set (?L z2 k2) \<Longrightarrow> z1 = z2 \<and> k1 = k2" for q z1 k1 z2 k2
    using D(7) [of q z1 k1 z2 k2] L by (auto split: if_splits)
  have cnt: "distinct (?L z' k') \<and> z_free_count (zones ?st z') k' = of_nat (length (?L z' k'))" for z' k'
    using D(2,3) [of z' k'] L by (auto simp: pop_fields)
  have pages: "z_free_pages (zones ?st z') = of_nat (free_sum ?L z')" for z'
  proof -
    have "z_free_pages (zones st z') = of_nat (free_sum ?L z') + (if z' = z then 2 ^ k else 0)"
      using D(4) [of z'] unfolding sum [symmetric] by simp
    then show ?thesis by (simp add: pop_fields)
  qed
  show ?thesis unfolding lists_ok_def using dll cnt pages ord uniq by blast
qed

lemma lists_ok_unlink:
  assumes ok: "lists_ok st L" and b: "b \<in> set (L z k)"
  shows "lists_ok (free_list_unlink z k b st) (upd_list z k (remove1 b (L z k)) L)"
proof -
  let ?st = "free_list_unlink z k b st" and ?L = "upd_list z k (remove1 b (L z k)) L"
  note D = lists_okD [OF ok]
  have k: "k \<le> PMM_MAX_ORDER" using D(5) [OF b] .
  obtain xs ys where s: "L z k = xs @ b # ys" "b \<notin> set xs" using split_list_first [OF b] by blast
  have dist: "distinct (xs @ b # ys)" using D(2) [of z k] s by simp
  have rem: "remove1 b (L z k) = xs @ ys" using s by (simp add: remove1_append)
  obtain r q where seg: "dseg (\<lambda>x. pg_next (page_array st x)) (\<lambda>x. pg_prev (page_array st x)) None (z_free_list (zones st z) k) xs r (Some b)"
    "pg_prev (page_array st b) = r" "dseg (\<lambda>x. pg_next (page_array st x)) (\<lambda>x. pg_prev (page_array st x)) (Some b) (pg_next (page_array st b)) ys q None"
    using D(1) [of z k] unfolding dll_def s(1) dseg_append by auto
  have prv_in: "pg_prev (page_array st b) = Some x \<Longrightarrow> x \<in> set xs" for x
    using seg(1,2) by (cases xs rule: rev_cases) (auto simp: dseg_append)
  have nxt_in: "pg_next (page_array st b) = Some x \<Longrightarrow> x \<in> set ys" for x
    using seg(3) by (cases ys) auto
  have dll: "page_dll (page_array ?st) (z_free_list (zones ?st z') k') (?L z' k')" for z' k'
  proof (cases "z' = z \<and> k' = k")
    case True
    have "page_dll (page_array ?st) (if pg_prev (page_array st b) = None then pg_next (page_array st b)
        else z_free_list (zones st z) k) (xs @ ys)"
    proof (rule dll_unlink [OF _ dist])
      show "page_dll (page_array st) (z_free_list (zones st z) k) (xs @ b # ys)"
        using D(1) [of z k] s by simp
    qed (use dist prv_in nxt_in in \<open>auto simp: unlink_fields Let_def\<close>)
    with True rem show ?thesis by (simp add: unlink_fields)
  next
    case False
    have "page_dll (page_array ?st) (z_free_list (zones st z') k') (L z' k') =
        page_dll (page_array st) (z_free_list (zones st z') k') (L z' k')"
    proof (rule dll_cong)
      fix x assume x: "x \<in> set (L z' k')"
      have "x \<notin> set (L z k)" using D(7) [OF x] False by blast
      then show "pg_next (page_array ?st x) = pg_next (page_array st x) \<and>
          pg_prev (page_array ?st x) = pg_prev (page_array st x)"
        using prv_in [of x] nxt_in [of x] s(1) by (auto simp: unlink_fields Let_def)
    qed
    with False D(1) show ?thesis by (auto simp: unlink_fields)
  qed
  have len: "length (L z k) = Suc (length (remove1 b (L z k)))"
    using s rem by simp
  have sum: "free_sum ?L z' + (if z' = z then 2 ^ k else 0) = free_sum L z'" for z'
    using free_sum_upd [OF k, of z "remove1 b (L z k)" L z'] len by (simp split: if_splits)
  have ord: "q \<in> set (?L z' k') \<Longrightarrow> k' \<le> PMM_MAX_ORDER \<and> pg_order (page_array ?st q) = k'" for q z' k'
  proof -
    assume "q \<in> set (?L z' k')"
    then have "q \<in> set (L z' k')" by (auto split: if_splits dest: set_remove1_subset [THEN subsetD])
    moreover have "pg_order (page_array ?st q) = pg_order (page_array st q)"
      by (simp add: unlink_fields Let_def)
    ultimately show ?thesis using D(5,6) by simp
  qed
  have uniq: "q \<in> set (?L z1 k1) \<Longrightarrow> q \<in> set (?L z2 k2) \<Longrightarrow> z1 = z2 \<and> k1 = k2" for q z1 k1 z2 k2
    using D(7) by (auto split: if_splits dest!: set_remove1_subset [THEN subsetD])
  have cnt: "distinct (?L z' k') \<and> z_free_count (zones ?st z') k' = of_nat (length (?L z' k'))" for z' k'
    using D(2,3) [of z' k'] len by (auto simp: unlink_fields distinct_remove1)
  have pages: "z_free_pages (zones ?st z') = of_nat (free_sum ?L z')" for z'
  proof -
    have "z_free_pages (zones st z') = of_nat (free_sum ?L z') + (if z' = z then 2 ^ k else 0)"
      using D(4) [of z'] unfolding sum [symmetric] by simp
    then show ?thesis by (simp add: unlink_fields)
  qed
  show ?thesis unfolding lists_ok_def using dll cnt pages ord uniq by blast
qed

end
