(* ===== verification/Buddy_Blocks.thy ===== *)
theory Buddy_Blocks
  imports Buddy_Lists
begin

text \<open>
  The blocks of the buddy allocator as sets: a block is its first page and its order, and the free
  and allocated blocks of a sound state are aligned and pairwise disjoint.  Splitting a block and
  merging a block with its buddy keep that, and where a page that is some block's buddy lies in
  another block at all, it is the first page of that block: this is why testing the buddy's flag
  and order is enough.
\<close>

section \<open>Arithmetic of buddies\<close>

lemma buddy_pfn_eq:
  "buddy_pfn p k = (if odd (p div 2 ^ k) then p - 2 ^ k else p + 2 ^ k)"
proof -
  have "buddy_pfn p k = flip_bit k p"
    by (simp add: buddy_pfn_def flip_bit_eq_xor)
  then have "buddy_pfn p k = (if bit p k then unset_bit k p else set_bit k p)"
    by (simp add: flip_bit_eq_if)
  moreover have "p = unset_bit k p + 2 ^ k" if "bit p k"
  proof -
    have "p = set_bit k (unset_bit k p)"
      using that by (intro bit_eqI) (auto simp: bit_set_bit_iff bit_unset_bit_iff)
    also have "\<dots> = unset_bit k p + 2 ^ k" by (simp add: set_bit_eq bit_unset_bit_iff)
    finally show ?thesis .
  qed
  ultimately show ?thesis
    by (auto simp: set_bit_eq bit_iff_odd)
qed

text \<open>A block and its buddy are the two halves of the block of the next order.\<close>

lemma div_pow_Suc: "p div 2 ^ Suc k = p div 2 ^ k div (2::nat)"
  by (simp only: power_Suc2 div_mult2_eq)

lemma buddy_halves:
  assumes "2 ^ k dvd p"
  defines "b \<equiv> buddy_pfn p k"
  shows "2 ^ k dvd b" "2 ^ Suc k dvd min p b" "max p b = min p b + 2 ^ k" "b \<noteq> p"
proof -
  obtain m where m: "p = 2 ^ k * m" using assms(1) by blast
  have "p div 2 ^ k = m" by (simp add: m)
  then have b: "b = (if odd m then p - 2 ^ k else p + 2 ^ k)"
    by (simp add: b_def buddy_pfn_eq)
  have "2 ^ k dvd b \<and> 2 ^ Suc k dvd min p b \<and> max p b = min p b + 2 ^ k \<and> b \<noteq> p"
  proof (cases "odd m")
    case True
    then obtain j where "m = 2 * j + 1" by (elim oddE)
    then have p: "p = 2 ^ Suc k * j + 2 ^ k" by (simp add: m algebra_simps)
    then have "b = 2 ^ Suc k * j" using True b by simp
    then show ?thesis using p by simp
  next
    case False
    then obtain j where "m = 2 * j" by auto
    then have p: "p = 2 ^ Suc k * j" by (simp add: m)
    then have "b = 2 ^ Suc k * j + 2 ^ k" using False b by simp
    then show ?thesis using p by simp
  qed
  then show "2 ^ k dvd b" "2 ^ Suc k dvd min p b" "max p b = min p b + 2 ^ k" "b \<noteq> p"
    by blast+
qed

section \<open>Blocks\<close>

fun span :: "nat \<times> nat \<Rightarrow> nat set" where
  "span (p, k) = {p..<p + 2 ^ k}"

definition pages :: "(nat \<times> nat) set \<Rightarrow> nat set" where
  "pages B = (\<Union>b\<in>B. span b)"

definition block_ok :: "nat \<Rightarrow> nat \<times> nat \<Rightarrow> bool" where
  "block_ok n b \<longleftrightarrow> (case b of (p, k) \<Rightarrow> k \<le> PMM_MAX_ORDER \<and> 2 ^ k dvd p \<and> 0 < p \<and> p + 2 ^ k \<le> n)"

definition blocks_ok :: "nat \<Rightarrow> (nat \<times> nat) set \<Rightarrow> bool" where
  "blocks_ok n B \<longleftrightarrow> (\<forall>b\<in>B. block_ok n b) \<and> pairwise (\<lambda>b b'. span b \<inter> span b' = {}) B"

lemma span_nonempty [simp]: "p \<in> span (p, k)"
  by simp

lemma blocks_ok_same:
  assumes "blocks_ok n B" "b \<in> B" "b' \<in> B" "x \<in> span b" "x \<in> span b'"
  shows "b = b'"
proof (rule ccontr)
  assume "b \<noteq> b'"
  then have "span b \<inter> span b' = {}"
    using assms(1-3) unfolding blocks_ok_def pairwise_def by blast
  then show False using assms(4,5) by blast
qed

lemma blocks_ok_head: "blocks_ok n B \<Longrightarrow> (p, k) \<in> B \<Longrightarrow> (p, k') \<in> B \<Longrightarrow> k' = k"
  using blocks_ok_same [of n B "(p, k)" "(p, k')" p] by simp

lemma blocks_ok_subset: "blocks_ok n B \<Longrightarrow> B' \<subseteq> B \<Longrightarrow> blocks_ok n B'"
  by (auto simp: blocks_ok_def intro: pairwise_subset)

lemma blocks_ok_mono: "blocks_ok n B \<Longrightarrow> n \<le> n' \<Longrightarrow> blocks_ok n' B"
  by (auto simp: blocks_ok_def block_ok_def)

lemma span_Suc: "span (p, Suc k) = span (p, k) \<union> span (p + 2 ^ k, k)"
  by auto

text \<open>Replacing some blocks by blocks that cover no other pages.\<close>

lemma blocks_ok_replace:
  assumes "blocks_ok n (B \<union> C)" "B \<inter> C = {}" "blocks_ok n C'" "pages C' \<subseteq> pages C"
  shows "blocks_ok n (B \<union> C')"
proof -
  have sep: "span b \<inter> span c' = {}" if b: "b \<in> B" and c': "c' \<in> C'" for b c'
  proof (rule ccontr)
    assume "span b \<inter> span c' \<noteq> {}"
    then obtain x where x: "x \<in> span b" "x \<in> span c'" by blast
    have "x \<in> pages C'" using x(2) c' unfolding pages_def by blast
    then have "x \<in> pages C" using assms(4) by blast
    then obtain c where c: "c \<in> C" "x \<in> span c" unfolding pages_def by blast
    then have "b = c" using blocks_ok_same [OF assms(1)] b x by blast
    then show False using b c assms(2) by blast
  qed
  have B: "blocks_ok n B" using assms(1) blocks_ok_subset by blast
  have "pairwise (\<lambda>b b'. span b \<inter> span b' = {}) (B \<union> C')"
    unfolding pairwise_def
  proof (intro ballI impI)
    fix b b' assume b: "b \<in> B \<union> C'" "b' \<in> B \<union> C'" "b \<noteq> b'"
    from b(1,2) show "span b \<inter> span b' = {}"
    proof (elim UnE)
      assume "b \<in> B" "b' \<in> B" then show ?thesis
        using B b(3) unfolding blocks_ok_def pairwise_def by blast
    next
      assume "b \<in> C'" "b' \<in> C'" then show ?thesis
        using assms(3) b(3) unfolding blocks_ok_def pairwise_def by blast
    next
      assume "b \<in> C'" "b' \<in> B" then show ?thesis using sep [of b' b] by blast
    qed (rule sep)
  qed
  then show ?thesis using B assms(3) by (auto simp: blocks_ok_def)
qed

lemma blocks_ok_split:
  assumes "blocks_ok n (insert (p, Suc k) B)" "(p, Suc k) \<notin> B"
  shows "blocks_ok n (B \<union> {(p, k), (p + 2 ^ k, k)})"
proof (rule blocks_ok_replace [where C = "{(p, Suc k)}"])
  have ok: "block_ok n (p, Suc k)" using assms(1) by (simp add: blocks_ok_def)
  then have dvd: "2 ^ k dvd p" by (auto simp: block_ok_def dest: dvd_mult_left dvd_mult_right)
  then have "block_ok n (p, k)" "block_ok n (p + 2 ^ k, k)"
    using ok by (auto simp: block_ok_def)
  then show "blocks_ok n {(p, k), (p + 2 ^ k, k)}"
    by (auto simp: blocks_ok_def pairwise_def)
qed (use assms in \<open>auto simp: pages_def\<close>)

lemma blocks_ok_merge:
  assumes "blocks_ok n (B \<union> {(p, k), (b, k)})" "B \<inter> {(p, k), (b, k)} = {}"
    and "b = buddy_pfn p k" "k < PMM_MAX_ORDER"
  shows "blocks_ok n (insert (min p b, Suc k) B)"
    and "span (min p b, Suc k) = span (p, k) \<union> span (b, k)"
proof -
  have ok: "block_ok n (p, k)" "block_ok n (b, k)"
    using assms(1) by (auto simp: blocks_ok_def)
  then have h: "2 ^ Suc k dvd min p b" "max p b = min p b + 2 ^ k"
    using buddy_halves [of k p] assms(3) by (auto simp: block_ok_def)
  have "max p b + 2 ^ k \<le> n" "0 < min p b" using ok by (auto simp: block_ok_def)
  then have new: "block_ok n (min p b, Suc k)"
    using h assms(4) by (simp add: block_ok_def)
  show sp: "span (min p b, Suc k) = span (p, k) \<union> span (b, k)"
    using h(2) unfolding span_Suc by (auto simp: min_def max_def split: if_splits)
  have "blocks_ok n (B \<union> {(min p b, Suc k)})"
  proof (rule blocks_ok_replace [OF assms(1,2)])
    show "blocks_ok n {(min p b, Suc k)}" using new by (simp add: blocks_ok_def)
    show "pages {(min p b, Suc k)} \<subseteq> pages {(p, k), (b, k)}" using sp by (auto simp: pages_def)
  qed
  then show "blocks_ok n (insert (min p b, Suc k) B)" by simp
qed

text \<open>A buddy that lies in some block is the head of that block.\<close>

lemma buddy_is_head:
  assumes ok: "blocks_ok n B" and p: "(p, k) \<in> B" "k < PMM_MAX_ORDER"
    and b: "(x, m) \<in> B" "buddy_pfn p k \<in> span (x, m)"
  shows "x = buddy_pfn p k"
proof (rule ccontr)
  let ?b = "buddy_pfn p k"
  assume "x \<noteq> ?b"
  then have lt: "x < ?b" "?b < x + 2 ^ m" using b(2) by auto
  have al: "2 ^ k dvd p" "2 ^ m dvd x"
    using ok p(1) b(1) by (auto simp: blocks_ok_def block_ok_def)
  have h: "2 ^ k dvd ?b" "2 ^ Suc k dvd min p ?b" "max p ?b = min p ?b + 2 ^ k" "?b \<noteq> p"
    using buddy_halves [OF al(1)] by auto
  have km: "k < m"
  proof (rule ccontr)
    assume "\<not> k < m"
    then have "2 ^ m dvd ?b" using h(1) by (meson dvd_trans le_imp_power_dvd not_less)
    then have "2 ^ m dvd ?b - x" using al(2) by (rule dvd_diff_nat)
    then have "2 ^ m \<le> ?b - x" using lt(1) by (intro dvd_imp_le) auto
    then show False using lt by simp
  qed
  then have d: "2 ^ Suc k dvd x" "(2::nat) ^ Suc k dvd 2 ^ m"
    using al(2) by (meson Suc_leI dvd_trans le_imp_power_dvd, meson Suc_leI le_imp_power_dvd)
  obtain i j l :: nat where "x = 2 ^ Suc k * i" "min p ?b = 2 ^ Suc k * j" "(2::nat) ^ m = 2 ^ Suc k * l"
    using d h(2) by (auto elim!: dvdE)
  note e = this
  have "2 ^ Suc k * j + 2 ^ Suc k > x" "2 ^ Suc k * j < x + 2 ^ m"
    using lt e(2) h(3) by (auto simp: min_def max_def split: if_splits)
  then have "i < Suc j" "j < i + l"
    unfolding e by (metis mult_Suc_right add.commute mult_less_cancel1,
      metis distrib_left mult_less_cancel1)
  then have "2 ^ Suc k * i \<le> 2 ^ Suc k * j" "2 ^ Suc k * Suc j \<le> 2 ^ Suc k * (i + l)"
    by (simp_all only: mult_le_mono2 less_Suc_eq_le Suc_leI)
  then have "x \<le> min p ?b" "min p ?b + 2 ^ Suc k \<le> x + 2 ^ m"
    using e by (simp_all add: distrib_left)
  moreover have "0 < (2::nat) ^ k" by simp
  moreover have "p = min p ?b \<or> p = min p ?b + 2 ^ k" using h(3) by (auto simp: min_def max_def)
  ultimately have "p \<in> span (x, m)"
    unfolding span.simps atLeastLessThan_iff power_Suc by linarith
  then have "(p, k) = (x, m)" using blocks_ok_same [OF ok p(1) b(1) span_nonempty] by blast
  then show False using km by simp
qed

section \<open>Zones\<close>

definition zone_pfn :: "nat \<Rightarrow> zone_id" where
  "zone_pfn p = (if p < 4096 then DMA else if p < 229376 then NORMAL else HIGHMEM)"

lemma zone_pfn_block: "zone_pfn p = zone_pfn q" if "p div 2048 = q div 2048"
proof -
  have "p < 4096 \<longleftrightarrow> p div 2048 < 2" "p < 229376 \<longleftrightarrow> p div 2048 < 112"
    "q < 4096 \<longleftrightarrow> q div 2048 < 2" "q < 229376 \<longleftrightarrow> q div 2048 < 112" by auto
  then show ?thesis using that by (simp add: zone_pfn_def)
qed

lemma zone_pfn_in_block:
  assumes "2 ^ k dvd p" "k \<le> PMM_MAX_ORDER" "q \<in> span (p, k)"
  shows "zone_pfn q = zone_pfn p"
proof (rule zone_pfn_block)
  have "(2048::nat) = 2 ^ (11 - k) * 2 ^ k"
    using assms(2) by (simp add: power_add [symmetric] PMM_MAX_ORDER_def)
  then have "q div 2048 = q div 2 ^ k div 2 ^ (11 - k)" "p div 2048 = p div 2 ^ k div 2 ^ (11 - k)"
    by (simp_all only: div_mult2_eq mult.commute)
  moreover have "q div 2 ^ k = p div 2 ^ k"
    using assms(1,3) by (auto elim!: dvdE intro!: div_nat_eqI simp: algebra_simps)
  ultimately show "q div 2048 = p div 2048" by simp
qed

lemma zone_pfn_buddy:
  assumes "2 ^ k dvd p" "k < PMM_MAX_ORDER"
  shows "zone_pfn (buddy_pfn p k) = zone_pfn p"
proof -
  let ?m = "min p (buddy_pfn p k)"
  have "p \<in> span (?m, Suc k)" "buddy_pfn p k \<in> span (?m, Suc k)" "2 ^ Suc k dvd ?m"
    using buddy_halves [OF assms(1)] by (auto simp: min_def max_def split: if_splits)
  then show ?thesis using zone_pfn_in_block assms(2) by (metis Suc_leI)
qed

lemma phys_to_pfn_div: "phys_to_pfn phys = unat phys div 4096"
  by (simp add: phys_to_pfn_def PAGE_SHIFT_def drop_bit_eq_div unat_div)

lemma unat_pfn_to_phys: "p < 2 ^ 20 \<Longrightarrow> unat (pfn_to_phys p) = 4096 * p"
proof -
  assume "p < 2 ^ 20"
  then have "unat (push_bit 12 (of_nat p :: u32)) = push_bit 12 p"
    by (simp only: unsigned_push_bit_eq unat_of_nat)
      (simp add: push_bit_eq_mult take_bit_nat_eq_self)
  then show ?thesis by (simp only: pfn_to_phys_def PAGE_SHIFT_def push_bit_eq_mult) simp
qed

lemma phys_to_pfn_inverse: "p < 2 ^ 20 \<Longrightarrow> phys_to_pfn (pfn_to_phys p) = p"
  by (simp add: phys_to_pfn_div unat_pfn_to_phys)

lemma select_zone_pfn: "select_zone phys = zone_pfn (phys_to_pfn phys)"
  by (auto simp: select_zone_def zone_pfn_def phys_to_pfn_div word_less_nat_alt)

end
