(* ===== verification/Buddy_Inv.thy ===== *)
theory Buddy_Inv
  imports Buddy_Blocks
begin

text \<open>
  The invariant of the buddy allocator and the steps its operations are made of.  \<open>binv M st L A H\<close>
  says: the free lists of \<open>st\<close> are \<open>L\<close>; the free blocks, the allocated blocks \<open>A\<close> and the blocks
  \<open>H\<close> the running operation has in hand are aligned, pairwise disjoint and cover exactly the
  managed pages \<open>M\<close>; a page with the FREE flag is managed, and the first page of an allocated
  block has not got it; a free block is on a list of its own zone.  A free block's first page need
  not have the flag, because \<open>pmm_init\<close> clears it on the kernel's pages.
\<close>

definition free_blocks :: "lists \<Rightarrow> (nat \<times> nat) set" where
  "free_blocks L = {(p, k). \<exists>z. p \<in> set (L z k)}"

definition binv :: "nat set \<Rightarrow> pmm \<Rightarrow> lists \<Rightarrow> (nat \<times> nat) set \<Rightarrow> (nat \<times> nat) set \<Rightarrow> bool" where
  "binv M st L A H \<longleftrightarrow>
     lists_ok st L \<and> blocks_ok (total_page_frames st) (free_blocks L \<union> A \<union> H) \<and>
     free_blocks L \<inter> (A \<union> H) = {} \<and> A \<inter> H = {} \<and> pages (free_blocks L \<union> A \<union> H) = M \<and>
     (\<forall>q. is_free st q \<longrightarrow> q \<in> M) \<and> (\<forall>(p, k)\<in>A. \<not> is_free st p) \<and>
     (\<forall>z k p. p \<in> set (L z k) \<longrightarrow> z = zone_pfn p) \<and> total_page_frames st \<le> PAGE_ARRAY_LEN"

lemma binvD:
  assumes "binv M st L A H"
  shows "lists_ok st L" "blocks_ok (total_page_frames st) (free_blocks L \<union> A \<union> H)"
    "free_blocks L \<inter> (A \<union> H) = {}" "A \<inter> H = {}" "pages (free_blocks L \<union> A \<union> H) = M"
    "is_free st q \<Longrightarrow> q \<in> M" "(p, k) \<in> A \<Longrightarrow> \<not> is_free st p"
    "p \<in> set (L z k) \<Longrightarrow> z = zone_pfn p" "total_page_frames st \<le> PAGE_ARRAY_LEN"
  using assms unfolding binv_def by (blast+)

text \<open>A step that only moves a block between the lists, the allocated and the held blocks.\<close>

lemma binv_move:
  assumes inv: "binv M st L A H"
    and "lists_ok st' L'" "total_page_frames st' = total_page_frames st"
    and same: "free_blocks L' \<union> A' \<union> H' = free_blocks L \<union> A \<union> H"
    and "free_blocks L' \<inter> (A' \<union> H') = {}" "A' \<inter> H' = {}"
    and "\<And>q. is_free st' q \<Longrightarrow> is_free st q \<or> q \<in> M"
    and "\<And>p k. (p, k) \<in> A' \<Longrightarrow> \<not> is_free st' p"
    and "\<And>z k p. p \<in> set (L' z k) \<Longrightarrow> z = zone_pfn p"
  shows "binv M st' L' A' H'"
proof -
  note D = binvD [OF inv]
  have "\<forall>q. is_free st' q \<longrightarrow> q \<in> M" using assms(7) D(6) by blast
  moreover have "\<forall>(p, k)\<in>A'. \<not> is_free st' p" using assms(8) by auto
  moreover have "\<forall>z k p. p \<in> set (L' z k) \<longrightarrow> z = zone_pfn p" using assms(9) by auto
  ultimately show ?thesis
    unfolding binv_def same using assms(2,3,5,6) D(2,5,9) by simp
qed

text \<open>A step that replaces held blocks by others that cover the same pages.\<close>

lemma binv_held:
  assumes inv: "binv M st L A H"
    and ok: "blocks_ok (total_page_frames st) (free_blocks L \<union> A \<union> H')"
    and "pages H' = pages H" "(free_blocks L \<union> A) \<inter> H' = {}"
  shows "binv M st L A H'"
proof -
  have "pages (free_blocks L \<union> A \<union> H') = pages (free_blocks L \<union> A \<union> H)"
    using assms(3) by (simp add: pages_def)
  then show ?thesis using inv ok assms(4) unfolding binv_def by blast
qed

lemma in_free_blocks: "(p, k) \<in> free_blocks L \<longleftrightarrow> (\<exists>z. p \<in> set (L z k))"
  by (simp add: free_blocks_def)

lemma free_blocks_push: "free_blocks (upd_list z k (p # L z k) L) = insert (p, k) (free_blocks L)"
  by (auto simp: in_free_blocks split: if_splits)

lemma free_blocks_remove:
  assumes "lists_ok st L" "p \<in> set (L z k)" "set xs = set (L z k) - {p}"
  shows "free_blocks (upd_list z k xs L) = free_blocks L - {(p, k)}"
proof (intro set_eqI iffI)
  fix b assume "b \<in> free_blocks (upd_list z k xs L)"
  then obtain q j z' where b: "b = (q, j)" "q \<in> set (upd_list z k xs L z' j)"
    by (auto simp: free_blocks_def)
  then have "q \<in> set (L z' j)" using assms(3) by (auto split: if_splits)
  note q_in = this
  have "b \<noteq> (p, k)"
  proof
    assume "b = (p, k)"
    then have q: "q = p" "j = k" using b(1) by auto
    then have "p \<in> set (L z' k)" using q_in by simp
    then have "z' = z" using lists_okD(7) [OF assms(1,2)] by blast
    then show False using b(2) q assms(3) by simp
  qed
  then show "b \<in> free_blocks L - {(p, k)}" using b(1) q_in by (auto simp: in_free_blocks)
next
  fix b assume b: "b \<in> free_blocks L - {(p, k)}"
  then obtain q j z' where "b = (q, j)" "q \<in> set (L z' j)" by (auto simp: free_blocks_def)
  then show "b \<in> free_blocks (upd_list z k xs L)"
    using b assms(3) unfolding free_blocks_def by (auto intro!: exI [of _ z'])
qed

text \<open>The pages whose FREE flag an operation can set.\<close>

lemma is_free_push: "is_free (free_list_push z k p st) q \<longleftrightarrow> q = p \<or> is_free st q"
proof -
  have "(PAGE_FLAG_FREE :: u32) AND PAGE_FLAG_FREE \<noteq> 0" by (simp add: PAGE_FLAG_FREE_def BIT_def)
  then show ?thesis by (auto simp: is_free_def push_fields Let_def)
qed

lemma is_free_pop [simp]: "is_free (free_list_pop z k p st) q = is_free st q"
  by (simp add: is_free_def pop_fields)

lemma is_free_unlink: "is_free (free_list_unlink z k b st) q \<longleftrightarrow> q \<noteq> b \<and> is_free st q"
  by (auto simp: is_free_def unlink_fields Let_def)

section \<open>The steps\<close>

lemma binv_pop:
  assumes inv: "binv M st L A H" and L: "L z k = p # xs"
  shows "binv M (free_list_pop z k p st) (upd_list z k xs L) A (insert (p, k) H)"
proof -
  note D = binvD [OF inv]
  have fb: "free_blocks (upd_list z k xs L) = free_blocks L - {(p, k)}"
    using D(1) L lists_okD(2) [OF D(1), of z k] by (intro free_blocks_remove) auto
  have mem: "(p, k) \<in> free_blocks L" unfolding in_free_blocks by (rule exI [of _ z]) (simp add: L)
  show ?thesis
  proof (rule binv_move [OF inv])
    show "lists_ok (free_list_pop z k p st) (upd_list z k xs L)"
      using D(1) L by (rule lists_ok_pop)
    show "z' = zone_pfn q" if "q \<in> set (upd_list z k xs L z' k')" for z' k' q
      using that L by (intro D(8) [of _ z' k']) (auto split: if_splits)
    show "\<And>q k'. (q, k') \<in> A \<Longrightarrow> \<not> is_free (free_list_pop z k p st) q" using D(7) by simp
  qed (use D(3,4) mem in \<open>auto simp: fb pop_fields\<close>)
qed

lemma binv_unlink:
  assumes inv: "binv M st L A H" and b: "b \<in> set (L z k)"
  shows "binv M (free_list_unlink z k b st) (upd_list z k (remove1 b (L z k)) L) A (insert (b, k) H)"
proof -
  note D = binvD [OF inv]
  have set: "set (remove1 b (L z k)) = set (L z k) - {b}"
    using lists_okD(2) [OF D(1), of z k] by (rule set_remove1_eq)
  then have fb: "free_blocks (upd_list z k (remove1 b (L z k)) L) = free_blocks L - {(b, k)}"
    using D(1) b by (intro free_blocks_remove)
  have mem: "(b, k) \<in> free_blocks L" using b by (auto simp: in_free_blocks)
  show ?thesis
  proof (rule binv_move [OF inv])
    show "lists_ok (free_list_unlink z k b st) (upd_list z k (remove1 b (L z k)) L)"
      using D(1) b by (rule lists_ok_unlink)
    show "\<And>z' k' q. q \<in> set (upd_list z k (remove1 b (L z k)) L z' k') \<Longrightarrow> z' = zone_pfn q"
      using D(8) by (auto simp: set split: if_splits)
    show "\<And>q k'. (q, k') \<in> A \<Longrightarrow> \<not> is_free (free_list_unlink z k b st) q"
      using D(7) by (simp add: is_free_unlink)
  qed (use D(3,4) mem in \<open>auto simp: fb unlink_fields is_free_unlink\<close>)
qed

text \<open>No block in use starts where a held block does.\<close>

lemma binv_head:
  assumes "binv M st L A H" "(p, k) \<in> H"
  shows "p \<notin> on_lists L" "(p, k') \<notin> A" "(p, k) \<notin> free_blocks L"
proof -
  note D = binvD [OF assms(1)]
  have none: "(p, j) \<notin> free_blocks L \<union> A" for j
  proof
    assume j: "(p, j) \<in> free_blocks L \<union> A"
    then have "j = k" using blocks_ok_head [OF D(2), of p k j] assms(2) by blast
    then show False using j D(3,4) assms(2) by blast
  qed
  then show "(p, k') \<notin> A" "(p, k) \<notin> free_blocks L" by blast+
  show "p \<notin> on_lists L" using none by (auto simp: in_on_lists in_free_blocks)
qed

lemma binv_block:
  assumes "binv M st L A H" "b \<in> free_blocks L \<union> A \<union> H"
  shows "block_ok (total_page_frames st) b" "span b \<subseteq> M"
  using binvD(2,5) [OF assms(1)] assms(2) by (auto simp: blocks_ok_def pages_def)

lemma binv_push:
  assumes inv: "binv M st L A H" and p: "(p, k) \<in> H" and z: "z = zone_pfn p"
  shows "binv M (free_list_push z k p st) (upd_list z k (p # L z k) L) A (H - {(p, k)})"
proof -
  note D = binvD [OF inv]
  note hd = binv_head [OF inv p]
  have ok: "block_ok (total_page_frames st) (p, k)" and M: "p \<in> M"
    using binv_block [OF inv, of "(p, k)"] p by auto
  show ?thesis
  proof (rule binv_move [OF inv])
    show "lists_ok (free_list_push z k p st) (upd_list z k (p # L z k) L)"
      using D(1) hd(1) ok by (intro lists_ok_push) (auto simp: block_ok_def)
    show "\<And>z' k' q. q \<in> set (upd_list z k (p # L z k) L z' k') \<Longrightarrow> z' = zone_pfn q"
      using D(8) z by (auto split: if_splits)
    show "\<And>q k'. (q, k') \<in> A \<Longrightarrow> \<not> is_free (free_list_push z k p st) q"
      using D(7) hd(2) by (auto simp: is_free_push)
    show "free_blocks (upd_list z k (p # L z k) L) \<inter> (A \<union> (H - {(p, k)})) = {}"
      using D(3) hd(2) unfolding free_blocks_push by auto
  qed (use D(3,4) p M in \<open>auto simp: free_blocks_push push_fields is_free_push\<close>)
qed

lemma binv_alloc:
  assumes inv: "binv M st L A H" and p: "(p, k) \<in> H"
    and f: "\<And>pg. pg_next (f pg) = pg_next pg \<and> pg_prev (f pg) = pg_prev pg"
    and free: "\<And>pg. pg_flags (f pg) AND PAGE_FLAG_FREE = 0"
  shows "binv M (upd_page p f st) L (insert (p, k) A) (H - {(p, k)})"
proof -
  note D = binvD [OF inv]
  note hd = binv_head [OF inv p]
  have isf: "is_free (upd_page p f st) q \<longleftrightarrow> q \<noteq> p \<and> is_free st q" for q
    using free by (simp add: is_free_def)
  show ?thesis
  proof (rule binv_move [OF inv])
    show "lists_ok (upd_page p f st) L"
      using D(1) f hd(1) by (intro upd_page_order_only) auto
    show "\<And>q k'. (q, k') \<in> insert (p, k) A \<Longrightarrow> \<not> is_free (upd_page p f st) q"
      using D(7) isf by auto
  qed (use D(3,4,8) p isf hd in auto)
qed

lemma binv_take:
  assumes inv: "binv M st L A H" and p: "(p, k) \<in> A"
    and f: "\<And>pg. pg_next (f pg) = pg_next pg \<and> pg_prev (f pg) = pg_prev pg \<and>
      pg_flags (f pg) = pg_flags pg \<and> pg_order (f pg) = pg_order pg"
  shows "binv M (upd_page p f st) L (A - {(p, k)}) (insert (p, k) H)"
proof -
  note D = binvD [OF inv]
  have isf: "is_free (upd_page p f st) q \<longleftrightarrow> is_free st q" for q
    using f by (simp add: is_free_def)
  show ?thesis
  proof (rule binv_move [OF inv])
    show "lists_ok (upd_page p f st) L"
      using D(1) f by (intro upd_page_order_only) auto
    show "\<And>q k'. (q, k') \<in> A - {(p, k)} \<Longrightarrow> \<not> is_free (upd_page p f st) q"
      using D(7) isf by auto
  qed (use D(3,4,8) p isf in auto)
qed

lemma binv_split:
  assumes inv: "binv M st L A (insert (p, Suc k) H)" "(p, Suc k) \<notin> H"
  shows "binv M st L A (H \<union> {(p, k), (p + 2 ^ k, k)})"
proof -
  note D = binvD [OF inv(1)]
  let ?B = "free_blocks L \<union> A \<union> H"
  have "(p, Suc k) \<notin> ?B" using D(3,4) inv(2) by blast
  then have ok: "blocks_ok (total_page_frames st) (?B \<union> {(p, k), (p + 2 ^ k, k)})"
    using D(2) by (intro blocks_ok_split) (auto simp: Un_assoc)
  have new: "b \<notin> free_blocks L \<union> A" if "b \<in> {(p, k), (p + 2 ^ k, k)}" for b
  proof
    assume b: "b \<in> free_blocks L \<union> A"
    have "fst b \<in> span b" "fst b \<in> span (p, Suc k)" using that by auto
    then have "b = (p, Suc k)"
      using blocks_ok_same [OF D(2)] b by (metis UnI1 UnI2 insertI1)
    then show False using that by auto
  qed
  have "pages (H \<union> {(p, k), (p + 2 ^ k, k)}) = pages (insert (p, Suc k) H)"
    unfolding pages_def using span_Suc [of p k] by auto
  then show ?thesis
    using new ok D(3,4) by (intro binv_held [OF inv(1)]) (auto simp: Un_assoc)
qed

lemma binv_merge:
  assumes inv: "binv M st L A {(p, k), (b, k)}" and b: "b = buddy_pfn p k" "k < PMM_MAX_ORDER"
  shows "binv M st L A {(min p b, Suc k)}"
proof -
  note D = binvD [OF inv]
  let ?B = "free_blocks L \<union> A"
  have disj: "?B \<inter> {(p, k), (b, k)} = {}" using D(3,4) by blast
  note m = blocks_ok_merge [OF D(2) disj b]
  have "(min p b, Suc k) \<notin> ?B"
  proof
    assume "(min p b, Suc k) \<in> ?B"
    moreover have "(min p b, k) \<in> {(p, k), (b, k)}" by (simp add: min_def)
    ultimately have "Suc k = k" using blocks_ok_head [OF D(2), of "min p b" k "Suc k"] by blast
    then show False by simp
  qed
  then show ?thesis
    using m by (intro binv_held [OF inv]) (auto simp: pages_def)
qed

end
