(* ===== verification/Buddy_Ops.thy ===== *)
theory Buddy_Ops
  imports Buddy_Inv
begin

text \<open>
  What allocation and freeing do: the split and merge loops keep the invariant with the block they
  work on in hand, so \<open>pmm_alloc_pages\<close> moves a free block to the allocated ones and
  \<open>pmm_free_pages\<close> moves it back, merged with its free buddies.
\<close>

section \<open>Pages counted by the lists\<close>

lemma free_sum_cons:
  "k \<le> PMM_MAX_ORDER \<Longrightarrow>
   free_sum (upd_list z k (p # L z k) L) z' = free_sum L z' + (if z' = z then 2 ^ k else 0)"
  using free_sum_upd [of k z "p # L z k" L z'] by (simp split: if_splits)

lemma free_sum_uncons:
  "k \<le> PMM_MAX_ORDER \<Longrightarrow> length (L z k) = Suc (length xs) \<Longrightarrow>
   free_sum (upd_list z k xs L) z' + (if z' = z then 2 ^ k else 0) = free_sum L z'"
  using free_sum_upd [of k z xs L z'] by (simp split: if_splits)

section \<open>Splitting\<close>

lemma split_loop_frame [frame_simps]:
  "total_page_frames (split_loop z p found ord st) = total_page_frames st"
  "pmm_ready (split_loop z p found ord st) = pmm_ready st"
  by (induction z p found ord st rule: split_loop.induct) (auto simp: push_fields Let_def)

lemma split_loop_binv:
  assumes "binv M st L A {(p, found)}" "ord \<le> found" "z = zone_pfn p"
  shows "\<exists>L'. binv M (split_loop z p found ord st) L' A {(p, ord)} \<and>
    (\<forall>z'. free_sum L' z' + (if z' = z then 2 ^ ord else 0) =
          free_sum L z' + (if z' = z then 2 ^ found else 0))"
  using assms
proof (induction found arbitrary: st L)
  case 0
  then show ?case by auto
next
  case (Suc k)
  show ?case
  proof (cases "Suc k = ord")
    case True
    with Suc.prems show ?thesis by auto
  next
    case False
    then have le: "ord \<le> k" using Suc.prems(2) by simp
    let ?b = "p + 2 ^ k"
    have ok: "block_ok (total_page_frames st) (p, Suc k)"
      using binv_block(1) [OF Suc.prems(1), of "(p, Suc k)"] by simp
    then have k: "Suc k \<le> PMM_MAX_ORDER" "2 ^ Suc k dvd p" "p + 2 ^ Suc k \<le> total_page_frames st"
      by (auto simp: block_ok_def)
    have "zone_pfn ?b = zone_pfn p" using k by (intro zone_pfn_in_block [of "Suc k"]) auto
    then have zb: "z = zone_pfn ?b" using Suc.prems(3) by simp
    have valid: "pfn_valid st ?b"
      using k(3) unfolding pfn_valid_def power_Suc by (rule less_le_trans [rotated]) simp
    have "binv M st L A ({} \<union> {(p, k), (?b, k)})"
      using Suc.prems(1) by (intro binv_split) auto
    then have "binv M (free_list_push z k ?b st) (upd_list z k (?b # L z k) L) A
        ({(p, k), (?b, k)} - {(?b, k)})"
      using zb by (intro binv_push) auto
    moreover have "{(p, k), (?b, k)} - {(?b, k)} = {(p, k)}" by auto
    ultimately have "binv M (free_list_push z k ?b st) (upd_list z k (?b # L z k) L) A {(p, k)}"
      by simp
    from Suc.IH [OF this le Suc.prems(3)] obtain L' where
      L': "binv M (split_loop z p k ord (free_list_push z k ?b st)) L' A {(p, ord)}"
        "\<forall>z'. free_sum L' z' + (if z' = z then 2 ^ ord else 0) =
           free_sum (upd_list z k (?b # L z k) L) z' + (if z' = z then 2 ^ k else 0)"
      by blast
    moreover have "split_loop z p (Suc k) ord st = split_loop z p k ord (free_list_push z k ?b st)"
      using le valid by (simp add: Let_def push_bit_eq_mult)
    moreover have "free_sum (upd_list z k (?b # L z k) L) z' = free_sum L z' + (if z' = z then 2 ^ k else 0)"
      for z' using k(1) by (intro free_sum_cons) simp
    ultimately show ?thesis by (intro exI [of _ L']) simp
  qed
qed

section \<open>Allocation\<close>

lemma find_order_spec:
  "(\<forall>j. found \<le> j \<and> j < find_order zn found \<longrightarrow> z_free_list zn j = None) \<and>
   found \<le> find_order zn found \<and>
   (find_order zn found \<le> PMM_MAX_ORDER \<longrightarrow> z_free_list zn (find_order zn found) \<noteq> None)"
proof (induction zn found rule: find_order.induct)
  case (1 zn found)
  show ?case
  proof (cases "found \<le> PMM_MAX_ORDER \<and> z_free_list zn found = None")
    case True
    have "z_free_list zn j = None" if "found \<le> j" "j < find_order zn (Suc found)" for j
      using that True 1 by (cases "j = found") auto
    then show ?thesis using 1 True by (subst (1 2 3 4) find_order.simps) auto
  next
    case False
    then show ?thesis by (subst (1 2 3 4) find_order.simps) auto
  qed
qed

text \<open>The state in which an allocation ends, and the block it returns.\<close>

lemma buddy_alloc_binv:
  assumes inv: "binv M st L A {}"
  shows "(\<forall>k\<ge>ord. L z k = []) \<and> buddy_alloc z ord st = (0, st) \<or>
    (\<exists>p L'. buddy_alloc z ord st = (pfn_to_phys p, snd (buddy_alloc z ord st)) \<and>
       zone_pfn p = z \<and> block_ok (total_page_frames st) (p, ord) \<and>
       span (p, ord) \<subseteq> M - pages A \<and>
       binv M (snd (buddy_alloc z ord st)) L' (insert (p, ord) A) {} \<and>
       (\<forall>z'. free_sum L' z' + (if z' = z then 2 ^ ord else 0) = free_sum L z') \<and>
       pmm_ready (snd (buddy_alloc z ord st)) = pmm_ready st \<and>
       total_page_frames (snd (buddy_alloc z ord st)) = total_page_frames st)"
proof -
  note D = binvD [OF inv]
  note LD = lists_okD [OF D(1)]
  let ?f = "find_order (zones st z) ord"
  note fo = find_order_spec [of ord "zones st z"]
  show ?thesis
  proof (cases "?f > PMM_MAX_ORDER")
    case True
    have "L z k = []" if "ord \<le> k" for k
    proof (cases "k < ?f")
      case True
      then have "z_free_list (zones st z) k = None" using fo that by blast
      then show ?thesis using dll_head [OF LD(1) [of z k]] by (auto split: list.splits)
    next
      case False
      then have "\<not> k \<le> PMM_MAX_ORDER" using \<open>?f > PMM_MAX_ORDER\<close> by simp
      then show ?thesis using LD(5) [of _ z k] by (cases "L z k") auto
    qed
    then show ?thesis using True by (simp add: buddy_alloc_def)
  next
    case False
    then have le: "?f \<le> PMM_MAX_ORDER" "ord \<le> ?f" using fo by auto
    then obtain p where p: "z_free_list (zones st z) ?f = Some p" using fo by auto
    then obtain xs where xs: "L z ?f = p # xs"
      using dll_head [OF LD(1) [of z ?f]] by (auto split: list.splits)
    let ?st1 = "free_list_pop z ?f p st" and ?L1 = "upd_list z ?f xs L"
    have z: "z = zone_pfn p" using D(8) [of p z ?f] xs by simp
    have s1: "binv M ?st1 ?L1 A {(p, ?f)}" using binv_pop [OF inv xs] .
    have sum1: "free_sum ?L1 z' + (if z' = z then 2 ^ ?f else 0) = free_sum L z'" for z'
      using free_sum_uncons [of ?f L z xs z'] le(1) xs by simp
    let ?st2 = "split_loop z p ?f ord ?st1"
    obtain L2 where s2: "binv M ?st2 L2 A {(p, ord)}"
      "\<forall>z'. free_sum L2 z' + (if z' = z then 2 ^ ord else 0) =
         free_sum ?L1 z' + (if z' = z then 2 ^ ?f else 0)"
      using split_loop_binv [OF s1 le(2) z] by blast
    let ?st3 = "upd_page p (\<lambda>pg. pg\<lparr>pg_flags := pg_flags pg AND NOT PAGE_FLAG_FREE,
                                    pg_order := ord, pg_ref_count := 1\<rparr>) ?st2"
    have s3: "binv M ?st3 L2 (insert (p, ord) A) {}"
      using binv_alloc [OF s2(1), of p ord] by (simp add: and.assoc)
    have eq: "buddy_alloc z ord st = (pfn_to_phys p, ?st3)"
      using False p by (simp add: buddy_alloc_def Let_def)
    have ok: "block_ok (total_page_frames st) (p, ord)"
      using binv_block(1) [OF s2(1), of "(p, ord)"] by (simp add: frame_simps pop_fields)
    have "span (p, ord) \<inter> pages A = {}"
    proof -
      have "x \<notin> span b" if "x \<in> span (p, ord)" "b \<in> A" for x b
        using blocks_ok_same [OF binvD(2) [OF s2(1)], of "(p, ord)" b x] that
          binvD(4) [OF s2(1)] by blast
      then show ?thesis unfolding pages_def by blast
    qed
    then have "span (p, ord) \<subseteq> M - pages A"
      using binv_block(2) [OF s2(1), of "(p, ord)"] by blast
    then show ?thesis
      using eq z ok s3 s2(2) sum1
      by (intro disjI2 exI [of _ p] exI [of _ L2]) (simp add: frame_simps pop_fields)
  qed
qed

section \<open>Merging\<close>

text \<open>A page that is flagged free, has the order of the held block and is its buddy is on the free
  list of that order: it can be unlinked from there.\<close>

lemma buddy_on_list:
  assumes inv: "binv M st L A {(p, k)}" and k: "k < PMM_MAX_ORDER"
    and b: "is_free st (buddy_pfn p k)" "pg_order (page_array st (buddy_pfn p k)) = k"
  shows "buddy_pfn p k \<in> set (L (zone_pfn p) k)"
proof -
  note D = binvD [OF inv]
  let ?b = "buddy_pfn p k" and ?B = "free_blocks L \<union> A \<union> {(p, k)}"
  have dvd: "2 ^ k dvd p" using binv_block(1) [OF inv, of "(p, k)"] by (simp add: block_ok_def)
  have "?b \<in> pages ?B" using D(5,6) b(1) by simp
  then obtain q m where q: "(q, m) \<in> ?B" "?b \<in> span (q, m)"
    unfolding pages_def by (metis UN_iff surj_pair)
  have "q = ?b" using buddy_is_head [OF D(2) _ k q] by simp
  then have "(?b, m) \<in> ?B" using q(1) by simp
  moreover have "?b \<noteq> p" using buddy_halves(4) [OF dvd] .
  moreover have "(?b, m) \<notin> A" using D(7) b(1) by blast
  ultimately obtain z where z: "?b \<in> set (L z m)" by (auto simp: in_free_blocks)
  then have "m = k" "z = zone_pfn ?b" using lists_okD(6) [OF D(1) z] b(2) D(8) [OF z] by auto
  then show ?thesis using z zone_pfn_buddy [OF dvd k] by simp
qed

lemma merge_loop_frame [frame_simps]:
  "total_page_frames (snd (snd (merge_loop z p k st))) = total_page_frames st"
  "pmm_ready (snd (snd (merge_loop z p k st))) = pmm_ready st"
proof (induction z p k st rule: merge_loop.induct)
  case (1 z p k st)
  {
    case 1 show ?case using "1.IH"(1) by (subst merge_loop.simps) (auto simp: Let_def unlink_fields)
  next
    case 2 show ?case using "1.IH"(2) by (subst merge_loop.simps) (auto simp: Let_def unlink_fields)
  }
qed

lemma merge_loop_binv:
  assumes "binv M st L A {(p, k)}" "z = zone_pfn p" "merge_loop z p k st = (p', k', st')"
  shows "zone_pfn p' = z \<and> (\<exists>L'. binv M st' L' A {(p', k')} \<and>
    (\<forall>z'. free_sum L' z' + (if z' = z then 2 ^ k' else 0) =
          free_sum L z' + (if z' = z then 2 ^ k else 0)))"
  using assms
proof (induction z p k st arbitrary: L rule: merge_loop.induct)
  case (1 z p k st)
  note inv = "1.prems"(1)
  let ?b = "buddy_pfn p k"
  show ?case
  proof (cases "k < PMM_MAX_ORDER \<and> pfn_valid st ?b \<and> is_free st ?b \<and> pg_order (page_array st ?b) = k")
    case False
    then have "(p', k', st') = (p, k, st)"
      using "1.prems"(3) by (subst (asm) merge_loop.simps) (auto simp: Let_def split: if_splits)
    then show ?thesis using "1.prems"(1,2) by auto
  next
    case True
    let ?st1 = "free_list_unlink z k ?b st" and ?L1 = "upd_list z k (remove1 ?b (L z k)) L"
    let ?m = "if ?b < p then ?b else p"
    have m: "?m = min p ?b" by (auto simp: min_def)
    have b: "?b \<in> set (L z k)" using buddy_on_list [OF inv] True "1.prems"(2) by simp
    have dvd: "2 ^ k dvd p" using binv_block(1) [OF inv, of "(p, k)"] by (simp add: block_ok_def)
    have "binv M ?st1 ?L1 A {(p, k), (?b, k)}"
      using binv_unlink [OF inv b] by (simp add: insert_commute)
    then have s1: "binv M ?st1 ?L1 A {(?m, Suc k)}"
      using True m by (simp only: binv_merge)
    have zm: "z = zone_pfn ?m"
      using zone_pfn_buddy [OF dvd] True "1.prems"(2) by auto
    have rec: "merge_loop z ?m (Suc k) ?st1 = (p', k', st')"
      using "1.prems"(3) True by (subst (asm) merge_loop.simps) (simp add: Let_def)
    have sum1: "free_sum ?L1 z' + (if z' = z then 2 ^ k else 0) = free_sum L z'" for z'
      using b True length_pos_if_in_set [OF b] by (intro free_sum_uncons) (auto simp: length_remove1)
    have sum2: "free_sum ?L1 z' + (if z' = z then 2 ^ Suc k else 0) =
        free_sum L z' + (if z' = z then 2 ^ k else 0)" for z'
      using sum1 [of z'] by auto
    show ?thesis
      using "1.IH" [OF _ refl _ _ s1 zm rec] True unfolding sum2 by blast
  qed
qed

section \<open>Freeing\<close>

lemma buddy_free_binv:
  assumes inv: "binv M st L A {}" and p: "(p, ord) \<in> A" and z: "z = zone_pfn p"
  shows "\<exists>L'. binv M (buddy_free z (pfn_to_phys p) ord st) L' (A - {(p, ord)}) {} \<and>
    (\<forall>z'. free_sum L' z' = free_sum L z' + (if z' = z then 2 ^ ord else 0)) \<and>
    pmm_ready (buddy_free z (pfn_to_phys p) ord st) = pmm_ready st \<and>
    total_page_frames (buddy_free z (pfn_to_phys p) ord st) = total_page_frames st"
proof -
  let ?st1 = "upd_page p (\<lambda>pg. pg\<lparr>pg_ref_count := 0\<rparr>) st"
  have ok: "block_ok (total_page_frames st) (p, ord)" using binv_block(1) [OF inv] p by blast
  then have lt: "p < total_page_frames st"
    unfolding block_ok_def by (auto intro: less_le_trans [rotated])
  then have "p < 2 ^ 20" using binvD(9) [OF inv] by (simp add: PAGE_ARRAY_LEN_def)
  then have pfn: "phys_to_pfn (pfn_to_phys p) = p" by (rule phys_to_pfn_inverse)
  have s1: "binv M ?st1 L (A - {(p, ord)}) {(p, ord)}"
    using binv_take [OF inv p] by simp
  obtain p' k' st' where m: "merge_loop z p ord ?st1 = (p', k', st')"
    using prod_cases3 by blast
  from merge_loop_binv [OF s1 z m] obtain L2 where
    s2: "zone_pfn p' = z" "binv M st' L2 (A - {(p, ord)}) {(p', k')}"
      "\<forall>z'. free_sum L2 z' + (if z' = z then 2 ^ k' else 0) =
         free_sum L z' + (if z' = z then 2 ^ ord else 0)" by blast
  have k': "k' \<le> PMM_MAX_ORDER"
    using binv_block(1) [OF s2(2), of "(p', k')"] by (simp add: block_ok_def)
  have s3: "binv M (free_list_push z k' p' st') (upd_list z k' (p' # L2 z k') L2) (A - {(p, ord)}) {}"
    using binv_push [OF s2(2), of p' k' z] s2(1) by simp
  have eq: "buddy_free z (pfn_to_phys p) ord st = free_list_push z k' p' st'"
    using lt m by (simp add: buddy_free_def Let_def pfn pfn_valid_def)
  have "st' = snd (snd (merge_loop z p ord ?st1))" using m by simp
  then have fr: "pmm_ready st' = pmm_ready st" "total_page_frames st' = total_page_frames st"
    by (simp_all add: frame_simps)
  show ?thesis
    using s3 s2(3) fr free_sum_cons [OF k', of z p' L2]
    by (intro exI [of _ "upd_list z k' (p' # L2 z k') L2"]) (simp add: eq push_fields)
qed

section \<open>The public operations\<close>

lemma block_phys:
  assumes "block_ok n (p, k)" "n \<le> PAGE_ARRAY_LEN"
  shows "p < 2 ^ 20" "pfn_to_phys p \<noteq> 0" "phys_to_pfn (pfn_to_phys p) = p"
    "select_zone (pfn_to_phys p) = zone_pfn p" "unat (pfn_to_phys p) = 4096 * p"
proof -
  have "p < n" using assms(1) unfolding block_ok_def by (auto intro: less_le_trans [rotated])
  then show p: "p < 2 ^ 20" using assms(2) by (simp add: PAGE_ARRAY_LEN_def)
  then show u: "unat (pfn_to_phys p) = 4096 * p" by (rule unat_pfn_to_phys)
  have "0 < p" using assms(1) by (simp add: block_ok_def)
  then show "pfn_to_phys p \<noteq> 0" using u by (metis mult_eq_0_iff unat_0 not_gr_zero zero_neq_numeral)
  show "phys_to_pfn (pfn_to_phys p) = p" using p by (rule phys_to_pfn_inverse)
  then show "select_zone (pfn_to_phys p) = zone_pfn p" by (simp add: select_zone_pfn)
qed

text \<open>The block an allocation returns, if the two zones it may use have one.\<close>

definition alloc_result :: "nat set \<Rightarrow> pmm \<Rightarrow> lists \<Rightarrow> (nat \<times> nat) set \<Rightarrow> nat \<Rightarrow> u32 \<times> pmm \<Rightarrow> bool" where
  "alloc_result M st L A ord res \<longleftrightarrow>
     (case res of (f, st') \<Rightarrow>
       (if f = 0 then st' = st \<and> (\<forall>z\<in>{NORMAL, DMA}. \<forall>k\<ge>ord. L z k = [])
        else block_ok (total_page_frames st) (phys_to_pfn f, ord) \<and>
          f = pfn_to_phys (phys_to_pfn f) \<and> span (phys_to_pfn f, ord) \<subseteq> M - pages A \<and>
          zone_pfn (phys_to_pfn f) \<in> {NORMAL, DMA} \<and> pmm_ready st' = pmm_ready st \<and>
          total_page_frames st' = total_page_frames st \<and>
          (\<exists>L'. binv M st' L' (insert (phys_to_pfn f, ord) A) {} \<and>
             (\<forall>z. free_sum L' z + (if z = zone_pfn (phys_to_pfn f) then 2 ^ ord else 0) =
                  free_sum L z))))"

lemma pmm_alloc_pages_spec:
  assumes inv: "binv M st L A {}" and "pmm_ready st"
  shows "alloc_result M st L A ord (pmm_alloc_pages ord st)"
proof -
  have one: "(\<forall>k\<ge>ord. L z k = []) \<and> buddy_alloc z ord st = (0, st) \<or>
      fst (buddy_alloc z ord st) \<noteq> 0 \<and> alloc_result M st L A ord (buddy_alloc z ord st)"
    if "z \<in> {NORMAL, DMA}" for z
  proof -
    from buddy_alloc_binv [OF inv, of ord z] show ?thesis
    proof (elim disjE exE conjE)
      fix p L'
      assume a: "buddy_alloc z ord st = (pfn_to_phys p, snd (buddy_alloc z ord st))"
        "zone_pfn p = z" "block_ok (total_page_frames st) (p, ord)"
        "span (p, ord) \<subseteq> M - pages A"
        "binv M (snd (buddy_alloc z ord st)) L' (insert (p, ord) A) {}"
        "\<forall>z'. free_sum L' z' + (if z' = z then 2 ^ ord else 0) = free_sum L z'"
        "pmm_ready (snd (buddy_alloc z ord st)) = pmm_ready st"
        "total_page_frames (snd (buddy_alloc z ord st)) = total_page_frames st"
      note ph = block_phys [OF a(3) binvD(9) [OF inv]]
      have "alloc_result M st L A ord (pfn_to_phys p, snd (buddy_alloc z ord st))"
        unfolding alloc_result_def prod.case ph(3) a(2)
        using a(3,4,7,8) ph(2) that a(5,6) by (simp only: if_False) blast
      then show ?thesis using a(1) ph(2) by (metis fst_conv)
    qed simp
  qed
  show ?thesis
  proof (cases "fst (buddy_alloc NORMAL ord st) = 0")
    case True
    then have n: "buddy_alloc NORMAL ord st = (0, st)" "\<forall>k\<ge>ord. L NORMAL k = []"
      using one [of NORMAL] by auto
    then have "pmm_alloc_pages ord st = buddy_alloc DMA ord st"
      using assms(2) by (simp add: pmm_alloc_pages_def)
    moreover have "buddy_alloc DMA ord st = (0, st) \<and> (\<forall>k\<ge>ord. L DMA k = []) \<or>
        alloc_result M st L A ord (buddy_alloc DMA ord st)"
      using one [of DMA] by blast
    moreover have "alloc_result M st L A ord (0, st)" if "\<forall>k\<ge>ord. L DMA k = []"
      using that n(2) by (simp add: alloc_result_def)
    ultimately show ?thesis by auto
  next
    case False
    then have "pmm_alloc_pages ord st = buddy_alloc NORMAL ord st"
      using assms(2) by (auto simp: pmm_alloc_pages_def split: prod.splits)
    then show ?thesis using one [of NORMAL] False by auto
  qed
qed

lemma pmm_free_pages_spec:
  assumes inv: "binv M st L A {}" and "pmm_ready st" and p: "(p, ord) \<in> A"
  shows "\<exists>L'. binv M (pmm_free_pages (pfn_to_phys p) ord st) L' (A - {(p, ord)}) {} \<and>
    (\<forall>z. free_sum L' z = free_sum L z + (if z = zone_pfn p then 2 ^ ord else 0)) \<and>
    pmm_ready (pmm_free_pages (pfn_to_phys p) ord st) = pmm_ready st"
proof -
  have "block_ok (total_page_frames st) (p, ord)" using binv_block(1) [OF inv] p by blast
  note ph = block_phys [OF this binvD(9) [OF inv]]
  have "pmm_free_pages (pfn_to_phys p) ord st = buddy_free (zone_pfn p) (pfn_to_phys p) ord st"
    using ph assms(2) by (simp add: pmm_free_pages_def)
  then show ?thesis using buddy_free_binv [OF inv p refl] by auto
qed

end
