(* ===== verification/Buddy_Init.thy ===== *)
theory Buddy_Init
  imports Buddy_Ops
begin

text \<open>
  \<^verbatim>\<open>pmm_init\<close> establishes the invariant: the pages of the usable regions are first held
  one by one, then gathered into the largest aligned blocks that fit and put on the lists.  Also
  the counters: the number of free pages the lists count is the number of pages in free blocks.
\<close>

section \<open>The free counter\<close>

lemma pages_card:
  assumes "finite B" "blocks_ok n B"
  shows "card (pages B) = (\<Sum>b\<in>B. 2 ^ snd b)"
proof -
  have "card (pages B) = (\<Sum>b\<in>B. card (span b))"
    unfolding pages_def
  proof (rule card_UN_disjoint [OF assms(1)])
    show "\<forall>b\<in>B. finite (span b)" by auto
    show "\<forall>b\<in>B. \<forall>b'\<in>B. b \<noteq> b' \<longrightarrow> span b \<inter> span b' = {}"
      using assms(2) unfolding blocks_ok_def pairwise_def by blast
  qed
  also have "\<dots> = (\<Sum>b\<in>B. 2 ^ snd b)" by (intro sum.cong) auto
  finally show ?thesis .
qed

lemma finite_blocks: "blocks_ok n B \<Longrightarrow> finite B"
proof (rule finite_subset)
  assume "blocks_ok n B"
  then show "B \<subseteq> {..n} \<times> {..PMM_MAX_ORDER}" by (auto simp: blocks_ok_def block_ok_def)
qed simp

lemma UNIV_zone: "(UNIV :: zone_id set) = {DMA, NORMAL, HIGHMEM}"
  by (auto intro: zone_id.exhaust)

lemma free_sum_card:
  assumes "binv M st L A H"
  shows "(\<Sum>z\<in>{DMA, NORMAL, HIGHMEM}. free_sum L z) = card (pages (free_blocks L))"
proof -
  note D = binvD [OF assms]
  note LD = lists_okD [OF D(1)]
  let ?I = "{DMA, NORMAL, HIGHMEM} \<times> {..PMM_MAX_ORDER}"
  let ?F = "\<lambda>(z, k). (\<lambda>p. (p, k)) ` set (L z k)"
  have ok: "blocks_ok (total_page_frames st) (free_blocks L)"
    using D(2) by (rule blocks_ok_subset) blast
  have FB: "free_blocks L = (\<Union>i\<in>?I. ?F i)"
  proof (intro set_eqI iffI)
    fix b assume "b \<in> free_blocks L"
    then obtain p k z where b: "b = (p, k)" "p \<in> set (L z k)" by (auto simp: free_blocks_def)
    then have "(z, k) \<in> ?I" using LD(5) UNIV_zone by auto
    then show "b \<in> (\<Union>i\<in>?I. ?F i)" using b by (rule_tac UN_I) auto
  qed (auto simp: free_blocks_def)
  have "(\<Sum>b\<in>free_blocks L. 2 ^ snd b) = (\<Sum>i\<in>?I. \<Sum>b\<in>?F i. 2 ^ snd b)"
    unfolding FB
  proof (rule sum.UNION_disjoint)
    show "\<forall>i\<in>?I. \<forall>j\<in>?I. i \<noteq> j \<longrightarrow> ?F i \<inter> ?F j = {}"
    proof (intro ballI impI)
      fix i j :: "zone_id \<times> nat" assume "i \<noteq> j"
      then show "?F i \<inter> ?F j = {}" using LD(7) by (cases i; cases j) auto
    qed
  qed auto
  also have "\<dots> = (\<Sum>(z, k)\<in>?I. 2 ^ k * length (L z k))"
  proof (rule sum.cong [OF refl])
    fix i assume "i \<in> ?I"
    obtain z k where i: "i = (z, k)" by (cases i)
    have "(\<Sum>b\<in>?F i. (2::nat) ^ snd b) = (\<Sum>p\<in>set (L z k). 2 ^ k)"
      unfolding i by (simp add: sum.reindex inj_on_def)
    also have "\<dots> = 2 ^ k * length (L z k)"
      using distinct_card [OF LD(2) [of z k]] by simp
    finally show "(\<Sum>b\<in>?F i. 2 ^ snd b) = (case i of (z, k) \<Rightarrow> 2 ^ k * length (L z k))"
      by (simp add: i)
  qed
  also have "\<dots> = (\<Sum>z\<in>{DMA, NORMAL, HIGHMEM}. free_sum L z)"
    by (simp only: sum.cartesian_product [symmetric] free_sum_def)
  finally show ?thesis
    using pages_card [OF finite_blocks [OF ok] ok] by simp
qed

lemma pages_free_blocks:
  assumes "binv M st L A {}"
  shows "pages (free_blocks L) = M - pages A"
proof -
  note D = binvD [OF assms]
  have "x \<notin> span b'" if "b \<in> free_blocks L" "b' \<in> A" "x \<in> span b" for x b b'
    using blocks_ok_same [OF D(2), of b b' x] that D(3) by blast
  then have "pages (free_blocks L) \<inter> pages A = {}" by (auto simp: pages_def)
  moreover have "M = pages (free_blocks L) \<union> pages A" using D(5) by (auto simp: pages_def)
  ultimately show ?thesis by blast
qed

lemma free_pages_stat:
  assumes "binv M st L A {}"
  shows "s_free_pages (pmm_get_stats st) = of_nat (card (M - pages A))"
proof -
  have "s_free_pages (pmm_get_stats st) = of_nat (\<Sum>z\<in>{DMA, NORMAL, HIGHMEM}. free_sum L z)"
    using lists_okD(4) [OF binvD(1) [OF assms]] by (simp add: pmm_get_stats_def Let_def)
  then show ?thesis by (simp only: free_sum_card [OF assms] pages_free_blocks [OF assms])
qed

section \<open>Gathering held pages into blocks\<close>

definition singles :: "nat \<Rightarrow> nat \<Rightarrow> (nat \<times> nat) set" where
  "singles s e = (\<lambda>q. (q, 0)) ` {s..<e}"

lemma pages_singles [simp]: "pages (singles s e) = {s..<e}"
  by (auto simp: pages_def singles_def)

lemma singles_split: "s \<le> m \<Longrightarrow> m \<le> e \<Longrightarrow> singles s e = singles s m \<union> singles m e"
  by (auto simp: singles_def image_Un [symmetric] ivl_disj_un)

lemma range_order_spec:
  "range_order p e k \<le> k \<and> 2 ^ range_order p e k dvd p \<and> (p < e \<longrightarrow> p + 2 ^ range_order p e k \<le> e)"
proof (induction p e k rule: range_order.induct)
  case (2 p e k)
  have "p AND (push_bit (Suc k) 1 - 1) = p mod 2 ^ Suc k"
    by (simp only: push_bit_of_1 mask_eq_exp_minus_1 [symmetric] take_bit_eq_mask [symmetric]
        take_bit_eq_mod)
  then show ?case using 2 by (auto simp: push_bit_of_1 mod_eq_0_iff_dvd)
qed simp

lemma binv_gather:
  assumes inv: "binv M st L A (singles p e \<union> H)" and dj: "singles p e \<inter> H = {}"
    and k: "k \<le> PMM_MAX_ORDER" "2 ^ k dvd p" "p + 2 ^ k \<le> e"
    and tot: "e \<le> total_page_frames st"
  shows "binv M st L A (insert (p, k) (singles (p + 2 ^ k) e \<union> H))"
    and "(p, k) \<notin> singles (p + 2 ^ k) e \<union> H"
proof -
  note D = binvD [OF inv]
  let ?m = "p + 2 ^ k" and ?C = "singles p (p + 2 ^ k)"
  let ?B = "free_blocks L \<union> A \<union> (singles ?m e \<union> H)"
  have s: "singles p e = ?C \<union> singles ?m e" using k(3) by (intro singles_split) auto
  have pC: "(p, 0) \<in> ?C" by (simp add: singles_def)
  have ok: "blocks_ok (total_page_frames st) (?B \<union> ?C)"
    using D(2) unfolding s by (rule blocks_ok_subset) blast
  have cd: "?B \<inter> ?C = {}"
  proof -
    have "singles ?m e \<inter> ?C = {}" by (auto simp: singles_def)
    then show ?thesis using D(3,4) dj unfolding s by blast
  qed
  have "0 < p" using binv_block(1) [OF inv, of "(p, 0)"] pC s by (auto simp: block_ok_def)
  then have new: "blocks_ok (total_page_frames st) {(p, k)}"
    using k tot by (simp add: blocks_ok_def block_ok_def)
  have ok': "blocks_ok (total_page_frames st) (?B \<union> {(p, k)})"
    using new by (rule blocks_ok_replace [OF ok cd]) (simp only: pages_singles, simp add: pages_def)
  have nin: "(p, k) \<notin> ?B"
  proof
    assume "(p, k) \<in> ?B"
    then have "(p, k) = (p, 0)"
      using blocks_ok_same [OF ok, of "(p, k)" "(p, 0)" p] pC by auto
    then show False using \<open>(p, k) \<in> ?B\<close> cd pC by blast
  qed
  then show "(p, k) \<notin> singles ?m e \<union> H" by blast
  have "pages (insert (p, k) (singles ?m e \<union> H)) = span (p, k) \<union> pages (singles ?m e) \<union> pages H"
    by (auto simp: pages_def)
  also have "\<dots> = pages (singles p e) \<union> pages H"
    using k(3) by auto
  also have "\<dots> = pages (singles p e \<union> H)" by (auto simp: pages_def)
  finally show "binv M st L A (insert (p, k) (singles ?m e \<union> H))"
    using ok' nin D(3,4) unfolding s by (intro binv_held [OF inv]) (auto simp: Un_assoc s)
qed

lemma buddy_free_range_frame [frame_simps]:
  "total_page_frames (buddy_free_range z p e st) = total_page_frames st"
  "z_end_pfn (zones (buddy_free_range z p e st) z') = z_end_pfn (zones st z')"
proof (induction z p e st rule: buddy_free_range.induct)
  case (1 z p e st)
  {
    case 1 show ?case
      using "1.IH"(1) by (subst buddy_free_range.simps) (simp add: push_fields Let_def)
  next
    case 2 show ?case
      using "1.IH"(2) by (subst buddy_free_range.simps) (simp add: push_fields Let_def)
  }
qed

lemma buddy_free_range_binv:
  assumes "binv M st L A (singles p e \<union> H)" "singles p e \<inter> H = {}" "e \<le> total_page_frames st"
    and "\<forall>q\<in>{p..<e}. zone_pfn q = z"
  shows "\<exists>L'. binv M (buddy_free_range z p e st) L' A H"
  using assms
proof (induction z p e st arbitrary: L rule: buddy_free_range.induct)
  case (1 z p e st)
  show ?case
  proof (cases "p < e")
    case False
    then show ?thesis
      using "1.prems"(1) by (subst buddy_free_range.simps) (auto simp: singles_def)
  next
    case True
    let ?k = "range_order p e PMM_MAX_ORDER"
    have k: "?k \<le> PMM_MAX_ORDER" "2 ^ ?k dvd p" "p + 2 ^ ?k \<le> e"
      using range_order_spec [of p e PMM_MAX_ORDER] True by auto
    let ?H = "singles (p + 2 ^ ?k) e \<union> H"
    note g = binv_gather [OF "1.prems"(1,2) k "1.prems"(3)]
    have "z = zone_pfn p" using True "1.prems"(4) by auto
    then have s: "binv M (free_list_push z ?k p st) (upd_list z ?k (p # L z ?k) L) A ?H"
      using binv_push [OF g(1), of p ?k z] g(2) by simp
    have sub: "singles (p + 2 ^ ?k) e \<subseteq> singles p e" by (auto simp: singles_def)
    have "\<exists>L'. binv M (buddy_free_range z (p + push_bit ?k 1) e (free_list_push z ?k p st)) L' A H"
    proof (rule "1.IH" [OF True refl])
      show "binv M (free_list_push z ?k p st) (upd_list z ?k (p # L z ?k) L) A
          (singles (p + push_bit ?k 1) e \<union> H)"
        using s by (simp only: push_bit_of_1)
      show "singles (p + push_bit ?k 1) e \<inter> H = {}"
        using sub "1.prems"(2) by (simp only: push_bit_of_1) blast
      show "e \<le> total_page_frames (free_list_push z ?k p st)"
        using "1.prems"(3) by (simp add: push_fields)
      show "\<forall>q\<in>{p + push_bit ?k 1..<e}. zone_pfn q = z" using "1.prems"(4) by auto
    qed
    then show ?thesis using True by (subst buddy_free_range.simps) (simp add: Let_def)
  qed
qed

section \<open>Regions\<close>

text \<open>Marking fresh pages: they are managed from then on, and held one by one.\<close>

lemma fold_upd_frame [frame_simps]:
  "zones (fold (\<lambda>p. upd_page p f) ps st) = zones st"
  "total_page_frames (fold (\<lambda>p. upd_page p f) ps st) = total_page_frames st"
  "pmm_ready (fold (\<lambda>p. upd_page p f) ps st) = pmm_ready st"
  by (induction ps arbitrary: st) auto

lemma fold_upd_pages:
  assumes "\<And>pg. f (f pg) = f pg"
  shows "page_array (fold (\<lambda>p. upd_page p f) ps st) q =
    (if q \<in> set ps then f (page_array st q) else page_array st q)"
  using assms by (induction ps arbitrary: st) auto

lemma lists_ok_cong:
  assumes "lists_ok st L" "zones st' = zones st"
    and "\<And>q. q \<in> on_lists L \<Longrightarrow> page_array st' q = page_array st q \<or>
      pg_next (page_array st' q) = pg_next (page_array st q) \<and>
      pg_prev (page_array st' q) = pg_prev (page_array st q) \<and>
      pg_order (page_array st' q) = pg_order (page_array st q)"
  shows "lists_ok st' L"
proof -
  have same: "pg_next (page_array st' q) = pg_next (page_array st q) \<and>
      pg_prev (page_array st' q) = pg_prev (page_array st q) \<and>
      pg_order (page_array st' q) = pg_order (page_array st q)" if "q \<in> set (L z k)" for q z k
  proof -
    have "q \<in> on_lists L" using that by (auto simp: in_on_lists)
    from assms(3) [OF this] show ?thesis by auto
  qed
  have "page_dll (page_array st') h (L z k) = page_dll (page_array st) h (L z k)" for h z k
    using same by (intro dll_cong) blast
  then show ?thesis using assms(1) same unfolding lists_ok_def assms(2) by simp
qed

lemma binv_limits:
  assumes "binv M st L A H" "total_page_frames st \<le> n" "n \<le> PAGE_ARRAY_LEN"
  shows "binv M (st\<lparr>phys_memory_end := x, total_page_frames := n\<rparr>) L A H"
proof -
  note D = binvD [OF assms(1)]
  have "lists_ok (st\<lparr>phys_memory_end := x, total_page_frames := n\<rparr>) L"
    using D(1) by (rule lists_ok_cong) auto
  then show ?thesis
    using assms blocks_ok_mono [OF D(2) assms(2)] unfolding binv_def by (simp add: is_free_def)
qed

lemma binv_ready: "binv M st L A H \<Longrightarrow> binv M (st\<lparr>pmm_ready := b\<rparr>) L A H"
  unfolding binv_def lists_ok_def by (simp add: is_free_def)

lemma binv_total_pages:
  assumes "binv M st L A H"
  shows "binv M (upd_zone z (\<lambda>zn. zn\<lparr>z_total_pages := f zn\<rparr>) st) L A H"
  using assms unfolding binv_def lists_ok_def by (simp add: is_free_def)

lemma mark_usable_pages:
  "e \<le> PAGE_ARRAY_LEN \<Longrightarrow> page_array (mark_usable s e st) q =
    (if q \<in> {s..<e} then (page_array st q)\<lparr>pg_flags := PAGE_FLAG_FREE, pg_ref_count := 0,
                                       pg_next := None, pg_prev := None\<rparr>
     else page_array st q)"
  unfolding mark_usable_def by (subst fold_upd_pages) (simp_all add: min_def)

lemma mark_usable_frame [frame_simps]:
  "zones (mark_usable s e st) = zones st"
  "total_page_frames (mark_usable s e st) = total_page_frames st"
  by (simp_all add: mark_usable_def frame_simps)

lemma on_lists_managed: "binv M st L A H \<Longrightarrow> on_lists L \<subseteq> M"
proof
  fix p assume inv: "binv M st L A H" and "p \<in> on_lists L"
  then obtain k where "(p, k) \<in> free_blocks L" by (auto simp: in_on_lists in_free_blocks)
  then show "p \<in> M" using binv_block(2) [OF inv, of "(p, k)"] by auto
qed

lemma binv_mark:
  assumes inv: "binv M st L A {}" and fresh: "{s..<e} \<inter> M = {}" "0 < s"
    and tot: "e \<le> total_page_frames st"
  shows "binv (M \<union> {s..<e}) (mark_usable s e st) L A (singles s e)"
proof -
  note D = binvD [OF inv]
  let ?B = "free_blocks L \<union> A" and ?st = "mark_usable s e st"
  have le: "e \<le> PAGE_ARRAY_LEN" using tot D(9) by simp
  have B: "blocks_ok (total_page_frames st) ?B" using D(2) by simp
  have pB: "pages ?B = M" using D(5) by simp
  have out: "span b \<inter> span b' = {}" if "b \<in> ?B" "b' \<in> singles s e" for b b'
  proof -
    have "span b \<subseteq> M" "span b' \<subseteq> {s..<e}"
      using that pB by (auto simp: pages_def singles_def)
    then show ?thesis using fresh(1) by blast
  qed
  have S: "blocks_ok (total_page_frames st) (singles s e)"
    using fresh(2) tot by (auto simp: blocks_ok_def block_ok_def singles_def pairwise_def)
  have "pairwise (\<lambda>b b'. span b \<inter> span b' = {}) (?B \<union> singles s e)"
    unfolding pairwise_def
  proof (intro ballI impI)
    fix b b' assume b: "b \<in> ?B \<union> singles s e" "b' \<in> ?B \<union> singles s e" "b \<noteq> b'"
    consider "b \<in> ?B" "b' \<in> ?B" | "b \<in> singles s e" "b' \<in> singles s e"
      | "b \<in> ?B" "b' \<in> singles s e" | "b' \<in> ?B" "b \<in> singles s e" using b by blast
    then show "span b \<inter> span b' = {}"
      using B S b(3) out [of b b'] out [of b' b] unfolding blocks_ok_def pairwise_def
      by cases blast+
  qed
  then have ok: "blocks_ok (total_page_frames st) (?B \<union> singles s e)"
    using B S by (auto simp: blocks_ok_def)
  have nin: "?B \<inter> singles s e = {}"
  proof -
    have "b \<notin> singles s e" if "b \<in> ?B" for b
    proof
      assume "b \<in> singles s e"
      then have "span b = {}" using out [OF that] by blast
      then show False by (cases b) auto
    qed
    then show ?thesis by blast
  qed
  have lists: "lists_ok ?st L"
    using D(1)
  proof (rule lists_ok_cong)
    fix q assume "q \<in> on_lists L"
    then have "q \<notin> {s..<e}" using on_lists_managed [OF inv] fresh(1) by blast
    then have "page_array ?st q = page_array st q" by (simp only: mark_usable_pages [OF le] if_False)
    then show "page_array ?st q = page_array st q \<or>
      pg_next (page_array ?st q) = pg_next (page_array st q) \<and>
      pg_prev (page_array ?st q) = pg_prev (page_array st q) \<and>
      pg_order (page_array ?st q) = pg_order (page_array st q)" by blast
  qed (simp add: frame_simps)
  have isf: "is_free ?st q \<longleftrightarrow> is_free st q" if "q \<notin> {s..<e}" for q
    using that by (simp only: is_free_def mark_usable_pages [OF le] if_False)
  have flags: "\<forall>q. is_free ?st q \<longrightarrow> q \<in> M \<union> {s..<e}" using isf D(6) by blast
  have alloc: "\<not> is_free ?st p" if "(p, k) \<in> A" for p k
  proof -
    have "p \<in> M" using binv_block(2) [OF inv, of "(p, k)"] that by auto
    then have "p \<notin> {s..<e}" using fresh(1) by blast
    then show ?thesis using isf D(7) that by blast
  qed
  have cover: "pages (?B \<union> singles s e) = M \<union> {s..<e}"
    using pB pages_singles [of s e] unfolding pages_def by auto
  show ?thesis
    unfolding binv_def using lists ok nin cover flags alloc D(3,8,9)
    by (auto simp: frame_simps)
qed

section \<open>pmm_init\<close>

text \<open>The entries the loop of \<open>pmm_init\<close> skips, the pages of the others, and the memory maps it
  handles: the regions are ascending and disjoint and each starts below 16 MB and ends below
  896 MB.\<close>

definition skipped :: "mem_map_entry \<Rightarrow> bool" where
  "skipped e \<longleftrightarrow> mm_type e \<noteq> MEMTYPE_USABLE \<or> mm_base e + mm_length e \<le> 0x100000 \<or>
     region_end e \<le> region_start e"

definition region_pages :: "mem_map_entry \<Rightarrow> nat set" where
  "region_pages e =
     (if skipped e then {} else {phys_to_pfn (region_start e)..<phys_to_pfn (region_end e)})"

fun map_ok :: "nat \<Rightarrow> mem_map_entry list \<Rightarrow> bool" where
  "map_ok n [] \<longleftrightarrow> True"
| "map_ok n (e # es) \<longleftrightarrow>
     (if skipped e then map_ok n es
      else n \<le> phys_to_pfn (region_start e) \<and> phys_to_pfn (region_start e) < 4096 \<and>
        phys_to_pfn (region_end e) \<le> 229376 \<and>
        map_ok (max n (phys_to_pfn (region_end e))) es)"

lemma region_start_pos: "0 < phys_to_pfn (region_start e)"
proof -
  have "(0x100000::u32) \<le> region_start e" by (simp add: region_start_def Let_def linorder_not_less)
  then have "0x100000 \<le> unat (region_start e)" by (simp add: word_le_nat_alt)
  then show ?thesis by (simp add: phys_to_pfn_div)
qed

text \<open>What holds between two entries.\<close>

definition init_inv :: "nat set \<Rightarrow> pmm \<Rightarrow> bool" where
  "init_inv M st \<longleftrightarrow> (\<exists>L. binv M st L {} {}) \<and> M \<subseteq> {..<total_page_frames st} \<and>
     z_end_pfn (zones st DMA) = 4096 \<and> z_end_pfn (zones st NORMAL) = 229376"

lemma add_region_inv:
  assumes inv: "init_inv M st" and "\<not> skipped e"
    and s: "total_page_frames st \<le> phys_to_pfn (region_start e)" "phys_to_pfn (region_start e) < 4096"
    and e: "phys_to_pfn (region_end e) \<le> 229376"
  shows "init_inv (M \<union> region_pages e) (add_region e st) \<and>
    total_page_frames (add_region e st) = max (total_page_frames st) (phys_to_pfn (region_end e))"
proof -
  let ?s = "phys_to_pfn (region_start e)" and ?e = "phys_to_pfn (region_end e)"
  let ?n = "max (total_page_frames st) ?e"
  obtain L where L: "binv M st L {} {}" using inv by (auto simp: init_inv_def)
  have M: "M \<subseteq> {..<total_page_frames st}" using inv by (simp add: init_inv_def)
  have n: "?n \<le> PAGE_ARRAY_LEN" using binvD(9) [OF L] e by (simp add: PAGE_ARRAY_LEN_def)
  let ?st1 = "st\<lparr>phys_memory_end := max (phys_memory_end st) (region_end e), total_page_frames := ?n\<rparr>"
  let ?st2 = "mark_usable ?s ?e ?st1"
  have b1: "binv M ?st1 L {} {}" using L n by (intro binv_limits) auto
  have "{?s..<?e} \<inter> M = {}" using M s(1) by fastforce
  then have b2: "binv (M \<union> {?s..<?e}) ?st2 L {} (singles ?s ?e)"
    using b1 region_start_pos by (intro binv_mark) auto
  let ?m = "min ?e 4096"
  have zend: "z_end_pfn (zones ?st2 DMA) = 4096" "z_end_pfn (zones ?st2 NORMAL) = 229376"
    using inv by (simp_all add: init_inv_def frame_simps)
  have dma: "select_zone (region_start e) = DMA" using s(2) by (simp add: select_zone_pfn zone_pfn_def)
  let ?st3 = "buddy_free_range DMA ?s ?m ?st2"
  have se: "?s \<le> ?e"
    using assms(2) by (simp add: skipped_def phys_to_pfn_div word_le_nat_alt div_le_mono)
  have split: "singles ?s ?e = singles ?s ?m \<union> singles ?m ?e"
    using se s(2) by (intro singles_split) auto
  have "singles ?s ?m \<inter> singles ?m ?e = {}" by (auto simp: singles_def)
  then have "\<exists>L3. binv (M \<union> {?s..<?e}) ?st3 L3 {} (singles ?m ?e)"
    using b2 unfolding split
    by (rule_tac buddy_free_range_binv) (auto simp: frame_simps zone_pfn_def)
  then obtain L3 where b3: "binv (M \<union> {?s..<?e}) ?st3 L3 {} (singles ?m ?e)" ..
  let ?st4 = "if ?e > 4096 then buddy_free_range NORMAL 4096 ?e ?st3 else ?st3"
  have b4: "\<exists>L4. binv (M \<union> {?s..<?e}) ?st4 L4 {} {}"
  proof (cases "?e > 4096")
    case True
    then have "?m = 4096" by simp
    then have "\<exists>L4. binv (M \<union> {?s..<?e}) (buddy_free_range NORMAL 4096 ?e ?st3) L4 {} {}"
      using b3 e by (intro buddy_free_range_binv) (auto simp: frame_simps zone_pfn_def)
    then show ?thesis using True by simp
  next
    case False
    then have "singles ?m ?e = {}" by (simp add: singles_def)
    then show ?thesis using b3 False by auto
  qed
  have norm: "max ?s 4096 = 4096" "min ?e 229376 = ?e" using s(2) e by auto
  have eq: "add_region e st =
      upd_zone DMA (\<lambda>zn. zn\<lparr>z_total_pages := z_total_pages zn + of_nat (?e - ?s)\<rparr>) ?st4"
    using assms(2) s(2) zend norm
    by (auto simp: add_region_def skipped_def Let_def dma frame_simps)
  have fr: "total_page_frames ?st4 = ?n" "z_end_pfn (zones ?st4 z') = z_end_pfn (zones ?st2 z')" for z'
    by (simp_all add: frame_simps)
  obtain L4 where "binv (M \<union> {?s..<?e}) ?st4 L4 {} {}" using b4 ..
  then have "binv (M \<union> {?s..<?e}) (add_region e st) L4 {} {}"
    unfolding eq by (rule binv_total_pages)
  moreover have "region_pages e = {?s..<?e}" using assms(2) by (simp add: region_pages_def)
  moreover have "total_page_frames (add_region e st) = ?n"
    "z_end_pfn (zones (add_region e st) z') = z_end_pfn (zones ?st2 z')" for z'
    unfolding eq using fr by simp_all
  ultimately show ?thesis
    using M zend unfolding init_inv_def by (auto simp: less_max_iff_disj)
qed

lemma add_regions_inv:
  assumes "init_inv M st" "map_ok n es" "total_page_frames st \<le> n"
  shows "init_inv (M \<union> (\<Union>e\<in>set es. region_pages e)) (fold add_region es st)"
  using assms
proof (induction es arbitrary: M st n)
  case (Cons e es)
  show ?case
  proof (cases "skipped e")
    case True
    then have "add_region e st = st" "region_pages e = {}"
      by (auto simp: add_region_def skipped_def region_pages_def)
    then show ?thesis using Cons True by simp
  next
    case False
    have a: "init_inv (M \<union> region_pages e) (add_region e st)"
      "total_page_frames (add_region e st) = max (total_page_frames st) (phys_to_pfn (region_end e))"
      using add_region_inv [OF Cons.prems(1) False] Cons.prems(2,3) False by auto
    have "init_inv (M \<union> region_pages e \<union> (\<Union>e\<in>set es. region_pages e)) (fold add_region es (add_region e st))"
      using a(1)
    proof (rule Cons.IH)
      show "map_ok (max n (phys_to_pfn (region_end e))) es" using Cons.prems(2) False by simp
      show "total_page_frames (add_region e st) \<le> max n (phys_to_pfn (region_end e))"
        using a(2) Cons.prems(3) by simp
    qed
    then show ?thesis by (simp add: Un_assoc)
  qed
qed simp

lemma init_inv_start: "init_inv {} (init_zones pmm0)"
proof -
  have "binv {} (init_zones pmm0) (\<lambda>_ _. []) {} {}"
    by (simp add: binv_def lists_ok_def init_zones_def init_zone_def pmm0_def Let_def free_blocks_def
        blocks_ok_def pages_def is_free_def free_sum_def upd_zone_def pairwise_def)
  then show ?thesis
    by (auto simp: init_inv_def init_zones_def init_zone_def Let_def phys_to_pfn_div pmm0_def)
qed

text \<open>Marking the kernel's pages leaves the lists as they are, and only clears FREE flags.\<close>

lemma binv_reserve:
  assumes inv: "binv M st L A H"
  shows "binv M (reserve_kernel st) L A H"
proof -
  note D = binvD [OF inv]
  let ?f = "\<lambda>pg. pg\<lparr>pg_flags := PAGE_FLAG_KERNEL OR PAGE_FLAG_RESERVED, pg_ref_count := 1\<rparr>"
  have pa: "page_array (reserve_kernel st) q = page_array st q \<or>
      page_array (reserve_kernel st) q = ?f (page_array st q)" for q
    unfolding reserve_kernel_def by (subst (1 2) fold_upd_pages) auto
  have isf: "is_free (reserve_kernel st) q \<Longrightarrow> is_free st q" for q
    using pa [of q] by (auto simp: is_free_def PAGE_FLAG_KERNEL_def PAGE_FLAG_RESERVED_def
        PAGE_FLAG_FREE_def BIT_def)
  have fr: "zones (reserve_kernel st) = zones st"
    "total_page_frames (reserve_kernel st) = total_page_frames st"
    by (simp_all add: reserve_kernel_def frame_simps)
  show ?thesis
  proof (rule binv_move [OF inv])
    show "lists_ok (reserve_kernel st) L"
      using D(1) fr(1)
    proof (rule lists_ok_cong)
      fix q show "page_array (reserve_kernel st) q = page_array st q \<or>
        pg_next (page_array (reserve_kernel st) q) = pg_next (page_array st q) \<and>
        pg_prev (page_array (reserve_kernel st) q) = pg_prev (page_array st q) \<and>
        pg_order (page_array (reserve_kernel st) q) = pg_order (page_array st q)"
        using pa [of q] by auto
    qed
    show "\<And>p k. (p, k) \<in> A \<Longrightarrow> \<not> is_free (reserve_kernel st) p" using D(7) isf by blast
  qed (use D(3,4,8) fr(2) isf in auto)
qed

lemma pmm_init_binv:
  assumes "map_ok 0 es"
  shows "\<exists>L. binv (\<Union>e\<in>set es. region_pages e) (pmm_init es pmm0) L {} {}"
proof -
  have "init_inv ({} \<union> (\<Union>e\<in>set es. region_pages e)) (fold add_region es (init_zones pmm0))"
    using init_inv_start assms
    by (rule add_regions_inv) (simp add: init_zones_def init_zone_def pmm0_def Let_def)
  then obtain L where "binv (\<Union>e\<in>set es. region_pages e) (fold add_region es (init_zones pmm0)) L {} {}"
    by (auto simp: init_inv_def)
  from binv_ready [OF binv_reserve [OF this]] show ?thesis unfolding pmm_init_def by blast
qed

end
