(* ===== verification/Buddy_Spec.thy ===== *)
theory Buddy_Spec
  imports Buddy_Init
begin

text \<open>
  What the frame allocator promises: the two interfaces (blocks of \<open>2 ^ k\<close> frames, and single
  frames) as locales, \<^verbatim>\<open>kernel/mm/pmm.c\<close> as an instance of both, the reachable states of
  an allocator that is used through them, and the properties of these states.
\<close>

section \<open>Interfaces\<close>

text \<open>An allocator of blocks of the pages \<open>managed\<close>: \<open>inv s A\<close> says that \<open>A\<close> are the blocks handed
  out in state \<open>s\<close>.\<close>

locale block_allocator =
  fixes alloc :: "nat \<Rightarrow> 's \<Rightarrow> u32 \<times> 's"
    and release :: "u32 \<Rightarrow> nat \<Rightarrow> 's \<Rightarrow> 's"
    and inv :: "'s \<Rightarrow> (nat \<times> nat) set \<Rightarrow> bool"
    and managed :: "nat set"
  assumes alloc_some: "inv s A \<Longrightarrow> alloc k s = (f, s') \<Longrightarrow> f \<noteq> 0 \<Longrightarrow>
      inv s' (insert (phys_to_pfn f, k) A) \<and> span (phys_to_pfn f, k) \<subseteq> managed - pages A \<and>
      f = pfn_to_phys (phys_to_pfn f)"
    and alloc_none: "inv s A \<Longrightarrow> alloc k s = (0, s') \<Longrightarrow> s' = s"
    and release_inv: "inv s A \<Longrightarrow> (p, k) \<in> A \<Longrightarrow> inv (release (pfn_to_phys p) k s) (A - {(p, k)})"

text \<open>An allocator of single frames, as the virtual memory manager uses it: \<open>usable\<close> are the frames it
  manages, \<open>frame_inv s F\<close> says that \<open>F\<close> are handed out.\<close>

locale frame_allocator =
  fixes frame_alloc :: "'s \<Rightarrow> u32 \<times> 's"
    and frame_free :: "u32 \<Rightarrow> 's \<Rightarrow> 's"
    and frame_inv :: "'s \<Rightarrow> u32 set \<Rightarrow> bool"
    and usable :: "u32 \<Rightarrow> bool"
  assumes alloc_new: "frame_inv s F \<Longrightarrow> frame_alloc s = (f, s') \<Longrightarrow> f \<noteq> 0 \<Longrightarrow>
      frame_inv s' (insert f F) \<and> f \<notin> F \<and> f AND 0xFFF = 0 \<and> usable f"
    and alloc_full: "frame_inv s F \<Longrightarrow> frame_alloc s = (0, s') \<Longrightarrow> s' = s"
    and free_frame: "frame_inv s F \<Longrightarrow> f \<in> F \<Longrightarrow> frame_inv (frame_free f s) (F - {f})"
begin

text \<open>A series of allocations, and that its frames are all different.\<close>

primrec alloc_many :: "nat \<Rightarrow> 's \<Rightarrow> u32 list \<times> 's" where
  "alloc_many 0 s = ([], s)"
| "alloc_many (Suc n) s =
     (let (f, s1) = frame_alloc s; (fs, s2) = alloc_many n s1 in (if f = 0 then fs else f # fs, s2))"

lemma alloc_many_distinct:
  assumes "frame_inv s F"
  shows "frame_inv (snd (alloc_many n s)) (F \<union> set (fst (alloc_many n s))) \<and>
    distinct (fst (alloc_many n s)) \<and> set (fst (alloc_many n s)) \<inter> F = {}"
  using assms
proof (induction n arbitrary: s F)
  case (Suc n)
  obtain f s1 where f: "frame_alloc s = (f, s1)" by fastforce
  show ?case
  proof (cases "f = 0")
    case True
    then have "frame_inv s1 F" using alloc_full [OF Suc.prems, of s1] f Suc.prems by simp
    then show ?thesis using Suc.IH [of s1 F] f True by (simp add: case_prod_beta)
  next
    case False
    then have "frame_inv s1 (insert f F)" "f \<notin> F" using alloc_new [OF Suc.prems f] by auto
    then show ?thesis using Suc.IH [of s1 "insert f F"] f False by (auto simp: case_prod_beta)
  qed
qed simp

end

lemma and_4095_pfn: "f = pfn_to_phys (phys_to_pfn f) \<Longrightarrow> f AND 0xFFF = 0"
proof -
  assume f: "f = pfn_to_phys (phys_to_pfn f)"
  have m: "(0xFFF :: u32) = mask 12" by (simp add: mask_eq_exp_minus_1)
  have "pfn_to_phys n AND 0xFFF = 0" for n
    unfolding pfn_to_phys_def PAGE_SHIFT_def m by (rule bit_word_eqI) (auto simp: bit_simps)
  then show ?thesis using f by metis
qed

text \<open>A block allocator gives a frame allocator by its blocks of order 0.\<close>

definition frame_blocks :: "u32 set \<Rightarrow> (nat \<times> nat) set" where
  "frame_blocks F = (\<lambda>f. (phys_to_pfn f, 0)) ` F"

sublocale block_allocator \<subseteq> frames: frame_allocator
  "alloc 0" "\<lambda>f s. release f 0 s"
  "\<lambda>s F. inv s (frame_blocks F) \<and> (\<forall>f\<in>F. f = pfn_to_phys (phys_to_pfn f))"
  "\<lambda>f. phys_to_pfn f \<in> managed"
proof
  fix s F f s'
  assume i: "inv s (frame_blocks F) \<and> (\<forall>f\<in>F. f = pfn_to_phys (phys_to_pfn f))"
    and a: "alloc 0 s = (f, s')" "f \<noteq> 0"
  have n: "inv s' (insert (phys_to_pfn f, 0) (frame_blocks F))"
    "span (phys_to_pfn f, 0) \<subseteq> managed - pages (frame_blocks F)" "f = pfn_to_phys (phys_to_pfn f)"
    using alloc_some [of s "frame_blocks F" 0 f s'] i a by auto
  have "f \<notin> F"
  proof
    assume "f \<in> F"
    then have "phys_to_pfn f \<in> pages (frame_blocks F)" by (auto simp: pages_def frame_blocks_def)
    then show False using n(2) by auto
  qed
  moreover have "frame_blocks (insert f F) = insert (phys_to_pfn f, 0) (frame_blocks F)"
    by (simp add: frame_blocks_def)
  ultimately show "(inv s' (frame_blocks (insert f F)) \<and>
      (\<forall>f\<in>insert f F. f = pfn_to_phys (phys_to_pfn f))) \<and> f \<notin> F \<and> f AND 0xFFF = 0 \<and>
      phys_to_pfn f \<in> managed"
    using n i and_4095_pfn [OF n(3)] by auto
next
  fix s F s'
  assume i: "inv s (frame_blocks F) \<and> (\<forall>f\<in>F. f = pfn_to_phys (phys_to_pfn f))"
    and a: "alloc 0 s = (0, s')"
  show "s' = s" using alloc_none [of s "frame_blocks F" 0 s'] i a by blast
next
  fix s F f
  assume i: "inv s (frame_blocks F) \<and> (\<forall>f\<in>F. f = pfn_to_phys (phys_to_pfn f))" and f: "f \<in> F"
  have inj: "inj_on (\<lambda>f. (phys_to_pfn f, 0::nat)) F"
    using i by (metis (mono_tags, lifting) inj_onI prod.inject)
  have "(phys_to_pfn f, 0) \<in> frame_blocks F" using f by (auto simp: frame_blocks_def)
  then have "inv (release f 0 s) (frame_blocks F - {(phys_to_pfn f, 0)})"
    using release_inv [of s "frame_blocks F" "phys_to_pfn f" 0] i f by metis
  moreover have "frame_blocks (F - {f}) = frame_blocks F - {(phys_to_pfn f, 0)}"
    using inj f by (simp add: frame_blocks_def inj_on_image_set_diff)
  ultimately show "inv (release f 0 s) (frame_blocks (F - {f})) \<and>
      (\<forall>g\<in>F - {f}. g = pfn_to_phys (phys_to_pfn g))"
    using i by simp
qed

section \<open>pmm.c provides them\<close>

text \<open>The allocator manages the pages \<open>M\<close> and has handed out the blocks \<open>A\<close>.\<close>

definition pmm_inv :: "nat set \<Rightarrow> pmm \<Rightarrow> (nat \<times> nat) set \<Rightarrow> bool" where
  "pmm_inv M st A \<longleftrightarrow> pmm_ready st \<and> (\<exists>L. binv M st L A {})"

interpretation pm: block_allocator pmm_alloc_pages pmm_free_pages "pmm_inv M" M for M
proof
  fix s A k f s'
  assume i: "pmm_inv M s A" and a: "pmm_alloc_pages k s = (f, s')" "f \<noteq> 0"
  from i obtain L where L: "binv M s L A {}" "pmm_ready s" by (auto simp: pmm_inv_def)
  from pmm_alloc_pages_spec [OF L, of k] a
  show "pmm_inv M s' (insert (phys_to_pfn f, k) A) \<and> span (phys_to_pfn f, k) \<subseteq> M - pages A \<and>
      f = pfn_to_phys (phys_to_pfn f)"
    unfolding alloc_result_def pmm_inv_def using L(2) by auto
next
  fix s A k s'
  assume i: "pmm_inv M s A" and a: "pmm_alloc_pages k s = (0, s')"
  from i obtain L where L: "binv M s L A {}" "pmm_ready s" by (auto simp: pmm_inv_def)
  from pmm_alloc_pages_spec [OF L, of k] a show "s' = s" by (simp add: alloc_result_def)
next
  fix s A p k
  assume i: "pmm_inv M s A" and p: "(p, k) \<in> A"
  from i obtain L where L: "binv M s L A {}" "pmm_ready s" by (auto simp: pmm_inv_def)
  from pmm_free_pages_spec [OF L p] show "pmm_inv M (pmm_free_pages (pfn_to_phys p) k s) (A - {(p, k)})"
    unfolding pmm_inv_def using L(2) by auto
qed

definition pmm_frames :: "nat set \<Rightarrow> pmm \<Rightarrow> u32 set \<Rightarrow> bool" where
  "pmm_frames M st F \<longleftrightarrow> pmm_inv M st (frame_blocks F) \<and> (\<forall>f\<in>F. f = pfn_to_phys (phys_to_pfn f))"

interpretation pf: frame_allocator pmm_alloc_page pmm_free_page "pmm_frames M"
  "\<lambda>f. phys_to_pfn f \<in> M" for M
proof
  fix s F f s'
  assume i: "pmm_frames M s F" and a: "pmm_alloc_page s = (f, s')" "f \<noteq> 0"
  show "pmm_frames M s' (insert f F) \<and> f \<notin> F \<and> f AND 0xFFF = 0 \<and> phys_to_pfn f \<in> M"
    using pm.frames.alloc_new [of M s F f s'] i a
    unfolding pmm_frames_def pmm_alloc_page_def by blast
next
  fix s F s'
  assume i: "pmm_frames M s F" and a: "pmm_alloc_page s = (0, s')"
  show "s' = s"
    using pm.frames.alloc_full [of M s F s'] i a
    unfolding pmm_frames_def pmm_alloc_page_def by blast
next
  fix s F f
  assume i: "pmm_frames M s F" and f: "f \<in> F"
  show "pmm_frames M (pmm_free_page f s) (F - {f})"
    using pm.frames.free_frame [of M s F f] i f
    unfolding pmm_frames_def pmm_free_page_def by blast
qed

section \<open>Reachable states\<close>

text \<open>After \<open>pmm_init\<close> on a memory map, blocks are allocated and freed in any order; only
  allocated blocks are freed, with the order they were allocated with.\<close>

inductive pmm_reach :: "mem_map_entry list \<Rightarrow> pmm \<Rightarrow> (nat \<times> nat) set \<Rightarrow> bool" for es where
  pmm_start: "pmm_reach es (pmm_init es pmm0) {}"
| pmm_got: "pmm_reach es st A \<Longrightarrow> pmm_alloc_pages k st = (f, st') \<Longrightarrow> f \<noteq> 0 \<Longrightarrow>
    pmm_reach es st' (insert (phys_to_pfn f, k) A)"
| pmm_none: "pmm_reach es st A \<Longrightarrow> pmm_alloc_pages k st = (0, st') \<Longrightarrow> pmm_reach es st' A"
| pmm_freed: "pmm_reach es st A \<Longrightarrow> (p, k) \<in> A \<Longrightarrow>
    pmm_reach es (pmm_free_pages (pfn_to_phys p) k st) (A - {(p, k)})"

definition map_pages :: "mem_map_entry list \<Rightarrow> nat set" where
  "map_pages es = (\<Union>e\<in>set es. region_pages e)"

lemma pmm_start_inv: "map_ok 0 es \<Longrightarrow> pmm_inv (map_pages es) (pmm_init es pmm0) {}"
  using pmm_init_binv [of es] by (simp add: pmm_inv_def map_pages_def pmm_init_def)

lemma pmm_reach_inv:
  assumes "pmm_reach es st A" "map_ok 0 es"
  shows "pmm_inv (map_pages es) st A"
  using assms
proof (induction rule: pmm_reach.induct)
  case (pmm_got st A k f st')
  then show ?case using pm.alloc_some by blast
next
  case (pmm_none st A k st')
  then show ?case using pm.alloc_none by metis
qed (auto intro: pmm_start_inv pm.release_inv)

lemma pmm_inv_blocks:
  assumes "pmm_inv M st A"
  shows "\<forall>b\<in>A. \<forall>b'\<in>A. b \<noteq> b' \<longrightarrow> span b \<inter> span b' = {}"
    and "\<forall>(p, k)\<in>A. 2 ^ k dvd p \<and> span (p, k) \<subseteq> M"
proof -
  obtain L where L: "binv M st L A {}" using assms by (auto simp: pmm_inv_def)
  show "\<forall>b\<in>A. \<forall>b'\<in>A. b \<noteq> b' \<longrightarrow> span b \<inter> span b' = {}"
    using binvD(2) [OF L] unfolding blocks_ok_def pairwise_def by blast
  show "\<forall>(p, k)\<in>A. 2 ^ k dvd p \<and> span (p, k) \<subseteq> M"
    using binv_block [OF L] unfolding block_ok_def by fast
qed

text \<open>No page of a map that \<open>map_ok\<close> accepts is in HIGHMEM.\<close>

lemma map_ok_low: "map_ok n es \<Longrightarrow> q \<in> map_pages es \<Longrightarrow> zone_pfn q \<noteq> HIGHMEM"
proof -
  assume "map_ok n es" "q \<in> map_pages es"
  then have "q < 229376"
  proof (induction es arbitrary: n)
    case (Cons e es)
    then have "q \<in> region_pages e \<or> q \<in> map_pages es" by (simp add: map_pages_def)
    then show ?case
      using Cons.prems(1) Cons.IH by (auto simp: region_pages_def split: if_splits)
  qed (simp add: map_pages_def)
  then show ?thesis by (simp add: zone_pfn_def)
qed

lemma reserve_kernel_pages:
  "page_array (reserve_kernel st) q =
    (if phys_to_pfn 0x100000 \<le> q \<and> q < phys_to_pfn 0x200000
     then (page_array st q)\<lparr>pg_flags := PAGE_FLAG_KERNEL OR PAGE_FLAG_RESERVED, pg_ref_count := 1\<rparr>
     else page_array st q)"
  unfolding reserve_kernel_def
  by (subst fold_upd_pages) (simp_all only: set_upt atLeastLessThan_iff, simp)

text \<open>A map with one usable page, the first one behind the kernel image.\<close>

definition one_page_map :: "mem_map_entry list" where
  "one_page_map = [\<lparr>mm_base = 0x200000, mm_length = 0x1000, mm_type = MEMTYPE_USABLE\<rparr>]"

lemma one_page_region:
  "region_start (hd one_page_map) = 0x200000" "region_end (hd one_page_map) = 0x201000"
  by (simp_all add: one_page_map_def region_start_def region_end_def ALIGN_UP_def ALIGN_DOWN_def
      PAGE_SIZE_def)

lemma one_page_map_ok: "map_ok 0 one_page_map" "map_pages one_page_map = {512}"
  using one_page_region
  by (auto simp: one_page_map_def skipped_def phys_to_pfn_div map_pages_def region_pages_def)

text \<open>Its page is allocated first, and then there is none left.\<close>

definition one_page_used :: pmm where
  "one_page_used = snd (pmm_alloc_page (pmm_init one_page_map pmm0))"

lemma one_page_alloc: "pmm_alloc_page (pmm_init one_page_map pmm0) = (0x200000, one_page_used)"
proof -
  let ?st = "pmm_init one_page_map pmm0"
  obtain L where L: "binv {512} ?st L {} {}" "pmm_ready ?st"
    using pmm_start_inv [OF one_page_map_ok(1)] by (auto simp: pmm_inv_def one_page_map_ok)
  obtain f st' where f: "pmm_alloc_pages 0 ?st = (f, st')" by fastforce
  note a = pmm_alloc_pages_spec [OF L, of 0, unfolded f alloc_result_def prod.case]
  have "f \<noteq> 0"
  proof
    assume "f = 0"
    then have "\<forall>z\<in>{NORMAL, DMA}. \<forall>k. L z k = []" using a by simp
    moreover have "(512::nat) \<in> pages (free_blocks L)" using pages_free_blocks [OF L(1)] by (simp add: pages_def)
    then obtain z k p where "p \<in> set (L z k)" "512 \<in> span (p, k)"
      by (auto simp: pages_def free_blocks_def)
    moreover from this have "span (p, k) \<subseteq> {512}"
      using binv_block(2) [OF L(1), of "(p, k)"] by (auto simp: in_free_blocks)
    moreover from this have "p = 512" using span_nonempty [of p k] by blast
    ultimately show False
      using binvD(8) [OF L(1), of p z k] by (auto simp: zone_pfn_def)
  qed
  then have "span (phys_to_pfn f, 0) \<subseteq> {512}" "f = pfn_to_phys (phys_to_pfn f)" using a by auto
  then have "f = pfn_to_phys 512" by simp
  then show ?thesis
    using f by (simp add: one_page_used_def pmm_alloc_page_def pfn_to_phys_def PAGE_SHIFT_def)
qed

lemma one_page_reach: "pmm_reach one_page_map one_page_used {(512, 0)}"
  using pmm_got [OF pmm_start, where k = 0 and f = "0x200000" and st' = one_page_used] one_page_alloc
  by (simp add: pmm_alloc_page_def phys_to_pfn_div)

lemma one_page_full: "pmm_alloc_page one_page_used = (0, one_page_used)"
proof -
  have "pmm_inv {512} one_page_used {(512, 0)}"
    using pmm_reach_inv [OF one_page_reach one_page_map_ok(1)] by (simp add: one_page_map_ok)
  then obtain L where L: "binv {512} one_page_used L {(512, 0)} {}" "pmm_ready one_page_used"
    by (auto simp: pmm_inv_def)
  obtain f st' where f: "pmm_alloc_pages 0 one_page_used = (f, st')" by fastforce
  note a = pmm_alloc_pages_spec [OF L, of 0, unfolded f alloc_result_def prod.case]
  have "span (phys_to_pfn f, 0) \<noteq> {}" by auto
  then have "f = 0" using a by (auto simp: pages_def split: if_splits)
  then show ?thesis using a f by (simp add: pmm_alloc_page_def)
qed

section \<open>Properties\<close>

lemma alloc_page_full:
  assumes "map_ok 0 es" "pmm_reach es st A" "pmm_alloc_page st = (0, st')"
  shows "st' = st \<and> map_pages es = pages A"
proof -
  have "pmm_inv (map_pages es) st A" using pmm_reach_inv [OF assms(2,1)] .
  then obtain L where L: "binv (map_pages es) st L A {}" "pmm_ready st" by (auto simp: pmm_inv_def)
  from pmm_alloc_pages_spec [OF L, of 0] assms(3)
  have e: "st' = st" "\<forall>z\<in>{NORMAL, DMA}. \<forall>k. L z k = []"
    by (auto simp: alloc_result_def pmm_alloc_page_def)
  have "free_blocks L = {}"
  proof (rule ccontr)
    assume "free_blocks L \<noteq> {}"
    then obtain p k z where b: "(p, k) \<in> free_blocks L" "p \<in> set (L z k)"
      by (auto simp: free_blocks_def)
    then have "z = HIGHMEM" using e(2) by (cases z) auto
    then have "zone_pfn p = HIGHMEM" using binvD(8) [OF L(1) b(2)] by simp
    moreover have "p \<in> map_pages es" using binv_block(2) [OF L(1), of "(p, k)"] b(1) by auto
    ultimately show False using map_ok_low [OF assms(1)] by blast
  qed
  then show ?thesis using e(1) binvD(5) [OF L(1)] by simp
qed

lemma finite_map_pages: "finite (map_pages es)"
  by (simp add: map_pages_def region_pages_def)

text \<open>From every reachable state, allocating single pages as long as that succeeds hands out every page.\<close>

lemma pages_exhausted:
  assumes "map_ok 0 es" "pmm_reach es st A"
  shows "\<exists>st' A'. pmm_reach es st' A' \<and> map_pages es = pages A'"
  using assms(2)
proof (induction "card (map_pages es - pages A)" arbitrary: st A rule: less_induct)
  case less
  obtain f st' where f: "pmm_alloc_page st = (f, st')" by fastforce
  show ?case
  proof (cases "f = 0")
    case True
    then show ?thesis using alloc_page_full [OF assms(1) less.prems] f less.prems by blast
  next
    case False
    have a: "pmm_alloc_pages 0 st = (f, st')" using f by (simp add: pmm_alloc_page_def)
    let ?b = "(phys_to_pfn f, 0)"
    have r: "pmm_reach es st' (insert ?b A)" by (rule pmm_got [OF less.prems a False])
    have new: "span ?b \<subseteq> map_pages es - pages A"
      using pm.alloc_some [OF pmm_reach_inv [OF less.prems assms(1)] a False] by blast
    have "pages (insert ?b A) = span ?b \<union> pages A" by (simp add: pages_def)
    then have "map_pages es - pages (insert ?b A) \<subset> map_pages es - pages A"
      using new span_nonempty [of "phys_to_pfn f" 0] by blast
    then have "card (map_pages es - pages (insert ?b A)) < card (map_pages es - pages A)"
      by (intro psubset_card_mono) (simp_all add: finite_map_pages)
    from less.hyps [OF this r] show ?thesis .
  qed
qed

text \<open>C1. The memory map is one that \<open>map_ok\<close> accepts: its usable regions above 1 MB are ascending and
  disjoint, and each starts below 16 MB and ends below 896 MB. In every state the page allocator can
  then reach after booting, whatever the sequence of allocations and frees of allocated blocks, the
  blocks handed out are pairwise disjoint, aligned to their size, and lie inside the usable regions of
  the map: no page frame is ever given to two callers. The pages of the kernel image are frames like
  any other here (\<open>kernel_pages_handed_out\<close>), and for a region that starts above 16 MB the statement
  fails (\<open>normal_region_allocated_twice\<close>).\<close>

theorem buddy_blocks_disjoint:
  assumes "map_ok 0 es" "pmm_reach es st A"
  shows "(\<forall>b\<in>A. \<forall>b'\<in>A. b \<noteq> b' \<longrightarrow> span b \<inter> span b' = {}) \<and>
    (\<forall>(p, k)\<in>A. 2 ^ k dvd p \<and> span (p, k) \<subseteq> map_pages es)"
  using pmm_inv_blocks [OF pmm_reach_inv [OF assms(2,1)]] by blast

theorem buddy_blocks_disjoint_witness:
  "pmm_reach one_page_map one_page_used {(512, 0)} \<and> span (512, 0) \<subseteq> map_pages one_page_map"
  using buddy_blocks_disjoint [OF one_page_map_ok(1) one_page_reach] one_page_reach by auto

text \<open>C18. Completeness, on a map that \<open>map_ok\<close> accepts (ascending disjoint regions that start below 16 MB
  and end below 896 MB): a single-page allocation fails only when every page of the usable regions, the
  pages of the kernel image among them, is handed out, and then leaves the state as it was.\<close>

theorem buddy_alloc_page_complete:
  assumes "map_ok 0 es" "pmm_reach es st A" "pmm_alloc_page st = (0, st')"
  shows "st' = st \<and> map_pages es = pages A"
  by (rule alloc_page_full [OF assms])

theorem buddy_alloc_page_complete_witness:
  "pmm_alloc_page one_page_used = (0, one_page_used) \<and> map_pages one_page_map = pages {(512, 0)}"
  using buddy_alloc_page_complete [OF one_page_map_ok(1) one_page_reach one_page_full]
    one_page_full by simp

text \<open>C19. The free-page statistic never drifts: on a map that \<open>map_ok\<close> accepts, in every reachable state,
  it is the number of usable pages, those of the kernel image among them, that are in no allocated
  block (as a 32-bit number).\<close>

theorem buddy_stats_exact:
  assumes "map_ok 0 es" "pmm_reach es st A"
  shows "s_free_pages (pmm_get_stats st) = of_nat (card (map_pages es - pages A))"
  using pmm_reach_inv [OF assms(2,1)] free_pages_stat by (auto simp: pmm_inv_def)

theorem buddy_stats_exact_witness:
  "s_free_pages (pmm_get_stats one_page_used) = 0"
  using buddy_stats_exact [OF one_page_map_ok(1) one_page_reach]
  by (simp add: one_page_map_ok pages_def)

text \<open>C24. The kernel's own pages are not protected: the loop that marks them RESERVED runs after they were
  put on the free lists and does not take them off. With every map that \<open>map_ok\<close> accepts, each usable
  page between 1 MB and 2 MB is marked as the kernel's after \<open>pmm_init\<close>, and some sequence of
  allocations hands it out.\<close>

theorem kernel_pages_handed_out:
  assumes "map_ok 0 es" "q \<in> map_pages es" "phys_to_pfn 0x100000 \<le> q" "q < phys_to_pfn 0x200000"
  shows "pg_flags (page_array (pmm_init es pmm0) q) = PAGE_FLAG_KERNEL OR PAGE_FLAG_RESERVED \<and>
    (\<exists>st A. pmm_reach es st A \<and> q \<in> pages A)"
proof
  show "pg_flags (page_array (pmm_init es pmm0) q) = PAGE_FLAG_KERNEL OR PAGE_FLAG_RESERVED"
    using assms(3,4) by (simp add: pmm_init_def reserve_kernel_pages)
  show "\<exists>st A. pmm_reach es st A \<and> q \<in> pages A"
    using pages_exhausted [OF assms(1) pmm_start] assms(2) by auto
qed

definition kernel_page_map :: "mem_map_entry list" where
  "kernel_page_map = [\<lparr>mm_base = 0x100000, mm_length = 0x1000, mm_type = MEMTYPE_USABLE\<rparr>]"

theorem kernel_pages_handed_out_witness:
  "\<exists>st A. pmm_reach kernel_page_map st A \<and> 256 \<in> pages A"
proof -
  have r: "region_start (hd kernel_page_map) = 0x100000" "region_end (hd kernel_page_map) = 0x101000"
    by (simp_all add: kernel_page_map_def region_start_def region_end_def ALIGN_UP_def ALIGN_DOWN_def PAGE_SIZE_def)
  then have "map_ok 0 kernel_page_map" "256 \<in> map_pages kernel_page_map"
    by (auto simp: kernel_page_map_def skipped_def phys_to_pfn_div map_pages_def region_pages_def)
  from kernel_pages_handed_out [OF this] show ?thesis by (simp add: phys_to_pfn_div)
qed

definition normal_map :: "mem_map_entry list" where
  "normal_map = [\<lparr>mm_base = 0x1000000, mm_length = 0x1000, mm_type = MEMTYPE_USABLE\<rparr>]"

definition self_linked :: "pmm \<Rightarrow> bool" where
  "self_linked st \<longleftrightarrow> pmm_ready st \<and> z_free_list (zones st NORMAL) 0 = Some 4096 \<and>
     pg_next (page_array st 4096) = Some 4096"

lemma normal_map_state: "self_linked (pmm_init normal_map pmm0)"
proof -
  let ?e = "\<lparr>mm_base = 0x1000000, mm_length = 0x1000, mm_type = MEMTYPE_USABLE\<rparr>"
  have r: "region_start ?e = 0x1000000" "region_end ?e = 0x1001000"
    by (simp_all add: region_start_def region_end_def ALIGN_UP_def ALIGN_DOWN_def PAGE_SIZE_def)
  have o0: "range_order 4096 4097 k = 0" for k
  proof -
    have "4096 + 2 ^ range_order 4096 4097 k \<le> (4097::nat)" using range_order_spec [of 4096 4097 k] by simp
    then have "(2::nat) ^ range_order 4096 4097 k < 2 ^ 1" by simp
    then show ?thesis by (simp only: power_strict_increasing_iff)
  qed
  have f: "buddy_free_range NORMAL 4096 4097 st = free_list_push NORMAL 0 4096 st" for st
    by (subst buddy_free_range.simps, subst buddy_free_range.simps) (simp add: o0 Let_def)
  let ?st0 = "init_zones pmm0"
  let ?st2 = "mark_usable 4096 4097
      (?st0\<lparr>phys_memory_end := max (phys_memory_end ?st0) 0x1001000, total_page_frames := 4097\<rparr>)"
  let ?st3 = "free_list_push NORMAL 0 4096 (free_list_push NORMAL 0 4096 ?st2)"
  have zend: "z_end_pfn (zones ?st0 DMA) = 4096" "z_end_pfn (zones ?st0 NORMAL) = 229376"
    "total_page_frames ?st0 = 0"
    by (simp_all add: init_zones_def init_zone_def Let_def phys_to_pfn_div pmm0_def)
  have "add_region ?e ?st0 =
      upd_zone NORMAL (\<lambda>zn. zn\<lparr>z_total_pages := z_total_pages zn + of_nat (4097 - 4096)\<rparr>) ?st3"
    by (simp add: add_region_def r phys_to_pfn_div Let_def select_zone_def zend f frame_simps push_fields)
  then have s: "pmm_init normal_map pmm0 = (reserve_kernel
      (upd_zone NORMAL (\<lambda>zn. zn\<lparr>z_total_pages := z_total_pages zn + of_nat (4097 - 4096)\<rparr>) ?st3))
        \<lparr>pmm_ready := True\<rparr>"
    by (simp add: pmm_init_def normal_map_def)
  have "zones (reserve_kernel st) = zones st" for st by (simp add: reserve_kernel_def frame_simps)
  then show ?thesis
    unfolding self_linked_def s
    by (simp add: reserve_kernel_pages phys_to_pfn_div push_fields Let_def)
qed

lemma normal_map_alloc:
  assumes "self_linked st"
  shows "fst (pmm_alloc_page st) = 0x1000000" "self_linked (snd (pmm_alloc_page st))"
proof -
  have "find_order (zones st NORMAL) 0 = 0"
    using assms by (subst find_order.simps) (simp add: self_linked_def)
  then have a: "buddy_alloc NORMAL 0 st = (0x1000000, upd_page 4096
      (\<lambda>pg. pg\<lparr>pg_flags := pg_flags pg AND NOT PAGE_FLAG_FREE, pg_order := 0, pg_ref_count := 1\<rparr>)
      (free_list_pop NORMAL 0 4096 st))"
    using assms
    by (simp add: buddy_alloc_def self_linked_def Let_def pfn_to_phys_def PAGE_SHIFT_def)
  then have "pmm_alloc_page st = buddy_alloc NORMAL 0 st"
    using assms by (simp add: pmm_alloc_page_def pmm_alloc_pages_def self_linked_def)
  then show "fst (pmm_alloc_page st) = 0x1000000" "self_linked (snd (pmm_alloc_page st))"
    using a assms by (simp_all add: self_linked_def pop_fields)
qed

text \<open>A usable region that starts between 16 MB and 896 MB is put on the lists twice, once by
  its own zone's call and once by the NORMAL-zone call: from a one-page region there, two
  successive allocations return the same page.\<close>

theorem normal_region_allocated_twice:
  "let (f, st1) = pmm_alloc_page (pmm_init normal_map pmm0); (f', st2) = pmm_alloc_page st1
   in f = 0x1000000 \<and> f' = 0x1000000"
  using normal_map_alloc normal_map_state by (simp add: case_prod_beta)

end
