(* ===== verification/Vmm.thy ===== *)
theory Vmm
  imports Memory Buddy_Spec
begin

text \<open>
  \<^verbatim>\<open>kernel/mm/vmm.c\<close> and the VMM part of \<^verbatim>\<open>include/mm/mm.h\<close>: two-level x86 paging.

  The state is the memory the page tables live in, the state of the frame allocator they come
  from, and the registers the code sets.  A \<open>pgdir_t *\<close> is its address.  The code uses the
  physical address of a table as a pointer to it, so \<open>vm_ram\<close> is physical memory, seen through
  the identity mapping.  The operations take the allocator's two functions as arguments; the
  kernel's own operations are the instances for \<open>pmm_alloc_page\<close> and \<open>pmm_free_page\<close>.  The TLB
  is not part of the state: a mapping is what the tables say.
\<close>

section \<open>State and constants\<close>

record 's vm =
  vm_ram :: mem
  vm_alloc :: 's
  current_pgdir :: "u32 option"
  vm_cr3 :: u32
  vm_paging :: bool

definition PTE_PRESENT :: u32 where "PTE_PRESENT = BIT 0"
definition PTE_WRITE :: u32 where "PTE_WRITE = BIT 1"
definition PTE_USER :: u32 where "PTE_USER = BIT 2"
definition PTE_WRITETHROUGH :: u32 where "PTE_WRITETHROUGH = BIT 3"
definition PTE_NOCACHE :: u32 where "PTE_NOCACHE = BIT 4"
definition PTE_HUGE :: u32 where "PTE_HUGE = BIT 7"
definition PTE_GLOBAL :: u32 where "PTE_GLOBAL = BIT 8"
definition PTE_ADDR_MASK :: u32 where "PTE_ADDR_MASK = 0xFFFFF000"

definition PDE_INDEX :: "u32 \<Rightarrow> nat" where
  "PDE_INDEX virt = unat (drop_bit 22 virt AND 0x3FF)"

definition PTE_INDEX :: "u32 \<Rightarrow> nat" where
  "PTE_INDEX virt = unat (drop_bit 12 virt AND 0x3FF)"

definition get_entry :: "'s vm \<Rightarrow> u32 \<Rightarrow> nat \<Rightarrow> u32" where
  "get_entry st base i = load32 (vm_ram st) (entry base i)"

definition set_entry :: "u32 \<Rightarrow> nat \<Rightarrow> u32 \<Rightarrow> 's vm \<Rightarrow> 's vm" where
  "set_entry base i v st = st\<lparr>vm_ram := store32 (entry base i) v (vm_ram st)\<rparr>"

definition present :: "u32 \<Rightarrow> bool" where
  "present e \<longleftrightarrow> e AND PTE_PRESENT \<noteq> 0"

section \<open>Mapping\<close>

definition vm_get_frame :: "('s \<Rightarrow> u32 \<times> 's) \<Rightarrow> 's vm \<Rightarrow> u32 \<times> 's vm" where
  "vm_get_frame alloc st = (let (f, s) = alloc (vm_alloc st) in (f, st\<lparr>vm_alloc := s\<rparr>))"

definition alloc_page_table :: "('s \<Rightarrow> u32 \<times> 's) \<Rightarrow> 's vm \<Rightarrow> u32 option \<times> 's vm" where
  "alloc_page_table alloc st =
     (let (phys, st1) = vm_get_frame alloc st
      in if phys = 0 then (None, st1)
         else (Some phys, fold (\<lambda>i. set_entry phys i 0) [0..<1024] st1))"

definition map_page :: "('s \<Rightarrow> u32 \<times> 's) \<Rightarrow> u32 \<Rightarrow> u32 \<Rightarrow> u32 \<Rightarrow> u32 \<Rightarrow> 's vm \<Rightarrow> int \<times> 's vm" where
  "map_page alloc dir virt phys flags st =
     (let pde_idx = PDE_INDEX virt; pte_idx = PTE_INDEX virt;
          pde = get_entry st dir pde_idx;
          (pt, st1) =
            (if \<not> present pde
             then (case alloc_page_table alloc st of
                     (None, st1) \<Rightarrow> (None, st1)
                   | (Some pt, st1) \<Rightarrow>
                       (Some pt, set_entry dir pde_idx
                          ((pt AND PTE_ADDR_MASK) OR PTE_PRESENT OR PTE_WRITE OR (flags AND PTE_USER))
                          st1))
             else (Some (pde AND PTE_ADDR_MASK), st))
      in case pt of
           None \<Rightarrow> (- 1, st1)
         | Some t \<Rightarrow> (0, set_entry t pte_idx
             ((phys AND PTE_ADDR_MASK) OR PTE_PRESENT OR
              (flags AND (PTE_WRITE OR PTE_USER OR PTE_NOCACHE OR PTE_WRITETHROUGH OR PTE_GLOBAL)))
             st1))"

definition vmm_unmap_page :: "u32 \<Rightarrow> u32 \<Rightarrow> 's vm \<Rightarrow> 's vm" where
  "vmm_unmap_page dir virt st =
     (let pde = get_entry st dir (PDE_INDEX virt)
      in if \<not> present pde then st
         else set_entry (pde AND PTE_ADDR_MASK) (PTE_INDEX virt) 0 st)"

definition vmm_virt_to_phys :: "u32 \<Rightarrow> u32 \<Rightarrow> 's vm \<Rightarrow> u32" where
  "vmm_virt_to_phys dir virt st =
     (let pde = get_entry st dir (PDE_INDEX virt)
      in if \<not> present pde then 0
         else if pde AND PTE_HUGE \<noteq> 0 then (pde AND 0xFFC00000) OR (virt AND 0x003FFFFF)
         else let pte = get_entry st (pde AND PTE_ADDR_MASK) (PTE_INDEX virt)
              in if \<not> present pte then 0 else (pte AND PTE_ADDR_MASK) OR (virt AND 0xFFF))"

definition map_range ::
  "('s \<Rightarrow> u32 \<times> 's) \<Rightarrow> u32 \<Rightarrow> u32 \<Rightarrow> u32 \<Rightarrow> u32 \<Rightarrow> u32 \<Rightarrow> 's vm \<Rightarrow> 's vm" where
  "map_range alloc dir virt phys sz flags st =
     (let v = ALIGN_DOWN virt PAGE_SIZE; p = ALIGN_DOWN phys PAGE_SIZE;
          n = ALIGN_UP sz PAGE_SIZE div PAGE_SIZE
      in fold (\<lambda>i s. snd (map_page alloc dir (v + of_nat i * PAGE_SIZE) (p + of_nat i * PAGE_SIZE) flags s))
           [0..<unat n] st)"

text \<open>The loop of \<open>vmm_identity_map\<close>; None would be a loop that does not end.\<close>

partial_function (option) identity_loop ::
  "('s \<Rightarrow> u32 \<times> 's) \<Rightarrow> u32 \<Rightarrow> u32 \<Rightarrow> u32 \<Rightarrow> u32 \<Rightarrow> 's vm \<Rightarrow> 's vm option" where
  "identity_loop alloc dir s e flags st =
     (if s < e then identity_loop alloc dir (s + PAGE_SIZE) e flags (snd (map_page alloc dir s s flags st))
      else Some st)"

declare identity_loop.simps [code]

definition identity_map :: "('s \<Rightarrow> u32 \<times> 's) \<Rightarrow> u32 \<Rightarrow> u32 \<Rightarrow> u32 \<Rightarrow> u32 \<Rightarrow> 's vm \<Rightarrow> 's vm option" where
  "identity_map alloc kernel_pgdir start finish flags st =
     identity_loop alloc kernel_pgdir (ALIGN_DOWN start PAGE_SIZE) (ALIGN_UP finish PAGE_SIZE) flags st"

section \<open>Cloning and destroying a directory\<close>

definition copy_page :: "u32 \<Rightarrow> u32 \<Rightarrow> 's vm \<Rightarrow> 's vm" where
  "copy_page dp sp st =
     fold (\<lambda>k s. s\<lparr>vm_ram := (vm_ram s)(dp + of_nat k := vm_ram s (sp + of_nat k))\<rparr>)
       [0..<unat PAGE_SIZE] st"

definition clone_pte :: "('s \<Rightarrow> u32 \<times> 's) \<Rightarrow> u32 \<Rightarrow> u32 \<Rightarrow> nat \<Rightarrow> 's vm \<Rightarrow> 's vm" where
  "clone_pte alloc src_pt dst_pt j st =
     (let s_pte = get_entry st src_pt j
      in if \<not> present s_pte then set_entry dst_pt j 0 st
         else (let (new_page, st1) = vm_get_frame alloc st
               in if new_page = 0 then st1
                  else set_entry dst_pt j ((new_page AND PTE_ADDR_MASK) OR (s_pte AND 0xFFF))
                         (copy_page new_page (s_pte AND PTE_ADDR_MASK) st1)))"

definition clone_pde :: "('s \<Rightarrow> u32 \<times> 's) \<Rightarrow> u32 \<Rightarrow> u32 \<Rightarrow> nat \<Rightarrow> 's vm \<Rightarrow> 's vm" where
  "clone_pde alloc src dst i st =
     (let s_pde = get_entry st src i
      in if \<not> present s_pde then set_entry dst i 0 st
         else if i \<ge> PDE_INDEX KERNEL_BASE then set_entry dst i s_pde st
         else (let (pt_phys, st1) = vm_get_frame alloc st
               in if pt_phys = 0 then st1
                  else set_entry dst i ((pt_phys AND PTE_ADDR_MASK) OR (s_pde AND 0xFFF))
                         (fold (clone_pte alloc (s_pde AND PTE_ADDR_MASK) pt_phys) [0..<1024] st1)))"

definition clone_dir :: "('s \<Rightarrow> u32 \<times> 's) \<Rightarrow> u32 \<Rightarrow> 's vm \<Rightarrow> u32 option \<times> 's vm" where
  "clone_dir alloc src st =
     (let (phys, st1) = vm_get_frame alloc st
      in if phys = 0 then (None, st1)
         else (Some phys, fold (clone_pde alloc src phys) [0..<1024] st1))"

definition vm_put_frame :: "(u32 \<Rightarrow> 's \<Rightarrow> 's) \<Rightarrow> u32 \<Rightarrow> 's vm \<Rightarrow> 's vm" where
  "vm_put_frame free f st = st\<lparr>vm_alloc := free f (vm_alloc st)\<rparr>"

definition destroy_table :: "(u32 \<Rightarrow> 's \<Rightarrow> 's) \<Rightarrow> u32 \<Rightarrow> nat \<Rightarrow> 's vm \<Rightarrow> 's vm" where
  "destroy_table free dir i st =
     (let pde = get_entry st dir i
      in if \<not> present pde then st
         else (let pt = pde AND PTE_ADDR_MASK
               in vm_put_frame free pt
                    (fold (\<lambda>j s. let pte = get_entry s pt j
                                in if present pte then vm_put_frame free (pte AND PTE_ADDR_MASK) s else s)
                       [0..<1024] st)))"

definition destroy_dir :: "(u32 \<Rightarrow> 's \<Rightarrow> 's) \<Rightarrow> u32 \<Rightarrow> 's vm \<Rightarrow> 's vm" where
  "destroy_dir free dir st =
     vm_put_frame free dir (fold (destroy_table free dir) [0..<PDE_INDEX KERNEL_BASE] st)"

section \<open>Switching and initialisation\<close>

definition load_cr3 :: "u32 \<Rightarrow> 's vm \<Rightarrow> 's vm" where
  "load_cr3 phys st = st\<lparr>vm_cr3 := phys\<rparr>"

definition enable_paging :: "'s vm \<Rightarrow> 's vm" where
  "enable_paging st = st\<lparr>vm_paging := True\<rparr>"

definition vmm_switch_dir :: "u32 \<Rightarrow> u32 \<Rightarrow> 's vm \<Rightarrow> 's vm" where
  "vmm_switch_dir kernel_pgdir dir st =
     (let st1 = st\<lparr>current_pgdir := Some dir\<rparr>
      in load_cr3 (vmm_virt_to_phys kernel_pgdir dir st1) st1)"

text \<open>\<open>kernel_pgdir\<close> is the address the linker gives \<open>kernel_pgdir_storage\<close>.\<close>

definition vmm_init_with :: "('s \<Rightarrow> u32 \<times> 's) \<Rightarrow> u32 \<Rightarrow> 's vm \<Rightarrow> 's vm option" where
  "vmm_init_with alloc kernel_pgdir st =
     do {
       let st1 = fold (\<lambda>i. set_entry kernel_pgdir i 0) [0..<1024] st;
       st2 \<leftarrow> identity_map alloc kernel_pgdir 0 (8 * 1024 * 1024) (PTE_PRESENT OR PTE_WRITE) st1;
       st3 \<leftarrow> identity_map alloc kernel_pgdir 0xB8000 0xC0000
                (PTE_PRESENT OR PTE_WRITE OR PTE_NOCACHE) st2;
       Some ((enable_paging (load_cr3 kernel_pgdir st3))\<lparr>current_pgdir := Some kernel_pgdir\<rparr>)
     }"

section \<open>The kernel's operations: frames from pmm.c\<close>

definition vmm_map_page :: "u32 \<Rightarrow> u32 \<Rightarrow> u32 \<Rightarrow> u32 \<Rightarrow> pmm vm \<Rightarrow> int \<times> pmm vm" where
  "vmm_map_page = map_page pmm_alloc_page"

definition vmm_map_range :: "u32 \<Rightarrow> u32 \<Rightarrow> u32 \<Rightarrow> u32 \<Rightarrow> u32 \<Rightarrow> pmm vm \<Rightarrow> pmm vm" where
  "vmm_map_range = map_range pmm_alloc_page"

definition vmm_identity_map :: "u32 \<Rightarrow> u32 \<Rightarrow> u32 \<Rightarrow> u32 \<Rightarrow> pmm vm \<Rightarrow> pmm vm option" where
  "vmm_identity_map = identity_map pmm_alloc_page"

definition vmm_clone_dir :: "u32 \<Rightarrow> pmm vm \<Rightarrow> u32 option \<times> pmm vm" where
  "vmm_clone_dir = clone_dir pmm_alloc_page"

definition vmm_destroy_dir :: "u32 \<Rightarrow> pmm vm \<Rightarrow> pmm vm" where
  "vmm_destroy_dir = destroy_dir pmm_free_page"

definition vmm_init :: "u32 \<Rightarrow> pmm vm \<Rightarrow> pmm vm option" where
  "vmm_init = vmm_init_with pmm_alloc_page"

end
