(* ===== verification/Vmm_Spec.thy ===== *)
theory Vmm_Spec
  imports Vmm
begin

text \<open>
  What the page tables mean: mapping a page changes the translation of the addresses of that page
  and of no other, unmapping removes it, and the loops over ranges do so page by page.  The
  lemmas hold for every frame allocator that keeps the contract; the properties are for pmm.c.
\<close>

section \<open>Bits of an entry\<close>

lemmas pte_bits = PTE_PRESENT_def PTE_WRITE_def PTE_USER_def PTE_WRITETHROUGH_def PTE_NOCACHE_def
  PTE_HUGE_def PTE_GLOBAL_def PTE_ADDR_MASK_def BIT_def

lemma present_iff: "present e \<longleftrightarrow> odd e"
  by (simp add: present_def pte_bits and_one_eq even_iff_mod_2_eq_zero)

lemma table_aligned [simp]: "4096 dvd unat (e AND PTE_ADDR_MASK)"
proof -
  have m: "PTE_ADDR_MASK = NOT (2 ^ 12 - 1)" by (simp add: PTE_ADDR_MASK_def)
  have "unat (e AND PTE_ADDR_MASK) = unat e div 2 ^ 12 * 2 ^ 12"
    unfolding m by (rule unat_and_not_mask)
  then show ?thesis by simp
qed

lemma mask_aligned: "4096 dvd unat e \<Longrightarrow> e AND PTE_ADDR_MASK = e"
proof -
  assume a: "4096 dvd unat e"
  have m: "PTE_ADDR_MASK = NOT (2 ^ 12 - 1)" by (simp add: PTE_ADDR_MASK_def)
  have "unat (e AND PTE_ADDR_MASK) = unat e div 2 ^ 12 * 2 ^ 12"
    unfolding m by (rule unat_and_not_mask)
  then have "unat (e AND PTE_ADDR_MASK) = unat e" using a by simp
  then show ?thesis by simp
qed

text \<open>An address part and flags below it can be told apart.\<close>

lemma entry_parts:
  assumes "fl AND PTE_ADDR_MASK = 0"
  shows "((a AND PTE_ADDR_MASK) OR fl) AND PTE_ADDR_MASK = a AND PTE_ADDR_MASK"
  using assms by (simp add: bit.conj_disj_distrib2 and.assoc)

lemma new_pde:
  fixes pt flags
  defines "e \<equiv> (pt AND PTE_ADDR_MASK) OR PTE_PRESENT OR PTE_WRITE OR (flags AND PTE_USER)"
  shows "present e" "e AND PTE_ADDR_MASK = pt AND PTE_ADDR_MASK" "e AND PTE_HUGE = 0"
proof -
  show "present e" by (simp add: e_def present_iff pte_bits even_or_iff)
  show "e AND PTE_ADDR_MASK = pt AND PTE_ADDR_MASK"
    unfolding e_def
    by (rule entry_parts) (simp add: pte_bits bit.conj_disj_distrib2 and.assoc)
  show "e AND PTE_HUGE = 0"
    by (simp add: e_def pte_bits bit.conj_disj_distrib2 and.assoc)
qed

lemma new_pte:
  fixes phys flags
  defines "e \<equiv> (phys AND PTE_ADDR_MASK) OR PTE_PRESENT OR
      (flags AND (PTE_WRITE OR PTE_USER OR PTE_NOCACHE OR PTE_WRITETHROUGH OR PTE_GLOBAL))"
  shows "present e" "e AND PTE_ADDR_MASK = phys AND PTE_ADDR_MASK"
proof -
  show "present e" by (simp add: e_def present_iff pte_bits even_or_iff)
  show "e AND PTE_ADDR_MASK = phys AND PTE_ADDR_MASK"
    unfolding e_def
    by (rule entry_parts) (simp add: pte_bits bit.conj_disj_distrib2 and.assoc)
qed

text \<open>The indices of an address.\<close>

lemma and_1023: "unat (x AND (0x3FF :: u32)) = unat x mod 1024"
proof -
  have m: "(0x3FF::u32) = mask 10" by (simp add: mask_eq_exp_minus_1)
  have "unat (x AND 0x3FF) = take_bit 10 (unat x)"
    unfolding m take_bit_eq_mask [symmetric] by (simp only: unsigned_take_bit_eq)
  then show ?thesis by (simp add: take_bit_eq_mod)
qed

lemma PDE_INDEX_unat: "PDE_INDEX v = unat v div 4194304"
proof -
  have "unat v div 4194304 < 1024" by (simp add: less_mult_imp_div_less)
  then show ?thesis
    unfolding PDE_INDEX_def and_1023 by (simp add: drop_bit_eq_div unat_div)
qed

lemma PTE_INDEX_unat: "PTE_INDEX v = unat v div 4096 mod 1024"
  unfolding PTE_INDEX_def and_1023 by (simp add: drop_bit_eq_div unat_div)

lemma index_bounds [simp]: "PDE_INDEX v < 1024" "PTE_INDEX v < 1024"
  by (simp_all add: PDE_INDEX_unat PTE_INDEX_unat less_mult_imp_div_less)

lemma same_page_iff:
  "PDE_INDEX v = PDE_INDEX w \<and> PTE_INDEX v = PTE_INDEX w \<longleftrightarrow> frame_of v = frame_of w"
proof -
  have "PDE_INDEX x = frame_of x div 1024" "PTE_INDEX x = frame_of x mod 1024" for x
    by (simp_all add: PDE_INDEX_unat PTE_INDEX_unat frame_of_def div_mult2_eq [symmetric])
  then show ?thesis by (metis mult_div_mod_eq)
qed

section \<open>Entries after a write\<close>

lemma get_set_entry:
  assumes "4096 dvd unat f" "4096 dvd unat g" "i < 1024" "j < 1024"
  shows "get_entry (set_entry g j v st) f i = (if f = g \<and> i = j then v else get_entry st f i)"
  using load_store_entry [OF assms, of v "vm_ram st"] by (simp add: get_entry_def set_entry_def)

lemma set_entry_frame [frame_simps, simp]:
  "vm_alloc (set_entry g j v st) = vm_alloc st" "current_pgdir (set_entry g j v st) = current_pgdir st"
  "vm_cr3 (set_entry g j v st) = vm_cr3 st" "vm_paging (set_entry g j v st) = vm_paging st"
  by (simp_all add: set_entry_def)

lemma zero_table_alloc [simp]: "vm_alloc (fold (\<lambda>i. set_entry f i 0) is st) = vm_alloc st"
  by (induction "is" arbitrary: st) auto

lemma zero_table:
  assumes "4096 dvd unat f" "4096 dvd unat g" "i < 1024" "\<forall>j\<in>set js. j < 1024"
  shows "get_entry (fold (\<lambda>i. set_entry f i 0) js st) g i =
    (if g = f \<and> i \<in> set js then 0 else get_entry st g i)"
  using assms by (induction js arbitrary: st) (auto simp: get_set_entry)

section \<open>Well-formed directories\<close>

text \<open>The tables of the directory are different frames handed out by the allocator; the directory
  itself is one too, or lies outside the memory the allocator manages.\<close>

definition wf_dir :: "(u32 \<Rightarrow> bool) \<Rightarrow> u32 set \<Rightarrow> u32 \<Rightarrow> 's vm \<Rightarrow> bool" where
  "wf_dir usable F dir st \<longleftrightarrow>
     4096 dvd unat dir \<and> (dir \<in> F \<or> \<not> usable dir) \<and>
     (\<forall>i<1024. present (get_entry st dir i) \<longrightarrow>
        get_entry st dir i AND PTE_HUGE = 0 \<and> get_entry st dir i AND PTE_ADDR_MASK \<in> F \<and>
        get_entry st dir i AND PTE_ADDR_MASK \<noteq> dir) \<and>
     (\<forall>i<1024. \<forall>j<1024. i \<noteq> j \<longrightarrow> present (get_entry st dir i) \<longrightarrow> present (get_entry st dir j) \<longrightarrow>
        get_entry st dir i AND PTE_ADDR_MASK \<noteq> get_entry st dir j AND PTE_ADDR_MASK)"

lemma wf_dirD:
  assumes "wf_dir usable F dir st"
  shows "4096 dvd unat dir" "dir \<in> F \<or> \<not> usable dir"
    "i < 1024 \<Longrightarrow> present (get_entry st dir i) \<Longrightarrow> get_entry st dir i AND PTE_HUGE = 0 \<and>
       get_entry st dir i AND PTE_ADDR_MASK \<in> F \<and> get_entry st dir i AND PTE_ADDR_MASK \<noteq> dir"
    "i < 1024 \<Longrightarrow> j < 1024 \<Longrightarrow> present (get_entry st dir i) \<Longrightarrow> present (get_entry st dir j) \<Longrightarrow>
       get_entry st dir i AND PTE_ADDR_MASK = get_entry st dir j AND PTE_ADDR_MASK \<Longrightarrow> i = j"
  using assms unfolding wf_dir_def by blast+

text \<open>The entry of a page in the table its directory entry points to.\<close>

definition page_entry :: "'s vm \<Rightarrow> u32 \<Rightarrow> nat \<Rightarrow> nat \<Rightarrow> u32" where
  "page_entry st dir i j =
     (if present (get_entry st dir i) then get_entry st (get_entry st dir i AND PTE_ADDR_MASK) j else 0)"

lemma not_present_0 [simp]: "\<not> present 0"
  by (simp add: present_def)

lemma virt_to_phys_entry:
  assumes "wf_dir usable F dir st"
  shows "vmm_virt_to_phys dir v st =
    (let pte = page_entry st dir (PDE_INDEX v) (PTE_INDEX v)
     in if present pte then (pte AND PTE_ADDR_MASK) OR (v AND 0xFFF) else 0)"
  using wf_dirD(3) [OF assms, of "PDE_INDEX v"]
  by (simp add: vmm_virt_to_phys_def page_entry_def Let_def)

text \<open>Writing an entry of a table.\<close>

lemma set_table_entry:
  fixes v :: u32
  assumes wf: "wf_dir usable F dir st" and p: "present (get_entry st dir i)" "i < 1024" "j < 1024"
  defines "st' \<equiv> set_entry (get_entry st dir i AND PTE_ADDR_MASK) j v st"
  shows "wf_dir usable F dir st'"
    and "i' < 1024 \<Longrightarrow> j' < 1024 \<Longrightarrow>
      page_entry st' dir i' j' = (if i' = i \<and> j' = j then v else page_entry st dir i' j')"
    and "k < 1024 \<Longrightarrow> get_entry st' dir k = get_entry st dir k"
proof -
  let ?t = "get_entry st dir i AND PTE_ADDR_MASK"
  note W = wf_dirD [OF wf]
  have ne: "?t \<noteq> dir" using W(3) p by blast
  have dir: "get_entry st' dir k = get_entry st dir k" if "k < 1024" for k
    using ne by (simp add: st'_def get_set_entry W(1) that p(3))
  then show "k < 1024 \<Longrightarrow> get_entry st' dir k = get_entry st dir k" .
  show "wf_dir usable F dir st'"
    using wf unfolding wf_dir_def by (simp add: dir cong: imp_cong)
  show "page_entry st' dir i' j' = (if i' = i \<and> j' = j then v else page_entry st dir i' j')"
    if ij: "i' < 1024" "j' < 1024"
  proof -
    have "get_entry st' (get_entry st dir i' AND PTE_ADDR_MASK) j' =
        (if get_entry st dir i' AND PTE_ADDR_MASK = ?t \<and> j' = j then v
         else get_entry st (get_entry st dir i' AND PTE_ADDR_MASK) j')"
      by (simp add: st'_def get_set_entry ij(2) p(3))
    moreover have "get_entry st dir i' AND PTE_ADDR_MASK = ?t \<longleftrightarrow> i' = i"
      if "present (get_entry st dir i')"
      using W(4) [OF ij(1) p(2) that p(1)] by auto
    ultimately show ?thesis using p(1,2) by (auto simp: page_entry_def dir ij)
  qed
qed

text \<open>A new, empty table for a directory entry that is not present: nothing changes.\<close>

lemma new_table:
  assumes wf: "wf_dir usable F dir st" and i: "i < 1024" "\<not> present (get_entry st dir i)"
    and f: "4096 dvd unat f" "f \<notin> F" "usable f"
    and e: "present e" "e AND PTE_ADDR_MASK = f" "e AND PTE_HUGE = 0"
  defines "st' \<equiv> set_entry dir i e (fold (\<lambda>i. set_entry f i 0) [0..<1024] st)"
  shows "wf_dir usable (insert f F) dir st'"
    and "i' < 1024 \<Longrightarrow> j' < 1024 \<Longrightarrow> page_entry st' dir i' j' = page_entry st dir i' j'"
    and "k < 1024 \<Longrightarrow> get_entry st' dir k = (if k = i then e else get_entry st dir k)"
proof -
  note W = wf_dirD [OF wf]
  let ?st1 = "fold (\<lambda>i. set_entry f i 0) [0..<1024] st"
  have ne: "f \<noteq> dir" using W(2) f(2,3) by auto
  have z: "get_entry ?st1 g k = (if g = f then 0 else get_entry st g k)"
    if "4096 dvd unat g" "k < 1024" for g k
    using that by (subst zero_table [OF f(1)]) simp_all
  have dir: "get_entry st' dir k = (if k = i then e else get_entry st dir k)" if "k < 1024" for k
    using ne unfolding st'_def by (subst get_set_entry) (simp_all add: W(1) that i(1) z)
  then show "k < 1024 \<Longrightarrow> get_entry st' dir k = (if k = i then e else get_entry st dir k)" .
  have old: "get_entry st dir k AND PTE_ADDR_MASK \<noteq> f"
    if "k < 1024" "present (get_entry st dir k)" for k
    using W(3) [OF that] f(2) by auto
  show "wf_dir usable (insert f F) dir st'"
    unfolding wf_dir_def
  proof (intro conjI allI impI)
    fix k assume k: "k < 1024" "present (get_entry st' dir k)"
    show "get_entry st' dir k AND PTE_HUGE = 0" "get_entry st' dir k AND PTE_ADDR_MASK \<in> insert f F"
      "get_entry st' dir k AND PTE_ADDR_MASK \<noteq> dir"
      using k W(3) [of k] e ne by (auto simp: dir split: if_splits)
  next
    fix k l assume k: "k < 1024" "l < 1024" "k \<noteq> l" "present (get_entry st' dir k)"
      "present (get_entry st' dir l)"
    show "get_entry st' dir k AND PTE_ADDR_MASK \<noteq> get_entry st' dir l AND PTE_ADDR_MASK"
      using k old [of k] old [of l] W(4) [of k l] e(2) by (auto simp: dir split: if_splits)
  qed (use W(1,2) in auto)
  show "page_entry st' dir i' j' = page_entry st dir i' j'" if ij: "i' < 1024" "j' < 1024"
  proof (cases "i' = i")
    case True
    have "get_entry st' f j' = 0"
      using ne unfolding st'_def by (subst get_set_entry) (simp_all add: W(1) f(1) ij(2) i(1) z)
    then show ?thesis using True i e dir by (simp add: page_entry_def)
  next
    case False
    have "get_entry st' (get_entry st dir i' AND PTE_ADDR_MASK) j' =
        get_entry st (get_entry st dir i' AND PTE_ADDR_MASK) j'" if p: "present (get_entry st dir i')"
      using W(3) [OF ij(1) p] old [OF ij(1) p] unfolding st'_def
      by (subst get_set_entry) (simp_all add: W(1) ij(2) i(1) z)
    then show ?thesis using False dir ij by (auto simp: page_entry_def)
  qed
qed

section \<open>Mapping, for any frame allocator\<close>

context frame_allocator
begin

lemma map_page_spec:
  assumes inv: "frame_inv (vm_alloc st) F" and wf: "wf_dir usable F dir st"
    and run: "map_page frame_alloc dir virt phys flags st = (r, st')"
  shows "r = - 1 \<and> frame_inv (vm_alloc st') F \<and> vm_ram st' = vm_ram st \<or>
    r = 0 \<and> (\<exists>F'. F \<subseteq> F' \<and> frame_inv (vm_alloc st') F' \<and> wf_dir usable F' dir st' \<and>
      (\<forall>v. vmm_virt_to_phys dir v st' =
         (if frame_of v = frame_of virt then (phys AND PTE_ADDR_MASK) OR (v AND 0xFFF)
          else vmm_virt_to_phys dir v st)))"
proof -
  let ?i = "PDE_INDEX virt" and ?j = "PTE_INDEX virt"
  let ?pte = "(phys AND PTE_ADDR_MASK) OR PTE_PRESENT OR
      (flags AND (PTE_WRITE OR PTE_USER OR PTE_NOCACHE OR PTE_WRITETHROUGH OR PTE_GLOBAL))"
  have step: "\<forall>v. vmm_virt_to_phys dir v st2 =
      (if frame_of v = frame_of virt then (phys AND PTE_ADDR_MASK) OR (v AND 0xFFF)
       else vmm_virt_to_phys dir v st)"
    if "wf_dir usable F' dir st2"
      "\<And>i j. i < 1024 \<Longrightarrow> j < 1024 \<Longrightarrow> page_entry st2 dir i j =
         (if i = ?i \<and> j = ?j then ?pte else page_entry st dir i j)" for st2 F'
    unfolding virt_to_phys_entry [OF wf] virt_to_phys_entry [OF that(1)]
    using new_pte [of phys flags] that(2) by (auto simp: same_page_iff [symmetric] Let_def)
  show ?thesis
  proof (cases "present (get_entry st dir ?i)")
    case True
    let ?st2 = "set_entry (get_entry st dir ?i AND PTE_ADDR_MASK) ?j ?pte st"
    have eq: "r = 0" "st' = ?st2" using run True by (simp_all add: map_page_def Let_def)
    note s = set_table_entry [OF wf True index_bounds(1) index_bounds(2)]
    have "wf_dir usable F dir ?st2" using s(1) .
    moreover have "\<forall>v. vmm_virt_to_phys dir v ?st2 =
        (if frame_of v = frame_of virt then (phys AND PTE_ADDR_MASK) OR (v AND 0xFFF)
         else vmm_virt_to_phys dir v st)" by (rule step [OF s(1)]) (rule s(2))
    ultimately show ?thesis using eq inv by (intro disjI2) auto
  next
    case False
    obtain f s where f: "frame_alloc (vm_alloc st) = (f, s)" by fastforce
    show ?thesis
    proof (cases "f = 0")
      case True
      then have "r = - 1" "st' = st\<lparr>vm_alloc := s\<rparr>"
        using run False f by (simp_all add: map_page_def alloc_page_table_def vm_get_frame_def Let_def)
      then show ?thesis using alloc_full [OF inv, of s] f True inv by simp
    next
      case ok: False
      have new: "frame_inv s (insert f F)" "f \<notin> F" "4096 dvd unat f" "usable f"
        using alloc_new [OF inv f ok] page_aligned_dvd by auto
      let ?e = "(f AND PTE_ADDR_MASK) OR PTE_PRESENT OR PTE_WRITE OR (flags AND PTE_USER)"
      let ?st0 = "st\<lparr>vm_alloc := s\<rparr>"
      let ?st1 = "set_entry dir ?i ?e (fold (\<lambda>i. set_entry f i 0) [0..<1024] ?st0)"
      let ?st2 = "set_entry f ?j ?pte ?st1"
      have eq: "r = 0" "st' = ?st2"
        using run False f ok mask_aligned [OF new(3)]
        by (simp_all add: map_page_def alloc_page_table_def vm_get_frame_def Let_def)
      have same: "get_entry ?st0 = get_entry st" by (intro ext) (simp add: get_entry_def)
      then have wf0: "wf_dir usable F dir ?st0" using wf by (simp add: wf_dir_def)
      have pe0: "page_entry ?st0 = page_entry st" using same by (intro ext) (simp add: page_entry_def)
      have p0: "\<not> present (get_entry ?st0 dir ?i)" using False same by simp
      have e: "present ?e" "?e AND PTE_ADDR_MASK = f" "?e AND PTE_HUGE = 0"
        using new_pde [of f flags] mask_aligned [OF new(3)] by simp_all
      note n = new_table [OF wf0 index_bounds(1) p0 new(3,2,4) e]
      have pr: "present (get_entry ?st1 dir ?i)" and tab: "get_entry ?st1 dir ?i AND PTE_ADDR_MASK = f"
        using n(3) [of ?i] e(1,2) by simp_all
      note s = set_table_entry [OF n(1) pr index_bounds(1) index_bounds(2), unfolded tab]
      have wf2: "wf_dir usable (insert f F) dir ?st2" using s(1) .
      have "\<forall>v. vmm_virt_to_phys dir v ?st2 =
        (if frame_of v = frame_of virt then (phys AND PTE_ADDR_MASK) OR (v AND 0xFFF)
         else vmm_virt_to_phys dir v st)"
        by (rule step [OF wf2]) (use s(2) n(2) pe0 in simp)
      then show ?thesis using eq wf2 new(1) by (intro disjI2) auto
    qed
  qed
qed

text \<open>What a call does to the directory and to the allocator: it fails only for want of a frame, it never
  drops a table, and it asks for a frame only where there is no table.\<close>

lemma map_page_effect:
  assumes inv: "frame_inv (vm_alloc st) F" and wf: "wf_dir usable F dir st"
    and run: "map_page frame_alloc dir virt phys flags st = (r, st')"
  shows "r = - 1 \<Longrightarrow> st' = st \<and> \<not> present (get_entry st dir (PDE_INDEX virt)) \<and> fst (frame_alloc (vm_alloc st)) = 0"
    and "k < 1024 \<Longrightarrow> present (get_entry st dir k) \<Longrightarrow> present (get_entry st' dir k)"
    and "fst (frame_alloc (vm_alloc st)) = 0 \<Longrightarrow> vm_alloc st' = vm_alloc st"
proof -
  let ?i = "PDE_INDEX virt" and ?j = "PTE_INDEX virt"
  let ?pte = "(phys AND PTE_ADDR_MASK) OR PTE_PRESENT OR
      (flags AND (PTE_WRITE OR PTE_USER OR PTE_NOCACHE OR PTE_WRITETHROUGH OR PTE_GLOBAL))"
  have "(r = - 1 \<longrightarrow> st' = st \<and> \<not> present (get_entry st dir ?i) \<and> fst (frame_alloc (vm_alloc st)) = 0) \<and>
    (k < 1024 \<longrightarrow> present (get_entry st dir k) \<longrightarrow> present (get_entry st' dir k)) \<and>
    (fst (frame_alloc (vm_alloc st)) = 0 \<longrightarrow> vm_alloc st' = vm_alloc st)"
  proof (cases "present (get_entry st dir ?i)")
    case True
    let ?st2 = "set_entry (get_entry st dir ?i AND PTE_ADDR_MASK) ?j ?pte st"
    have eq: "r = 0" "st' = ?st2" using run True by (simp_all add: map_page_def Let_def)
    show ?thesis
      using set_table_entry(3) [OF wf True index_bounds(1) index_bounds(2), of k virt ?pte] by (simp add: eq)
  next
    case False
    obtain f s where f: "frame_alloc (vm_alloc st) = (f, s)" by fastforce
    show ?thesis
    proof (cases "f = 0")
      case True
      then have "r = - 1" "st' = st\<lparr>vm_alloc := s\<rparr>"
        using run False f by (simp_all add: map_page_def alloc_page_table_def vm_get_frame_def Let_def)
      then show ?thesis using alloc_full [OF inv, of s] f True False by simp
    next
      case ok: False
      have new: "f \<notin> F" "4096 dvd unat f" "usable f"
        using alloc_new [OF inv f ok] page_aligned_dvd by auto
      let ?e = "(f AND PTE_ADDR_MASK) OR PTE_PRESENT OR PTE_WRITE OR (flags AND PTE_USER)"
      let ?st0 = "st\<lparr>vm_alloc := s\<rparr>"
      let ?st1 = "set_entry dir ?i ?e (fold (\<lambda>i. set_entry f i 0) [0..<1024] ?st0)"
      have eq: "r = 0" "st' = set_entry f ?j ?pte ?st1"
        using run False f ok mask_aligned [OF new(2)]
        by (simp_all add: map_page_def alloc_page_table_def vm_get_frame_def Let_def)
      have same: "get_entry ?st0 = get_entry st" by (intro ext) (simp add: get_entry_def)
      then have wf0: "wf_dir usable F dir ?st0" using wf by (simp add: wf_dir_def)
      have e: "present ?e" "?e AND PTE_ADDR_MASK = f" "?e AND PTE_HUGE = 0"
        using new_pde [of f flags] mask_aligned [OF new(2)] by simp_all
      have p0: "\<not> present (get_entry ?st0 dir ?i)" using False same by simp
      note n = new_table(3) [OF wf0 index_bounds(1) p0 new(2,1,3) e]
      have "f \<noteq> dir" using wf_dirD(2) [OF wf] new(1,3) by auto
      then have "get_entry st' dir k = get_entry ?st1 dir k" if "k < 1024"
        unfolding eq using wf_dirD(1) [OF wf] new(2) that by (subst get_set_entry) simp_all
      then show ?thesis using n [of k] e(1) eq(1) f ok same by simp
    qed
  qed
  then show "r = - 1 \<Longrightarrow> st' = st \<and> \<not> present (get_entry st dir (PDE_INDEX virt)) \<and> fst (frame_alloc (vm_alloc st)) = 0"
    and "k < 1024 \<Longrightarrow> present (get_entry st dir k) \<Longrightarrow> present (get_entry st' dir k)"
    and "fst (frame_alloc (vm_alloc st)) = 0 \<Longrightarrow> vm_alloc st' = vm_alloc st" by blast+
qed

lemma page_offset: "frame_of v = frame_of s \<Longrightarrow> (s AND PTE_ADDR_MASK) OR (v AND 0xFFF) = v"
proof -
  assume v: "frame_of v = frame_of s"
  have "unat (x AND PTE_ADDR_MASK) = frame_of x * 4096" for x
  proof -
    have m: "PTE_ADDR_MASK = NOT (2 ^ 12 - 1)" by (simp add: PTE_ADDR_MASK_def)
    show ?thesis unfolding m frame_of_def by (simp only: unat_and_not_mask) simp
  qed
  then have "unat (s AND PTE_ADDR_MASK) = unat (v AND PTE_ADDR_MASK)" using v by simp
  then have "s AND PTE_ADDR_MASK = v AND PTE_ADDR_MASK" by simp
  moreover have "(v AND PTE_ADDR_MASK) OR (v AND 0xFFF) = v AND (PTE_ADDR_MASK OR 0xFFF)"
    by (simp only: bit.conj_disj_distrib)
  moreover have "PTE_ADDR_MASK OR 0xFFF = - 1" by (simp add: PTE_ADDR_MASK_def)
  ultimately show ?thesis by (simp only: bit.conj_one_right)
qed

text \<open>The page at \<open>v\<close> could not be mapped: its table is missing, and there is no frame for one.\<close>

definition unmapped_for_want :: "u32 \<Rightarrow> 's vm \<Rightarrow> 's vm \<Rightarrow> u32 \<Rightarrow> bool" where
  "unmapped_for_want dir st st' v \<longleftrightarrow> vmm_virt_to_phys dir v st' = 0 \<and>
     \<not> present (get_entry st dir (PDE_INDEX v)) \<and> fst (frame_alloc (vm_alloc st')) = 0"

lemma identity_step:
  assumes inv: "frame_inv (vm_alloc st) F" and wf: "wf_dir usable F dir st"
  obtains F' st1 r where "map_page frame_alloc dir s s flags st = (r, st1)"
    "F \<subseteq> F'" "frame_inv (vm_alloc st1) F'" "wf_dir usable F' dir st1"
    "\<And>v. vmm_virt_to_phys dir v st1 = vmm_virt_to_phys dir v st \<or> frame_of v = frame_of s"
    "\<And>v. frame_of v = frame_of s \<Longrightarrow> vmm_virt_to_phys dir v st1 = v \<or> unmapped_for_want dir st st1 v"
    "\<And>k. k < 1024 \<Longrightarrow> present (get_entry st dir k) \<Longrightarrow> present (get_entry st1 dir k)"
    "fst (frame_alloc (vm_alloc st)) = 0 \<Longrightarrow> vm_alloc st1 = vm_alloc st"
proof -
  obtain r st1 where run: "map_page frame_alloc dir s s flags st = (r, st1)" by fastforce
  note eff = map_page_effect [OF inv wf run]
  from map_page_spec [OF inv wf run] show thesis
  proof (elim disjE conjE exE)
    assume "r = - 1"
    note e = eff(1) [OF this]
    have "unmapped_for_want dir st st1 v" if "frame_of v = frame_of s" for v
    proof -
      have "PDE_INDEX v = PDE_INDEX s" using that same_page_iff by blast
      then show ?thesis using e by (simp add: unmapped_for_want_def vmm_virt_to_phys_def Let_def)
    qed
    then show thesis using that [OF run, of F] e inv wf by auto
  next
    fix F'
    assume "F \<subseteq> F'" "frame_inv (vm_alloc st1) F'" "wf_dir usable F' dir st1"
      "\<forall>v. vmm_virt_to_phys dir v st1 = (if frame_of v = frame_of s
         then (s AND PTE_ADDR_MASK) OR (v AND 0xFFF) else vmm_virt_to_phys dir v st)"
    then show thesis using that [OF run, of F'] eff(2,3) page_offset by auto
  qed
qed

text \<open>The identity loop ends; each address of its pages then translates to itself, or could not be mapped.\<close>

lemma identity_loop_spec:
  assumes "frame_inv (vm_alloc st) F" "wf_dir usable F dir st"
    and "unat s = 4096 * a" "unat e = 4096 * b"
  shows "\<exists>st' F'. identity_loop frame_alloc dir s e flags st = Some st' \<and> F \<subseteq> F' \<and>
    frame_inv (vm_alloc st') F' \<and> wf_dir usable F' dir st' \<and>
    (\<forall>v. if a \<le> frame_of v \<and> frame_of v < b
         then vmm_virt_to_phys dir v st' = v \<or> unmapped_for_want dir st st' v
         else vmm_virt_to_phys dir v st' = vmm_virt_to_phys dir v st) \<and>
    (fst (frame_alloc (vm_alloc st)) = 0 \<longrightarrow> vm_alloc st' = vm_alloc st)"
  using assms
proof (induction "b - a" arbitrary: a s st F)
  case 0
  then have "\<not> s < e" by (simp add: word_less_nat_alt)
  then show ?case using "0.hyps" "0.prems" by (subst identity_loop.simps) auto
next
  case (Suc n)
  have ab: "a < b" "n = b - Suc a" using Suc.hyps(2) by auto
  have "4096 * b < 4294967296" using Suc.prems(4) unat_u32_bounds(1) [of e] by simp
  then have "unat s + 4096 < 4294967296" using ab Suc.prems(3) by simp
  then have s': "unat (s + PAGE_SIZE) = 4096 * Suc a"
    using unat_add_small [of s 4096] Suc.prems(3) by (simp add: PAGE_SIZE_def)
  have fs: "frame_of s = a" using Suc.prems(3) by (simp add: frame_of_def)
  obtain F1 st1 r where f1: "map_page frame_alloc dir s s flags st = (r, st1)"
    "F \<subseteq> F1" "frame_inv (vm_alloc st1) F1" "wf_dir usable F1 dir st1"
    "\<And>v. vmm_virt_to_phys dir v st1 = vmm_virt_to_phys dir v st \<or> frame_of v = frame_of s"
    "\<And>v. frame_of v = frame_of s \<Longrightarrow> vmm_virt_to_phys dir v st1 = v \<or> unmapped_for_want dir st st1 v"
    "\<And>k. k < 1024 \<Longrightarrow> present (get_entry st dir k) \<Longrightarrow> present (get_entry st1 dir k)"
    "fst (frame_alloc (vm_alloc st)) = 0 \<Longrightarrow> vm_alloc st1 = vm_alloc st"
    by (rule identity_step [OF Suc.prems(1,2), where s = s and flags = flags]) (rule that)
  from Suc.hyps(1) [OF ab(2) f1(3,4) s' Suc.prems(4)] obtain st' F' where
    IH: "identity_loop frame_alloc dir (s + PAGE_SIZE) e flags st1 = Some st'" "F1 \<subseteq> F'"
      "frame_inv (vm_alloc st') F'" "wf_dir usable F' dir st'"
      "\<forall>v. if Suc a \<le> frame_of v \<and> frame_of v < b
         then vmm_virt_to_phys dir v st' = v \<or> unmapped_for_want dir st1 st' v
         else vmm_virt_to_phys dir v st' = vmm_virt_to_phys dir v st1"
      "fst (frame_alloc (vm_alloc st1)) = 0 \<longrightarrow> vm_alloc st' = vm_alloc st1"
    by blast
  have "s < e" using ab Suc.prems(3,4) by (simp add: word_less_nat_alt)
  then have L: "identity_loop frame_alloc dir s e flags st = Some st'"
    using IH(1) f1(1) by (subst identity_loop.simps) simp
  have V: "if a \<le> frame_of v \<and> frame_of v < b
      then vmm_virt_to_phys dir v st' = v \<or> unmapped_for_want dir st st' v
      else vmm_virt_to_phys dir v st' = vmm_virt_to_phys dir v st" for v
  proof (cases "frame_of v = a")
    case True
    then have "vmm_virt_to_phys dir v st' = vmm_virt_to_phys dir v st1" using spec [OF IH(5), of v] by simp
    moreover have "vmm_virt_to_phys dir v st1 = v \<or> unmapped_for_want dir st st1 v" using f1(6) True fs by simp
    ultimately show ?thesis using True ab(1) IH(6) by (auto simp: unmapped_for_want_def)
  next
    case False
    then have "vmm_virt_to_phys dir v st1 = vmm_virt_to_phys dir v st" using f1(5) [of v] fs by simp
    moreover have "unmapped_for_want dir st1 st' v \<Longrightarrow> unmapped_for_want dir st st' v"
      using f1(7) [of "PDE_INDEX v"] by (auto simp: unmapped_for_want_def)
    ultimately show ?thesis using spec [OF IH(5), of v] False by (auto split: if_splits)
  qed
  show ?case
  proof (intro exI conjI)
    show "identity_loop frame_alloc dir s e flags st = Some st'" by (rule L)
    show "F \<subseteq> F'" using f1(2) IH(2) by simp
    show "fst (frame_alloc (vm_alloc st)) = 0 \<longrightarrow> vm_alloc st' = vm_alloc st" using f1(8) IH(6) by simp
  qed (use IH(3,4) V in blast)+
qed

end

text \<open>Unmapping needs no allocator.\<close>

lemma unmap_spec:
  assumes wf: "wf_dir usable F dir st"
  shows "wf_dir usable F dir (vmm_unmap_page dir virt st) \<and>
    (\<forall>v. vmm_virt_to_phys dir v (vmm_unmap_page dir virt st) =
      (if frame_of v = frame_of virt then 0 else vmm_virt_to_phys dir v st))"
proof (cases "present (get_entry st dir (PDE_INDEX virt))")
  case False
  then have "vmm_unmap_page dir virt st = st" by (simp add: vmm_unmap_page_def)
  moreover have "vmm_virt_to_phys dir v st = 0" if "frame_of v = frame_of virt" for v
  proof -
    have "PDE_INDEX v = PDE_INDEX virt" using that same_page_iff by blast
    then show ?thesis using False by (simp add: vmm_virt_to_phys_def)
  qed
  ultimately show ?thesis using wf by auto
next
  case True
  let ?st = "set_entry (get_entry st dir (PDE_INDEX virt) AND PTE_ADDR_MASK) (PTE_INDEX virt) 0 st"
  note s = set_table_entry [OF wf True index_bounds(1) index_bounds(2), where v = 0]
  have eq: "vmm_unmap_page dir virt st = ?st" using True by (simp add: vmm_unmap_page_def)
  have "vmm_virt_to_phys dir v ?st = (if frame_of v = frame_of virt then 0 else vmm_virt_to_phys dir v st)"
    for v
    unfolding virt_to_phys_entry [OF wf] virt_to_phys_entry [OF s(1)]
    using s(2) [OF index_bounds(1) index_bounds(2)] by (auto simp: same_page_iff [symmetric] Let_def)
  then show ?thesis unfolding eq using s(1) by blast
qed

section \<open>Properties\<close>

text \<open>A machine with empty memory, an empty directory in low memory and one free frame.\<close>

definition small_vm :: "pmm vm" where
  "small_vm = \<lparr>vm_ram = (\<lambda>_. 0), vm_alloc = pmm_init one_page_map pmm0, current_pgdir = None,
               vm_cr3 = 0, vm_paging = False\<rparr>"

lemma small_vm_entry [simp]: "get_entry small_vm d i = 0"
  by (simp add: get_entry_def small_vm_def load32_def)

lemma small_vm_ok:
  "pmm_frames {512} (vm_alloc small_vm) {}" "wf_dir (\<lambda>f. phys_to_pfn f \<in> {512}) {} 0x3000 small_vm"
proof -
  show "pmm_frames {512} (vm_alloc small_vm) {}"
    using pmm_start_inv [OF one_page_map_ok(1)]
    by (simp add: pmm_frames_def small_vm_def frame_blocks_def one_page_map_ok)
  show "wf_dir (\<lambda>f. phys_to_pfn f \<in> {512}) {} 0x3000 small_vm"
    by (simp add: wf_dir_def phys_to_pfn_div)
qed

text \<open>C7. Mapping a page: on a well-formed directory \<open>vmm_map_page\<close> either fails with -1, having
  changed no page table, or afterwards translates every address of the page to the given frame
  and every other address as before, and the directory is well-formed again with the frames it
  uses still owned.\<close>

theorem vmm_map_page_correct:
  assumes "pmm_frames M (vm_alloc st) F" "wf_dir (\<lambda>f. phys_to_pfn f \<in> M) F dir st"
    and "vmm_map_page dir virt phys flags st = (r, st')"
  shows "r = - 1 \<and> pmm_frames M (vm_alloc st') F \<and> vm_ram st' = vm_ram st \<or>
    r = 0 \<and> (\<exists>F'. F \<subseteq> F' \<and> pmm_frames M (vm_alloc st') F' \<and>
      wf_dir (\<lambda>f. phys_to_pfn f \<in> M) F' dir st' \<and>
      (\<forall>v. vmm_virt_to_phys dir v st' =
         (if frame_of v = frame_of virt then (phys AND PTE_ADDR_MASK) OR (v AND 0xFFF)
          else vmm_virt_to_phys dir v st)))"
  using pf.map_page_spec [of M st F dir virt phys flags r st'] assms
  unfolding vmm_map_page_def by blast

theorem vmm_map_page_correct_witness:
  "fst (vmm_map_page 0x3000 0x400000 0x5000 PTE_WRITE small_vm) = 0 \<and>
   vmm_virt_to_phys 0x3000 0x400123 (snd (vmm_map_page 0x3000 0x400000 0x5000 PTE_WRITE small_vm)) = 0x5123"
proof -
  have r: "fst (vmm_map_page 0x3000 0x400000 0x5000 PTE_WRITE small_vm) = 0"
    using one_page_alloc
    by (simp add: vmm_map_page_def map_page_def alloc_page_table_def vm_get_frame_def Let_def small_vm_def
        split: prod.splits)
  then obtain st' where st': "vmm_map_page 0x3000 0x400000 0x5000 PTE_WRITE small_vm = (0, st')"
    by (metis prod.collapse)
  from vmm_map_page_correct [OF small_vm_ok st']
  have all: "\<forall>v. vmm_virt_to_phys 0x3000 v st' =
      (if frame_of v = frame_of 0x400000 then (0x5000 AND PTE_ADDR_MASK) OR (v AND 0xFFF)
       else vmm_virt_to_phys 0x3000 v small_vm)" by auto
  have "vmm_virt_to_phys 0x3000 0x400123 st' = (0x5000 AND PTE_ADDR_MASK) OR (0x400123 AND 0xFFF)"
    using spec [OF all, of "0x400123"] by (simp add: frame_of_def)
  then show ?thesis using st' by (simp add: PTE_ADDR_MASK_def)
qed

text \<open>C22. Unmapping a page makes every address of it translate to 0 and leaves every other address
  as it was.\<close>

theorem vmm_unmap_page_correct:
  assumes "wf_dir usable F dir st"
  shows "wf_dir usable F dir (vmm_unmap_page dir virt st) \<and>
    vmm_virt_to_phys dir v (vmm_unmap_page dir virt st) =
      (if frame_of v = frame_of virt then 0 else vmm_virt_to_phys dir v st)"
  using unmap_spec [OF assms] by blast

theorem vmm_unmap_page_correct_witness:
  "vmm_virt_to_phys 0x3000 0x400123 (vmm_unmap_page 0x3000 0x400000 small_vm) = 0"
  using vmm_unmap_page_correct [OF small_vm_ok(2), of "0x400000" "0x400123"]
  by (simp add: frame_of_def)

text \<open>C23. Identity mapping a range that ends at most at 0xFFFFF000 (so that rounding its end up cannot
  wrap) ends. Every address of its pages then translates to itself, unless its page table was missing
  and the frame allocator has no frame left for one, in which case it is untranslated; every address
  outside translates as before, and the directory is well-formed with the frames it uses still owned.\<close>

theorem vmm_identity_map_correct:
  assumes "pmm_frames M (vm_alloc st) F" "wf_dir (\<lambda>f. phys_to_pfn f \<in> M) F dir st"
    and "unat finish \<le> 0xFFFFF000"
  shows "\<exists>st' F'. vmm_identity_map dir start finish flags st = Some st' \<and>
    F \<subseteq> F' \<and> pmm_frames M (vm_alloc st') F' \<and> wf_dir (\<lambda>f. phys_to_pfn f \<in> M) F' dir st' \<and>
    (\<forall>v. if unat start div 4096 \<le> frame_of v \<and> 4096 * frame_of v < unat finish
         then vmm_virt_to_phys dir v st' = v \<or>
           vmm_virt_to_phys dir v st' = 0 \<and> \<not> present (get_entry st dir (PDE_INDEX v)) \<and>
           fst (pmm_alloc_page (vm_alloc st')) = 0
         else vmm_virt_to_phys dir v st' = vmm_virt_to_phys dir v st)"
proof -
  have s: "unat (ALIGN_DOWN start PAGE_SIZE) = 4096 * (unat start div 4096)"
    using unat_ALIGN_DOWN [of PAGE_SIZE 12 start] by (simp add: PAGE_SIZE_def)
  let ?b = "(unat finish + 4095) div 4096"
  have e: "unat (ALIGN_UP finish PAGE_SIZE) = 4096 * ?b"
    using unat_ALIGN_UP [of PAGE_SIZE 12 finish] assms(3) by (simp add: PAGE_SIZE_def)
  have b: "n < ?b \<longleftrightarrow> 4096 * n < unat finish" for n
    by (simp add: Suc_le_eq [symmetric] less_eq_div_iff_mult_less_eq) linarith
  show ?thesis
    using pf.identity_loop_spec [OF assms(1,2) s e, of flags]
    unfolding vmm_identity_map_def identity_map_def b pf.unmapped_for_want_def by blast
qed

text \<open>A directory whose first entry points to a page table, and no frame left.\<close>

definition low_vm :: "pmm vm" where
  "low_vm = snd (vmm_map_page 0x3000 0 0 PTE_WRITE small_vm)"

theorem vmm_identity_map_correct_witness:
  "\<exists>st'. vmm_identity_map 0x3000 0 0x8000 PTE_WRITE low_vm = Some st' \<and>
     vmm_virt_to_phys 0x3000 0x7123 st' = 0x7123"
proof -
  have "fst (vmm_map_page 0x3000 0 0 PTE_WRITE small_vm) = 0"
    using one_page_alloc
    by (simp add: vmm_map_page_def map_page_def alloc_page_table_def vm_get_frame_def Let_def small_vm_def
        split: prod.splits)
  then obtain st' where st': "vmm_map_page 0x3000 0 0 PTE_WRITE small_vm = (0, st')" and l: "low_vm = st'"
    unfolding low_vm_def by (metis prod.collapse)
  from pf.map_page_spec [OF small_vm_ok st' [unfolded vmm_map_page_def]] obtain F' where
    F': "pmm_frames {512} (vm_alloc low_vm) F'" "wf_dir (\<lambda>f. phys_to_pfn f \<in> {512}) F' 0x3000 low_vm"
    and all: "\<forall>v. vmm_virt_to_phys 0x3000 v low_vm =
      (if frame_of v = frame_of 0 then (0 AND PTE_ADDR_MASK) OR (v AND 0xFFF)
       else vmm_virt_to_phys 0x3000 v small_vm)" unfolding l by auto
  have "vmm_virt_to_phys 0x3000 0x123 low_vm = 0x123" using spec [OF all, of "0x123"] by (simp add: frame_of_def)
  then have p: "present (get_entry low_vm 0x3000 0)"
    by (auto simp: vmm_virt_to_phys_def PDE_INDEX_unat Let_def split: if_splits)
  have "PDE_INDEX 0x7123 = 0" "unat (0::u32) div 4096 \<le> frame_of 0x7123" "4096 * frame_of 0x7123 < unat (0x8000::u32)"
    by (simp_all add: PDE_INDEX_unat frame_of_def)
  note v = this
  have "unat (0x8000::u32) \<le> 0xFFFFF000" by simp
  from vmm_identity_map_correct [OF F' this, of 0 PTE_WRITE] obtain st2
    where m: "vmm_identity_map 0x3000 0 0x8000 PTE_WRITE low_vm = Some st2"
    and all: "\<forall>v. if unat (0::u32) div 4096 \<le> frame_of v \<and> 4096 * frame_of v < unat (0x8000::u32)
         then vmm_virt_to_phys 0x3000 v st2 = v \<or>
           vmm_virt_to_phys 0x3000 v st2 = 0 \<and> \<not> present (get_entry low_vm 0x3000 (PDE_INDEX v)) \<and>
           fst (pmm_alloc_page (vm_alloc st2)) = 0
         else vmm_virt_to_phys 0x3000 v st2 = vmm_virt_to_phys 0x3000 v low_vm" by (elim exE conjE) (rule that)
  then show ?thesis using spec [OF all, of "0x7123"] v p by auto
qed

end
