(* ===== verification/Heap.thy ===== *)
theory Heap
  imports Memory
begin

text \<open>
  \<^verbatim>\<open>kernel/mm/heap.c\<close>: the kernel heap, a first-fit allocator over blocks that lie side by
  side from \<open>heap_start_ptr\<close> to \<open>heap_brk\<close>, with a free list through the block headers.

  A \<open>block_hdr_t *\<close> is its address, NULL is 0.  The headers are a store \<open>hdrs\<close> from addresses to
  header values: a header that is no longer the start of a block keeps its last value there, as
  it does in memory until a payload is written over it.  Payload bytes are in \<open>h_ram\<close>.
\<close>

section \<open>Headers and state\<close>

definition HEAP_MAGIC_FREE :: u32 where "HEAP_MAGIC_FREE = 0xDEADC0DE"
definition HEAP_MAGIC_USED :: u32 where "HEAP_MAGIC_USED = 0xC0FFEE99"
definition HEAP_ALIGN :: u32 where "HEAP_ALIGN = 16"

record block_hdr =
  magic :: u32
  bsize :: u32
  prev_phys :: u32
  next_free :: u32
  prev_free :: u32

text \<open>\<open>sizeof(block_hdr_t)\<close> is five 32-bit words.\<close>

definition BLOCK_HDR_SIZE :: u32 where "BLOCK_HDR_SIZE = ALIGN_UP 20 HEAP_ALIGN"
definition MIN_BLOCK_SIZE :: u32 where "MIN_BLOCK_SIZE = BLOCK_HDR_SIZE + HEAP_ALIGN"

record heap_stats =
  st_heap_start :: u32
  st_heap_end :: u32
  st_heap_size :: u32
  used_bytes :: u32
  free_bytes :: u32
  alloc_count :: u32
  free_count :: u32
  peak_usage :: u32

record heap =
  heap_start_ptr :: u32
  heap_end_ptr :: u32
  heap_brk :: u32
  free_list :: u32
  heap_stat :: heap_stats
  hdrs :: "u32 \<Rightarrow> block_hdr"
  h_ram :: mem

definition upd_hdr :: "u32 \<Rightarrow> (block_hdr \<Rightarrow> block_hdr) \<Rightarrow> heap \<Rightarrow> heap" where
  "upd_hdr a f h = h\<lparr>hdrs := (hdrs h)(a := f (hdrs h a))\<rparr>"

definition upd_stat :: "(heap_stats \<Rightarrow> heap_stats) \<Rightarrow> heap \<Rightarrow> heap" where
  "upd_stat f h = h\<lparr>heap_stat := f (heap_stat h)\<rparr>"

section \<open>The free list\<close>

text \<open>The four statements that put a block at the head of the list.\<close>

definition free_push :: "u32 \<Rightarrow> heap \<Rightarrow> heap" where
  "free_push blk h =
     (let h1 = upd_hdr blk (\<lambda>b. b\<lparr>next_free := free_list h, prev_free := 0\<rparr>) h;
          h2 = (if free_list h1 \<noteq> 0 then upd_hdr (free_list h1) (\<lambda>b. b\<lparr>prev_free := blk\<rparr>) h1 else h1)
      in h2\<lparr>free_list := blk\<rparr>)"

definition free_list_remove :: "u32 \<Rightarrow> heap \<Rightarrow> heap" where
  "free_list_remove blk h =
     (let n = next_free (hdrs h blk); p = prev_free (hdrs h blk);
          h1 = (if p \<noteq> 0 then upd_hdr p (\<lambda>b. b\<lparr>next_free := n\<rparr>) h else h\<lparr>free_list := n\<rparr>);
          h2 = (if n \<noteq> 0 then upd_hdr n (\<lambda>b. b\<lparr>prev_free := p\<rparr>) h1 else h1)
      in upd_hdr blk (\<lambda>b. b\<lparr>next_free := 0, prev_free := 0\<rparr>) h2)"

definition heap_expand :: "u32 \<Rightarrow> heap \<Rightarrow> u32 \<times> heap" where
  "heap_expand min_size h =
     (let expand = ALIGN_UP (min_size + BLOCK_HDR_SIZE) PAGE_SIZE
      in if heap_brk h + expand > heap_end_ptr h then (0, h)
         else (let blk = heap_brk h;
                   h1 = h\<lparr>heap_brk := heap_brk h + expand\<rparr>;
                   h2 = upd_hdr blk (\<lambda>b. b\<lparr>magic := HEAP_MAGIC_FREE, bsize := expand - BLOCK_HDR_SIZE,
                                          prev_phys := 0\<rparr>) h1;
                   h3 = free_push blk h2
               in (blk, upd_stat (\<lambda>s. s\<lparr>st_heap_end := heap_brk h3,
                          free_bytes := free_bytes s + (expand - BLOCK_HDR_SIZE)\<rparr>) h3)))"

definition maybe_split :: "u32 \<Rightarrow> u32 \<Rightarrow> heap \<Rightarrow> heap" where
  "maybe_split blk sz h =
     (if bsize (hdrs h blk) < sz + MIN_BLOCK_SIZE then h
      else (let rem = blk + BLOCK_HDR_SIZE + sz;
                rsize = bsize (hdrs h blk) - sz - BLOCK_HDR_SIZE;
                h1 = upd_hdr rem (\<lambda>b. b\<lparr>magic := HEAP_MAGIC_FREE, bsize := rsize, prev_phys := blk\<rparr>) h;
                h2 = free_push rem h1;
                h3 = upd_stat (\<lambda>s. s\<lparr>free_bytes := free_bytes s + rsize\<rparr>) h2
            in upd_hdr blk (\<lambda>b. b\<lparr>bsize := sz\<rparr>) h3))"

definition coalesce_next :: "u32 \<Rightarrow> heap \<Rightarrow> heap" where
  "coalesce_next blk h =
     (let nxt = blk + BLOCK_HDR_SIZE + bsize (hdrs h blk)
      in if nxt < heap_brk h \<and> magic (hdrs h nxt) = HEAP_MAGIC_FREE
         then (let h1 = free_list_remove nxt h;
                   h2 = upd_hdr blk (\<lambda>b. b\<lparr>bsize := bsize b + (BLOCK_HDR_SIZE + bsize (hdrs h1 nxt))\<rparr>) h1
               in upd_stat (\<lambda>s. s\<lparr>free_bytes := free_bytes s + BLOCK_HDR_SIZE\<rparr>) h2)
         else h)"

definition coalesce :: "u32 \<Rightarrow> heap \<Rightarrow> heap" where
  "coalesce blk h =
     (let h1 = coalesce_next blk h; prv = prev_phys (hdrs h1 blk)
      in if prv \<noteq> 0 \<and> magic (hdrs h1 prv) = HEAP_MAGIC_FREE
         then (let h2 = free_list_remove prv h1;
                   h3 = upd_hdr prv (\<lambda>b. b\<lparr>bsize := bsize b + (BLOCK_HDR_SIZE + bsize (hdrs h2 blk))\<rparr>) h2;
                   h4 = upd_stat (\<lambda>s. s\<lparr>free_bytes := free_bytes s + BLOCK_HDR_SIZE\<rparr>) h3
               in free_push prv h4)
         else free_push blk h1)"

section \<open>Public interface\<close>

definition heap_init :: "u32 \<Rightarrow> u32 \<Rightarrow> heap \<Rightarrow> heap" where
  "heap_init virt_start sz h =
     (let h1 = h\<lparr>heap_start_ptr := virt_start, heap_end_ptr := virt_start + sz, heap_brk := virt_start,
                heap_stat := \<lparr>st_heap_start = virt_start, st_heap_end = virt_start, st_heap_size = sz,
                  used_bytes = 0, free_bytes = 0, alloc_count = 0, free_count = 0, peak_usage = 0\<rparr>,
                free_list := 0\<rparr>
      in snd (heap_expand PAGE_SIZE h1))"

text \<open>The first-fit search; 0 when the list ends, None when it does not end.\<close>

partial_function (option) first_fit :: "heap \<Rightarrow> u32 \<Rightarrow> u32 \<Rightarrow> u32 option" where
  "first_fit h sz blk =
     (if blk = 0 then Some 0
      else if magic (hdrs h blk) = HEAP_MAGIC_FREE \<and> bsize (hdrs h blk) \<ge> sz then Some blk
      else first_fit h sz (next_free (hdrs h blk)))"

definition take_block :: "u32 \<Rightarrow> u32 \<Rightarrow> heap \<Rightarrow> heap" where
  "take_block blk sz h =
     (let h1 = maybe_split blk sz (free_list_remove blk h);
          h2 = upd_hdr blk (\<lambda>b. b\<lparr>magic := HEAP_MAGIC_USED\<rparr>) h1;
          n = bsize (hdrs h2 blk)
      in upd_stat (\<lambda>s. let u = used_bytes s + n
                       in s\<lparr>used_bytes := u, free_bytes := free_bytes s - n,
                            alloc_count := alloc_count s + 1,
                            peak_usage := (if u > peak_usage s then u else peak_usage s)\<rparr>) h2)"

partial_function (option) kmalloc :: "u32 \<Rightarrow> heap \<Rightarrow> (u32 \<times> heap) option" where
  "kmalloc sz0 h =
     (if sz0 = 0 then Some (0, h)
      else (let sz = ALIGN_UP sz0 HEAP_ALIGN
            in do {
                 blk \<leftarrow> first_fit h sz (free_list h);
                 if blk \<noteq> 0 then Some (blk + BLOCK_HDR_SIZE, take_block blk sz h)
                 else (let (b, h1) = heap_expand sz h
                       in if b = 0 then Some (0, h1) else kmalloc sz h1)
               }))"

declare first_fit.simps [code] and kmalloc.simps [code]

primrec zero_bytes :: "nat \<Rightarrow> u32 \<Rightarrow> mem \<Rightarrow> mem" where
  "zero_bytes 0 p m = m"
| "zero_bytes (Suc n) p m = zero_bytes n (p + 1) (m(p := 0))"

definition kzalloc :: "u32 \<Rightarrow> heap \<Rightarrow> (u32 \<times> heap) option" where
  "kzalloc sz h =
     do {
       (p, h1) \<leftarrow> kmalloc sz h;
       Some (p, if p \<noteq> 0 then h1\<lparr>h_ram := zero_bytes (unat sz) p (h_ram h1)\<rparr> else h1)
     }"

definition kmalloc_aligned :: "u32 \<Rightarrow> u32 \<Rightarrow> heap \<Rightarrow> (u32 \<times> heap) option" where
  "kmalloc_aligned sz align h =
     (if align \<le> HEAP_ALIGN then kmalloc sz h
      else do {
        (raw, h1) \<leftarrow> kmalloc (sz + align) h;
        Some (if raw = 0 then 0 else ALIGN_UP raw align, h1)
      })"

definition kfree :: "u32 \<Rightarrow> heap \<Rightarrow> heap" where
  "kfree ptr h =
     (if ptr = 0 then h
      else (let blk = ptr - BLOCK_HDR_SIZE
            in if magic (hdrs h blk) \<noteq> HEAP_MAGIC_USED then h
               else (let n = bsize (hdrs h blk);
                         h1 = upd_stat (\<lambda>s. s\<lparr>used_bytes := used_bytes s - n,
                                free_bytes := free_bytes s + n, free_count := free_count s + 1\<rparr>) h
                     in coalesce blk (upd_hdr blk (\<lambda>b. b\<lparr>magic := HEAP_MAGIC_FREE\<rparr>) h1))))"

primrec copy_bytes :: "nat \<Rightarrow> u32 \<Rightarrow> u32 \<Rightarrow> mem \<Rightarrow> mem" where
  "copy_bytes 0 d s m = m"
| "copy_bytes (Suc n) d s m = copy_bytes n (d + 1) (s + 1) (m(d := m s))"

definition krealloc :: "u32 \<Rightarrow> u32 \<Rightarrow> heap \<Rightarrow> (u32 \<times> heap) option" where
  "krealloc ptr new_size h =
     (if ptr = 0 then kmalloc new_size h
      else if new_size = 0 then Some (0, kfree ptr h)
      else (let blk = ptr - BLOCK_HDR_SIZE
            in if bsize (hdrs h blk) \<ge> new_size then Some (ptr, h)
               else do {
                 (np, h1) \<leftarrow> kmalloc new_size h;
                 if np = 0 then Some (0, h1)
                 else (let sz = bsize (hdrs h1 blk);
                           copy_size = (if sz < new_size then sz else new_size)
                       in Some (np, kfree ptr (h1\<lparr>h_ram := copy_bytes (unat copy_size) np ptr (h_ram h1)\<rparr>)))
               }))"

definition ksize :: "u32 \<Rightarrow> heap \<Rightarrow> u32" where
  "ksize ptr h =
     (if ptr = 0 then 0
      else (let blk = ptr - BLOCK_HDR_SIZE
            in if magic (hdrs h blk) \<noteq> HEAP_MAGIC_USED then 0 else bsize (hdrs h blk)))"

definition heap_get_stats :: "heap \<Rightarrow> heap_stats" where
  "heap_get_stats h = heap_stat h"

end
