(* ===== verification/Heap_Inv.thy ===== *)
theory Heap_Inv
  imports Heap Linked_Lists
begin

text \<open>
  The invariant of the kernel heap.  \<open>hinv h bs fs\<close> says: the blocks \<open>bs\<close> lie side by side from
  \<open>heap_start_ptr\<close> to \<open>heap_brk\<close>, each 16-aligned with a valid magic number, and the free list
  links exactly the free ones, in the order \<open>fs\<close>.  Nothing is said of \<open>prev_phys\<close>: the code does
  not keep it up to date.
\<close>

lemma hdr_sizes [simp]: "BLOCK_HDR_SIZE = 32" "MIN_BLOCK_SIZE = 48" "HEAP_ALIGN = 16"
  by (simp_all add: BLOCK_HDR_SIZE_def MIN_BLOCK_SIZE_def HEAP_ALIGN_def ALIGN_UP_def)

lemma magic_neq [simp]: "HEAP_MAGIC_FREE \<noteq> HEAP_MAGIC_USED" "HEAP_MAGIC_USED \<noteq> HEAP_MAGIC_FREE"
  by (simp_all add: HEAP_MAGIC_FREE_def HEAP_MAGIC_USED_def)

section \<open>Blocks side by side\<close>

fun tiles :: "(u32 \<Rightarrow> nat) \<Rightarrow> nat \<Rightarrow> u32 list \<Rightarrow> nat \<Rightarrow> bool" where
  "tiles sz a [] e \<longleftrightarrow> a = e"
| "tiles sz a (b # bs) e \<longleftrightarrow> unat b = a \<and> tiles sz (a + 32 + sz b) bs e"

lemma tiles_append: "tiles sz a (xs @ ys) e \<longleftrightarrow> (\<exists>m. tiles sz a xs m \<and> tiles sz m ys e)"
  by (induction xs arbitrary: a) auto

lemma tiles_cong: "(\<And>b. b \<in> set bs \<Longrightarrow> sz b = sz' b) \<Longrightarrow> tiles sz a bs e \<longleftrightarrow> tiles sz' a bs e"
  by (induction bs arbitrary: a) auto

lemma tiles_le: "tiles sz a bs e \<Longrightarrow> a \<le> e"
  by (induction bs arbitrary: a) fastforce+

lemma tiles_bounds: "tiles sz a bs e \<Longrightarrow> b \<in> set bs \<Longrightarrow> a \<le> unat b \<and> unat b + 32 + sz b \<le> e"
  by (induction bs arbitrary: a) (fastforce dest: tiles_le)+

lemma tiles_distinct: "tiles sz a bs e \<Longrightarrow> distinct bs"
proof (induction bs arbitrary: a)
  case (Cons b bs)
  then show ?case using tiles_bounds [of sz "a + 32 + sz b" bs e b] by auto
qed simp

text \<open>Two blocks do not overlap.\<close>

lemma tiles_disjoint:
  assumes "tiles sz a bs e" "b \<in> set bs" "b' \<in> set bs" "b \<noteq> b'"
  shows "unat b + 32 + sz b \<le> unat b' \<or> unat b' + 32 + sz b' \<le> unat b"
  using assms
proof (induction bs arbitrary: a)
  case (Cons c bs)
  then show ?case using tiles_bounds [of sz "a + 32 + sz c" bs e] by auto
qed simp

section \<open>The free list\<close>

definition ptr :: "u32 \<Rightarrow> u32 option" where
  "ptr a = (if a = 0 then None else Some a)"

lemma ptr_eq [simp]: "ptr a = None \<longleftrightarrow> a = 0" "ptr a = Some b \<longleftrightarrow> a = b \<and> b \<noteq> 0" "ptr 0 = None"
  by (auto simp: ptr_def)

abbreviation heap_dll :: "heap \<Rightarrow> u32 list \<Rightarrow> bool" where
  "heap_dll h xs \<equiv> dll (\<lambda>a. ptr (next_free (hdrs h a))) (\<lambda>a. ptr (prev_free (hdrs h a)))
     (ptr (free_list h)) xs"

lemma upd_hdr_simps [simp]:
  "hdrs (upd_hdr a f h) = (hdrs h)(a := f (hdrs h a))"
  "free_list (upd_hdr a f h) = free_list h" "heap_brk (upd_hdr a f h) = heap_brk h"
  "heap_start_ptr (upd_hdr a f h) = heap_start_ptr h" "heap_end_ptr (upd_hdr a f h) = heap_end_ptr h"
  "h_ram (upd_hdr a f h) = h_ram h"
  "hdrs (upd_stat g h) = hdrs h" "free_list (upd_stat g h) = free_list h"
  "heap_brk (upd_stat g h) = heap_brk h" "heap_start_ptr (upd_stat g h) = heap_start_ptr h"
  "heap_end_ptr (upd_stat g h) = heap_end_ptr h" "h_ram (upd_stat g h) = h_ram h"
  by (simp_all add: upd_hdr_def upd_stat_def)

lemma free_push_fields:
  "hdrs (free_push blk h) q =
     (let b = hdrs h q; b1 = (if q = blk then b\<lparr>next_free := free_list h, prev_free := 0\<rparr> else b)
      in if free_list h \<noteq> 0 \<and> q = free_list h then b1\<lparr>prev_free := blk\<rparr> else b1)"
  "free_list (free_push blk h) = blk" "heap_brk (free_push blk h) = heap_brk h"
  "heap_start_ptr (free_push blk h) = heap_start_ptr h" "heap_end_ptr (free_push blk h) = heap_end_ptr h"
  by (auto simp: free_push_def Let_def)

lemma remove_fields:
  "hdrs (free_list_remove blk h) q =
     (let b = hdrs h q; n = next_free (hdrs h blk); p = prev_free (hdrs h blk);
          b1 = (if p \<noteq> 0 \<and> q = p then b\<lparr>next_free := n\<rparr> else b);
          b2 = (if n \<noteq> 0 \<and> q = n then b1\<lparr>prev_free := p\<rparr> else b1)
      in if q = blk then b2\<lparr>next_free := 0, prev_free := 0\<rparr> else b2)"
  "free_list (free_list_remove blk h) =
     (if prev_free (hdrs h blk) = 0 then next_free (hdrs h blk) else free_list h)"
  "heap_brk (free_list_remove blk h) = heap_brk h"
  "heap_start_ptr (free_list_remove blk h) = heap_start_ptr h"
  "heap_end_ptr (free_list_remove blk h) = heap_end_ptr h"
  by (auto simp: free_list_remove_def Let_def)

text \<open>The list operations change neither sizes nor magic numbers.\<close>

lemma list_ops_keep [simp]:
  "bsize (hdrs (free_push blk h) q) = bsize (hdrs h q)"
  "magic (hdrs (free_push blk h) q) = magic (hdrs h q)"
  "prev_phys (hdrs (free_push blk h) q) = prev_phys (hdrs h q)"
  "bsize (hdrs (free_list_remove blk h) q) = bsize (hdrs h q)"
  "magic (hdrs (free_list_remove blk h) q) = magic (hdrs h q)"
  "prev_phys (hdrs (free_list_remove blk h) q) = prev_phys (hdrs h q)"
  by (simp_all add: free_push_fields remove_fields Let_def)

lemma heap_dll_cong:
  assumes "free_list h' = free_list h"
    and "\<And>a. next_free (hdrs h' a) = next_free (hdrs h a) \<and> prev_free (hdrs h' a) = prev_free (hdrs h a)"
  shows "heap_dll h' xs \<longleftrightarrow> heap_dll h xs"
  using assms by simp

lemma heap_dll_push:
  assumes "heap_dll h fs" "blk \<notin> set fs" "distinct fs" "blk \<noteq> 0"
  shows "heap_dll (free_push blk h) (blk # fs)"
proof -
  have ne: "free_list h \<noteq> blk"
    using dll_head [OF assms(1)] assms(2,4) by (auto simp: ptr_def split: list.splits if_splits)
  have "dll (\<lambda>a. ptr (next_free (hdrs (free_push blk h) a))) (\<lambda>a. ptr (prev_free (hdrs (free_push blk h) a)))
      (Some blk) (blk # fs)"
    using assms(1-3)
    by (rule dll_push) (use assms(4) ne in \<open>auto simp: free_push_fields Let_def\<close>)
  then show ?thesis using assms(4) by (simp add: free_push_fields ptr_def)
qed

lemma heap_dll_remove:
  assumes "heap_dll h fs" "b \<in> set fs" "distinct fs"
  shows "heap_dll (free_list_remove b h) (remove1 b fs)"
proof -
  obtain xs ys where s: "fs = xs @ b # ys" "b \<notin> set xs" using split_list_first [OF assms(2)] by blast
  let ?nx = "\<lambda>a. ptr (next_free (hdrs h a))" and ?pv = "\<lambda>a. ptr (prev_free (hdrs h a))"
  obtain r q where seg: "dseg ?nx ?pv None (ptr (free_list h)) xs r (Some b)" "?pv b = r"
    "dseg ?nx ?pv (Some b) (?nx b) ys q None"
    using assms(1) unfolding dll_def s(1) dseg_append by auto
  have prv_in: "?pv b = Some x \<Longrightarrow> x \<in> set xs" for x
    using seg(1,2) by (cases xs rule: rev_cases) (auto simp: dseg_append)
  have nxt_in: "?nx b = Some x \<Longrightarrow> x \<in> set ys" for x
    using seg(3) by (cases ys) auto
  let ?h = "free_list_remove b h"
  have "dll (\<lambda>a. ptr (next_free (hdrs ?h a))) (\<lambda>a. ptr (prev_free (hdrs ?h a)))
      (if ?pv b = None then ?nx b else ptr (free_list h)) (xs @ ys)"
  proof (rule dll_unlink [where pv = ?pv and nx = ?nx and b = b])
    show "dll ?nx ?pv (ptr (free_list h)) (xs @ b # ys)" using assms(1) s by simp
    show "distinct (xs @ b # ys)" using assms(3) s by simp
  qed (use assms(3) s prv_in nxt_in in \<open>auto simp: remove_fields Let_def\<close>)
  moreover have "remove1 b fs = xs @ ys" using s by (simp add: remove1_append)
  moreover have "(if ?pv b = None then ?nx b else ptr (free_list h)) = ptr (free_list ?h)"
    by (simp add: remove_fields)
  ultimately show ?thesis by simp
qed

section \<open>The invariant\<close>

abbreviation hsize :: "heap \<Rightarrow> u32 \<Rightarrow> nat" where
  "hsize h b \<equiv> unat (bsize (hdrs h b))"

text \<open>\<open>H\<close> are the free blocks the running operation has taken off the list.\<close>

definition hinv :: "heap \<Rightarrow> u32 list \<Rightarrow> u32 list \<Rightarrow> u32 set \<Rightarrow> bool" where
  "hinv h bs fs H \<longleftrightarrow>
     tiles (hsize h) (unat (heap_start_ptr h)) bs (unat (heap_brk h)) \<and>
     0 < unat (heap_start_ptr h) \<and> 16 dvd unat (heap_start_ptr h) \<and> heap_brk h \<le> heap_end_ptr h \<and>
     (\<forall>b\<in>set bs. 16 dvd hsize h b \<and> magic (hdrs h b) \<in> {HEAP_MAGIC_FREE, HEAP_MAGIC_USED}) \<and>
     heap_dll h fs \<and> distinct fs \<and>
     set fs = {b \<in> set bs. magic (hdrs h b) = HEAP_MAGIC_FREE \<and> b \<notin> H}"

text \<open>The payloads handed out: address and size.\<close>

definition live_of :: "heap \<Rightarrow> u32 list \<Rightarrow> (nat \<times> nat) set" where
  "live_of h bs = (\<lambda>b. (unat b + 32, hsize h b)) ` {b \<in> set bs. magic (hdrs h b) = HEAP_MAGIC_USED}"

lemma hinvD:
  assumes "hinv h bs fs H"
  shows "tiles (hsize h) (unat (heap_start_ptr h)) bs (unat (heap_brk h))"
    "0 < unat (heap_start_ptr h)" "16 dvd unat (heap_start_ptr h)" "heap_brk h \<le> heap_end_ptr h"
    "b \<in> set bs \<Longrightarrow> 16 dvd hsize h b" "heap_dll h fs" "distinct fs"
    "set fs = {b \<in> set bs. magic (hdrs h b) = HEAP_MAGIC_FREE \<and> b \<notin> H}"
    "b \<in> set bs \<Longrightarrow> magic (hdrs h b) = HEAP_MAGIC_FREE \<or> magic (hdrs h b) = HEAP_MAGIC_USED"
  using assms unfolding hinv_def by auto

lemma hinv_stat [simp]: "hinv (upd_stat g h) bs fs H = hinv h bs fs H"
  by (simp add: hinv_def)

lemma live_stat [simp]: "live_of (upd_stat g h) bs = live_of h bs"
  by (simp add: live_of_def)

lemma tiles_aligned:
  "tiles sz a bs e \<Longrightarrow> 16 dvd a \<Longrightarrow> \<forall>b\<in>set bs. 16 dvd sz b \<Longrightarrow> \<forall>b\<in>set bs. 16 dvd unat b"
  by (induction bs arbitrary: a) auto

lemma hinv_block:
  assumes "hinv h bs fs H" "b \<in> set bs"
  shows "16 dvd unat b" "b \<noteq> 0" "unat b + 32 + hsize h b \<le> unat (heap_brk h)"
    "unat (b + 32 + bsize (hdrs h b)) = unat b + 32 + hsize h b" "hsize h b + 48 < 4294967296"
    "unat (b + 32) = unat b + 32" "unat (heap_start_ptr h) \<le> unat b"
proof -
  note D = hinvD [OF assms(1)]
  show al: "16 dvd unat b" using tiles_aligned [OF D(1,3)] D(5) assms(2) by blast
  have bd: "unat (heap_start_ptr h) \<le> unat b" "unat b + 32 + hsize h b \<le> unat (heap_brk h)"
    using tiles_bounds [OF D(1) assms(2)] by auto
  then show "unat b + 32 + hsize h b \<le> unat (heap_brk h)" "unat (heap_start_ptr h) \<le> unat b" by auto
  have "0 < unat b" using bd(1) D(2) by simp
  then show "b \<noteq> 0" by auto
  have "unat (heap_brk h) < 4294967296" by simp
  then have lt: "unat b + 32 + hsize h b < 4294967296" using bd(2) by linarith
  have "16 \<le> unat b" using al \<open>0 < unat b\<close> by (simp add: dvd_imp_le)
  then show "hsize h b + 48 < 4294967296" using lt by linarith
  have u: "unat (b + of_nat (32 + hsize h b)) = unat b + (32 + hsize h b)"
    using lt by (intro unat_add_small) simp
  then show "unat (b + 32 + bsize (hdrs h b)) = unat b + 32 + hsize h b"
    by (simp add: add.assoc)
  have "unat (b + of_nat 32) = unat b + 32" using lt by (intro unat_add_small) simp
  then show "unat (b + 32) = unat b + 32" by simp
qed

section \<open>Steps that keep the invariant\<close>

lemma hinv_remove:
  assumes inv: "hinv h bs fs H" and b: "b \<in> set fs"
  shows "hinv (free_list_remove b h) bs (remove1 b fs) (insert b H)"
    and "live_of (free_list_remove b h) bs = live_of h bs"
proof -
  note D = hinvD [OF inv]
  have "set (remove1 b fs) = set fs - {b}" using D(7) by (rule set_remove1_eq)
  then show "hinv (free_list_remove b h) bs (remove1 b fs) (insert b H)"
    using inv heap_dll_remove [OF D(6) b D(7)] unfolding hinv_def
    by (auto simp: remove_fields(3-5) distinct_remove1)
  show "live_of (free_list_remove b h) bs = live_of h bs" by (simp add: live_of_def)
qed

lemma hinv_push:
  assumes inv: "hinv h bs fs (insert b H)" and b: "b \<in> set bs" "magic (hdrs h b) = HEAP_MAGIC_FREE" "b \<notin> H"
  shows "hinv (free_push b h) bs (b # fs) H" and "live_of (free_push b h) bs = live_of h bs"
proof -
  note D = hinvD [OF inv]
  have "b \<notin> set fs" using D(8) by auto
  then show "hinv (free_push b h) bs (b # fs) H"
    using inv b heap_dll_push [OF D(6) _ D(7), of b] hinv_block(2) [OF inv b(1)] unfolding hinv_def
    by (auto simp: free_push_fields(3-5))
  show "live_of (free_push b h) bs = live_of h bs" by (simp add: live_of_def)
qed

lemma heap_dll_upd_hdr:
  assumes "\<And>b. next_free (f b) = next_free b \<and> prev_free (f b) = prev_free b"
  shows "heap_dll (upd_hdr a f h) xs \<longleftrightarrow> heap_dll h xs"
  using assms by (intro heap_dll_cong) auto

lemma hinv_mark_used:
  assumes inv: "hinv h bs fs {b}" and b: "b \<in> set bs"
  defines "h' \<equiv> upd_hdr b (\<lambda>b. b\<lparr>magic := HEAP_MAGIC_USED\<rparr>) h"
  shows "hinv h' bs fs {}" and "live_of h' bs = insert (unat b + 32, hsize h b) (live_of h bs)"
proof -
  have sz: "\<And>q. bsize (hdrs h' q) = bsize (hdrs h q)" by (simp add: h'_def)
  have dll: "heap_dll h' fs"
    unfolding h'_def using hinvD(6) [OF inv] by (subst heap_dll_upd_hdr) auto
  have fr: "heap_start_ptr h' = heap_start_ptr h" "heap_end_ptr h' = heap_end_ptr h"
    "heap_brk h' = heap_brk h"
    "\<And>q. magic (hdrs h' q) = (if q = b then HEAP_MAGIC_USED else magic (hdrs h q))"
    by (simp_all add: h'_def)
  show "hinv h' bs fs {}"
    using inv b dll unfolding hinv_def sz fr by auto
  show "live_of h' bs = insert (unat b + 32, hsize h b) (live_of h bs)"
    using b unfolding live_of_def sz by (auto simp: h'_def)
qed

lemma hinv_mark_free:
  assumes inv: "hinv h bs fs {}" and b: "b \<in> set bs" "magic (hdrs h b) = HEAP_MAGIC_USED"
  defines "h' \<equiv> upd_hdr b (\<lambda>b. b\<lparr>magic := HEAP_MAGIC_FREE\<rparr>) h"
  shows "hinv h' bs fs {b}" and "live_of h' bs = live_of h bs - {(unat b + 32, hsize h b)}"
proof -
  have sz: "\<And>q. bsize (hdrs h' q) = bsize (hdrs h q)" by (simp add: h'_def)
  have dll: "heap_dll h' fs"
    unfolding h'_def using hinvD(6) [OF inv] by (subst heap_dll_upd_hdr) auto
  have fr: "heap_start_ptr h' = heap_start_ptr h" "heap_end_ptr h' = heap_end_ptr h"
    "heap_brk h' = heap_brk h"
    "\<And>q. magic (hdrs h' q) = (if q = b then HEAP_MAGIC_FREE else magic (hdrs h q))"
    by (simp_all add: h'_def)
  show "hinv h' bs fs {b}"
    using inv b dll unfolding hinv_def sz fr by auto
  show "live_of h' bs = live_of h bs - {(unat b + 32, hsize h b)}"
    using b unfolding live_of_def sz by (auto simp: h'_def)
qed

text \<open>A header written at the place of a new block, and the block put on the list.\<close>

lemma hinv_split:
  assumes inv: "hinv h bs fs {b}" and b: "b \<in> set bs" "magic (hdrs h b) = HEAP_MAGIC_FREE"
    and sz: "16 dvd unat sz" "unat sz \<le> hsize h b"
  shows "\<exists>bs' fs'. hinv (maybe_split b sz h) bs' fs' {b} \<and> b \<in> set bs' \<and>
    magic (hdrs (maybe_split b sz h) b) = HEAP_MAGIC_FREE \<and>
    unat sz \<le> hsize (maybe_split b sz h) b \<and> live_of (maybe_split b sz h) bs' = live_of h bs"
proof (cases "bsize (hdrs h b) < sz + MIN_BLOCK_SIZE")
  case True
  then show ?thesis using inv b sz by (intro exI [of _ bs] exI [of _ fs]) (simp add: maybe_split_def)
next
  case False
  note D = hinvD [OF inv]
  note B = hinv_block [OF inv b(1)]
  have lt: "unat sz + 48 < 4294967296" using B(5) sz(2) by linarith
  have "unat (sz + of_nat 48) = unat sz + 48" using lt by (intro unat_add_small) simp
  then have ge: "unat sz + 48 \<le> hsize h b" using False by (simp add: word_le_nat_alt not_less)
  let ?r = "b + 32 + sz"
  let ?rs = "bsize (hdrs h b) - sz - 32"
  have "unat (b + of_nat (32 + unat sz)) = unat b + (32 + unat sz)"
    using B(4) ge unat_u32_bounds(1) [of "b + 32 + bsize (hdrs h b)"] by (intro unat_add_small) linarith
  then have r: "unat ?r = unat b + 32 + unat sz" by (simp add: add.assoc)
  have rs: "unat ?rs = hsize h b - unat sz - 32"
    using ge by (simp add: unat_sub word_le_nat_alt)
  obtain xs ys where bs: "bs = xs @ b # ys" using b(1) by (auto dest: split_list)
  obtain m where t: "tiles (hsize h) (unat (heap_start_ptr h)) xs m" "unat b = m"
    "tiles (hsize h) (m + 32 + hsize h b) ys (unat (heap_brk h))"
    using D(1) unfolding bs tiles_append by auto
  have bne: "b \<noteq> ?r"
  proof
    assume "b = ?r"
    then have "unat b = unat ?r" by (rule arg_cong)
    then show False using r by linarith
  qed
  have rnew: "?r \<notin> set bs"
  proof
    assume "?r \<in> set bs"
    then show False using tiles_disjoint [OF D(1) b(1) _ bne] r ge by auto
  qed
  let ?h1 = "upd_hdr ?r (\<lambda>b'. b'\<lparr>magic := HEAP_MAGIC_FREE, bsize := ?rs, prev_phys := b\<rparr>) h"
  let ?h2 = "upd_hdr b (\<lambda>b'. b'\<lparr>bsize := sz\<rparr>) (upd_stat (\<lambda>s. s\<lparr>free_bytes := free_bytes s + ?rs\<rparr>)
      (free_push ?r ?h1))"
  have eq: "maybe_split b sz h = ?h2" using False by (simp add: maybe_split_def Let_def)
  have f: "bsize (hdrs ?h2 q) = (if q = b then sz else if q = ?r then ?rs else bsize (hdrs h q))"
    "magic (hdrs ?h2 q) = (if q = ?r then HEAP_MAGIC_FREE else magic (hdrs h q))" for q
    using bne by auto
  have fr: "heap_start_ptr ?h2 = heap_start_ptr h" "heap_end_ptr ?h2 = heap_end_ptr h"
    "heap_brk ?h2 = heap_brk h"
    by (simp_all add: free_push_fields(3-5))
  have rfs: "?r \<notin> set fs" using rnew D(8) by auto
  have r0: "?r \<noteq> 0"
  proof
    assume "?r = 0"
    then have "unat ?r = 0" by (simp only: unat_0)
    then show False using r by simp
  qed
  have "heap_dll ?h1 fs" using D(6) by (subst heap_dll_upd_hdr) auto
  then have "heap_dll (free_push ?r ?h1) (?r # fs)" using rfs D(7) r0 by (intro heap_dll_push)
  then have dll: "heap_dll ?h2 (?r # fs)"
    by (subst heap_dll_upd_hdr) simp_all
  let ?bs = "xs @ b # ?r # ys"
  have xy: "q \<noteq> b \<and> q \<noteq> ?r" if "q \<in> set xs \<union> set ys" for q
    using that tiles_distinct [OF D(1)] rnew unfolding bs by auto
  have "tiles (hsize ?h2) (unat (heap_start_ptr h)) xs m"
    using t(1) xy by (subst tiles_cong [where sz' = "hsize h"]) (simp_all only: f Un_iff, simp_all)
  moreover have "tiles (hsize ?h2) (m + 32 + hsize h b) ys (unat (heap_brk h))"
    using t(3) xy by (subst tiles_cong [where sz' = "hsize h"]) (simp_all only: f Un_iff, simp_all)
  moreover have "hsize ?h2 b = unat sz" "hsize ?h2 ?r = hsize h b - unat sz - 32"
    using bne rs by (simp_all only: f) simp_all
  ultimately have tiles: "tiles (hsize ?h2) (unat (heap_start_ptr h)) ?bs (unat (heap_brk h))"
    unfolding tiles_append using t(2) r ge by (intro exI [of _ m]) (simp add: algebra_simps)
  have set: "set ?bs = insert ?r (set bs)" using bs by auto
  have "\<forall>q\<in>set ?bs. 16 dvd hsize ?h2 q \<and> magic (hdrs ?h2 q) \<in> {HEAP_MAGIC_FREE, HEAP_MAGIC_USED}"
    unfolding set f using D(5,9) sz(1) rs rnew b(1) by (auto intro!: dvd_diff_nat)
  moreover have "set (?r # fs) = {q \<in> set ?bs. magic (hdrs ?h2 q) = HEAP_MAGIC_FREE \<and> q \<notin> {b}}"
    unfolding set f using D(8) rnew bne by auto
  ultimately have "hinv ?h2 ?bs (?r # fs) {b}"
    unfolding hinv_def fr using tiles D(2-4,7) dll rfs by simp
  moreover have "live_of ?h2 ?bs = live_of h bs"
    unfolding live_of_def set f
  proof (rule image_cong)
    show "{q \<in> insert ?r (set bs). (if q = ?r then HEAP_MAGIC_FREE else magic (hdrs h q)) = HEAP_MAGIC_USED} =
        {q \<in> set bs. magic (hdrs h q) = HEAP_MAGIC_USED}" using rnew by auto
  qed (use rnew b in auto)
  moreover have "magic (hdrs ?h2 b) = HEAP_MAGIC_FREE" unfolding f using b(2) by simp
  moreover have "unat sz \<le> hsize ?h2 b" unfolding f by simp
  moreover have "b \<in> set ?bs" by simp
  ultimately show ?thesis unfolding eq by blast
qed

end
