(* ===== verification/Heap_Ops.thy ===== *)
theory Heap_Ops
  imports Heap_Inv
begin

text \<open>
  \<open>kmalloc\<close> and \<open>kfree\<close> on a heap that satisfies the invariant: the search ends, an allocation
  adds one fresh payload to the live ones, and freeing removes it, provided the \<open>prev_phys\<close> link
  of the freed block is right.
\<close>

section \<open>First fit\<close>

lemma first_fit_find:
  assumes "dseg (\<lambda>a. ptr (next_free (hdrs h a))) pv p (ptr a) fs q None" "0 \<notin> set fs"
  shows "first_fit h sz a = Some (case find (\<lambda>b. magic (hdrs h b) = HEAP_MAGIC_FREE \<and> bsize (hdrs h b) \<ge> sz) fs
    of None \<Rightarrow> 0 | Some b \<Rightarrow> b)"
  using assms
proof (induction fs arbitrary: p a)
  case Nil
  then show ?case by (subst first_fit.simps) simp
next
  case (Cons x fs)
  then have a: "a = x" "x \<noteq> 0" by auto
  show ?case
  proof (cases "magic (hdrs h x) = HEAP_MAGIC_FREE \<and> bsize (hdrs h x) \<ge> sz")
    case True
    then show ?thesis using a by (subst first_fit.simps) simp
  next
    case False
    have "first_fit h sz (next_free (hdrs h x)) = Some (case find (\<lambda>b. magic (hdrs h b) = HEAP_MAGIC_FREE \<and>
        bsize (hdrs h b) \<ge> sz) fs of None \<Rightarrow> 0 | Some b \<Rightarrow> b)"
      using Cons.prems by (intro Cons.IH [of "Some x"]) auto
    then show ?thesis using a False by (subst first_fit.simps) auto
  qed
qed

lemma hinv_zero: "hinv h bs fs H \<Longrightarrow> 0 \<notin> set bs \<and> 0 \<notin> set fs"
  using hinv_block(2) hinvD(8) by blast

lemma hinv_first_fit:
  assumes inv: "hinv h bs fs {}"
  obtains "first_fit h sz (free_list h) = Some 0" "\<forall>b\<in>set fs. \<not> bsize (hdrs h b) \<ge> sz"
  | b where "first_fit h sz (free_list h) = Some b" "b \<in> set fs" "bsize (hdrs h b) \<ge> sz" "b \<noteq> 0"
proof -
  note D = hinvD [OF inv]
  let ?P = "\<lambda>b. magic (hdrs h b) = HEAP_MAGIC_FREE \<and> bsize (hdrs h b) \<ge> sz"
  obtain q where "dseg (\<lambda>a. ptr (next_free (hdrs h a))) (\<lambda>a. ptr (prev_free (hdrs h a))) None
      (ptr (free_list h)) fs q None"
    using D(6) by (auto simp: dll_def)
  then have ff: "first_fit h sz (free_list h) = Some (case find ?P fs of None \<Rightarrow> 0 | Some b \<Rightarrow> b)"
    using hinv_zero [OF inv] by (intro first_fit_find) auto
  show thesis
  proof (cases "find ?P fs")
    case None
    then have "\<forall>b\<in>set fs. \<not> bsize (hdrs h b) \<ge> sz" using D(8) by (auto simp: find_None_iff)
    then show thesis using that(1) ff None by simp
  next
    case (Some b)
    then have "b \<in> set fs" "bsize (hdrs h b) \<ge> sz" by (auto simp: find_Some_iff)
    then show thesis using that(2) [of b] ff Some hinv_zero [OF inv] by auto
  qed
qed

section \<open>Taking a block\<close>

lemma take_block_inv:
  assumes inv: "hinv h bs fs {}" and b: "b \<in> set fs" "bsize (hdrs h b) \<ge> sz" "16 dvd unat sz"
  shows "\<exists>bs' fs' n. hinv (take_block b sz h) bs' fs' {} \<and> b \<in> set bs' \<and> unat sz \<le> n \<and>
    n = hsize (take_block b sz h) b \<and>
    live_of (take_block b sz h) bs' = insert (unat b + 32, n) (live_of h bs) \<and>
    (unat b + 32, n) \<notin> live_of h bs"
proof -
  note D = hinvD [OF inv]
  have bb: "b \<in> set bs" "magic (hdrs h b) = HEAP_MAGIC_FREE" using b(1) D(8) by auto
  let ?h1 = "free_list_remove b h"
  have r: "hinv ?h1 bs (remove1 b fs) {b}" "live_of ?h1 bs = live_of h bs"
    using hinv_remove [OF inv b(1)] by simp_all
  obtain bs' fs' where s: "hinv (maybe_split b sz ?h1) bs' fs' {b}" "b \<in> set bs'"
    "magic (hdrs (maybe_split b sz ?h1) b) = HEAP_MAGIC_FREE"
    "unat sz \<le> hsize (maybe_split b sz ?h1) b" "live_of (maybe_split b sz ?h1) bs' = live_of ?h1 bs"
    using hinv_split [OF r(1) bb(1) _ b(3)] bb(2) b(2) by (auto simp: word_le_nat_alt)
  let ?h2 = "maybe_split b sz ?h1"
  let ?h3 = "upd_hdr b (\<lambda>b. b\<lparr>magic := HEAP_MAGIC_USED\<rparr>) ?h2"
  have u: "hinv ?h3 bs' fs' {}" "live_of ?h3 bs' = insert (unat b + 32, hsize ?h2 b) (live_of h bs)"
    using hinv_mark_used [OF s(1,2)] s(5) r(2) by simp_all
  have fresh: "(unat b + 32, hsize ?h2 b) \<notin> live_of h bs"
    using bb(2) by (auto simp: live_of_def)
  obtain g where t: "take_block b sz h = upd_stat g ?h3"
    unfolding take_block_def by (auto simp: Let_def)
  have sz: "hsize (take_block b sz h) b = hsize ?h2 b" by (simp add: t)
  show ?thesis
    using u s(2,4) fresh unfolding sz unfolding t by (intro exI [of _ bs'] exI [of _ fs'] exI [of _ "hsize ?h2 b"]) simp
qed

section \<open>Growing the heap\<close>

lemma tiles_end_aligned:
  "tiles sz a bs e \<Longrightarrow> 16 dvd a \<Longrightarrow> \<forall>b\<in>set bs. 16 dvd sz b \<Longrightarrow> 16 dvd e"
  by (induction bs arbitrary: a) auto

lemma heap_expand_inv:
  assumes inv: "hinv h bs fs {}" and sz: "16 dvd unat sz" "unat (heap_end_ptr h) + unat sz + 8192 \<le> 4294967296"
  shows "heap_expand sz h = (0, h) \<or>
    (\<exists>h' b. heap_expand sz h = (b, h') \<and> b \<noteq> 0 \<and> hinv h' (bs @ [b]) (b # fs) {} \<and>
      sz \<le> bsize (hdrs h' b) \<and> live_of h' (bs @ [b]) = live_of h bs \<and> heap_end_ptr h' = heap_end_ptr h)"
proof -
  note D = hinvD [OF inv]
  let ?e = "ALIGN_UP (sz + 32) PAGE_SIZE"
  have "unat (sz + of_nat 32) = unat sz + 32" using sz(2) by (intro unat_add_small) simp
  then have s32: "unat (sz + 32) = unat sz + 32" by simp
  then have ue: "unat ?e = (unat sz + 32 + 4095) div 4096 * 4096"
    using unat_ALIGN_UP [of PAGE_SIZE 12 "sz + 32"] sz(2) by (simp add: PAGE_SIZE_def)
  have "(unat sz + 32 + 4095) div 4096 * 4096 \<le> unat sz + 32 + 4095"
    by (rule div_times_less_eq_dividend)
  then have up: "unat ?e \<le> unat sz + 4127" using ue by linarith
  have lo: "unat sz + 32 \<le> unat ?e"
  proof -
    have "unat sz + 32 + 4095 = (unat sz + 32 + 4095) div 4096 * 4096 + (unat sz + 32 + 4095) mod 4096"
      by simp
    moreover have "(unat sz + 32 + 4095) mod 4096 < 4096" by simp
    ultimately show ?thesis using ue by linarith
  qed
  have brk_end: "unat (heap_brk h) \<le> unat (heap_end_ptr h)" using D(4) by (simp add: word_le_nat_alt)
  have "unat (heap_brk h + of_nat (unat ?e)) = unat (heap_brk h) + unat ?e"
    using brk_end up sz(2) by (intro unat_add_small) linarith
  then have ub: "unat (heap_brk h + ?e) = unat (heap_brk h) + unat ?e" by simp
  show ?thesis
  proof (cases "heap_brk h + ?e > heap_end_ptr h")
    case True
    then show ?thesis by (simp add: heap_expand_def)
  next
    case False
    let ?b = "heap_brk h"
    let ?h1 = "h\<lparr>heap_brk := ?b + ?e\<rparr>"
    let ?h2 = "upd_hdr ?b (\<lambda>b. b\<lparr>magic := HEAP_MAGIC_FREE, bsize := ?e - 32, prev_phys := 0\<rparr>) ?h1"
    let ?h3 = "free_push ?b ?h2"
    obtain g where eq: "heap_expand sz h = (?b, upd_stat g ?h3)"
      using False by (simp add: heap_expand_def Let_def)
    have b0: "?b \<noteq> 0"
    proof
      assume "?b = 0"
      then have "unat ?b = 0" by simp
      then show False using tiles_le [OF D(1)] D(2) by simp
    qed
    have fresh: "?b \<notin> set bs"
      using tiles_bounds [OF D(1), of ?b] by auto
    have f: "bsize (hdrs ?h3 q) = (if q = ?b then ?e - 32 else bsize (hdrs h q))"
      "magic (hdrs ?h3 q) = (if q = ?b then HEAP_MAGIC_FREE else magic (hdrs h q))" for q
      by auto
    have fr: "heap_start_ptr ?h3 = heap_start_ptr h" "heap_end_ptr ?h3 = heap_end_ptr h"
      "heap_brk ?h3 = ?b + ?e"
      by (simp_all add: free_push_fields(3-5))
    have rs: "unat (?e - 32) = unat ?e - 32" using lo by (simp add: unat_sub word_le_nat_alt)
    have "heap_dll ?h1 fs" using D(6) by simp
    then have "heap_dll ?h2 fs" by (subst heap_dll_upd_hdr) simp_all
    then have dll: "heap_dll ?h3 (?b # fs)"
      using fresh D(7,8) b0 by (intro heap_dll_push) auto
    have t1: "tiles (hsize ?h3) (unat (heap_start_ptr h)) bs (unat ?b)"
      using D(1) fresh by (subst tiles_cong [where sz' = "hsize h"]) (simp_all only: f, auto)
    have s3: "hsize ?h3 ?b = unat ?e - 32" unfolding f using rs by simp
    have tl: "tiles (hsize ?h3) (unat (heap_start_ptr h)) (bs @ [?b]) (unat (?b + ?e))"
      unfolding tiles_append tiles.simps ub using t1 s3 lo by (intro exI [of _ "unat ?b"]) simp
    have al: "16 dvd unat ?e - 32"
      unfolding ue by (intro dvd_diff_nat) simp_all
    have all: "\<forall>q\<in>set (bs @ [?b]). 16 dvd hsize ?h3 q \<and> magic (hdrs ?h3 q) \<in> {HEAP_MAGIC_FREE, HEAP_MAGIC_USED}"
    proof
      fix q assume "q \<in> set (bs @ [?b])"
      then show "16 dvd hsize ?h3 q \<and> magic (hdrs ?h3 q) \<in> {HEAP_MAGIC_FREE, HEAP_MAGIC_USED}"
        unfolding f using D(5) [of q] D(9) [of q] al rs by (cases "q = ?b") auto
    qed
    have fs: "set (?b # fs) = {q \<in> set (bs @ [?b]). magic (hdrs ?h3 q) = HEAP_MAGIC_FREE \<and> q \<notin> {}}"
      unfolding f using D(8) fresh by auto
    have "distinct (?b # fs)" using D(7,8) fresh by auto
    moreover have "?b + ?e \<le> heap_end_ptr h" using False by simp
    ultimately have "hinv ?h3 (bs @ [?b]) (?b # fs) {}"
      unfolding hinv_def fr using tl D(2,3) all dll fs by blast
    moreover have "live_of ?h3 (bs @ [?b]) = live_of h bs"
      unfolding live_of_def f
    proof (rule image_cong)
      show "{q \<in> set (bs @ [?b]). (if q = ?b then HEAP_MAGIC_FREE else magic (hdrs h q)) = HEAP_MAGIC_USED} =
          {q \<in> set bs. magic (hdrs h q) = HEAP_MAGIC_USED}" using fresh by auto
    qed (use fresh in auto)
    moreover have "sz \<le> bsize (hdrs ?h3 ?b)"
      unfolding f using rs lo by (simp add: word_le_nat_alt)
    ultimately show ?thesis
      unfolding eq using b0 fr(2) by (intro disjI2 exI [of _ "upd_stat g ?h3"] exI [of _ ?b]) simp
  qed
qed

section \<open>kmalloc\<close>

lemma take_block_frame: "heap_end_ptr (take_block b sz h) = heap_end_ptr h"
  by (simp add: take_block_def Let_def maybe_split_def free_push_fields(5) remove_fields(5))

lemma kmalloc_found:
  assumes "hinv h bs fs {}" "n \<noteq> 0" "16 dvd unat (ALIGN_UP n HEAP_ALIGN)"
    and "first_fit h (ALIGN_UP n HEAP_ALIGN) (free_list h) = Some b" "b \<in> set fs" "b \<noteq> 0"
    and "bsize (hdrs h b) \<ge> ALIGN_UP n HEAP_ALIGN"
  shows "\<exists>p h' bs' fs' m. kmalloc n h = Some (p, h') \<and> p \<noteq> 0 \<and> hinv h' bs' fs' {} \<and>
    unat (ALIGN_UP n HEAP_ALIGN) \<le> m \<and> live_of h' bs' = insert (unat p, m) (live_of h bs) \<and>
    (unat p, m) \<notin> live_of h bs \<and> heap_end_ptr h' = heap_end_ptr h"
proof -
  let ?h = "take_block b (ALIGN_UP n HEAP_ALIGN) h"
  have k: "kmalloc n h = Some (b + 32, ?h)"
    using assms(2,4,6) by (subst kmalloc.simps) (simp add: Let_def)
  obtain bs' fs' m where t: "hinv ?h bs' fs' {}" "b \<in> set bs'" "unat (ALIGN_UP n HEAP_ALIGN) \<le> m"
    "live_of ?h bs' = insert (unat b + 32, m) (live_of h bs)" "(unat b + 32, m) \<notin> live_of h bs"
    using take_block_inv [OF assms(1,5,7,3)] by blast
  have u: "unat (b + 32) = unat b + 32" using hinv_block(6) [OF t(1,2)] .
  then have "b + 32 \<noteq> 0" by (metis add_is_0 unat_0 zero_neq_numeral)
  then show ?thesis
    using k t u take_block_frame [of b "ALIGN_UP n HEAP_ALIGN" h]
    by (intro exI [of _ "b + 32"] exI [of _ ?h] exI [of _ bs'] exI [of _ fs'] exI [of _ m]) simp
qed

lemma align_16:
  assumes "unat n + 16 \<le> 4294967296"
  shows "16 dvd unat (ALIGN_UP n HEAP_ALIGN)" "unat n \<le> unat (ALIGN_UP n HEAP_ALIGN)"
    "unat (ALIGN_UP n HEAP_ALIGN) < unat n + 16"
proof -
  have u: "unat (ALIGN_UP n HEAP_ALIGN) = (unat n + 15) div 16 * 16"
    using unat_ALIGN_UP [of HEAP_ALIGN 4 n] assms by simp
  show "16 dvd unat (ALIGN_UP n HEAP_ALIGN)" unfolding u by simp
  have "unat n + 15 = (unat n + 15) div 16 * 16 + (unat n + 15) mod 16" by simp
  moreover have "(unat n + 15) mod 16 < 16" by simp
  ultimately show "unat n \<le> unat (ALIGN_UP n HEAP_ALIGN)" "unat (ALIGN_UP n HEAP_ALIGN) < unat n + 16"
    unfolding u by linarith+
qed

lemma align_16_idem:
  assumes "16 dvd unat n" "unat n + 16 \<le> 4294967296"
  shows "ALIGN_UP n HEAP_ALIGN = n"
proof -
  obtain q where q: "unat n = 16 * q" using assms(1) ..
  have "(16 * q + 15) div 16 = q" by (simp add: div_nat_eqI)
  moreover have "unat (ALIGN_UP n HEAP_ALIGN) = (unat n + 15) div 16 * 16"
    using unat_ALIGN_UP [of HEAP_ALIGN 4 n] assms by simp
  ultimately have "unat (ALIGN_UP n HEAP_ALIGN) = unat n" using q by simp
  then show ?thesis by (simp only: unat_eq_unat_iff)
qed

text \<open>\<open>heap_live h A\<close>: the heap is sound and \<open>A\<close> are the payloads handed out.\<close>

definition heap_live :: "heap \<Rightarrow> (nat \<times> nat) set \<Rightarrow> bool" where
  "heap_live h A \<longleftrightarrow> (\<exists>bs fs. hinv h bs fs {} \<and> A = live_of h bs)"

lemma kmalloc_live:
  assumes "heap_live h A" "unat (heap_end_ptr h) + unat n + 8208 \<le> 4294967296"
  shows "\<exists>p h'. kmalloc n h = Some (p, h') \<and> heap_end_ptr h' = heap_end_ptr h \<and>
    (if p = 0 then heap_live h' A
     else \<exists>m\<ge>unat n. heap_live h' (insert (unat p, m) A) \<and> (unat p, m) \<notin> A)"
proof (cases "n = 0")
  case True
  then show ?thesis using assms(1) by (subst kmalloc.simps) simp
next
  case False
  let ?sz = "ALIGN_UP n HEAP_ALIGN"
  have al: "16 dvd unat ?sz" "unat n \<le> unat ?sz" "unat ?sz < unat n + 16"
    using align_16 [of n] assms(2) by auto
  obtain bs fs where inv: "hinv h bs fs {}" "A = live_of h bs" using assms(1) by (auto simp: heap_live_def)
  have found: ?thesis
    if i: "hinv h1 bs1 fs1 {}" "live_of h1 bs1 = A" "heap_end_ptr h1 = heap_end_ptr h"
      "kmalloc n h = kmalloc n' h1" "first_fit h1 ?sz (free_list h1) = Some b" "b \<in> set fs1" "b \<noteq> 0"
      "bsize (hdrs h1 b) \<ge> ?sz" and n': "n' \<noteq> 0" "ALIGN_UP n' HEAP_ALIGN = ?sz" for h1 bs1 fs1 b n'
  proof -
    obtain p h' bs' fs' m where k: "kmalloc n' h1 = Some (p, h')" "p \<noteq> 0" "hinv h' bs' fs' {}"
      "unat ?sz \<le> m" "live_of h' bs' = insert (unat p, m) (live_of h1 bs1)"
      "(unat p, m) \<notin> live_of h1 bs1" "heap_end_ptr h' = heap_end_ptr h1"
      using kmalloc_found [OF i(1) n'(1), unfolded n'(2), OF al(1) i(5-8)] by blast
    have "heap_live h' (insert (unat p, m) A)"
      unfolding heap_live_def using k(3,5) i(2) by metis
    moreover have "unat n \<le> m" using k(4) al(2) by linarith
    ultimately show ?thesis
      using k(1,2,6,7) i(2-4) by (intro exI [of _ p] exI [of _ h']) auto
  qed
  from inv(1) show ?thesis
  proof (cases rule: hinv_first_fit [where sz = ?sz])
    case (2 b)
    then show ?thesis using False by (intro found [OF inv(1)]) (simp_all add: inv(2))
  next
    case 1
    have "unat (heap_end_ptr h) + unat ?sz + 8192 \<le> 4294967296" using al(3) assms(2) by linarith
    from heap_expand_inv [OF inv(1) al(1) this] show ?thesis
    proof (elim disjE exE conjE)
      assume "heap_expand ?sz h = (0, h)"
      then have "kmalloc n h = Some (0, h)" using 1(1) False by (subst kmalloc.simps) (simp add: Let_def)
      then show ?thesis using assms(1) by simp
    next
      fix h1 b
      assume e: "heap_expand ?sz h = (b, h1)" "b \<noteq> 0" "hinv h1 (bs @ [b]) (b # fs) {}"
        "?sz \<le> bsize (hdrs h1 b)" "live_of h1 (bs @ [b]) = live_of h bs" "heap_end_ptr h1 = heap_end_ptr h"
      have "kmalloc n h = kmalloc ?sz h1"
        using 1(1) False e(1,2) by (subst kmalloc.simps) (simp add: Let_def)
      note k = found [OF e(3) _ e(6) this]
      from e(3) show ?thesis
      proof (cases rule: hinv_first_fit [where sz = ?sz])
        case 1
        then show ?thesis using e(4) by simp
      next
        case (2 c)
        have "?sz \<noteq> 0"
        proof
          assume "?sz = 0"
          then have "unat ?sz = 0" by simp
          then have "unat n = 0" using al(2) by simp
          then show False using False by (simp only: unat_0_iff)
        qed
        moreover have "ALIGN_UP ?sz HEAP_ALIGN = ?sz" using al assms(2) by (intro align_16_idem) auto
        ultimately show ?thesis using k [of c] 2 e(5) inv(2) by simp
      qed
    qed
  qed
qed

text \<open>What it means that the payloads are live.\<close>

lemma heap_live_disjoint:
  assumes "heap_live h A" "(a, n) \<in> A" "(a', n') \<in> A" "(a, n) \<noteq> (a', n')"
  shows "{a..<a + n} \<inter> {a'..<a' + n'} = {}"
proof -
  obtain bs fs where inv: "hinv h bs fs {}" "A = live_of h bs" using assms(1) by (auto simp: heap_live_def)
  obtain b b' where b: "b \<in> set bs" "a = unat b + 32" "n = hsize h b"
    "b' \<in> set bs" "a' = unat b' + 32" "n' = hsize h b'"
    using assms(2,3) unfolding inv(2) live_of_def by auto
  then have "b \<noteq> b'" using assms(4) by auto
  then show ?thesis using tiles_disjoint [OF hinvD(1) [OF inv(1)] b(1,4)] b by auto
qed

lemma heap_live_bounds:
  assumes "heap_live h A" "(a, n) \<in> A"
  shows "16 dvd a" "unat (heap_start_ptr h) + 32 \<le> a" "a + n \<le> unat (heap_end_ptr h)"
proof -
  obtain bs fs where inv: "hinv h bs fs {}" "A = live_of h bs" using assms(1) by (auto simp: heap_live_def)
  obtain b where b: "b \<in> set bs" "a = unat b + 32" "n = hsize h b"
    using assms(2) unfolding inv(2) live_of_def by auto
  note B = hinv_block [OF inv(1) b(1)]
  have "unat (heap_brk h) \<le> unat (heap_end_ptr h)"
    using hinvD(4) [OF inv(1)] by (simp add: word_le_nat_alt)
  then show "16 dvd a" "unat (heap_start_ptr h) + 32 \<le> a" "a + n \<le> unat (heap_end_ptr h)"
    using B(1,3,7) b by auto
qed

section \<open>Merging and kfree\<close>

text \<open>Two neighbouring free blocks that are off the list become one.\<close>

lemma hinv_merge:
  assumes inv: "hinv h (xs @ b # c # ys) fs {b, c}"
    and m: "magic (hdrs h b) = HEAP_MAGIC_FREE" "magic (hdrs h c) = HEAP_MAGIC_FREE"
  defines "h' \<equiv> upd_hdr b (\<lambda>b. b\<lparr>bsize := bsize b + (BLOCK_HDR_SIZE + bsize (hdrs h c))\<rparr>) h"
  shows "hinv h' (xs @ b # ys) fs {b}" and "live_of h' (xs @ b # ys) = live_of h (xs @ b # c # ys)"
proof -
  note D = hinvD [OF inv]
  obtain k where t: "tiles (hsize h) (unat (heap_start_ptr h)) xs k" "unat b = k"
    "unat c = k + 32 + hsize h b" "tiles (hsize h) (unat c + 32 + hsize h c) ys (unat (heap_brk h))"
    using D(1) unfolding tiles_append by auto
  have dist: "distinct (xs @ b # c # ys)" using tiles_distinct [OF D(1)] .
  have "hsize h b + (32 + hsize h c) < 4294967296"
  proof -
    have "unat c + 32 + hsize h c \<le> unat (heap_brk h)" using hinv_block(3) [OF inv, of c] by simp
    then show ?thesis using t(2,3) unat_u32_bounds(1) [of "heap_brk h"] by linarith
  qed
  then have "unat (bsize (hdrs h b) + of_nat (32 + hsize h c)) = hsize h b + (32 + hsize h c)"
    by (intro unat_add_small) simp
  then have sum: "unat (bsize (hdrs h b) + (32 + bsize (hdrs h c))) = hsize h b + 32 + hsize h c"
    by simp
  have f: "hsize h' q = (if q = b then hsize h b + 32 + hsize h c else hsize h q)"
    "magic (hdrs h' q) = magic (hdrs h q)" for q
    using sum by (simp_all add: h'_def)
  have fr: "heap_start_ptr h' = heap_start_ptr h" "heap_end_ptr h' = heap_end_ptr h" "heap_brk h' = heap_brk h"
    by (simp_all add: h'_def)
  have dll: "heap_dll h' fs"
    unfolding h'_def using D(6) by (subst heap_dll_upd_hdr) simp_all
  have "tiles (hsize h') (unat (heap_start_ptr h)) xs k"
    using t(1) dist by (subst tiles_cong [where sz' = "hsize h"]) (auto simp: f)
  moreover have "tiles (hsize h') (unat c + 32 + hsize h c) ys (unat (heap_brk h))"
    using t(4) dist by (subst tiles_cong [where sz' = "hsize h"]) (auto simp: f)
  moreover have "hsize h' b = hsize h b + 32 + hsize h c" by (simp only: f) simp
  ultimately have tl: "tiles (hsize h') (unat (heap_start_ptr h)) (xs @ b # ys) (unat (heap_brk h))"
    unfolding tiles_append using t(2,3) by (intro exI [of _ k]) (simp add: algebra_simps)
  have all: "\<forall>q\<in>set (xs @ b # ys). 16 dvd hsize h' q \<and> magic (hdrs h' q) \<in> {HEAP_MAGIC_FREE, HEAP_MAGIC_USED}"
  proof
    fix q assume "q \<in> set (xs @ b # ys)"
    then show "16 dvd hsize h' q \<and> magic (hdrs h' q) \<in> {HEAP_MAGIC_FREE, HEAP_MAGIC_USED}"
      unfolding f using D(5) [of q] D(5) [of c] D(9) [of q] by auto
  qed
  have "set fs = {q \<in> set (xs @ b # ys). magic (hdrs h' q) = HEAP_MAGIC_FREE \<and> q \<notin> {b}}"
    unfolding f using D(8) dist by auto
  then show "hinv h' (xs @ b # ys) fs {b}"
    unfolding hinv_def fr using tl D(2-4,7) all dll by blast
  show "live_of h' (xs @ b # ys) = live_of h (xs @ b # c # ys)"
    unfolding live_of_def f(2)
  proof (rule image_cong)
    show "{q \<in> set (xs @ b # ys). magic (hdrs h q) = HEAP_MAGIC_USED} =
        {q \<in> set (xs @ b # c # ys). magic (hdrs h q) = HEAP_MAGIC_USED}" using m by auto
  qed (use m in \<open>auto simp: f\<close>)
qed

lemma coalesce_next_inv:
  assumes inv: "hinv h (xs @ b # ys) fs {b}" and b: "magic (hdrs h b) = HEAP_MAGIC_FREE"
  shows "\<exists>ys' fs'. hinv (coalesce_next b h) (xs @ b # ys') fs' {b} \<and>
    live_of (coalesce_next b h) (xs @ b # ys') = live_of h (xs @ b # ys) \<and>
    (\<forall>q. magic (hdrs (coalesce_next b h) q) = magic (hdrs h q)) \<and>
    prev_phys (hdrs (coalesce_next b h) b) = prev_phys (hdrs h b)"
proof (cases "b + 32 + bsize (hdrs h b) < heap_brk h \<and> magic (hdrs h (b + 32 + bsize (hdrs h b))) = HEAP_MAGIC_FREE")
  case False
  then have "coalesce_next b h = h" by (auto simp: coalesce_next_def Let_def)
  then show ?thesis using inv by (intro exI [of _ ys] exI [of _ fs]) simp
next
  case True
  note D = hinvD [OF inv]
  let ?c = "b + 32 + bsize (hdrs h b)"
  have uc: "unat ?c = unat b + 32 + hsize h b" using hinv_block(4) [OF inv] by simp
  have ty: "tiles (hsize h) (unat b + 32 + hsize h b) ys (unat (heap_brk h))"
    using D(1) by (auto simp: tiles_append)
  have "unat ?c < unat (heap_brk h)" using True by (simp add: word_less_nat_alt)
  then obtain ys' where ys: "ys = ?c # ys'"
  proof (cases ys)
    case (Cons y ys')
    then have "unat y = unat ?c" using ty uc by simp
    then have "y = ?c" by (simp only: unat_eq_unat_iff)
    then show thesis using that Cons by blast
  qed (use ty uc in simp)
  have cb: "?c \<noteq> b" using tiles_distinct [OF D(1)] ys by auto
  then have cf: "?c \<in> set fs" using D(8) ys True by auto
  let ?h1 = "free_list_remove ?c h"
  have r: "hinv ?h1 (xs @ b # ?c # ys') (remove1 ?c fs) {?c, b}" "live_of ?h1 (xs @ b # ys) = live_of h (xs @ b # ys)"
    using hinv_remove [OF inv cf] ys by simp_all
  then have r1: "hinv ?h1 (xs @ b # ?c # ys') (remove1 ?c fs) {b, ?c}" by (simp add: insert_commute)
  let ?h2 = "upd_hdr b (\<lambda>b. b\<lparr>bsize := bsize b + (BLOCK_HDR_SIZE + bsize (hdrs ?h1 ?c))\<rparr>) ?h1"
  note m = hinv_merge [OF r1]
  have mm: "magic (hdrs ?h1 b) = HEAP_MAGIC_FREE" "magic (hdrs ?h1 ?c) = HEAP_MAGIC_FREE"
    using b True by simp_all
  obtain g where eq: "coalesce_next b h = upd_stat g ?h2"
    using True by (simp add: coalesce_next_def Let_def)
  have "hinv ?h2 (xs @ b # ys') (remove1 ?c fs) {b}" "live_of ?h2 (xs @ b # ys') = live_of h (xs @ b # ys)"
    using m(1) [OF mm] m(2) [OF mm] r(2) ys by simp_all
  moreover have "magic (hdrs ?h2 q) = magic (hdrs h q)" for q by simp
  moreover have "prev_phys (hdrs ?h2 b) = prev_phys (hdrs h b)" by simp
  ultimately show ?thesis
    unfolding eq by (intro exI [of _ ys'] exI [of _ "remove1 ?c fs"]) simp
qed

text \<open>The link to the previous block is right: it is NULL, or to a block in use, or to the
  neighbour in front.\<close>

definition link_ok :: "heap \<Rightarrow> u32 list \<Rightarrow> u32 \<Rightarrow> bool" where
  "link_ok h bs b \<longleftrightarrow>
     prev_phys (hdrs h b) = 0 \<or> magic (hdrs h (prev_phys (hdrs h b))) \<noteq> HEAP_MAGIC_FREE \<or>
     (\<exists>xs ys. bs = xs @ prev_phys (hdrs h b) # b # ys)"

lemma coalesce_inv:
  assumes inv: "hinv h bs fs {b}" and b: "b \<in> set bs" "magic (hdrs h b) = HEAP_MAGIC_FREE"
    and link: "link_ok h bs b"
  shows "\<exists>bs' fs'. hinv (coalesce b h) bs' fs' {} \<and> live_of (coalesce b h) bs' = live_of h bs"
proof -
  obtain xs ys where bs: "bs = xs @ b # ys" using b(1) by (auto dest: split_list)
  let ?h1 = "coalesce_next b h"
  obtain ys1 fs1 where c: "hinv ?h1 (xs @ b # ys1) fs1 {b}" "live_of ?h1 (xs @ b # ys1) = live_of h bs"
    "\<forall>q. magic (hdrs ?h1 q) = magic (hdrs h q)" "prev_phys (hdrs ?h1 b) = prev_phys (hdrs h b)"
    using coalesce_next_inv [OF inv [unfolded bs] b(2)] bs by auto
  let ?p = "prev_phys (hdrs h b)"
  show ?thesis
  proof (cases "?p \<noteq> 0 \<and> magic (hdrs h ?p) = HEAP_MAGIC_FREE")
    case False
    then have "coalesce b h = free_push b ?h1" using c(3,4) by (auto simp: coalesce_def Let_def)
    then show ?thesis using hinv_push [OF c(1)] b(2) c(2,3) by auto
  next
    case True
    then obtain us vs where "bs = us @ ?p # b # vs" using link by (auto simp: link_ok_def)
    then have "xs @ b # ys = (us @ [?p]) @ b # vs" using bs by simp
    moreover have "b \<notin> set xs" "b \<notin> set ys" using tiles_distinct [OF hinvD(1) [OF inv]] bs by auto
    ultimately have "xs = us @ [?p]" using append_Cons_eq_iff [of b xs ys "us @ [?p]" vs] by blast
    then have inv1: "hinv ?h1 (us @ ?p # b # ys1) fs1 {b}"
      and live1: "live_of ?h1 (us @ ?p # b # ys1) = live_of h bs" using c(1,2) by simp_all
    have "?p \<noteq> b" using tiles_distinct [OF hinvD(1) [OF inv1]] by auto
    then have pf: "?p \<in> set fs1" using hinvD(8) [OF inv1] True c(3) by auto
    let ?h2 = "free_list_remove ?p ?h1"
    note r = hinv_remove [OF inv1 pf]
    let ?h3 = "upd_hdr ?p (\<lambda>b'. b'\<lparr>bsize := bsize b' + (BLOCK_HDR_SIZE + bsize (hdrs ?h2 b))\<rparr>) ?h2"
    have mm: "magic (hdrs ?h2 ?p) = HEAP_MAGIC_FREE" "magic (hdrs ?h2 b) = HEAP_MAGIC_FREE"
      using True b(2) c(3) by simp_all
    note m = hinv_merge [OF r(1) mm]
    obtain g where eq: "coalesce b h = free_push ?p (upd_stat g ?h3)"
      using True c(3,4) by (simp add: coalesce_def Let_def)
    have i3: "hinv (upd_stat g ?h3) (us @ ?p # ys1) (remove1 ?p fs1) {?p}"
      "live_of (upd_stat g ?h3) (us @ ?p # ys1) = live_of h bs"
      using m r(2) live1 by simp_all
    have "magic (hdrs (upd_stat g ?h3) ?p) = HEAP_MAGIC_FREE" using mm by simp
    then show ?thesis unfolding eq using hinv_push [OF i3(1)] i3(2) by auto
  qed
qed

end
