(* ===== verification/Bump_Heap.thy ===== *)
theory Bump_Heap
  imports Earlnux_Prelude
begin

text \<open>
  \<^verbatim>\<open>kernel/mm/mm.c\<close>: the bump allocator and the stubs the kernel image is linked with in
  place of \<^verbatim>\<open>heap.c\<close>, \<^verbatim>\<open>pmm.c\<close> and \<^verbatim>\<open>vmm.c\<close>.  Memory is handed out from the
  bottom up and never taken back.
\<close>

definition STATIC_HEAP_SIZE :: u32 where "STATIC_HEAP_SIZE = 512 * 1024"

record bump =
  bump_start :: u32
  bump_size :: u32
  bump_used :: u32

text \<open>The static data at boot; \<open>static_heap\<close> is the address of the array.\<close>

definition bump0 :: "u32 \<Rightarrow> bump" where
  "bump0 static_heap = \<lparr>bump_start = static_heap, bump_size = STATIC_HEAP_SIZE, bump_used = 0\<rparr>"

definition bump_kmalloc :: "u32 \<Rightarrow> bump \<Rightarrow> u32 \<times> bump" where
  "bump_kmalloc sz0 h =
     (let sz = (sz0 + 7) AND NOT 7
      in if bump_used h + sz > bump_size h then (0, h)
         else (bump_start h + bump_used h, h\<lparr>bump_used := bump_used h + sz\<rparr>))"

definition bump_kfree :: "u32 \<Rightarrow> bump \<Rightarrow> bump" where
  "bump_kfree ptr h = h"

definition bump_heap_init :: "u32 \<Rightarrow> u32 \<Rightarrow> bump \<Rightarrow> bump" where
  "bump_heap_init start sz h = h\<lparr>bump_start := start, bump_size := sz, bump_used := 0\<rparr>"

record stub_pmm_stats =
  sp_total_phys :: u32
  sp_free_phys :: u32
  sp_kernel_phys :: u32
  sp_reserved_phys :: u32
  sp_total_pages :: u32
  sp_free_pages :: u32

definition stub_pmm_get_stats :: stub_pmm_stats where
  "stub_pmm_get_stats =
     (let total = 64 * 1024 * 1024; fre = 32 * 1024 * 1024
      in \<lparr>sp_total_phys = total, sp_free_phys = fre, sp_kernel_phys = 2 * 1024 * 1024,
          sp_reserved_phys = 4 * 1024 * 1024, sp_total_pages = total div 4096, sp_free_pages = fre div 4096\<rparr>)"

record bump_stats =
  bs_heap_start :: u32
  bs_heap_end :: u32
  bs_heap_size :: u32
  bs_used_bytes :: u32
  bs_free_bytes :: u32
  bs_peak_usage :: u32
  bs_alloc_count :: u32
  bs_free_count :: u32

definition bump_get_stats :: "bump \<Rightarrow> bump_stats" where
  "bump_get_stats h =
     \<lparr>bs_heap_start = bump_start h, bs_heap_end = bump_start h + bump_size h, bs_heap_size = bump_size h,
      bs_used_bytes = bump_used h, bs_free_bytes = bump_size h - bump_used h,
      bs_peak_usage = bump_used h, bs_alloc_count = 1, bs_free_count = 0\<rparr>"

end
