(* ===== verification/Heap_Spec.thy ===== *)
theory Heap_Spec
  imports Heap_Ops Bump_Heap
begin

text \<open>
  What \<open>kmalloc\<close> promises its callers, as a locale, and that both of the kernel's allocators keep
  it: the block allocator of \<^verbatim>\<open>heap.c\<close> and the bump allocator of \<^verbatim>\<open>mm.c\<close>.  Then the
  properties of \<open>kfree\<close>, and the runs that show where the code breaks them.
\<close>

section \<open>The interface\<close>

text \<open>Serving a list of requests one after the other; failed requests are left out.\<close>

primrec serve :: "(u32 \<Rightarrow> 's \<Rightarrow> (u32 \<times> 's) option) \<Rightarrow> u32 list \<Rightarrow> 's \<Rightarrow> ((u32 \<times> u32) list \<times> 's) option" where
  "serve alloc [] s = Some ([], s)"
| "serve alloc (n # ns) s =
     do {
       (p, s1) \<leftarrow> alloc n s;
       (ps, s2) \<leftarrow> serve alloc ns s1;
       Some (if p = 0 then ps else (p, n) # ps, s2)
     }"

text \<open>\<open>live s A\<close>: the payloads \<open>A\<close> (address and size) are handed out in state \<open>s\<close>.\<close>

locale kernel_heap =
  fixes alloc :: "u32 \<Rightarrow> 's \<Rightarrow> (u32 \<times> 's) option"
    and live :: "'s \<Rightarrow> (nat \<times> nat) set \<Rightarrow> bool"
    and request_ok :: "'s \<Rightarrow> u32 \<Rightarrow> bool"
  assumes alloc_live: "live s A \<Longrightarrow> request_ok s n \<Longrightarrow>
      \<exists>p s'. alloc n s = Some (p, s') \<and> request_ok s' = request_ok s \<and>
        (if p = 0 then live s' A else \<exists>m\<ge>unat n. live s' (insert (unat p, m) A) \<and> (unat p, m) \<notin> A)"
    and live_disjoint: "live s A \<Longrightarrow> (a, m) \<in> A \<Longrightarrow> (a', m') \<in> A \<Longrightarrow> (a, m) \<noteq> (a', m') \<Longrightarrow>
      {a..<a + m} \<inter> {a'..<a' + m'} = {}"
begin

lemma serve_live:
  assumes "live s A" "\<forall>n\<in>set ns. request_ok s n"
  shows "\<exists>ps s' B. serve alloc ns s = Some (ps, s') \<and> live s' B \<and> A \<subseteq> B \<and>
    (\<exists>f. (\<forall>i<length ps. f i \<in> B - A \<and> fst (f i) = unat (fst (ps ! i)) \<and> unat (snd (ps ! i)) \<le> snd (f i)) \<and>
         inj_on f {..<length ps})"
  using assms
proof (induction ns arbitrary: s A)
  case Nil
  then show ?case by auto
next
  case (Cons n ns)
  obtain p s1 where a: "alloc n s = Some (p, s1)" "request_ok s1 = request_ok s"
    "if p = 0 then live s1 A else \<exists>m\<ge>unat n. live s1 (insert (unat p, m) A) \<and> (unat p, m) \<notin> A"
    using alloc_live [OF Cons.prems(1), of n] Cons.prems(2) by auto
  show ?case
  proof (cases "p = 0")
    case True
    then have l: "live s1 A" "\<forall>n\<in>set ns. request_ok s1 n" using a Cons.prems(2) by auto
    from Cons.IH [OF l] show ?thesis using a(1) True by auto
  next
    case False
    then obtain m where m: "unat n \<le> m" "live s1 (insert (unat p, m) A)" "(unat p, m) \<notin> A"
      using a(3) by auto
    have ok: "\<forall>n\<in>set ns. request_ok s1 n" using a(2) Cons.prems(2) by auto
    from Cons.IH [OF m(2) ok] obtain ps s' B f where
      IH: "serve alloc ns s1 = Some (ps, s')" "live s' B" "insert (unat p, m) A \<subseteq> B"
        "\<forall>i<length ps. f i \<in> B - insert (unat p, m) A \<and> fst (f i) = unat (fst (ps ! i)) \<and>
           unat (snd (ps ! i)) \<le> snd (f i)" "inj_on f {..<length ps}" by blast
    let ?f = "\<lambda>i. if i = 0 then (unat p, m) else f (i - 1)"
    have "?f i \<in> B - A \<and> fst (?f i) = unat (fst (((p, n) # ps) ! i)) \<and>
        unat (snd (((p, n) # ps) ! i)) \<le> snd (?f i)" if "i < length ((p, n) # ps)" for i
      using that IH(3,4) m by (cases i) auto
    moreover have "inj_on ?f {..<length ((p, n) # ps)}"
    proof (rule inj_onI)
      fix i j assume ij: "i \<in> {..<length ((p, n) # ps)}" "j \<in> {..<length ((p, n) # ps)}" "?f i = ?f j"
      have nf: "f k \<noteq> (unat p, m)" if "k < length ps" for k using IH(4) that by blast
      show "i = j"
      proof (cases "i = 0 \<or> j = 0")
        case True
        then show ?thesis using ij nf [of "i - 1"] nf [of "j - 1"] by (cases i; cases j) simp_all
      next
        case False
        then have "f (i - 1) = f (j - 1)" "i - 1 < length ps" "j - 1 < length ps" using ij by auto
        then have "i - 1 = j - 1" using IH(5) by (simp add: inj_on_def)
        then show ?thesis using False by arith
      qed
    qed
    moreover have "serve alloc (n # ns) s = Some ((p, n) # ps, s')" using a(1) IH(1) False by simp
    ultimately show ?thesis
      using IH(2,3) by (intro exI [of _ "(p, n) # ps"] exI [of _ s'] exI [of _ B] conjI exI [of _ ?f]) blast+
  qed
qed

text \<open>The blocks of a series of requests do not overlap.\<close>

lemma serve_disjoint:
  assumes "live s A" "\<forall>n\<in>set ns. request_ok s n"
  shows "\<exists>ps s'. serve alloc ns s = Some (ps, s') \<and>
    (\<forall>i j. i < j \<longrightarrow> j < length ps \<longrightarrow>
       {unat (fst (ps ! i))..<unat (fst (ps ! i)) + unat (snd (ps ! i))} \<inter>
       {unat (fst (ps ! j))..<unat (fst (ps ! j)) + unat (snd (ps ! j))} = {})"
proof -
  from serve_live [OF assms] obtain ps s' B f where
    s: "serve alloc ns s = Some (ps, s')" "live s' B"
      "\<forall>i<length ps. f i \<in> B - A \<and> fst (f i) = unat (fst (ps ! i)) \<and> unat (snd (ps ! i)) \<le> snd (f i)"
      "inj_on f {..<length ps}" by blast
  have "{unat (fst (ps ! i))..<unat (fst (ps ! i)) + unat (snd (ps ! i))} \<inter>
      {unat (fst (ps ! j))..<unat (fst (ps ! j)) + unat (snd (ps ! j))} = {}"
    if ij: "i < j" "j < length ps" for i j
  proof -
    have f: "f i \<in> B" "f j \<in> B" "f i \<noteq> f j" "fst (f i) = unat (fst (ps ! i))"
      "fst (f j) = unat (fst (ps ! j))" "unat (snd (ps ! i)) \<le> snd (f i)" "unat (snd (ps ! j)) \<le> snd (f j)"
      using s(3,4) ij by (auto dest: inj_onD)
    have "{fst (f i)..<fst (f i) + snd (f i)} \<inter> {fst (f j)..<fst (f j) + snd (f j)} = {}"
      using live_disjoint [OF s(2), of "fst (f i)" "snd (f i)" "fst (f j)" "snd (f j)"] f(1-3)
      by (simp add: prod_eq_iff)
    moreover have "{unat (fst (ps ! i))..<unat (fst (ps ! i)) + unat (snd (ps ! i))} \<subseteq>
        {fst (f i)..<fst (f i) + snd (f i)}" using f(4,6) by auto
    moreover have "{unat (fst (ps ! j))..<unat (fst (ps ! j)) + unat (snd (ps ! j))} \<subseteq>
        {fst (f j)..<fst (f j) + snd (f j)}" using f(5,7) by auto
    ultimately show ?thesis by blast
  qed
  then show ?thesis using s(1) by blast
qed

end

section \<open>heap.c and mm.c provide it\<close>

definition heap_request_ok :: "heap \<Rightarrow> u32 \<Rightarrow> bool" where
  "heap_request_ok h n \<longleftrightarrow> unat (heap_end_ptr h) + unat n + 8208 \<le> 4294967296"

interpretation kh: kernel_heap kmalloc heap_live heap_request_ok
proof
  fix h A n assume "heap_live h A" "heap_request_ok h n"
  from kmalloc_live [OF this(1), of n] this(2) obtain p h' where k: "kmalloc n h = Some (p, h')"
    "heap_end_ptr h' = heap_end_ptr h"
    "if p = 0 then heap_live h' A else \<exists>m\<ge>unat n. heap_live h' (insert (unat p, m) A) \<and> (unat p, m) \<notin> A"
    by (auto simp: heap_request_ok_def)
  have "heap_request_ok h' = heap_request_ok h" using k(2) by (simp add: heap_request_ok_def fun_eq_iff)
  then show "\<exists>p h'. kmalloc n h = Some (p, h') \<and>
      heap_request_ok h' = heap_request_ok h \<and>
      (if p = 0 then heap_live h' A else \<exists>m\<ge>unat n. heap_live h' (insert (unat p, m) A) \<and> (unat p, m) \<notin> A)"
    using k by (intro exI [of _ p] exI [of _ h']) simp
qed (rule heap_live_disjoint)

text \<open>The bump allocator: what it handed out lies below \<open>bump_used\<close>.\<close>

definition bump_alloc :: "u32 \<Rightarrow> bump \<Rightarrow> (u32 \<times> bump) option" where
  "bump_alloc n h = Some (bump_kmalloc n h)"

definition bump_live :: "bump \<Rightarrow> (nat \<times> nat) set \<Rightarrow> bool" where
  "bump_live h A \<longleftrightarrow> 0 < unat (bump_start h) \<and> bump_used h \<le> bump_size h \<and>
     (\<forall>(a, m)\<in>A. unat (bump_start h) \<le> a \<and> a + m \<le> unat (bump_start h) + unat (bump_used h)) \<and>
     (\<forall>(a, m)\<in>A. \<forall>(a', m')\<in>A. (a, m) \<noteq> (a', m') \<longrightarrow> {a..<a + m} \<inter> {a'..<a' + m'} = {})"

definition bump_request_ok :: "bump \<Rightarrow> u32 \<Rightarrow> bool" where
  "bump_request_ok h n \<longleftrightarrow> 0 < n \<and> unat (bump_size h) + unat n + 8 \<le> 4294967296 \<and>
     unat (bump_start h) + unat (bump_size h) < 4294967296"

lemma bump_round:
  assumes "unat (n::u32) + 8 \<le> 4294967296"
  shows "unat ((n + 7) AND NOT 7) = (unat n + 7) div 8 * 8" "unat n \<le> unat ((n + 7) AND NOT 7)"
    "unat ((n + 7) AND NOT 7) < unat n + 8"
proof -
  have "unat (n + of_nat 7) = unat n + 7" using assms by (intro unat_add_small) simp
  then have s: "unat (n + 7) = unat n + 7" by simp
  have m: "(7::u32) = 2 ^ 3 - 1" by simp
  show u: "unat ((n + 7) AND NOT 7) = (unat n + 7) div 8 * 8"
    using unat_and_not_mask [of "n + 7" 3] s by (simp only: m [symmetric]) simp
  have "unat n + 7 = (unat n + 7) div 8 * 8 + (unat n + 7) mod 8" by simp
  moreover have "(unat n + 7) mod 8 < 8" by simp
  ultimately show "unat n \<le> unat ((n + 7) AND NOT 7)" "unat ((n + 7) AND NOT 7) < unat n + 8"
    unfolding u by linarith+
qed

interpretation bh: kernel_heap bump_alloc bump_live bump_request_ok
proof
  fix h A n assume l: "bump_live h A" and r: "bump_request_ok h n"
  let ?sz = "(n + 7) AND NOT 7"
  have b: "unat n \<le> unat ?sz" "unat ?sz < unat n + 8" using bump_round [of n] r by (auto simp: bump_request_ok_def)
  have n0: "0 < unat n" using r by (simp add: bump_request_ok_def word_less_nat_alt)
  have us: "unat (bump_used h) \<le> unat (bump_size h)" using l by (simp add: bump_live_def word_le_nat_alt)
  have r2: "unat (bump_size h) + unat n + 8 \<le> 4294967296"
    "unat (bump_start h) + unat (bump_size h) < 4294967296" using r by (auto simp: bump_request_ok_def)
  have "unat (bump_used h + of_nat (unat ?sz)) = unat (bump_used h) + unat ?sz"
    using us b r2 by (intro unat_add_small) linarith
  then have ua: "unat (bump_used h + ?sz) = unat (bump_used h) + unat ?sz" by simp
  show "\<exists>p h'. bump_alloc n h = Some (p, h') \<and> bump_request_ok h' = bump_request_ok h \<and>
      (if p = 0 then bump_live h' A else \<exists>m\<ge>unat n. bump_live h' (insert (unat p, m) A) \<and> (unat p, m) \<notin> A)"
  proof (cases "bump_used h + ?sz > bump_size h")
    case True
    then show ?thesis using l by (simp add: bump_alloc_def bump_kmalloc_def)
  next
    case False
    let ?p = "bump_start h + bump_used h" and ?h = "h\<lparr>bump_used := bump_used h + ?sz\<rparr>"
    have fit: "unat (bump_used h) + unat ?sz \<le> unat (bump_size h)"
      using False ua by (simp add: word_le_nat_alt not_less)
    have "unat (bump_start h + of_nat (unat (bump_used h))) = unat (bump_start h) + unat (bump_used h)"
      using us r2 by (intro unat_add_small) linarith
    then have up: "unat ?p = unat (bump_start h) + unat (bump_used h)" by simp
    have st: "0 < unat (bump_start h)" using l by (simp add: bump_live_def)
    have p0: "?p \<noteq> 0"
    proof
      assume "?p = 0"
      then have "unat ?p = 0" by (simp only: unat_0)
      then show False using up st by simp
    qed
    have A: "unat (bump_start h) \<le> a \<and> a + m \<le> unat ?p" if "(a, m) \<in> A" for a m
      using l that unfolding bump_live_def up by fast
    have new: "(unat ?p, unat ?sz) \<notin> A" using A [of "unat ?p" "unat ?sz"] n0 b(1) by auto
    have "bump_live ?h (insert (unat ?p, unat ?sz) A)"
      unfolding bump_live_def
    proof (intro conjI)
      show "0 < unat (bump_start ?h)" using st by simp
      show "bump_used ?h \<le> bump_size ?h" using False by simp
      show "\<forall>(a, m)\<in>insert (unat ?p, unat ?sz) A. unat (bump_start ?h) \<le> a \<and>
          a + m \<le> unat (bump_start ?h) + unat (bump_used ?h)"
        using A ua up by fastforce
      have "{a..<a + m} \<inter> {unat ?p..<unat ?p + unat ?sz} = {}" if "(a, m) \<in> A" for a m
        using A [OF that] by auto
      moreover have "\<forall>(a, m)\<in>A. \<forall>(a', m')\<in>A. (a, m) \<noteq> (a', m') \<longrightarrow> {a..<a + m} \<inter> {a'..<a' + m'} = {}"
        using l by (simp add: bump_live_def)
      ultimately show "\<forall>(a, m)\<in>insert (unat ?p, unat ?sz) A. \<forall>(a', m')\<in>insert (unat ?p, unat ?sz) A.
          (a, m) \<noteq> (a', m') \<longrightarrow> {a..<a + m} \<inter> {a'..<a' + m'} = {}" by blast
    qed
    moreover have "bump_alloc n h = Some (?p, ?h)" using False by (simp add: bump_alloc_def bump_kmalloc_def)
    moreover have "bump_request_ok ?h = bump_request_ok h" by (simp add: bump_request_ok_def fun_eq_iff)
    ultimately show ?thesis using p0 new b(1) by (intro exI [of _ ?p] exI [of _ ?h]) auto
  qed
next
  fix h A a m a' m'
  assume "bump_live h A" "(a, m) \<in> A" "(a', m') \<in> A" "(a, m) \<noteq> (a', m')"
  then show "{a..<a + m} \<inter> {a'..<a' + m'} = {}" unfolding bump_live_def by fast
qed

section \<open>Initialisation\<close>

definition heap0 :: heap where
  "heap0 = \<lparr>heap_start_ptr = 0, heap_end_ptr = 0, heap_brk = 0, free_list = 0,
     heap_stat = \<lparr>st_heap_start = 0, st_heap_end = 0, st_heap_size = 0, used_bytes = 0, free_bytes = 0,
       alloc_count = 0, free_count = 0, peak_usage = 0\<rparr>,
     hdrs = (\<lambda>_. \<lparr>magic = 0, bsize = 0, prev_phys = 0, next_free = 0, prev_free = 0\<rparr>),
     h_ram = (\<lambda>_. 0)\<rparr>"

lemma heap_init_inv:
  assumes "0 < unat start" "16 dvd unat start" "unat start + unat sz + 12288 \<le> 4294967296"
  shows "\<exists>bs fs. hinv (heap_init start sz h) bs fs {} \<and> live_of (heap_init start sz h) bs = {} \<and>
    heap_end_ptr (heap_init start sz h) = start + sz"
proof -
  let ?h = "h\<lparr>heap_start_ptr := start, heap_end_ptr := start + sz, heap_brk := start,
                heap_stat := \<lparr>st_heap_start = start, st_heap_end = start, st_heap_size = sz,
                  used_bytes = 0, free_bytes = 0, alloc_count = 0, free_count = 0, peak_usage = 0\<rparr>,
                free_list := 0\<rparr>"
  have "unat (start + of_nat (unat sz)) = unat start + unat sz" using assms(3) by (intro unat_add_small) simp
  then have e: "unat (start + sz) = unat start + unat sz" by simp
  have i: "hinv ?h [] [] {}" "live_of ?h [] = {}"
    using assms(1,2) e by (simp_all add: hinv_def live_of_def word_le_nat_alt)
  have init: "heap_init start sz h = snd (heap_expand PAGE_SIZE ?h)" by (simp add: heap_init_def)
  have p: "16 dvd unat PAGE_SIZE" "unat (heap_end_ptr ?h) + unat PAGE_SIZE + 8192 \<le> 4294967296"
    using assms(3) e by (simp_all add: PAGE_SIZE_def)
  from heap_expand_inv [OF i(1) p] show ?thesis
  proof (elim disjE exE conjE)
    assume "heap_expand PAGE_SIZE ?h = (0, ?h)"
    then have "heap_init start sz h = ?h" by (simp add: init)
    then show ?thesis using i by (intro exI [of _ "[]"]) simp
  next
    fix h' b
    assume "heap_expand PAGE_SIZE ?h = (b, h')" "hinv h' ([] @ [b]) [b] {}"
      "live_of h' ([] @ [b]) = live_of ?h []" "heap_end_ptr h' = heap_end_ptr ?h"
    then show ?thesis using i(2) init by (intro exI [of _ "[b]"]) simp
  qed
qed

text \<open>The heap the kernel header describes: 256 MB at 0xD0000000.\<close>

definition kernel_heap0 :: heap where
  "kernel_heap0 = heap_init 0xD0000000 0x10000000 heap0"

lemma kernel_heap0_live: "heap_live kernel_heap0 {}"
  using heap_init_inv [of "0xD0000000" "0x10000000" heap0]
  by (auto simp: kernel_heap0_def heap_live_def)

lemma kernel_heap0_request: "unat n \<le> 0x1FFFDFF0 \<Longrightarrow> heap_request_ok kernel_heap0 n"
  using heap_init_inv [of "0xD0000000" "0x10000000" heap0]
  by (auto simp: kernel_heap0_def heap_request_ok_def)

section \<open>Properties\<close>

text \<open>When there is room for a payload of \<open>n\<close> bytes: a free block is large enough, or the pages for
  a block of that size fit below the end of the heap.\<close>

definition heap_room :: "heap \<Rightarrow> nat \<Rightarrow> bool" where
  "heap_room h n \<longleftrightarrow>
     (\<exists>bs fs. hinv h bs fs {} \<and> (\<exists>b\<in>set bs. magic (hdrs h b) = HEAP_MAGIC_FREE \<and> n \<le> hsize h b)) \<or>
     unat (heap_brk h) + (n + 32 + 4095) div 4096 * 4096 \<le> unat (heap_end_ptr h)"

lemma heap_expand_null:
  assumes inv: "hinv h bs fs {}" and sz: "unat (heap_end_ptr h) + unat sz + 8192 \<le> 4294967296"
  shows "fst (heap_expand sz h) = 0 \<longleftrightarrow> \<not> unat (heap_brk h) + (unat sz + 32 + 4095) div 4096 * 4096 \<le> unat (heap_end_ptr h)"
proof -
  note D = hinvD [OF inv]
  let ?e = "ALIGN_UP (sz + 32) PAGE_SIZE"
  have "unat (sz + of_nat 32) = unat sz + 32" using sz by (intro unat_add_small) simp
  then have ue: "unat ?e = (unat sz + 32 + 4095) div 4096 * 4096"
    using unat_ALIGN_UP [of PAGE_SIZE 12 "sz + 32"] sz by (simp add: PAGE_SIZE_def)
  have "(unat sz + 32 + 4095) div 4096 * 4096 \<le> unat sz + 32 + 4095" by (rule div_times_less_eq_dividend)
  then have up: "unat ?e \<le> unat sz + 4127" using ue by linarith
  have "unat (heap_brk h) \<le> unat (heap_end_ptr h)" using D(4) by (simp add: word_le_nat_alt)
  then have "unat (heap_brk h + of_nat (unat ?e)) = unat (heap_brk h) + unat ?e"
    using up sz by (intro unat_add_small) linarith
  then have ub: "unat (heap_brk h + ?e) = unat (heap_brk h) + unat ?e" by simp
  have "0 < unat (heap_brk h)" using tiles_le [OF D(1)] D(2) by simp
  then have "heap_brk h \<noteq> 0" by auto
  moreover have "fst (heap_expand sz h) = (if heap_brk h + ?e > heap_end_ptr h then 0 else heap_brk h)"
    by (simp add: heap_expand_def Let_def)
  ultimately show ?thesis unfolding ue [symmetric] ub [symmetric] word_le_nat_alt [symmetric] by auto
qed

lemma kmalloc_null:
  assumes inv: "hinv h bs fs {}" and n: "unat (heap_end_ptr h) + unat n + 8208 \<le> 4294967296" "n \<noteq> 0"
  defines "sz \<equiv> ALIGN_UP n HEAP_ALIGN"
  shows "\<exists>p h'. kmalloc n h = Some (p, h') \<and>
    (p = 0 \<longleftrightarrow> \<not> (\<exists>b\<in>set bs. magic (hdrs h b) = HEAP_MAGIC_FREE \<and> unat sz \<le> hsize h b) \<and>
      \<not> unat (heap_brk h) + (unat sz + 32 + 4095) div 4096 * 4096 \<le> unat (heap_end_ptr h))"
proof -
  have al: "16 dvd unat sz" "unat n \<le> unat sz" "unat sz < unat n + 16"
    unfolding sz_def using align_16 [of n] n(1) by auto
  note al' = al(1) [unfolded sz_def]
  from inv show ?thesis
  proof (cases rule: hinv_first_fit [where sz = sz])
    case (2 b)
    from kmalloc_found [OF inv n(2) al' 2(1) [unfolded sz_def] 2(2,4) 2(3) [unfolded sz_def]]
    obtain p h' where "kmalloc n h = Some (p, h')" "p \<noteq> 0" by blast
    moreover have "b \<in> set bs" "magic (hdrs h b) = HEAP_MAGIC_FREE" using 2(2) hinvD(8) [OF inv] by auto
    ultimately show ?thesis using 2(3) by (auto simp: word_le_nat_alt)
  next
    case 1
    have none: "\<not> (\<exists>b\<in>set bs. magic (hdrs h b) = HEAP_MAGIC_FREE \<and> unat sz \<le> hsize h b)"
      using 1(2) hinvD(8) [OF inv] by (auto simp: word_le_nat_alt)
    have e: "unat (heap_end_ptr h) + unat sz + 8192 \<le> 4294967296" using al(3) n(1) by linarith
    note null = heap_expand_null [OF inv e]
    from heap_expand_inv [OF inv al(1) e] show ?thesis
    proof (elim disjE exE conjE)
      assume x: "heap_expand sz h = (0, h)"
      then have "kmalloc n h = Some (0, h)" using 1(1) n(2) unfolding sz_def by (subst kmalloc.simps) (simp add: Let_def)
      then show ?thesis using none null x by simp
    next
      fix h1 b
      assume x: "heap_expand sz h = (b, h1)" "b \<noteq> 0" "hinv h1 (bs @ [b]) (b # fs) {}" "sz \<le> bsize (hdrs h1 b)"
      have k: "kmalloc n h = kmalloc sz h1"
        using 1(1) n(2) x(1,2) unfolding sz_def by (subst kmalloc.simps) (simp add: Let_def)
      have s0: "sz \<noteq> 0"
      proof
        assume "sz = 0"
        then have "unat n = 0" using al(2) by simp
        then show False using n(2) by (simp only: unat_0_iff)
      qed
      have si: "ALIGN_UP sz HEAP_ALIGN = sz" using al n(1) by (intro align_16_idem) auto
      from x(3) show ?thesis
      proof (cases rule: hinv_first_fit [where sz = sz])
        case 1
        then show ?thesis using x(4) by simp
      next
        case (2 c)
        from kmalloc_found [OF x(3) s0, unfolded si, OF al(1) 2(1,2,4,3)]
        obtain p h' where "kmalloc sz h1 = Some (p, h')" "p \<noteq> 0" by blast
        then show ?thesis using null x(1,2) k by auto
      qed
    qed
  qed
qed

lemma kmalloc_null_iff:
  assumes "heap_live h A" "heap_request_ok h n" "kmalloc n h = Some (p, h')"
  shows "p = 0 \<longleftrightarrow> n = 0 \<or> \<not> heap_room h ((unat n + 15) div 16 * 16)"
proof (cases "n = 0")
  case True
  then show ?thesis using assms(3) by (subst (asm) kmalloc.simps) auto
next
  case False
  have r: "unat (heap_end_ptr h) + unat n + 8208 \<le> 4294967296" using assms(2) by (simp add: heap_request_ok_def)
  let ?n = "(unat n + 15) div 16 * 16"
  have u: "unat (ALIGN_UP n HEAP_ALIGN) = ?n" using unat_ALIGN_UP [of HEAP_ALIGN 4 n] r by simp
  let ?fits = "\<lambda>bs. \<exists>b\<in>set bs. magic (hdrs h b) = HEAP_MAGIC_FREE \<and> ?n \<le> hsize h b"
  let ?grows = "unat (heap_brk h) + (?n + 32 + 4095) div 4096 * 4096 \<le> unat (heap_end_ptr h)"
  have eq: "p = 0 \<longleftrightarrow> \<not> ?fits bs \<and> \<not> ?grows" if "hinv h bs fs {}" for bs fs
    using kmalloc_null [OF that r False] assms(3) unfolding u by auto
  obtain bs fs where inv: "hinv h bs fs {}" using assms(1) by (auto simp: heap_live_def)
  have "heap_room h ?n \<longleftrightarrow> p \<noteq> 0"
  proof
    assume "heap_room h ?n"
    then show "p \<noteq> 0" unfolding heap_room_def using eq eq [OF inv] by blast
  next
    assume "p \<noteq> 0"
    then show "heap_room h ?n" unfolding heap_room_def using eq [OF inv] inv by blast
  qed
  then show ?thesis using False by simp
qed

text \<open>C6. Allocation on the kernel heap: in every sound heap, whatever blocks are handed out and
  freed, a request that does not come within 8208 bytes of wrapping around behind the end of the heap
  (\<open>heap_request_ok\<close>) is answered (the search and the retry after growing the heap end). It fails
  exactly for zero bytes or when neither a free block holds the size rounded up to 16 nor the pages for
  it fit below the end of the heap, and then leaves the payloads in use as they are; otherwise it
  adds exactly one payload of at least the requested size, and every payload of the new heap is
  16-aligned, inside the heap and disjoint from all others.\<close>

theorem kmalloc_correct:
  assumes "heap_live h A" "heap_request_ok h n"
  shows "\<exists>p h'. kmalloc n h = Some (p, h') \<and>
    (p = 0 \<longleftrightarrow> n = 0 \<or> \<not> heap_room h ((unat n + 15) div 16 * 16)) \<and>
    (if p = 0 then heap_live h' A
     else \<exists>m\<ge>unat n. heap_live h' (insert (unat p, m) A) \<and> (unat p, m) \<notin> A \<and>
       (\<forall>(a, k)\<in>insert (unat p, m) A. 16 dvd a \<and> a + k \<le> unat (heap_end_ptr h') \<and>
          (\<forall>(a', k')\<in>insert (unat p, m) A. (a, k) \<noteq> (a', k') \<longrightarrow> {a..<a + k} \<inter> {a'..<a' + k'} = {})))"
proof -
  obtain p h' where k: "kmalloc n h = Some (p, h')"
    "if p = 0 then heap_live h' A else \<exists>m\<ge>unat n. heap_live h' (insert (unat p, m) A) \<and> (unat p, m) \<notin> A"
    using kh.alloc_live [OF assms] by auto
  note null = kmalloc_null_iff [OF assms k(1)]
  show ?thesis
  proof (cases "p = 0")
    case True
    then show ?thesis using k null by auto
  next
    case False
    then obtain m where m: "unat n \<le> m" "heap_live h' (insert (unat p, m) A)" "(unat p, m) \<notin> A"
      using k(2) by auto
    have "\<forall>(a, k)\<in>insert (unat p, m) A. 16 dvd a \<and> a + k \<le> unat (heap_end_ptr h') \<and>
        (\<forall>(a', k')\<in>insert (unat p, m) A. (a, k) \<noteq> (a', k') \<longrightarrow> {a..<a + k} \<inter> {a'..<a' + k'} = {})"
      using heap_live_bounds [OF m(2)] heap_live_disjoint [OF m(2)] by fast
    then have "\<exists>m\<ge>unat n. heap_live h' (insert (unat p, m) A) \<and> (unat p, m) \<notin> A \<and>
       (\<forall>(a, k)\<in>insert (unat p, m) A. 16 dvd a \<and> a + k \<le> unat (heap_end_ptr h') \<and>
          (\<forall>(a', k')\<in>insert (unat p, m) A. (a, k) \<noteq> (a', k') \<longrightarrow> {a..<a + k} \<inter> {a'..<a' + k'} = {}))"
      using m by (intro exI [of _ m] conjI)
    then show ?thesis using k(1) null False by (intro exI [of _ p] exI [of _ h'] conjI) (simp_all only: if_False)
  qed
qed

lemma kernel_heap0_brk: "heap_brk kernel_heap0 = 0xD0002000" "heap_end_ptr kernel_heap0 = 0xE0000000"
  by code_simp+

theorem kmalloc_correct_witness:
  "\<exists>p h' m. kmalloc 100 kernel_heap0 = Some (p, h') \<and> p \<noteq> 0 \<and> 100 \<le> m \<and>
     heap_live h' {(unat p, m)} \<and> 16 dvd unat p"
proof -
  have "heap_room kernel_heap0 ((unat (100::u32) + 15) div 16 * 16)"
    unfolding heap_room_def kernel_heap0_brk by simp
  then show ?thesis
    using kmalloc_correct [OF kernel_heap0_live kernel_heap0_request, of 100] by (auto split: if_splits)
qed

text \<open>C20. Freeing: \<open>kfree\<close> of a payload in use whose block's \<open>prev_phys\<close> link is right removes
  exactly that payload and keeps the heap sound, with the free neighbours merged.\<close>

theorem kfree_correct:
  assumes "hinv h bs fs {}" "b \<in> set bs" "magic (hdrs h b) = HEAP_MAGIC_USED"
    and "link_ok h bs b" "prev_phys (hdrs h b) \<noteq> b"
  shows "heap_live (kfree (b + BLOCK_HDR_SIZE) h) (live_of h bs - {(unat b + 32, hsize h b)})"
proof -
  have b0: "b + 32 \<noteq> 0"
  proof
    assume "b + 32 = 0"
    then have "unat (b + 32) = 0" by (simp only: unat_0)
    then show False using hinv_block(6) [OF assms(1,2)] by simp
  qed
  let ?mark = "\<lambda>h. upd_hdr b (\<lambda>b. b\<lparr>magic := HEAP_MAGIC_FREE\<rparr>) h"
  obtain g where eq: "kfree (b + BLOCK_HDR_SIZE) h = coalesce b (?mark (upd_stat g h))"
    using b0 assms(3) by (simp add: kfree_def Let_def)
  let ?h1 = "?mark (upd_stat g h)"
  have i0: "hinv (upd_stat g h) bs fs {}" using assms(1) by simp
  note m = hinv_mark_free [OF i0 assms(2)]
  have m1: "hinv ?h1 bs fs {b}" "live_of ?h1 bs = live_of h bs - {(unat b + 32, hsize h b)}"
    using m assms(3) by simp_all
  have "link_ok ?h1 bs b" using assms(4,5) by (auto simp: link_ok_def)
  then obtain bs' fs' where "hinv (coalesce b ?h1) bs' fs' {}" "live_of (coalesce b ?h1) bs' = live_of ?h1 bs"
    using coalesce_inv [OF m1(1) assms(2)] by auto
  then show ?thesis unfolding heap_live_def eq using m1(2) by metis
qed

text \<open>A heap of one block of 16 bytes, in use.\<close>

definition tiny_heap :: heap where
  "tiny_heap = heap0\<lparr>heap_start_ptr := 0x1000, heap_end_ptr := 0x2000, heap_brk := 0x1030,
     hdrs := (\<lambda>_. \<lparr>magic = HEAP_MAGIC_USED, bsize = 16, prev_phys = 0, next_free = 0, prev_free = 0\<rparr>)\<rparr>"

theorem kfree_correct_witness:
  "heap_live (kfree 0x1020 tiny_heap) {}"
proof -
  have "hinv tiny_heap [0x1000] [] {}" by (simp add: hinv_def tiny_heap_def heap0_def)
  moreover have "live_of tiny_heap [0x1000] = {(0x1020, 16)}"
    by (auto simp: live_of_def tiny_heap_def)
  ultimately show ?thesis
    using kfree_correct [of tiny_heap "[0x1000]" "[]" "0x1000"]
    by (simp add: tiny_heap_def link_ok_def)
qed

definition stale_link_run :: "(u32 \<times> u32 \<times> u32) option" where
  "stale_link_run = do {
     (a, h1) \<leftarrow> kmalloc 16 kernel_heap0;
     (b, h2) \<leftarrow> kmalloc 16 h1;
     (c, h3) \<leftarrow> kmalloc 16 h2;
     (x, h4) \<leftarrow> kmalloc 64 (kfree a (kfree b h3));
     let n = ksize x h4;
     (y, h5) \<leftarrow> kmalloc 16 (kfree c h4);
     Some (x, n, y) }"

text \<open>The links \<open>kfree\<close> relies on are not kept: splitting a block and merging a block with the
  next one leave the \<open>prev_phys\<close> of the block behind them unchanged, so a later free merges into a
  block that no longer exists.  After allocating three blocks, freeing the second and the first,
  allocating 64 bytes and freeing the third, the next \<open>kmalloc(16)\<close> returns an address inside the
  64-byte payload that is still in use.\<close>

lemma kfree_stale_link_overlap:
  "\<exists>x n y. stale_link_run = Some (x, n, y) \<and> x \<noteq> y \<and> x \<le> y \<and> y < x + n"
proof -
  have "stale_link_run = Some (0xD0000020, 64, 0xD0000050)" by code_simp
  then show ?thesis by (intro exI [of _ "0xD0000020"] exI [of _ 64] exI [of _ "0xD0000050"]) simp
qed

text \<open>A request close to \<open>2 ^ 32\<close> wraps around when the header size is added: the heap grows by
  nothing, a block with a size of nearly 4 GB is made of it, and \<open>kmalloc\<close> reports success.\<close>

lemma kmalloc_size_wraps:
  "\<exists>p h'. kmalloc 0xFFFFFFE0 kernel_heap0 = Some (p, h') \<and> p \<noteq> 0 \<and> ksize p h' = 0xFFFFFFE0 \<and>
     heap_brk h' = heap_brk kernel_heap0"
proof -
  have "(case kmalloc 0xFFFFFFE0 kernel_heap0 of None \<Rightarrow> False
     | Some (p, h') \<Rightarrow> p \<noteq> 0 \<and> ksize p h' = 0xFFFFFFE0 \<and> heap_brk h' = heap_brk kernel_heap0)"
    by code_simp
  then show ?thesis by (auto split: option.splits)
qed

text \<open>C25. Rounding the size up to 16 wraps around for the last fifteen sizes below \<open>2 ^ 32\<close>: in every
  sound heap with a free block, whatever is handed out, such a request succeeds with some free block, and
  the bytes asked for reach far behind the end of the heap.\<close>

theorem kmalloc_huge_request:
  assumes "heap_live h A" "free_list h \<noteq> 0" "0xFFFFFFF0 < n"
  shows "\<exists>p h' m. kmalloc n h = Some (p, h') \<and> p \<noteq> 0 \<and> heap_live h' (insert (unat p, m) A) \<and> (unat p, m) \<notin> A \<and>
    unat p + m \<le> unat (heap_end_ptr h) \<and> unat (heap_end_ptr h) < unat p + unat n"
proof -
  obtain bs fs where inv: "hinv h bs fs {}" "A = live_of h bs" using assms(1) by (auto simp: heap_live_def)
  have n: "0xFFFFFFF0 < unat n" using assms(3) by (simp add: word_less_nat_alt)
  have n0: "n \<noteq> 0" using assms(3) by auto
  have z: "ALIGN_UP n HEAP_ALIGN = 0"
  proof -
    have lt: "unat n < 4294967296" by simp
    have "unat (n + 15) = (unat n + 15) mod 4294967296" by (simp add: unat_word_ariths)
    moreover have "4294967296 \<le> unat n + 15" using n by simp
    then have "(unat n + 15) mod 4294967296 = (unat n + 15 - 4294967296) mod 4294967296" by (rule le_mod_geq)
    moreover have "(unat n + 15 - 4294967296) mod 4294967296 \<le> unat n + 15 - 4294967296" by (rule mod_less_eq_dividend)
    ultimately have "unat (n + 15) < 16" using lt by linarith
    then have "unat (n + 15) div 16 = 0" by simp
    moreover have "unat (ALIGN_UP n HEAP_ALIGN) = unat (n + 15) div 16 * 16"
      using unat_and_not_mask [of "n + 15" 4] by (simp add: ALIGN_UP_def add.commute)
    ultimately have "unat (ALIGN_UP n HEAP_ALIGN) = 0" by simp
    then show ?thesis by (simp only: unat_eq_0)
  qed
  have "fs \<noteq> []" using hinvD(6) [OF inv(1)] assms(2) by (auto simp: dll_def)
  then obtain b where b: "b \<in> set fs" "first_fit h 0 (free_list h) = Some b" "b \<noteq> 0"
  proof -
    assume fs: "fs \<noteq> []" and that: "\<And>b. b \<in> set fs \<Longrightarrow> first_fit h 0 (free_list h) = Some b \<Longrightarrow> b \<noteq> 0 \<Longrightarrow> thesis"
    from inv(1) show thesis
    proof (cases rule: hinv_first_fit [where sz = 0])
      case 1
      then show ?thesis using fs by auto
    next
      case (2 b)
      then show ?thesis using that by blast
    qed
  qed
  from kmalloc_found [OF inv(1) n0, unfolded z, OF _ b(2,1,3)]
  obtain p h' bs' fs' m where k: "kmalloc n h = Some (p, h')" "p \<noteq> 0" "hinv h' bs' fs' {}"
    "live_of h' bs' = insert (unat p, m) A" "(unat p, m) \<notin> A" "heap_end_ptr h' = heap_end_ptr h"
    unfolding inv(2) by auto
  have live: "heap_live h' (insert (unat p, m) A)" unfolding heap_live_def using k(3,4) by metis
  note B = heap_live_bounds [OF live insertI1]
  have "32 \<le> unat p" using B(2) by simp
  moreover have "unat (heap_end_ptr h) < 4294967296" by simp
  ultimately have "unat (heap_end_ptr h) < unat p + unat n" using n by linarith
  then show ?thesis using k live B(3) by auto
qed

theorem kmalloc_huge_request_witness:
  "\<exists>p h' m. kmalloc 0xFFFFFFF8 kernel_heap0 = Some (p, h') \<and> p \<noteq> 0 \<and> heap_live h' {(unat p, m)} \<and>
    unat (heap_end_ptr kernel_heap0) < unat p + unat (0xFFFFFFF8::u32)"
proof -
  have "free_list kernel_heap0 \<noteq> 0" by code_simp
  from kmalloc_huge_request [OF kernel_heap0_live this, of "0xFFFFFFF8"] show ?thesis by auto
qed

text \<open>C26. The allocator the kernel is linked with: the blocks a series of bounded requests gets from
  the bump allocator never overlap.\<close>

theorem bump_blocks_disjoint:
  assumes "0 < unat (bump_start h)" "bump_used h \<le> bump_size h"
    and "\<forall>n\<in>set ns. bump_request_ok h n"
  shows "\<exists>ps h'. serve bump_alloc ns h = Some (ps, h') \<and>
    (\<forall>i j. i < j \<longrightarrow> j < length ps \<longrightarrow>
       {unat (fst (ps ! i))..<unat (fst (ps ! i)) + unat (snd (ps ! i))} \<inter>
       {unat (fst (ps ! j))..<unat (fst (ps ! j)) + unat (snd (ps ! j))} = {})"
proof -
  have "bump_live h {}" using assms(1,2) by (simp add: bump_live_def)
  from bh.serve_disjoint [OF this assms(3)] show ?thesis .
qed

theorem bump_blocks_disjoint_witness:
  "serve bump_alloc [100, 20] (bump0 0x200000) = Some ([(0x200000, 100), (0x200068, 20)],
     \<lparr>bump_start = 0x200000, bump_size = STATIC_HEAP_SIZE, bump_used = 128\<rparr>)"
  using bump_blocks_disjoint [of "bump0 0x200000" "[100, 20]"]
  by (simp add: bump_request_ok_def bump0_def STATIC_HEAP_SIZE_def bump_alloc_def bump_kmalloc_def)

text \<open>A request close to \<open>2 ^ 32\<close> makes the bump allocator run backwards: the addition wraps, the
  test passes, and the next block overlaps one handed out before.\<close>

theorem bump_wraps_backwards:
  "serve bump_alloc [16, 0xFFFFFFF8, 16] (bump0 0x200000) =
     Some ([(0x200000, 16), (0x200010, 0xFFFFFFF8), (0x200008, 16)],
       \<lparr>bump_start = 0x200000, bump_size = STATIC_HEAP_SIZE, bump_used = 24\<rparr>)"
  by (simp add: bump0_def STATIC_HEAP_SIZE_def bump_alloc_def bump_kmalloc_def)

end
