(* ===== verification/Keyboard.thy ===== *)
theory Keyboard
  imports Earlnux_Prelude
begin

text \<open>
  \<^verbatim>\<open>kernel/drivers/keyboard.c\<close>: translation of scancodes to characters and the ring
  buffer between the interrupt handler and the reader.

  The reader's two accesses to shared data, fetching the character and advancing \<open>kb_tail\<close>, are
  separate steps of the step relation, so that an interrupt can come between them.
\<close>

section \<open>State\<close>

definition KB_BUF_SIZE :: u8 where "KB_BUF_SIZE = 128"

record kb =
  kb_buffer :: "u8 list"
  kb_head :: u8
  kb_tail :: u8
  shift_down :: bool
  ctrl_down :: bool
  alt_down :: bool

definition kb0 :: kb where
  "kb0 = \<lparr>kb_buffer = replicate 128 0, kb_head = 0, kb_tail = 0, shift_down = False,
          ctrl_down = False, alt_down = False\<rparr>"

text \<open>The two translation tables, as ASCII codes.\<close>

definition scancode_to_ascii :: "u8 list" where
  "scancode_to_ascii =
     ([0, 27, 49, 50, 51, 52, 53, 54, 55, 56, 57, 48, 45, 61, 8, 9,
      113, 119, 101, 114, 116, 121, 117, 105, 111, 112, 91, 93, 10, 0, 97, 115,
      100, 102, 103, 104, 106, 107, 108, 59, 39, 96, 0, 92, 122, 120, 99, 118,
      98, 110, 109, 44, 46, 47, 0, 42, 0, 32, 0, 0, 0, 0, 0, 0] @ replicate 64 0)"

definition scancode_shift :: "u8 list" where
  "scancode_shift =
     ([0, 27, 33, 64, 35, 36, 37, 94, 38, 42, 40, 41, 95, 43, 8, 9,
      81, 87, 69, 82, 84, 89, 85, 73, 79, 80, 123, 125, 10, 0, 65, 83,
      68, 70, 71, 72, 74, 75, 76, 58, 34, 126, 0, 124, 90, 88, 67, 86,
      66, 78, 77, 60, 62, 63, 0, 42, 0, 32, 0, 0, 0, 0, 0, 0] @ replicate 64 0)"

section \<open>Interrupt side\<close>

text \<open>Store one character, unless the buffer is full.\<close>

definition kb_put :: "u8 \<Rightarrow> kb \<Rightarrow> kb" where
  "kb_put c k =
     (let nxt = (kb_head k + 1) mod KB_BUF_SIZE
      in if nxt \<noteq> kb_tail k
         then k\<lparr>kb_buffer := (kb_buffer k)[unat (kb_head k) := c], kb_head := nxt\<rparr>
         else k)"

definition translate :: "kb \<Rightarrow> u8 \<Rightarrow> u8" where
  "translate k sc =
     (if sc < 128 then (if shift_down k then scancode_shift else scancode_to_ascii) ! unat sc else 0)"

definition keyboard_handle_scancode :: "u8 \<Rightarrow> kb \<Rightarrow> kb" where
  "keyboard_handle_scancode sc k =
     (if sc AND 0x80 \<noteq> 0
      then (let release = sc AND 0x7F
            in if release = 0x2A \<or> release = 0x36 then k\<lparr>shift_down := False\<rparr>
               else if release = 0x1D then k\<lparr>ctrl_down := False\<rparr>
               else if release = 0x38 then k\<lparr>alt_down := False\<rparr>
               else k)
      else if sc = 0x2A \<or> sc = 0x36 then k\<lparr>shift_down := True\<rparr>
      else if sc = 0x1D then k\<lparr>ctrl_down := True\<rparr>
      else if sc = 0x38 then k\<lparr>alt_down := True\<rparr>
      else (let c = translate k sc in if c \<noteq> 0 then kb_put c k else k))"

text \<open>The reset of the buffer in \<open>keyboard_init\<close>.\<close>

definition keyboard_reset :: "kb \<Rightarrow> kb" where
  "keyboard_reset k = k\<lparr>kb_tail := 0, kb_head := 0, shift_down := False\<rparr>"

section \<open>Reader side\<close>

definition keyboard_has_data :: "kb \<Rightarrow> bool" where
  "keyboard_has_data k \<longleftrightarrow> kb_tail k \<noteq> kb_head k"

definition kb_fetch :: "kb \<Rightarrow> u8" where
  "kb_fetch k = kb_buffer k ! unat (kb_tail k)"

definition kb_advance :: "kb \<Rightarrow> kb" where
  "kb_advance k = k\<lparr>kb_tail := (kb_tail k + 1) mod KB_BUF_SIZE\<rparr>"

text \<open>One pass of the reader; None while it waits for an interrupt.\<close>

definition keyboard_getchar :: "kb \<Rightarrow> (u8 \<times> kb) option" where
  "keyboard_getchar k =
     (if kb_tail k = kb_head k then None else Some (kb_fetch k, kb_advance k))"

text \<open>The waiting loop: while the buffer is empty the next scancode arrives and is handled.  None
  when the scancodes run out first.\<close>

fun getchar_wait :: "u8 list \<Rightarrow> kb \<Rightarrow> (u8 \<times> u8 list \<times> kb) option" where
  "getchar_wait scs k =
     (case keyboard_getchar k of
        Some (c, k') \<Rightarrow> Some (c, scs, k')
      | None \<Rightarrow> (case scs of [] \<Rightarrow> None | sc # scs' \<Rightarrow> getchar_wait scs' (keyboard_handle_scancode sc k)))"

section \<open>Interleaving\<close>

datatype kb_event = Irq u8 | Fetch | Deliver u8

text \<open>The second component is the character the reader has fetched but not yet taken out.\<close>

inductive kb_step :: "kb \<times> u8 option \<Rightarrow> kb_event \<Rightarrow> kb \<times> u8 option \<Rightarrow> bool" where
  step_irq: "kb_step (k, p) (Irq sc) (keyboard_handle_scancode sc k, p)"
| step_fetch: "kb_tail k \<noteq> kb_head k \<Longrightarrow> kb_step (k, None) Fetch (k, Some (kb_fetch k))"
| step_deliver: "kb_step (k, Some c) (Deliver c) (kb_advance k, None)"

code_pred kb_step .

inductive_cases kb_step_cases: "kb_step s e s'"

end
