(* ===== verification/Keyboard_Spec.thy ===== *)
theory Keyboard_Spec
  imports Keyboard
begin

text \<open>
  The keyboard buffer is a bounded first-in first-out queue: the interface as a locale, the ring
  buffer as an instance of it, and the interleaved run of the interrupt handler and the reader as
  a refinement of the queue.
\<close>

section \<open>Bounded queues\<close>

text \<open>\<open>items q\<close> are the elements in order of arrival; a full queue drops what arrives.\<close>

locale bounded_queue =
  fixes put :: "'a \<Rightarrow> 'q \<Rightarrow> 'q"
    and get :: "'q \<Rightarrow> ('a \<times> 'q) option"
    and items :: "'q \<Rightarrow> 'a list"
    and inv :: "'q \<Rightarrow> bool"
    and capacity :: nat
  assumes put_inv: "inv q \<Longrightarrow> inv (put x q)"
    and put_items: "inv q \<Longrightarrow>
      items (put x q) = (if length (items q) < capacity then items q @ [x] else items q)"
    and get_items: "inv q \<Longrightarrow>
      (case get q of None \<Rightarrow> items q = [] | Some (x, q') \<Rightarrow> inv q' \<and> items q = x # items q')"
begin

lemma get_None_iff: "inv q \<Longrightarrow> get q = None \<longleftrightarrow> items q = []"
  using get_items [of q] by (auto split: option.splits)

lemma get_SomeD: "inv q \<Longrightarrow> get q = Some (x, q') \<Longrightarrow> inv q' \<and> items q = x # items q'"
  using get_items [of q] by simp

text \<open>Elements put into a queue with room for them come out in the same order.\<close>

lemma fold_put_items:
  "inv q \<Longrightarrow> length (items q) + length xs \<le> capacity \<Longrightarrow>
   inv (fold put xs q) \<and> items (fold put xs q) = items q @ xs"
proof (induction xs arbitrary: q)
  case (Cons x xs)
  have "items (put x q) = items q @ [x]" using put_items [OF Cons.prems(1)] Cons.prems(2) by simp
  then show ?case using Cons.IH [of "put x q"] put_inv [OF Cons.prems(1)] Cons.prems(2) by simp
qed simp

end

section \<open>The ring buffer\<close>

definition kb_inv :: "kb \<Rightarrow> bool" where
  "kb_inv k \<longleftrightarrow> length (kb_buffer k) = 128 \<and> unat (kb_head k) < 128 \<and> unat (kb_tail k) < 128"

definition ring_items :: "'a list \<Rightarrow> nat \<Rightarrow> nat \<Rightarrow> 'a list" where
  "ring_items b t n = map (\<lambda>i. b ! ((t + i) mod 128)) [0..<n]"

lemma unat_ring_next:
  assumes "unat (x::u8) < 128"
  shows "unat ((x + 1) mod KB_BUF_SIZE) = (unat x + 1) mod 128"
proof -
  have "unat (x + 1) = unat x + 1"
    using assms by (subst unat_add_lem [THEN iffD1]) simp_all
  then show ?thesis by (simp add: KB_BUF_SIZE_def unat_mod)
qed

text \<open>Positions on the ring, from the tail \<open>t\<close> to the head \<open>h\<close>.\<close>

definition ring_dist :: "nat \<Rightarrow> nat \<Rightarrow> nat" where
  "ring_dist h t = (h + 128 - t) mod 128"

lemma ring_dist_cases:
  "h < 128 \<Longrightarrow> t < 128 \<Longrightarrow> ring_dist h t = (if t \<le> h then h - t else h + 128 - t)"
  by (simp add: ring_dist_def mod_if)

lemma ring_next: "(h::nat) < 128 \<Longrightarrow> (h + 1) mod 128 = (if h = 127 then 0 else h + 1)"
  by auto

lemma ring_dist_bound:
  assumes ht: "h < 128" "t < 128"
  shows "ring_dist h t \<le> 127"
  using ht unfolding ring_dist_cases [OF ht] by (cases "t \<le> h") simp_all

lemma ring_full_iff:
  assumes ht: "h < 128" "t < 128"
  shows "(h + 1) mod 128 = t \<longleftrightarrow> ring_dist h t = 127"
  using ht unfolding ring_dist_cases [OF ht] ring_next [OF ht(1)] by (cases "t \<le> h") arith+

lemma ring_dist_next:
  assumes ht: "h < 128" "t < 128"
  shows "ring_dist h t < 127 \<Longrightarrow> ring_dist ((h + 1) mod 128) t = Suc (ring_dist h t)"
proof -
  assume l: "ring_dist h t < 127"
  have "(h + 1) mod 128 < 128" by simp
  note d = ring_dist_cases [OF this ht(2)]
  show ?thesis
    using ht l unfolding d ring_dist_cases [OF ht] unfolding ring_next [OF ht(1)]
    by (cases "t \<le> h"; cases "h = 127") (simp_all, arith+)
qed

lemma ring_dist_end:
  assumes ht: "h < 128" "t < 128"
  shows "(t + ring_dist h t) mod 128 = h"
  using ht unfolding ring_dist_cases [OF ht] by (cases "t \<le> h") (simp_all add: mod_if)

lemma ring_dist_inside:
  assumes ht: "h < 128" "t < 128"
  shows "i < ring_dist h t \<Longrightarrow> (t + i) mod 128 \<noteq> h"
  using ht unfolding ring_dist_cases [OF ht]
  by (cases "t \<le> h"; cases "t + i < 128") (simp_all add: mod_if, arith+)

lemma ring_dist_pop:
  assumes ht: "h < 128" "t < 128"
  shows "t \<noteq> h \<Longrightarrow> ring_dist h t = Suc (ring_dist h ((t + 1) mod 128))"
proof -
  assume ne: "t \<noteq> h"
  have "(t + 1) mod 128 < 128" by simp
  note d = ring_dist_cases [OF ht(1) this]
  show ?thesis
    using ht ne unfolding d ring_dist_cases [OF ht] unfolding ring_next [OF ht(2)]
    by (cases "t \<le> h"; cases "t = 127") (simp_all, arith?)
qed

definition kb_count :: "kb \<Rightarrow> nat" where
  "kb_count k = ring_dist (unat (kb_head k)) (unat (kb_tail k))"

definition kb_items :: "kb \<Rightarrow> u8 list" where
  "kb_items k = ring_items (kb_buffer k) (unat (kb_tail k)) (kb_count k)"

lemma kb_items_length [simp]: "length (kb_items k) = kb_count k"
  by (simp add: kb_items_def ring_items_def)

lemma kb_count_bound: "kb_inv k \<Longrightarrow> kb_count k \<le> 127"
  by (simp add: kb_count_def ring_dist_bound kb_inv_def)

lemma kb_put_inv: "kb_inv k \<Longrightarrow> kb_inv (kb_put c k)"
  using unat_ring_next [of "kb_head k"] by (auto simp: kb_inv_def kb_put_def Let_def)

lemma kb_put_items:
  assumes "kb_inv k"
  shows "kb_items (kb_put c k) = (if length (kb_items k) < 127 then kb_items k @ [c] else kb_items k)"
proof -
  let ?h = "unat (kb_head k)" and ?t = "unat (kb_tail k)" and ?n = "kb_count k"
  have b: "?h < 128" "?t < 128" "length (kb_buffer k) = 128" using assms by (simp_all add: kb_inv_def)
  note R = ring_dist_bound [OF b(1,2), folded kb_count_def] ring_full_iff [OF b(1,2), folded kb_count_def]
    ring_dist_next [OF b(1,2), folded kb_count_def] ring_dist_end [OF b(1,2), folded kb_count_def]
    ring_dist_inside [OF b(1,2), folded kb_count_def] ring_dist_pop [OF b(1,2), folded kb_count_def]
  have nxt: "unat ((kb_head k + 1) mod KB_BUF_SIZE) = (?h + 1) mod 128"
    using b(1) by (rule unat_ring_next)
  have full: "(kb_head k + 1) mod KB_BUF_SIZE \<noteq> kb_tail k \<longleftrightarrow> ?n < 127"
  proof -
    have "(kb_head k + 1) mod KB_BUF_SIZE = kb_tail k \<longleftrightarrow> (?h + 1) mod 128 = ?t"
      using nxt by (metis unat_eq_unat_iff)
    also have "\<dots> \<longleftrightarrow> \<not> ?n < 127" using R(1,2) by auto
    finally show ?thesis by blast
  qed
  show ?thesis
  proof (cases "?n < 127")
    case False
    then show ?thesis using full by (simp add: kb_put_def Let_def)
  next
    case True
    let ?k = "kb_put c k"
    have k: "kb_buffer ?k = (kb_buffer k)[?h := c]" "unat (kb_head ?k) = (?h + 1) mod 128"
      "kb_tail ?k = kb_tail k"
      using True full nxt by (simp_all add: kb_put_def Let_def)
    have cnt: "kb_count ?k = Suc ?n"
      using R(3) True k(2,3) by (simp add: kb_count_def)
    have at: "(?t + ?n) mod 128 = ?h" by (rule R(4))
    have old: "?h \<noteq> (?t + i) mod 128" if "i < ?n" for i using R(5) [OF that] by (rule not_sym)
    have "kb_items ?k = map (\<lambda>i. (kb_buffer k)[?h := c] ! ((?t + i) mod 128)) [0..<?n] @ [c]"
      using at b by (simp add: kb_items_def ring_items_def k cnt)
    also have "map (\<lambda>i. (kb_buffer k)[?h := c] ! ((?t + i) mod 128)) [0..<?n] = kb_items k"
      unfolding kb_items_def ring_items_def using old by (intro map_cong) auto
    finally show ?thesis using True by simp
  qed
qed

lemma kb_get_items:
  assumes "kb_inv k"
  shows "case keyboard_getchar k of None \<Rightarrow> kb_items k = []
    | Some (x, k') \<Rightarrow> kb_inv k' \<and> kb_items k = x # kb_items k'"
proof -
  let ?h = "unat (kb_head k)" and ?t = "unat (kb_tail k)" and ?n = "kb_count k"
  have b: "?h < 128" "?t < 128" "length (kb_buffer k) = 128" using assms by (simp_all add: kb_inv_def)
  note R = ring_dist_bound [OF b(1,2), folded kb_count_def] ring_full_iff [OF b(1,2), folded kb_count_def]
    ring_dist_next [OF b(1,2), folded kb_count_def] ring_dist_end [OF b(1,2), folded kb_count_def]
    ring_dist_inside [OF b(1,2), folded kb_count_def] ring_dist_pop [OF b(1,2), folded kb_count_def]
  show ?thesis
  proof (cases "kb_tail k = kb_head k")
    case True
    then have "?n = 0" using R(1) b by (simp add: kb_count_def ring_dist_def)
    then show ?thesis using True by (simp add: keyboard_getchar_def kb_items_def ring_items_def)
  next
    case False
    then have ne: "?t \<noteq> ?h" by (metis unat_eq_unat_iff)
    let ?k = "kb_advance k"
    have t': "unat (kb_tail ?k) = (?t + 1) mod 128"
      using unat_ring_next [OF b(2)] by (simp add: kb_advance_def)
    have inv: "kb_inv ?k" using b t' by (simp add: kb_inv_def kb_advance_def)
    have hd: "kb_head ?k = kb_head k" "kb_buffer ?k = kb_buffer k" by (simp_all add: kb_advance_def)
    have cnt: "?n = Suc (kb_count ?k)"
      using R(6) ne t' hd by (simp add: kb_count_def)
    have "kb_items k = kb_buffer k ! (?t mod 128) # map (\<lambda>i. kb_buffer k ! ((?t + Suc i) mod 128)) [0..<kb_count ?k]"
      unfolding kb_items_def ring_items_def cnt
      by (simp add: upt_conv_Cons map_Suc_upt [symmetric] del: upt_Suc)
    also have "map (\<lambda>i. kb_buffer k ! ((?t + Suc i) mod 128)) [0..<kb_count ?k] = kb_items ?k"
      unfolding kb_items_def ring_items_def t' hd by (intro map_cong refl) (simp add: mod_simps)
    finally have "kb_items k = kb_fetch k # kb_items ?k" using b by (simp add: kb_fetch_def)
    then show ?thesis using False inv by (simp add: keyboard_getchar_def)
  qed
qed

interpretation kq: bounded_queue kb_put keyboard_getchar kb_items kb_inv 127
  using kb_put_inv kb_put_items kb_get_items by unfold_locales auto

section \<open>Scancodes\<close>

text \<open>The character a scancode stands for in a state, if any, and whether it is accepted.\<close>

definition kb_char :: "kb \<Rightarrow> u8 \<Rightarrow> u8 option" where
  "kb_char k sc =
     (if sc AND 0x80 \<noteq> 0 \<or> sc \<in> {0x2A, 0x36, 0x1D, 0x38} \<or> translate k sc = 0 then None
      else Some (translate k sc))"

definition accepted :: "kb \<Rightarrow> u8 \<Rightarrow> u8 list" where
  "accepted k sc =
     (case kb_char k sc of None \<Rightarrow> [] | Some c \<Rightarrow> if length (kb_items k) < 127 then [c] else [])"

lemma kb_items_cong:
  "kb_buffer k' = kb_buffer k \<Longrightarrow> kb_head k' = kb_head k \<Longrightarrow> kb_tail k' = kb_tail k \<Longrightarrow>
   kb_items k' = kb_items k \<and> kb_inv k' = kb_inv k"
  by (simp add: kb_items_def kb_count_def kb_inv_def)

lemma handle_scancode_Some: "kb_char k sc = Some c \<Longrightarrow> keyboard_handle_scancode sc k = kb_put c k"
  by (simp add: keyboard_handle_scancode_def kb_char_def Let_def split: if_splits)

lemma handle_scancode_None:
  "kb_char k sc = None \<Longrightarrow> kb_buffer (keyboard_handle_scancode sc k) = kb_buffer k \<and>
     kb_head (keyboard_handle_scancode sc k) = kb_head k \<and> kb_tail (keyboard_handle_scancode sc k) = kb_tail k"
  by (auto simp: keyboard_handle_scancode_def kb_char_def Let_def)

lemma handle_scancode_items:
  assumes "kb_inv k"
  shows "kb_inv (keyboard_handle_scancode sc k)"
    and "kb_items (keyboard_handle_scancode sc k) = kb_items k @ accepted k sc"
proof -
  have "kb_inv (keyboard_handle_scancode sc k) \<and>
      kb_items (keyboard_handle_scancode sc k) = kb_items k @ accepted k sc"
  proof (cases "kb_char k sc")
    case None
    then show ?thesis
      using handle_scancode_None [OF None] kb_items_cong [of "keyboard_handle_scancode sc k" k] None assms
      by (simp add: accepted_def)
  next
    case (Some c)
    then show ?thesis
      using handle_scancode_Some [OF Some] kq.put_inv [OF assms, of c] kq.put_items [OF assms, of c] by (simp add: accepted_def)
  qed
  then show "kb_inv (keyboard_handle_scancode sc k)"
    "kb_items (keyboard_handle_scancode sc k) = kb_items k @ accepted k sc" by blast+
qed

section \<open>Interleaved runs\<close>

text \<open>A run with what was accepted and what was delivered so far.\<close>

inductive kb_run :: "kb \<times> u8 option \<Rightarrow> u8 list \<Rightarrow> u8 list \<Rightarrow> bool" where
  run_start: "kb_run (kb0, None) [] []"
| run_irq: "kb_run (k, p) ins outs \<Longrightarrow> kb_step (k, p) (Irq sc) s' \<Longrightarrow> kb_run s' (ins @ accepted k sc) outs"
| run_fetch: "kb_run s ins outs \<Longrightarrow> kb_step s Fetch s' \<Longrightarrow> kb_run s' ins outs"
| run_deliver: "kb_run s ins outs \<Longrightarrow> kb_step s (Deliver c) s' \<Longrightarrow> kb_run s' ins (outs @ [c])"

definition run_inv :: "kb \<times> u8 option \<Rightarrow> u8 list \<Rightarrow> u8 list \<Rightarrow> bool" where
  "run_inv s ins outs \<longleftrightarrow> kb_inv (fst s) \<and> ins = outs @ kb_items (fst s) \<and>
     (\<forall>c. snd s = Some c \<longrightarrow> kb_tail (fst s) \<noteq> kb_head (fst s) \<and> kb_fetch (fst s) = c)"

lemma kb_items_fetch:
  assumes "kb_inv k" "kb_tail k \<noteq> kb_head k"
  shows "kb_inv (kb_advance k)" "kb_items k = kb_fetch k # kb_items (kb_advance k)"
  using kq.get_SomeD [OF assms(1), of "kb_fetch k" "kb_advance k"] assms(2)
  by (simp_all add: keyboard_getchar_def)

lemma not_empty_iff: "kb_inv k \<Longrightarrow> kb_tail k \<noteq> kb_head k \<longleftrightarrow> kb_items k \<noteq> []"
  using kq.get_None_iff [of k] by (simp add: keyboard_getchar_def split: if_splits)

lemma kb_run_inv: "kb_run s ins outs \<Longrightarrow> run_inv s ins outs"
proof (induction rule: kb_run.induct)
  case run_start
  show ?case
    by (simp add: run_inv_def kb_inv_def kb0_def kb_items_def kb_count_def ring_items_def ring_dist_def)
next
  case (run_irq k p ins outs sc s')
  have s': "s' = (keyboard_handle_scancode sc k, p)"
    using run_irq(2) by (auto elim: kb_step_cases)
  have inv: "kb_inv k" using run_irq(3) by (simp add: run_inv_def)
  let ?k = "keyboard_handle_scancode sc k"
  note h = handle_scancode_items [OF inv, of sc]
  have "kb_tail ?k \<noteq> kb_head ?k \<and> kb_fetch ?k = c" if p: "p = Some c" for c
  proof -
    have old: "kb_tail k \<noteq> kb_head k" "kb_fetch k = c" using run_irq(3) p by (auto simp: run_inv_def)
    have "kb_items k = c # kb_items (kb_advance k)" using kb_items_fetch [OF inv old(1)] old(2) by simp
    then have i: "kb_items ?k = c # (kb_items (kb_advance k) @ accepted k sc)" using h(2) by simp
    then have ne: "kb_tail ?k \<noteq> kb_head ?k" using not_empty_iff [OF h(1)] by simp
    then show ?thesis using kb_items_fetch(2) [OF h(1) ne] i by simp
  qed
  then show ?case using run_irq(3) h by (simp add: run_inv_def s')
next
  case (run_fetch s ins outs s')
  then show ?case by (auto simp: run_inv_def elim: kb_step_cases)
next
  case (run_deliver s ins outs c s')
  obtain k where s: "s = (k, Some c)" "s' = (kb_advance k, None)"
    using run_deliver(2) by (auto elim: kb_step_cases)
  then have inv: "kb_inv k" "kb_tail k \<noteq> kb_head k" "kb_fetch k = c" "ins = outs @ kb_items k"
    using run_deliver(3) by (auto simp: run_inv_def)
  then show ?case using kb_items_fetch [OF inv(1,2)] by (simp add: run_inv_def s)
qed

section \<open>Properties\<close>

text \<open>C5. The ring buffer refines a first-in first-out queue under every interleaving of interrupts
  with the reader's two steps: what was accepted is what was delivered followed by what waits in
  the buffer, so no character is lost, duplicated or reordered, and at most 127 wait.\<close>

theorem keyboard_fifo:
  assumes "kb_run (k, p) ins outs"
  shows "ins = outs @ kb_items k \<and> length (kb_items k) \<le> 127"
  using kb_run_inv [OF assms] kb_count_bound [of k] by (simp add: run_inv_def)

theorem keyboard_fifo_witness:
  "\<exists>k. kb_run (k, None) [104, 105] [104] \<and> [104, 105] = [104] @ kb_items k"
proof -
  let ?k1 = "keyboard_handle_scancode 0x23 kb0"
  let ?k2 = "keyboard_handle_scancode 0x17 ?k1"
  have acc: "accepted kb0 0x23 = [104]" "accepted ?k1 0x17 = [105]" by code_simp+
  have ne: "kb_tail ?k1 \<noteq> kb_head ?k1" and f: "kb_fetch ?k1 = 104" by code_simp+
  have "kb_run (?k1, None) ([] @ accepted kb0 0x23) []" by (rule run_irq [OF run_start step_irq])
  then have "kb_run (?k1, Some (kb_fetch ?k1)) ([] @ accepted kb0 0x23) []"
    by (rule run_fetch) (rule step_fetch [OF ne])
  then have "kb_run (?k2, Some 104) (([] @ accepted kb0 0x23) @ accepted ?k1 0x17) []"
    unfolding f by (rule run_irq) (rule step_irq)
  then have "kb_run (kb_advance ?k2, None) (([] @ accepted kb0 0x23) @ accepted ?k1 0x17) ([] @ [104])"
    by (rule run_deliver) (rule step_deliver)
  then have "kb_run (kb_advance ?k2, None) [104, 105] [104]" by (simp add: acc)
  then show ?thesis using keyboard_fifo by blast
qed

text \<open>The reader never waits in vain: on a sound buffer, \<open>keyboard_getchar\<close> returns as soon as a
  character is there, so if it is still waiting after the scancodes that arrived, the buffer was
  empty and none of them stood for a character when it arrived.\<close>

theorem keyboard_getchar_waits:
  assumes "kb_inv k"
  shows "getchar_wait scs k = None \<longleftrightarrow>
    kb_items k = [] \<and>
    (\<forall>i<length scs. kb_char (fold keyboard_handle_scancode (take i scs) k) (scs ! i) = None)"
  using assms
proof (induction scs arbitrary: k)
  case Nil
  then show ?case using kq.get_None_iff [of k] by (auto split: option.splits)
next
  case (Cons sc scs)
  note h = handle_scancode_items [OF Cons.prems, of sc]
  show ?case
  proof (cases "kb_items k = []")
    case False
    then obtain x k' where "keyboard_getchar k = Some (x, k')"
      using kq.get_None_iff [OF Cons.prems] by fastforce
    then show ?thesis using False by simp
  next
    case True
    then have g: "keyboard_getchar k = None" using kq.get_None_iff [OF Cons.prems] by simp
    have "kb_items (keyboard_handle_scancode sc k) = [] \<longleftrightarrow> kb_char k sc = None"
      using h(2) True by (simp add: accepted_def split: option.splits)
    moreover have "(\<forall>i<length (sc # scs). kb_char (fold keyboard_handle_scancode (take i (sc # scs)) k)
          ((sc # scs) ! i) = None) \<longleftrightarrow> kb_char k sc = None \<and>
        (\<forall>i<length scs. kb_char (fold keyboard_handle_scancode (take i scs) (keyboard_handle_scancode sc k))
          (scs ! i) = None)"
      by (simp add: All_less_Suc2)
    ultimately show ?thesis using Cons.IH [OF h(1)] g True by simp
  qed
qed

theorem keyboard_getchar_waits_witness:
  "getchar_wait [0x2A, 0xAA] kb0 = None \<and> kb_char kb0 0x2A = None"
proof -
  have "kb_inv kb0" by (simp add: kb_inv_def kb0_def)
  moreover have "getchar_wait [0x2A, 0xAA] kb0 = None" by code_simp
  ultimately show ?thesis using keyboard_getchar_waits [of kb0 "[0x2A, 0xAA]"] by (simp add: All_less_Suc2)
qed

end
