(* ===== verification/Console.thy ===== *)
theory Console
  imports Earlnux_Prelude
begin

text \<open>
  \<^verbatim>\<open>kernel/console.c\<close>: the VGA text console.  The video memory is a function from the cell
  number (\<open>row * 80 + column\<close>) to the cell; the cursor registers of the video controller are the
  last values written to its ports.  A C \<open>char\<close> is signed, so converting it to a cell sign-extends.
\<close>

section \<open>State\<close>

definition VGA_COLS :: nat where "VGA_COLS = 80"
definition VGA_ROWS :: nat where "VGA_ROWS = 25"

datatype vga_color_t =
  COLOR_BLACK | COLOR_BLUE | COLOR_GREEN | COLOR_CYAN | COLOR_RED | COLOR_MAGENTA | COLOR_BROWN
| COLOR_LIGHT_GRAY | COLOR_DARK_GRAY | COLOR_LIGHT_BLUE | COLOR_LIGHT_GREEN | COLOR_LIGHT_CYAN
| COLOR_LIGHT_RED | COLOR_LIGHT_MAGENTA | COLOR_YELLOW | COLOR_WHITE

fun color_code :: "vga_color_t \<Rightarrow> u8" where
  "color_code COLOR_BLACK = 0"
| "color_code COLOR_BLUE = 1"
| "color_code COLOR_GREEN = 2"
| "color_code COLOR_CYAN = 3"
| "color_code COLOR_RED = 4"
| "color_code COLOR_MAGENTA = 5"
| "color_code COLOR_BROWN = 6"
| "color_code COLOR_LIGHT_GRAY = 7"
| "color_code COLOR_DARK_GRAY = 8"
| "color_code COLOR_LIGHT_BLUE = 9"
| "color_code COLOR_LIGHT_GREEN = 10"
| "color_code COLOR_LIGHT_CYAN = 11"
| "color_code COLOR_LIGHT_RED = 12"
| "color_code COLOR_LIGHT_MAGENTA = 13"
| "color_code COLOR_YELLOW = 14"
| "color_code COLOR_WHITE = 15"

definition VGA_ATTR :: "vga_color_t \<Rightarrow> vga_color_t \<Rightarrow> u8" where
  "VGA_ATTR fg bg = push_bit 4 (color_code bg) OR (color_code fg AND 0x0F)"

definition VGA_DEFAULT_ATTR :: u8 where "VGA_DEFAULT_ATTR = VGA_ATTR COLOR_LIGHT_GRAY COLOR_BLACK"
definition VGA_KERNEL_ATTR :: u8 where "VGA_KERNEL_ATTR = VGA_ATTR COLOR_LIGHT_CYAN COLOR_BLACK"
definition VGA_ERROR_ATTR :: u8 where "VGA_ERROR_ATTR = VGA_ATTR COLOR_WHITE COLOR_RED"
definition VGA_SUCCESS_ATTR :: u8 where "VGA_SUCCESS_ATTR = VGA_ATTR COLOR_LIGHT_GREEN COLOR_BLACK"
definition VGA_WARN_ATTR :: u8 where "VGA_WARN_ATTR = VGA_ATTR COLOR_YELLOW COLOR_BLACK"

record console =
  vga_buffer :: "nat \<Rightarrow> u16"
  vga_color :: u8
  console_row :: u8
  console_col :: u8
  cursor_low :: u8
  cursor_high :: u8

definition cell :: "u8 \<Rightarrow> u8 \<Rightarrow> u16" where
  "cell c attr = scast c OR push_bit 8 (ucast attr)"

definition cell_index :: "u8 \<Rightarrow> u8 \<Rightarrow> nat" where
  "cell_index row col = unat row * VGA_COLS + unat col"

section \<open>Operations\<close>

definition console_put_cursor :: "console \<Rightarrow> console" where
  "console_put_cursor c =
     (let pos = of_nat (cell_index (console_row c) (console_col c)) :: u16
      in c\<lparr>cursor_low := ucast (pos AND 0xFF), cursor_high := ucast (drop_bit 8 pos AND 0xFF)\<rparr>)"

definition put_cell :: "nat \<Rightarrow> u16 \<Rightarrow> console \<Rightarrow> console" where
  "put_cell i v c = c\<lparr>vga_buffer := (vga_buffer c)(i := v)\<rparr>"

definition console_clear :: "console \<Rightarrow> console" where
  "console_clear c =
     (let blank = cell 32 (vga_color c);
          c1 = fold (\<lambda>row. fold (\<lambda>col. put_cell (row * VGA_COLS + col) blank) [0..<VGA_COLS])
                 [0..<VGA_ROWS] c
      in console_put_cursor (c1\<lparr>console_row := 0, console_col := 0\<rparr>))"

definition console_init :: "console \<Rightarrow> console" where
  "console_init c = console_clear (c\<lparr>console_row := 0, console_col := 0, vga_color := VGA_DEFAULT_ATTR\<rparr>)"

definition console_put_entry_at :: "u8 \<Rightarrow> u8 \<Rightarrow> u8 \<Rightarrow> u8 \<Rightarrow> console \<Rightarrow> console" where
  "console_put_entry_at ch color row col = put_cell (cell_index row col) (cell ch color)"

definition move_lines_up :: "console \<Rightarrow> console" where
  "move_lines_up c =
     fold (\<lambda>row. fold (\<lambda>col c. put_cell ((row - 1) * VGA_COLS + col)
                                       (vga_buffer c (row * VGA_COLS + col)) c) [0..<VGA_COLS])
       [1..<VGA_ROWS] c"

definition console_scroll :: "console \<Rightarrow> console" where
  "console_scroll c =
     (let c1 = move_lines_up c;
          c2 = fold (\<lambda>col. put_cell ((VGA_ROWS - 1) * VGA_COLS + col) (cell 32 (vga_color c)))
                 [0..<VGA_COLS] c1
      in console_put_cursor (c2\<lparr>console_row := of_nat (VGA_ROWS - 1)\<rparr>))"

definition place_char :: "u8 \<Rightarrow> u8 \<Rightarrow> console \<Rightarrow> console" where
  "place_char ch attr c =
     (if ch = 10 then c\<lparr>console_col := 0, console_row := console_row c + 1\<rparr>
      else if ch = 13 then c\<lparr>console_col := 0\<rparr>
      else if ch = 9 then c\<lparr>console_col := (console_col c + 8) AND NOT 7\<rparr>
      else if ch = 8 then
        (if console_col c > 0
         then (let c1 = c\<lparr>console_col := console_col c - 1\<rparr>
               in console_put_entry_at 32 attr (console_row c1) (console_col c1) c1)
         else c)
      else (let c1 = console_put_entry_at ch attr (console_row c) (console_col c) c;
                c2 = c1\<lparr>console_col := console_col c1 + 1\<rparr>
            in if unat (console_col c2) \<ge> VGA_COLS
               then c2\<lparr>console_col := 0, console_row := console_row c2 + 1\<rparr> else c2))"

definition console_putchar_color :: "u8 \<Rightarrow> u8 \<Rightarrow> console \<Rightarrow> console" where
  "console_putchar_color ch attr c =
     (let c1 = place_char ch attr c
      in console_put_cursor (if unat (console_row c1) \<ge> VGA_ROWS then console_scroll c1 else c1))"

definition console_putchar :: "u8 \<Rightarrow> console \<Rightarrow> console" where
  "console_putchar ch c = console_putchar_color ch (vga_color c) c"

text \<open>A string argument is its bytes before the terminator.\<close>

definition console_puts :: "bytes \<Rightarrow> console \<Rightarrow> console" where
  "console_puts s c = fold console_putchar s c"

definition console_puts_color :: "bytes \<Rightarrow> u8 \<Rightarrow> console \<Rightarrow> console" where
  "console_puts_color s attr c =
     (let old = vga_color c in (fold console_putchar s (c\<lparr>vga_color := attr\<rparr>))\<lparr>vga_color := old\<rparr>)"

definition console_set_color :: "u8 \<Rightarrow> console \<Rightarrow> console" where
  "console_set_color attr c = c\<lparr>vga_color := attr\<rparr>"

definition console_set_cursor :: "u8 \<Rightarrow> u8 \<Rightarrow> console \<Rightarrow> console" where
  "console_set_cursor row col c =
     (if unat row < VGA_ROWS \<and> unat col < VGA_COLS
      then console_put_cursor (c\<lparr>console_row := row, console_col := col\<rparr>) else c)"

definition console_get_cursor :: "console \<Rightarrow> u8 \<times> u8" where
  "console_get_cursor c = (console_row c, console_col c)"

end
