(* ===== verification/Console_Spec.thy ===== *)
theory Console_Spec
  imports Console
begin

text \<open>
  The console never leaves the screen but for one cell: after every character the cursor row is on
  the screen and the column at most 80, the column 80 being reached by a tab only; scrolling moves
  every line up by one.
\<close>

lemmas vga_dims = VGA_COLS_def VGA_ROWS_def

lemma put_cell_simps [simp]:
  "vga_buffer (put_cell i v c) j = (if j = i then v else vga_buffer c j)"
  "console_row (put_cell i v c) = console_row c" "console_col (put_cell i v c) = console_col c"
  "vga_color (put_cell i v c) = vga_color c"
  by (simp_all add: put_cell_def)

lemma put_cursor_simps [simp]:
  "vga_buffer (console_put_cursor c) = vga_buffer c" "console_row (console_put_cursor c) = console_row c"
  "console_col (console_put_cursor c) = console_col c" "vga_color (console_put_cursor c) = vga_color c"
  by (simp_all add: console_put_cursor_def Let_def)

section \<open>Scrolling\<close>

lemma fold_put_frame [frame_simps]:
  "console_row (fold (\<lambda>x. put_cell (f x) (g x)) xs c) = console_row c"
  "console_col (fold (\<lambda>x. put_cell (f x) (g x)) xs c) = console_col c"
  "vga_color (fold (\<lambda>x. put_cell (f x) (g x)) xs c) = vga_color c"
  by (induction xs arbitrary: c) simp_all

lemma fold_put_const:
  "vga_buffer (fold (\<lambda>col. put_cell (a + col) v) [0..<n] c) j =
     (if a \<le> j \<and> j < a + n then v else vga_buffer c j)"
  by (induction n) auto

lemma copy_line:
  assumes "d + n \<le> s"
  shows "vga_buffer (fold (\<lambda>col c. put_cell (d + col) (vga_buffer c (s + col)) c) [0..<n] c) j =
    (if d \<le> j \<and> j < d + n then vga_buffer c (s + (j - d)) else vga_buffer c j)"
  using assms
proof (induction n arbitrary: j)
  case (Suc n)
  let ?c = "fold (\<lambda>col c. put_cell (d + col) (vga_buffer c (s + col)) c) [0..<n] c"
  have s: "vga_buffer ?c (s + n) = vga_buffer c (s + n)" using Suc.IH [of "s + n"] Suc.prems by simp
  show ?case using Suc.IH [of j] Suc.prems s by (auto simp: less_Suc_eq)
qed auto

lemma copy_line_frame [frame_simps]:
  "console_row (fold (\<lambda>col c. put_cell (d + col) (vga_buffer c (s + col)) c) xs c) = console_row c"
  "console_col (fold (\<lambda>col c. put_cell (d + col) (vga_buffer c (s + col)) c) xs c) = console_col c"
  "vga_color (fold (\<lambda>col c. put_cell (d + col) (vga_buffer c (s + col)) c) xs c) = vga_color c"
  by (induction xs arbitrary: c) simp_all

lemma move_lines:
  defines "step \<equiv> \<lambda>row. fold (\<lambda>col c. put_cell ((row - 1) * 80 + col) (vga_buffer c (row * 80 + col)) c) [0..<80]"
  shows "vga_buffer (fold step [1..<Suc n] c) j = (if j < n * 80 then vga_buffer c (j + 80) else vga_buffer c j)
    \<and> console_row (fold step [1..<Suc n] c) = console_row c
    \<and> console_col (fold step [1..<Suc n] c) = console_col c \<and> vga_color (fold step [1..<Suc n] c) = vga_color c"
proof (induction n arbitrary: j)
  case (Suc n)
  let ?c = "fold step [1..<Suc n] c"
  have "fold step [1..<Suc (Suc n)] c = step (Suc n) ?c" by simp
  moreover have "vga_buffer (step (Suc n) ?c) j =
      (if n * 80 \<le> j \<and> j < n * 80 + 80 then vga_buffer ?c (Suc n * 80 + (j - n * 80)) else vga_buffer ?c j)"
    unfolding step_def using copy_line [of "n * 80" 80 "Suc n * 80" ?c j] by (simp add: step_def)
  moreover have "vga_buffer ?c (Suc n * 80 + (j - n * 80)) = vga_buffer c (j + 80)"
    if "n * 80 \<le> j" using that Suc.IH [of "Suc n * 80 + (j - n * 80)"] by (simp add: algebra_simps)
  moreover have "console_row (step (Suc n) ?c) = console_row ?c" "console_col (step (Suc n) ?c) = console_col ?c"
    "vga_color (step (Suc n) ?c) = vga_color ?c"
    unfolding step_def by (simp_all add: copy_line_frame)
  ultimately show ?case using Suc.IH [of j] by auto
qed simp

lemma scroll_buffer:
  "vga_buffer (console_scroll c) j =
     (if j < 1920 then vga_buffer c (j + 80) else if j < 2000 then cell 32 (vga_color c) else vga_buffer c j)"
  "console_row (console_scroll c) = 24" "console_col (console_scroll c) = console_col c"
  "vga_color (console_scroll c) = vga_color c"
proof -
  have m: "move_lines_up c = fold (\<lambda>row. fold (\<lambda>col c. put_cell ((row - 1) * 80 + col)
      (vga_buffer c (row * 80 + col)) c) [0..<80]) [1..<Suc 24] c"
    by (simp only: move_lines_up_def vga_dims) simp
  note M = move_lines [of 24 c, folded m]
  show "vga_buffer (console_scroll c) j =
     (if j < 1920 then vga_buffer c (j + 80) else if j < 2000 then cell 32 (vga_color c) else vga_buffer c j)"
    using M [of j] fold_put_const [of 1920 "cell 32 (vga_color c)" 80 "move_lines_up c" j]
    by (simp add: console_scroll_def Let_def vga_dims)
  show "console_row (console_scroll c) = 24" "console_col (console_scroll c) = console_col c"
    "vga_color (console_scroll c) = vga_color c"
    using M by (simp_all add: console_scroll_def Let_def vga_dims frame_simps)
qed

section \<open>The cursor stays on the screen\<close>

text \<open>
  A tab moves the column without looking at the width of the screen, so after tabs the column can
  be any byte; every other character leaves it below 80.
\<close>

definition console_ok :: "console \<Rightarrow> bool" where
  "console_ok c \<longleftrightarrow> unat (console_row c) < VGA_ROWS \<and> unat (console_col c) < VGA_COLS"

lemma unat_inc8: "unat (x::u8) < 255 \<Longrightarrow> unat (x + 1) = unat x + 1"
  by (subst unat_add_lem [THEN iffD1]) simp_all

lemma unat_dec8: "(x::u8) > 0 \<Longrightarrow> unat (x - 1) = unat x - 1"
  by (simp add: unat_minus_one word_greater_zero_iff)

lemma place_char_row:
  assumes "unat (console_row c) < 25"
  shows "unat (console_row (place_char ch attr c)) \<le> 25"
  using assms unat_inc8 [of "console_row c"]
  by (auto simp: place_char_def Let_def console_put_entry_at_def)

lemma place_char_col:
  assumes "unat (console_col c) < 80" "ch \<noteq> 9"
  shows "unat (console_col (place_char ch attr c)) < 80"
  using assms unat_inc8 [of "console_col c"] unat_dec8 [of "console_col c"]
  by (auto simp: place_char_def Let_def console_put_entry_at_def vga_dims)

lemma place_char_color [simp]: "vga_color (place_char ch attr c) = vga_color c"
  by (auto simp: place_char_def Let_def console_put_entry_at_def)

text \<open>The one cell a character can write is at the cursor, or before it.\<close>

lemma place_char_far:
  assumes "unat (console_row c) * 80 + unat (console_col c) < j"
  shows "vga_buffer (place_char ch attr c) j = vga_buffer c j"
  using assms unat_dec8 [of "console_col c"]
  by (auto simp: place_char_def Let_def console_put_entry_at_def cell_index_def vga_dims)

lemma putchar_color_row:
  "unat (console_row c) < 25 \<Longrightarrow> unat (console_row (console_putchar_color ch attr c)) < 25"
  using place_char_row [of c ch attr]
  by (auto simp: console_putchar_color_def Let_def vga_dims scroll_buffer)

lemma putchar_color_far:
  assumes "unat (console_row c) * 80 + unat (console_col c) < j" "2000 \<le> j"
  shows "vga_buffer (console_putchar_color ch attr c) j = vga_buffer c j"
  using assms place_char_far [OF assms(1)]
  by (simp add: console_putchar_color_def Let_def scroll_buffer)

lemma putchar_color_ok:
  assumes "console_ok c" "ch \<noteq> 9"
  shows "console_ok (console_putchar_color ch attr c)"
  using assms place_char_row [of c ch attr] place_char_col [of c ch attr]
  by (auto simp: console_ok_def console_putchar_color_def Let_def vga_dims scroll_buffer)

lemma console_ok_far: "console_ok c \<Longrightarrow> 2000 \<le> j \<Longrightarrow> unat (console_row c) * 80 + unat (console_col c) < j"
  by (simp add: console_ok_def vga_dims)

text \<open>C29. Printing a string leaves the cursor row on the screen, whatever the string.  A string without
  tabs also keeps the column on the screen and changes no cell outside the 80 by 25 screen; a
  string with tabs changes no cell from 2176 on.\<close>

theorem console_puts_safe:
  assumes "console_ok c"
  shows "unat (console_row (console_puts s c)) < VGA_ROWS
    \<and> (\<forall>j\<ge>2176. vga_buffer (console_puts s c) j = vga_buffer c j)
    \<and> (9 \<notin> set s \<longrightarrow> console_ok (console_puts s c)
         \<and> (\<forall>j\<ge>2000. vga_buffer (console_puts s c) j = vga_buffer c j))"
proof -
  have any: "unat (console_row c) < 25 \<Longrightarrow> unat (console_row (console_puts s c)) < 25
      \<and> (\<forall>j\<ge>2176. vga_buffer (console_puts s c) j = vga_buffer c j)" for c
  proof (induction s arbitrary: c)
    case (Cons ch s)
    have "unat (console_row c) * 80 + unat (console_col c) < j" if "2176 \<le> j" for j
      using Cons.prems that unat_u8_bounds(2) [of "console_col c"] by linarith
    then have "\<forall>j\<ge>2176. vga_buffer (console_putchar ch c) j = vga_buffer c j"
      by (simp add: console_putchar_def putchar_color_far)
    then show ?case using Cons.IH [of "console_putchar ch c"] Cons.prems
      by (simp add: console_puts_def console_putchar_def putchar_color_row)
  qed (simp add: console_puts_def)
  have tabless: "console_ok c \<Longrightarrow> 9 \<notin> set s \<Longrightarrow> console_ok (console_puts s c)
      \<and> (\<forall>j\<ge>2000. vga_buffer (console_puts s c) j = vga_buffer c j)" for c
  proof (induction s arbitrary: c)
    case (Cons ch s)
    have "\<forall>j\<ge>2000. vga_buffer (console_putchar ch c) j = vga_buffer c j"
      using console_ok_far [OF Cons.prems(1)] by (simp add: console_putchar_def putchar_color_far)
    then show ?case using Cons.IH [of "console_putchar ch c"] Cons.prems putchar_color_ok [of c ch]
      by (simp add: console_puts_def console_putchar_def)
  qed (simp add: console_puts_def)
  show ?thesis using any [of c] tabless [of c] assms by (simp add: console_ok_def vga_dims)
qed

definition blank_console :: console where
  "blank_console = \<lparr>vga_buffer = (\<lambda>_. 0), vga_color = 7, console_row = 0, console_col = 0,
     cursor_low = 0, cursor_high = 0\<rparr>"

theorem console_puts_safe_witness:
  "vga_buffer (console_puts [72, 105, 10] blank_console) 2000 = 0
   \<and> console_ok (console_puts [72, 105, 10] blank_console)"
  using console_puts_safe [of blank_console "[72, 105, 10]"]
  by (simp add: blank_console_def console_ok_def vga_dims)

text \<open>On the last row, a tab from column 72 or later and then a printable character write
  the cell after the end of the screen.\<close>

theorem console_tab_leaves_screen:
  assumes "console_row c = 24" "72 \<le> unat (console_col c)" "unat (console_col c) < 80"
    and "ch \<notin> {8, 9, 10, 13}"
  shows "vga_buffer (console_puts [9, ch] c) (VGA_ROWS * VGA_COLS) = cell ch (vga_color c)"
proof -
  have "unat (console_col c) \<in> {72..<80}" using assms by simp
  then have "\<exists>n \<in> {72..<80}. console_col c = of_nat n" by (intro bexI [of _ "unat (console_col c)"]) simp_all
  then have col: "(console_col c + 8) AND NOT 7 = 80"
    by (auto simp: atLeastLessThan_nat_numeral)
  let ?c = "console_putchar 9 c"
  have "console_row ?c = 24" "console_col ?c = 80" "vga_color ?c = vga_color c"
    using assms(1) col by (simp_all add: console_putchar_def console_putchar_color_def place_char_def vga_dims)
  then show ?thesis using assms(4)
    by (simp add: console_puts_def console_putchar_def [of ch] console_putchar_color_def place_char_def
        console_put_entry_at_def cell_index_def vga_dims scroll_buffer Let_def)
qed

theorem console_tab_leaves_screen_witness:
  "vga_buffer (console_puts [9, 65] (blank_console\<lparr>console_row := 24, console_col := 79\<rparr>)) 2000 = 0x741"
  using console_tab_leaves_screen [of "blank_console\<lparr>console_row := 24, console_col := 79\<rparr>" 65]
  by (simp add: blank_console_def vga_dims cell_def)

section \<open>Printing\<close>

definition printable :: "u8 \<Rightarrow> bool" where
  "printable ch \<longleftrightarrow> ch \<notin> {8, 9, 10, 13}"

lemma putchar_printable:
  assumes "printable ch" "console_ok c" "unat (console_col c) + 1 < 80"
  shows "vga_buffer (console_putchar ch c) = (vga_buffer c)(cell_index (console_row c) (console_col c) := cell ch (vga_color c))
    \<and> console_row (console_putchar ch c) = console_row c
    \<and> console_col (console_putchar ch c) = console_col c + 1 \<and> vga_color (console_putchar ch c) = vga_color c"
  using assms unat_inc8 [of "console_col c"]
  by (auto simp: console_putchar_def console_putchar_color_def place_char_def Let_def printable_def
      console_put_entry_at_def console_ok_def vga_dims fun_eq_iff)

text \<open>Printing text that fits in the rest of the line writes exactly the cells after the cursor, in
  order and in the current colour, and moves the cursor behind them.\<close>

theorem console_puts_line:
  assumes "console_ok c" "unat (console_col c) + length s < VGA_COLS" "\<forall>ch\<in>set s. printable ch"
  shows "unat (console_col (console_puts s c)) = unat (console_col c) + length s
    \<and> console_row (console_puts s c) = console_row c
    \<and> (let p = cell_index (console_row c) (console_col c)
       in \<forall>j. vga_buffer (console_puts s c) j =
            (if p \<le> j \<and> j < p + length s then cell (s ! (j - p)) (vga_color c) else vga_buffer c j))"
  using assms
proof (induction s arbitrary: c)
  case (Cons ch s)
  let ?c = "console_putchar ch c"
  have P: "vga_buffer ?c = (vga_buffer c)(cell_index (console_row c) (console_col c) := cell ch (vga_color c))"
    "console_row ?c = console_row c" "console_col ?c = console_col c + 1" "vga_color ?c = vga_color c"
    using putchar_printable [of ch c] Cons.prems by (simp_all add: vga_dims)
  have u: "unat (console_col c + 1) = unat (console_col c) + 1"
    using Cons.prems(2) by (simp add: unat_inc8 vga_dims)
  have ok: "console_ok ?c" using Cons.prems(1,2) by (simp add: console_ok_def P u)
  have "unat (console_col ?c) + length s < VGA_COLS" using Cons.prems(2) by (simp add: P u)
  note IH = Cons.IH [OF ok this]
  have idx: "cell_index (console_row c) (console_col c + 1) = Suc (cell_index (console_row c) (console_col c))"
    by (simp add: cell_index_def u)
  show ?case
    using IH Cons.prems(3) by (auto simp: console_puts_def Let_def P u idx nth_Cons' Suc_diff_Suc)
qed (auto simp: console_puts_def Let_def)

theorem console_puts_line_witness:
  "vga_buffer (console_puts [72, 105] blank_console) 1 = 0x769 \<and> unat (console_col (console_puts [72, 105] blank_console)) = 2"
  using console_puts_line [of blank_console "[72, 105]"]
  by (simp add: blank_console_def console_ok_def vga_dims printable_def cell_index_def cell_def)

end
