(* ===== verification/Printf.thy ===== *)
theory Printf
  imports Console C_String
begin

text \<open>
  \<^verbatim>\<open>kernel/lib/printf.c\<close>: formatted output to the console and to buffers.

  A format is the bytes of its object from the pointer on, so reading past the object is
  \<open>None\<close>; so is a variable argument fetched at another type than it was passed.  A switch over
  the conversion is the function from the arguments to the text it puts out and the arguments
  left.
\<close>

section \<open>Numbers\<close>

definition hexdigits :: bytes where
  "hexdigits = [48, 49, 50, 51, 52, 53, 54, 55, 56, 57, 97, 98, 99, 100, 101, 102]"

text \<open>The loop that fills \<open>tmp\<close>, with room for \<open>k\<close> more digits.\<close>

primrec tmp_digits :: "nat \<Rightarrow> 'a::len word \<Rightarrow> 'a word \<Rightarrow> bytes option" where
  "tmp_digits 0 val base = (if val = 0 then Some [] else None)"
| "tmp_digits (Suc k) val base =
     (if val = 0 then Some []
      else if base = 0 \<or> unat (val mod base) \<ge> length hexdigits then None
      else map_option (\<lambda>tmp. hexdigits ! unat (val mod base) # tmp) (tmp_digits k (val div base) base))"

definition uint_to_str :: "u32 \<Rightarrow> u32 \<Rightarrow> bytes option" where
  "uint_to_str val base = (if val = 0 then Some [48] else map_option rev (tmp_digits 32 val base))"

definition uint64_to_str :: "u64 \<Rightarrow> u64 \<Rightarrow> bytes option" where
  "uint64_to_str val base = (if val = 0 then Some [48] else map_option rev (tmp_digits 64 val base))"

text \<open>Negating the least \<open>int\<close> overflows.\<close>

definition int_to_str :: "u32 \<Rightarrow> bytes option" where
  "int_to_str val =
     (if sint val < 0
      then (if int32_ok (- sint val) then map_option (Cons 45) (uint_to_str (- val) 10) else None)
      else uint_to_str val 10)"

section \<open>Conversions\<close>

text \<open>An argument: an integer or pointer of 32 bits, one of 64 bits, or a string pointer (NULL or the
  bytes it points at).\<close>

datatype varg = Arg32 u32 | Arg64 u64 | ArgStr "bytes option"

definition at_format :: "(u8 \<Rightarrow> bool) \<Rightarrow> bytes \<Rightarrow> (bool \<times> bytes) option" where
  "at_format p f = (case f of [] \<Rightarrow> None | c # cs \<Rightarrow> Some (if p c then (True, cs) else (False, f)))"

fun skip_digits :: "bytes \<Rightarrow> bytes option" where
  "skip_digits [] = None"
| "skip_digits (c # cs) = (if is_digit c then skip_digits cs else Some (c # cs))"

definition skip_width :: "bytes \<Rightarrow> bytes option" where
  "skip_width f =
     do { (_, f) \<leftarrow> at_format (\<lambda>c. c = 45) f;
          f \<leftarrow> skip_digits f;
          (dot, f) \<leftarrow> at_format (\<lambda>c. c = 46) f;
          if dot then skip_digits f else Some f }"

text \<open>Width, length modifier and the conversion character, with the format behind it.\<close>

definition parse_spec :: "bytes \<Rightarrow> (bool \<times> u8 \<times> bytes) option" where
  "parse_spec f =
     do { f \<leftarrow> skip_width f;
          (is_long, f) \<leftarrow> at_format (\<lambda>c. c = 108) f;
          case f of [] \<Rightarrow> None | cv # f \<Rightarrow> Some (is_long, cv, f) }"

definition arg32 :: "varg list \<Rightarrow> (u32 \<times> varg list) option" where
  "arg32 args = (case args of Arg32 v # as \<Rightarrow> Some (v, as) | _ \<Rightarrow> None)"

definition arg64 :: "varg list \<Rightarrow> (u64 \<times> varg list) option" where
  "arg64 args = (case args of Arg64 v # as \<Rightarrow> Some (v, as) | _ \<Rightarrow> None)"

definition null_text :: bytes where "null_text = [40, 110, 117, 108, 108, 41]"

definition arg_str :: "varg list \<Rightarrow> (bytes \<times> varg list) option" where
  "arg_str args =
     (case args of
        ArgStr None # as \<Rightarrow> Some (null_text, as)
      | ArgStr (Some s) # as \<Rightarrow> (if terminated s then Some (cstr s, as) else None)
      | _ \<Rightarrow> None)"

definition with_text :: "bytes option \<Rightarrow> varg list \<Rightarrow> (bytes \<times> varg list) option" where
  "with_text t as = map_option (\<lambda>s. (s, as)) t"

definition unsigned_text :: "bool \<Rightarrow> nat \<Rightarrow> varg list \<Rightarrow> (bytes \<times> varg list) option" where
  "unsigned_text is_long base args =
     (if is_long then do { (v, as) \<leftarrow> arg64 args; with_text (uint64_to_str v (of_nat base)) as }
      else do { (v, as) \<leftarrow> arg32 args; with_text (uint_to_str v (of_nat base)) as })"

definition kvprintf_conv :: "bool \<Rightarrow> u8 \<Rightarrow> varg list \<Rightarrow> (bytes \<times> varg list) option" where
  "kvprintf_conv is_long cv args =
     (if cv = 100 \<or> cv = 105 then do { (v, as) \<leftarrow> arg32 args; with_text (int_to_str v) as }
      else if cv = 117 then unsigned_text is_long 10 args
      else if cv = 120 \<or> cv = 88 then unsigned_text is_long 16 args
      else if cv = 112 then
        do { (v, as) \<leftarrow> arg32 args; with_text (map_option (\<lambda>s. 48 # 120 # s) (uint_to_str v 16)) as }
      else if cv = 99 then do { (v, as) \<leftarrow> arg32 args; Some ([ucast v], as) }
      else if cv = 115 then arg_str args
      else if cv = 37 then Some ([37], args)
      else Some ([63], args))"

section \<open>kvprintf\<close>

lemma at_format_length: "at_format p f = Some (b, f') \<Longrightarrow> length f' \<le> length f"
  by (auto simp: at_format_def split: list.splits if_splits)

lemma skip_digits_length: "skip_digits f = Some f' \<Longrightarrow> length f' \<le> length f"
  by (induction f) (auto split: if_splits)

lemma skip_width_length: "skip_width f = Some f' \<Longrightarrow> length f' \<le> length f"
  by (auto simp: skip_width_def bind_eq_Some_conv split: if_splits
      dest!: at_format_length skip_digits_length)

lemma case_list_eq_Some:
  "(case xs of [] \<Rightarrow> None | y # ys \<Rightarrow> g y ys) = Some r \<longleftrightarrow> (\<exists>y ys. xs = y # ys \<and> g y ys = Some r)"
  by (cases xs) auto

lemma parse_spec_length [dest]: "parse_spec f = Some (l, cv, f') \<Longrightarrow> length f' < length f"
  by (auto simp: parse_spec_def bind_eq_Some_conv case_list_eq_Some
      dest!: at_format_length skip_width_length)

function kvprintf_loop :: "bytes \<Rightarrow> varg list \<Rightarrow> console \<Rightarrow> console option" where
  "kvprintf_loop [] args c = None"
| "kvprintf_loop (x # f) args c =
     (if x = 0 then Some c
      else if x \<noteq> 37 then kvprintf_loop f args (console_putchar x c)
      else if f = [] then None
      else if hd f = 0 then Some c
      else (case parse_spec f of
              None \<Rightarrow> None
            | Some (is_long, cv, f') \<Rightarrow>
                (case kvprintf_conv is_long cv args of
                   None \<Rightarrow> None
                 | Some (t, args') \<Rightarrow> kvprintf_loop f' args' (fold console_putchar t c))))"
  by pat_completeness auto
termination by (relation "measure (\<lambda>(f, _). length f)") auto

definition kvprintf :: "bytes \<Rightarrow> varg list \<Rightarrow> console \<Rightarrow> (int \<times> console) option" where
  "kvprintf fmt args c = map_option (\<lambda>c. (0, c)) (kvprintf_loop fmt args c)"

definition kprintf :: "bytes \<Rightarrow> varg list \<Rightarrow> console \<Rightarrow> (int \<times> console) option" where
  "kprintf fmt args c = kvprintf fmt args c"

section \<open>kvsnprintf\<close>

text \<open>\<open>p\<close> and \<open>end\<close> are offsets into the buffer.\<close>

record sbuf =
  sb_mem :: bytes
  sb_p :: nat
  sb_end :: nat

definition sbuf_putchar :: "u8 \<Rightarrow> sbuf \<Rightarrow> sbuf option" where
  "sbuf_putchar ch b =
     (if sb_p b < sb_end b - 1
      then (if sb_p b < length (sb_mem b)
            then Some (b\<lparr>sb_mem := (sb_mem b)[sb_p b := ch], sb_p := sb_p b + 1\<rparr>) else None)
      else Some b)"

fun sbuf_puts :: "bytes \<Rightarrow> sbuf \<Rightarrow> sbuf option" where
  "sbuf_puts [] b = Some b"
| "sbuf_puts (ch # t) b = do { b \<leftarrow> sbuf_putchar ch b; sbuf_puts t b }"

definition kvsnprintf_conv :: "bool \<Rightarrow> u8 \<Rightarrow> varg list \<Rightarrow> (bytes \<times> varg list) option" where
  "kvsnprintf_conv is_long cv args =
     (if cv = 100 \<or> cv = 105 then
        do { (v, as) \<leftarrow> arg32 args;
             with_text (if sint v < 0
                        then (if int32_ok (- sint v) then map_option (Cons 45) (uint_to_str (- v) 10)
                              else None)
                        else uint_to_str v 10) as }
      else if cv = 117 then unsigned_text is_long 10 args
      else if cv = 120 \<or> cv = 88 then unsigned_text is_long 16 args
      else if cv = 99 then do { (v, as) \<leftarrow> arg32 args; Some ([ucast v], as) }
      else if cv = 115 then arg_str args
      else if cv = 37 then Some ([37], args)
      else Some ([63], args))"

function kvsnprintf_loop :: "bytes \<Rightarrow> varg list \<Rightarrow> sbuf \<Rightarrow> sbuf option" where
  "kvsnprintf_loop [] args b = None"
| "kvsnprintf_loop (x # f) args b =
     (if x = 0 then Some b
      else if x \<noteq> 37 then
        (case sbuf_putchar x b of None \<Rightarrow> None | Some b' \<Rightarrow> kvsnprintf_loop f args b')
      else if f = [] then None
      else if hd f = 0 then Some b
      else (case parse_spec f of
              None \<Rightarrow> None
            | Some (is_long, cv, f') \<Rightarrow>
                (case kvsnprintf_conv is_long cv args of
                   None \<Rightarrow> None
                 | Some (t, args') \<Rightarrow>
                     (case sbuf_puts t b of
                        None \<Rightarrow> None | Some b' \<Rightarrow> kvsnprintf_loop f' args' b'))))"
  by pat_completeness auto
termination by (relation "measure (\<lambda>(f, _). length f)") auto

definition kvsnprintf :: "bytes option \<Rightarrow> nat \<Rightarrow> bytes \<Rightarrow> varg list \<Rightarrow> (bytes option \<times> nat) option" where
  "kvsnprintf buf n fmt args =
     (case buf of
        None \<Rightarrow> Some (None, 0)
      | Some mem \<Rightarrow>
          (if n = 0 then Some (buf, 0)
           else do { b \<leftarrow> kvsnprintf_loop fmt args \<lparr>sb_mem = mem, sb_p = 0, sb_end = n\<rparr>;
                     if sb_p b < length (sb_mem b)
                     then Some (Some ((sb_mem b)[sb_p b := 0]), sb_p b) else None }))"

definition ksprintf :: "bytes option \<Rightarrow> bytes \<Rightarrow> varg list \<Rightarrow> (bytes option \<times> nat) option" where
  "ksprintf buf fmt args = kvsnprintf buf 65536 fmt args"

definition ksnprintf :: "bytes option \<Rightarrow> nat \<Rightarrow> bytes \<Rightarrow> varg list \<Rightarrow> (bytes option \<times> nat) option" where
  "ksnprintf buf n fmt args = kvsnprintf buf n fmt args"

end
