(* ===== verification/Printf_Spec.thy ===== *)
theory Printf_Spec
  imports Printf Console_Spec
begin

text \<open>
  What the formatted output prints: the numbers are the decimal and hexadecimal notation of
  \<^theory_text>\<open>Digits\<close>, a format made of literal text and conversions prints its pieces in order, and
  the buffer version is the console version truncated.
\<close>

section \<open>Numbers\<close>

lemma hexdigits_nth: "d < 16 \<Longrightarrow> hexdigits ! d = digit_char d"
  by (auto simp: hexdigits_def digit_char_def less_Suc_eq numeral_eq_Suc)

lemma length_hexdigits [simp]: "length hexdigits = 16"
  by (simp add: hexdigits_def)

lemma tmp_digits_eq:
  fixes val base :: "'a::len word"
  assumes "2 \<le> unat base" "unat base \<le> 16" "unat val < unat base ^ k"
  shows "tmp_digits k val base = Some (map digit_char (rev_digits (unat base) (unat val)))"
  using assms
proof (induction k arbitrary: val)
  case 0
  then have "val = 0" by (simp add: unat_eq_0)
  then show ?case by simp
next
  case (Suc k)
  show ?case
  proof (cases "val = 0")
    case False
    then have pos: "0 < unat val" by (simp add: unat_gt_0)
    have "unat val mod unat base < unat base" using Suc.prems(1) by simp
    then have m: "unat val mod unat base < 16" using Suc.prems(2) by linarith
    have "unat (val div base) < unat base ^ k"
      using Suc.prems(3) by (simp add: unat_div less_mult_imp_div_less mult.commute)
    note IH = Suc.IH [OF Suc.prems(1,2) this]
    have "base \<noteq> 0" using Suc.prems(1) by auto
    then show ?thesis using False m IH pos Suc.prems(1)
      by (simp add: unat_mod unat_div hexdigits_nth rev_digits_pos)
  qed simp
qed

lemma uint_to_str_dec: "uint_to_str val 10 = Some (dec (unat val))"
proof -
  have "unat val < 10 ^ 32" by (rule less_le_trans [OF unat_u32_bounds(1)]) simp
  then show ?thesis
    using tmp_digits_eq [of 10 val 32] by (simp add: uint_to_str_def dec_def rev_map unat_eq_0)
qed

lemma uint_to_str_hex: "uint_to_str val 16 = Some (hex (unat val))"
proof -
  have "unat val < 16 ^ 32" by (rule less_le_trans [OF unat_u32_bounds(1)]) simp
  then show ?thesis
    using tmp_digits_eq [of 16 val 32] by (simp add: uint_to_str_def hex_def rev_map unat_eq_0)
qed

lemma unat_u64_bound: "unat (x::u64) < 18446744073709551616"
  using unsigned_less [where w = x and 'a = nat] by simp

lemma uint64_to_str_dec: "uint64_to_str val 10 = Some (dec (unat val))"
proof -
  have "unat val < 10 ^ 64" by (rule less_le_trans [OF unat_u64_bound]) simp
  then show ?thesis
    using tmp_digits_eq [of 10 val 64] by (simp add: uint64_to_str_def dec_def rev_map unat_eq_0)
qed

lemma uint64_to_str_hex: "uint64_to_str val 16 = Some (hex (unat val))"
proof -
  have "unat val < 16 ^ 64" by (rule less_le_trans [OF unat_u64_bound]) simp
  then show ?thesis
    using tmp_digits_eq [of 16 val 64] by (simp add: uint64_to_str_def hex_def rev_map unat_eq_0)
qed

definition signed_dec :: "int \<Rightarrow> bytes" where
  "signed_dec z = (if z < 0 then 45 # dec (nat (- z)) else dec (nat z))"

lemma uint_u32_bound: "uint (v::u32) < 4294967296"
  using unsigned_less [where w = v and 'a = int] by simp

lemma sint_u32: "sint (v::u32) = (if bit v 31 then uint v - 4294967296 else uint v)"
proof -
  have "take_bit 32 (uint v) = uint v"
    using uint_u32_bound [of v] by (intro take_bit_int_eq_self) simp_all
  then show ?thesis by (simp add: sint_uint signed_take_bit_eq_take_bit_minus bit_uint_iff)
qed

lemma sint_neg_iff: "sint (v::u32) < 0 \<longleftrightarrow> bit v 31"
  using uint_u32_bound [of v] by (simp add: sint_u32 not_less)

lemma int_to_str_eq:
  assumes "sint v \<noteq> - 2147483648"
  shows "int_to_str v = Some (signed_dec (sint v))"
proof (cases "bit v 31")
  case True
  then have s: "- sint v = 4294967296 - uint v" by (simp add: sint_u32)
  have "uint v \<noteq> 0" using True by (auto simp: bit_0_eq)
  then have v: "0 < uint v" using unsigned_greater_eq [of v, where 'a = int] by linarith
  have "uint (- v) = (- uint v) mod 4294967296" by (simp add: uint_word_ariths)
  also have "\<dots> = 4294967296 - uint v"
  proof -
    have "uint v mod 4294967296 = uint v" using v uint_u32_bound [of v] by (intro mod_pos_pos_trivial) simp_all
    moreover have "v \<noteq> 0" using True by auto
    ultimately show ?thesis by (subst zmod_zminus1_eq_if) simp
  qed
  finally have "uint (- v) = - sint v" by (simp add: s)
  then have u: "nat (- sint v) = unat (- v)" by (metis nat_uint_eq)
  have "- sint v \<le> 2147483648" using sint_ge [of v] by simp
  then have "int32_ok (- sint v)" using assms s uint_u32_bound [of v] by (simp add: int32_ok_def)
  then show ?thesis using True u sint_neg_iff [of v]
    by (simp add: int_to_str_def uint_to_str_dec signed_dec_def)
next
  case False
  then show ?thesis using sint_neg_iff [of v]
    by (simp add: int_to_str_def uint_to_str_dec signed_dec_def sint_u32 nat_uint_eq)
qed

lemmas number_text = uint_to_str_dec uint_to_str_hex uint64_to_str_dec uint64_to_str_hex

section \<open>The buffer version is the console version truncated\<close>

text \<open>The state of the buffer after a text was put into it.\<close>

definition sb_of :: "nat \<Rightarrow> bytes \<Rightarrow> bytes \<Rightarrow> sbuf" where
  "sb_of n buf t = \<lparr>sb_mem = take (n - 1) t @ drop (min (n - 1) (length t)) buf,
     sb_p = min (n - 1) (length t), sb_end = n\<rparr>"

lemma sbuf_putchar_of:
  assumes "0 < n" "n \<le> length buf"
  shows "sbuf_putchar ch (sb_of n buf t) = Some (sb_of n buf (t @ [ch]))"
proof (cases "length t < n - 1")
  case True
  then have "drop (length t) buf = buf ! length t # drop (Suc (length t)) buf"
    using assms by (simp add: Cons_nth_drop_Suc)
  then have "(take (n - 1) t @ drop (length t) buf)[length t := ch] = t @ ch # drop (Suc (length t)) buf"
    using True by (simp add: list_update_append)
  moreover have "length t < length buf" "Suc (length t) \<le> n - 1" using True assms by simp_all
  ultimately show ?thesis using True by (simp add: sbuf_putchar_def sb_of_def min_def)
qed (simp add: sbuf_putchar_def sb_of_def min_def)

lemma sbuf_puts_of:
  assumes "0 < n" "n \<le> length buf"
  shows "sbuf_puts u (sb_of n buf t) = Some (sb_of n buf (t @ u))"
  by (induction u arbitrary: t) (simp_all add: sbuf_putchar_of [OF assms])

text \<open>Where the terminator goes.\<close>

lemma sb_of_end:
  assumes "0 < n" "n \<le> length buf"
  shows "sb_p (sb_of n buf u) = min (n - 1) (length u)"
    "sb_p (sb_of n buf u) < length (sb_mem (sb_of n buf u))"
    "(sb_mem (sb_of n buf u))[sb_p (sb_of n buf u) := 0]
       = take (n - 1) u @ 0 # drop (Suc (min (n - 1) (length u))) buf"
proof -
  show p: "sb_p (sb_of n buf u) = min (n - 1) (length u)" by (simp add: sb_of_def)
  have l: "min (n - 1) (length u) < length buf" using assms by simp
  then have "drop (min (n - 1) (length u)) buf
      = buf ! min (n - 1) (length u) # drop (Suc (min (n - 1) (length u))) buf"
    by (simp add: Cons_nth_drop_Suc)
  then show "(sb_mem (sb_of n buf u))[sb_p (sb_of n buf u) := 0]
     = take (n - 1) u @ 0 # drop (Suc (min (n - 1) (length u))) buf"
    by (simp add: sb_of_def list_update_append min.commute)
  show "sb_p (sb_of n buf u) < length (sb_mem (sb_of n buf u))"
    using l by (simp add: sb_of_def min.commute)
qed

text \<open>The conversion characters of a format.\<close>

function conversions :: "bytes \<Rightarrow> bytes" where
  "conversions [] = []"
| "conversions (x # f) =
     (if x = 0 then [] else if x \<noteq> 37 then conversions f
      else (case parse_spec f of None \<Rightarrow> [] | Some (is_long, cv, f') \<Rightarrow> cv # conversions f'))"
  by pat_completeness auto
termination by (relation "measure length") auto

lemma conv_same: "cv \<noteq> 112 \<Longrightarrow> kvsnprintf_conv l cv args = kvprintf_conv l cv args"
  by (simp add: kvsnprintf_conv_def kvprintf_conv_def int_to_str_def)

lemma kvprintf_text:
  assumes "112 \<notin> set (conversions fmt)" "0 < n" "n \<le> length buf"
  shows "\<exists>t. kvprintf_loop fmt args c = map_option (\<lambda>u. fold console_putchar u c) t
    \<and> kvsnprintf_loop fmt args (sb_of n buf s) = map_option (\<lambda>u. sb_of n buf (s @ u)) t"
  using assms(1)
proof (induction fmt args c arbitrary: s rule: kvprintf_loop.induct)
  case (1 args c)
  show ?case by (intro exI [of _ None]) simp
next
  case (2 x f args c)
  note put = sbuf_putchar_of [OF assms(2,3)] sbuf_puts_of [OF assms(2,3)]
  consider "x = 0 \<or> x = 37 \<and> f \<noteq> [] \<and> hd f = 0" | "x = 37 \<and> f = []" | "x \<noteq> 0" "x \<noteq> 37"
    | "x = 37" "f \<noteq> []" "hd f \<noteq> 0" by auto
  then show ?case
  proof cases
    case 1
    then show ?thesis by (intro exI [of _ "Some []"]) auto
  next
    case 2
    then show ?thesis by (intro exI [of _ None]) auto
  next
    case 3
    obtain t where "kvprintf_loop f args (console_putchar x c) = map_option (\<lambda>u. fold console_putchar u (console_putchar x c)) t"
      "kvsnprintf_loop f args (sb_of n buf (s @ [x])) = map_option (\<lambda>u. sb_of n buf ((s @ [x]) @ u)) t"
      using "2.IH"(1) [of "s @ [x]"] 3 "2.prems" by auto
    then show ?thesis using 3 by (intro exI [of _ "map_option (Cons x) t"])
        (simp add: put option.map_comp comp_def)
  next
    case 4
    show ?thesis
    proof (cases "parse_spec f")
      case None
      then show ?thesis using 4 by (intro exI [of _ None]) simp
    next
      case (Some spec)
      obtain l cv f' where spec: "parse_spec f = Some (l, cv, f')" using Some by (cases spec) auto
      have cv: "cv \<noteq> 112" "112 \<notin> set (conversions f')" using "2.prems" 4(1) spec by auto
      show ?thesis
      proof (cases "kvprintf_conv l cv args")
        case None
        then show ?thesis using 4 spec cv by (intro exI [of _ None]) (simp add: conv_same)
      next
        case (Some ta)
        obtain t as where ta: "kvprintf_conv l cv args = Some (t, as)" using Some by (cases ta) auto
        have "112 \<notin> set (conversions f') \<Longrightarrow> \<exists>u. kvprintf_loop f' as (fold console_putchar t c)
              = map_option (\<lambda>v. fold console_putchar v (fold console_putchar t c)) u
            \<and> kvsnprintf_loop f' as (sb_of n buf (s @ t)) = map_option (\<lambda>v. sb_of n buf ((s @ t) @ v)) u"
          using "2.IH"(2) [of "(l, cv, f')" l "(cv, f')" cv f' "(t, as)" t as "s @ t"] 4 spec ta by simp
        then obtain u where "kvprintf_loop f' as (fold console_putchar t c)
              = map_option (\<lambda>v. fold console_putchar v (fold console_putchar t c)) u"
            "kvsnprintf_loop f' as (sb_of n buf (s @ t)) = map_option (\<lambda>v. sb_of n buf ((s @ t) @ v)) u"
          using cv by blast
        then show ?thesis using 4 spec ta cv by (intro exI [of _ "map_option (append t) u"])
            (simp add: put conv_same option.map_comp comp_def)
      qed
    qed
  qed
qed

text \<open>C11. For a format without \<open>%p\<close>, formatting into a buffer of \<open>n\<close> bytes is printing to the
  console cut off after \<open>n - 1\<close> bytes: the same text goes out, terminated, within the \<open>n\<close> bytes,
  its length is returned, and the two have undefined behaviour for the same arguments.\<close>

theorem ksnprintf_truncates_kprintf:
  assumes "112 \<notin> set (conversions fmt)" "0 < n" "n \<le> length buf"
  shows "\<exists>t. kprintf fmt args c = map_option (\<lambda>u. (0, fold console_putchar u c)) t
    \<and> ksnprintf (Some buf) n fmt args = map_option (\<lambda>u.
        (Some (take (n - 1) u @ 0 # drop (Suc (min (n - 1) (length u))) buf), min (n - 1) (length u))) t"
proof -
  obtain t where t: "kvprintf_loop fmt args c = map_option (\<lambda>u. fold console_putchar u c) t"
    "kvsnprintf_loop fmt args (sb_of n buf []) = map_option (\<lambda>u. sb_of n buf u) t"
    using kvprintf_text [OF assms, of args c "[]"] by auto
  have init: "\<lparr>sb_mem = buf, sb_p = 0, sb_end = n\<rparr> = sb_of n buf []"
    by (simp add: sb_of_def)
  note stop = sb_of_end [OF assms(2,3)]
  show ?thesis
  proof (rule exI [of _ t], rule conjI)
    show "kprintf fmt args c = map_option (\<lambda>u. (0, fold console_putchar u c)) t"
      by (simp add: kprintf_def kvprintf_def t option.map_comp comp_def)
    show "ksnprintf (Some buf) n fmt args = map_option (\<lambda>u.
        (Some (take (n - 1) u @ 0 # drop (Suc (min (n - 1) (length u))) buf), min (n - 1) (length u))) t"
      using assms(2) stop by (cases t) (simp_all add: ksnprintf_def kvsnprintf_def init t)
  qed
qed

theorem ksnprintf_truncates_kprintf_witness:
  "112 \<notin> set (conversions [104, 105, 37, 117, 0])
   \<and> ksnprintf (Some (replicate 5 7)) 4 [104, 105, 37, 117, 0] [Arg32 42] = Some (Some [104, 105, 52, 0, 7], 3)
   \<and> (\<exists>t. kprintf [104, 105, 37, 117, 0] [Arg32 42] blank_console = map_option (\<lambda>u. (0, fold console_putchar u blank_console)) t
      \<and> ksnprintf (Some (replicate 5 7)) 4 [104, 105, 37, 117, 0] [Arg32 42] = map_option (\<lambda>u.
        (Some (take (4 - 1) u @ 0 # drop (Suc (min (4 - 1) (length u))) (replicate 5 7)), min (4 - 1) (length u))) t)"
proof -
  have c: "112 \<notin> set (conversions [104, 105, 37, 117, 0])" by code_simp
  have r: "ksnprintf (Some (replicate 5 7)) 4 [104, 105, 37, 117, 0] [Arg32 42] = Some (Some [104, 105, 52, 0, 7], 3)"
    by code_simp
  have len: "0 < (4::nat)" "4 \<le> length (replicate 5 (7::u8))" by simp_all
  show ?thesis
    using c r ksnprintf_truncates_kprintf [OF c len, of "[Arg32 42]"] by blast
qed

section \<open>What a format prints\<close>

datatype piece =
  Literal bytes | Decimal u32 | Unsigned u32 | Unsigned_Long u64 | Hexadecimal u32 | Hexadecimal_Long u64
| Pointer u32 | Character u8 | String "bytes option" | Percent | Width bytes piece

fun piece_format :: "piece \<Rightarrow> bytes" where
  "piece_format (Literal s) = s"
| "piece_format (Decimal _) = [37, 100]"
| "piece_format (Unsigned _) = [37, 117]"
| "piece_format (Unsigned_Long _) = [37, 108, 117]"
| "piece_format (Hexadecimal _) = [37, 120]"
| "piece_format (Hexadecimal_Long _) = [37, 108, 120]"
| "piece_format (Pointer _) = [37, 112]"
| "piece_format (Character _) = [37, 99]"
| "piece_format (String _) = [37, 115]"
| "piece_format Percent = [37, 37]"
| "piece_format (Width w p) = 37 # w @ tl (piece_format p)"

fun piece_args :: "piece \<Rightarrow> varg list" where
  "piece_args (Literal s) = []"
| "piece_args (Decimal v) = [Arg32 v]"
| "piece_args (Unsigned v) = [Arg32 v]"
| "piece_args (Unsigned_Long v) = [Arg64 v]"
| "piece_args (Hexadecimal v) = [Arg32 v]"
| "piece_args (Hexadecimal_Long v) = [Arg64 v]"
| "piece_args (Pointer v) = [Arg32 v]"
| "piece_args (Character v) = [Arg32 (ucast v)]"
| "piece_args (String s) = [ArgStr (map_option (\<lambda>t. t @ [0]) s)]"
| "piece_args Percent = []"
| "piece_args (Width w p) = piece_args p"

fun piece_text :: "piece \<Rightarrow> bytes" where
  "piece_text (Literal s) = s"
| "piece_text (Decimal v) = signed_dec (sint v)"
| "piece_text (Unsigned v) = dec (unat v)"
| "piece_text (Unsigned_Long v) = dec (unat v)"
| "piece_text (Hexadecimal v) = hex (unat v)"
| "piece_text (Hexadecimal_Long v) = hex (unat v)"
| "piece_text (Pointer v) = 48 # 120 # hex (unat v)"
| "piece_text (Character v) = [v]"
| "piece_text (String None) = null_text"
| "piece_text (String (Some s)) = s"
| "piece_text Percent = [37]"
| "piece_text (Width w p) = piece_text p"

text \<open>A width: a minus sign for the left, and digits, which may start with the zero that fills.  It can stand
  in front of a conversion.\<close>

fun width_ok :: "bytes \<Rightarrow> bool" where
  "width_ok [] \<longleftrightarrow> True"
| "width_ok (x # w) \<longleftrightarrow> (x = 45 \<or> is_digit x) \<and> (\<forall>d \<in> set w. is_digit d)"

fun converts :: "piece \<Rightarrow> bool" where
  "converts (Literal s) \<longleftrightarrow> False"
| "converts (Width w p) \<longleftrightarrow> False"
| "converts _ \<longleftrightarrow> True"

fun piece_ok :: "piece \<Rightarrow> bool" where
  "piece_ok (Literal s) \<longleftrightarrow> 0 \<notin> set s \<and> 37 \<notin> set s"
| "piece_ok (Decimal v) \<longleftrightarrow> sint v \<noteq> - 2147483648"
| "piece_ok (String (Some s)) \<longleftrightarrow> 0 \<notin> set s"
| "piece_ok (Width w p) \<longleftrightarrow> width_ok w \<and> converts p \<and> piece_ok p"
| "piece_ok _ \<longleftrightarrow> True"

lemma literal_loop:
  "0 \<notin> set s \<Longrightarrow> 37 \<notin> set s \<Longrightarrow> kvprintf_loop (s @ f) args c = kvprintf_loop f args (fold console_putchar s c)"
  by (induction s arbitrary: c) auto

lemmas spec_defs = parse_spec_def skip_width_def at_format_def is_digit_def

lemma spec_plain [simp]: "parse_spec (cv # f) = Some (False, cv, f)" if "cv \<in> {100, 117, 120, 112, 99, 115, 37}"
  using that by (auto simp: spec_defs)

lemma spec_long [simp]: "parse_spec (108 # cv # f) = Some (True, cv, f)"
  by (simp add: spec_defs)

lemmas conv_defs = kvprintf_conv_def unsigned_text_def with_text_def arg32_def arg64_def arg_str_def

lemma ucast_back: "ucast (ucast (x::u8) :: u32) = x"
  by (rule bit_word_eqI) (auto simp: bit_simps)

lemma skip_digits_append: "\<forall>d \<in> set w. is_digit d \<Longrightarrow> skip_digits (w @ f) = skip_digits f"
  by (induction w) simp_all

lemma parse_spec_width:
  assumes "width_ok w" "\<not> is_digit cv" "cv \<noteq> 45"
  shows "parse_spec (w @ cv # f) = parse_spec (cv # f)"
proof (cases w)
  case (Cons x v)
  have "\<not> is_digit 45" by (simp add: is_digit_def)
  then have "skip_width (w @ cv # f) = skip_width (cv # f)" unfolding skip_width_def Cons
    using assms Cons by (cases "x = 45") (simp_all add: at_format_def skip_digits_append)
  then show ?thesis by (simp add: parse_spec_def)
qed simp

text \<open>Every conversion is a percent sign and a text that does not start like a width.\<close>

lemma converts_format:
  assumes "converts p"
  shows "\<exists>cv t. piece_format p = 37 # cv # t \<and> \<not> is_digit cv \<and> cv \<noteq> 45 \<and> cv \<noteq> 0"
  using assms by (cases p) (simp_all add: is_digit_def)

lemma width_loop:
  assumes "piece_ok (Width w p)"
  shows "kvprintf_loop (piece_format (Width w p) @ f) args c = kvprintf_loop (piece_format p @ f) args c"
    and "kvsnprintf_loop (piece_format (Width w p) @ f) args b = kvsnprintf_loop (piece_format p @ f) args b"
proof -
  obtain cv t where t: "piece_format p = 37 # cv # t" "\<not> is_digit cv" "cv \<noteq> 45" "cv \<noteq> 0"
    using converts_format assms by force
  have e: "parse_spec (w @ cv # t @ f) = parse_spec (cv # t @ f)" using parse_spec_width assms t(2,3) by simp
  have z: "w @ cv # t @ f \<noteq> []" "hd (w @ cv # t @ f) \<noteq> 0" using assms t(4) by (cases w; auto simp: is_digit_def)+
  show "kvprintf_loop (piece_format (Width w p) @ f) args c = kvprintf_loop (piece_format p @ f) args c"
    and "kvsnprintf_loop (piece_format (Width w p) @ f) args b = kvsnprintf_loop (piece_format p @ f) args b"
    using z t(4) by (simp_all add: t(1) e)
qed

lemma plain_piece_loop:
  assumes "piece_ok p" "\<forall>w q. p \<noteq> Width w q"
  shows "kvprintf_loop (piece_format p @ f) (piece_args p @ args) c
    = kvprintf_loop f args (fold console_putchar (piece_text p) c)"
  using assms
proof (cases p)
  case (String s)
  then show ?thesis using assms by (cases s) (simp_all add: conv_defs null_text_def)
qed (simp_all add: literal_loop conv_defs number_text int_to_str_eq ucast_back)

lemma piece_loop:
  assumes "piece_ok p"
  shows "kvprintf_loop (piece_format p @ f) (piece_args p @ args) c
    = kvprintf_loop f args (fold console_putchar (piece_text p) c)"
proof (cases "\<exists>w q. p = Width w q")
  case True
  then obtain w q where p: "p = Width w q" by blast
  have "\<forall>w r. q \<noteq> Width w r" using assms p by auto
  then show ?thesis using width_loop(1) [of w q] plain_piece_loop [of q] assms p by simp
next
  case False
  then show ?thesis using plain_piece_loop assms by blast
qed

lemma pieces_loop:
  assumes "\<forall>p \<in> set ps. piece_ok p"
  shows "kvprintf_loop (concat (map piece_format ps) @ 0 # rest) (concat (map piece_args ps)) c
    = Some (fold console_putchar (concat (map piece_text ps)) c)"
  using assms by (induction ps arbitrary: c) (simp_all add: piece_loop)

text \<open>Into a buffer; this version has no pointers.\<close>

fun no_pointer :: "piece \<Rightarrow> bool" where
  "no_pointer (Pointer _) \<longleftrightarrow> False"
| "no_pointer (Width w p) \<longleftrightarrow> no_pointer p"
| "no_pointer _ \<longleftrightarrow> True"

lemma sn_literal_loop:
  assumes "0 < n" "n \<le> length buf"
  shows "0 \<notin> set s \<Longrightarrow> 37 \<notin> set s \<Longrightarrow>
    kvsnprintf_loop (s @ f) args (sb_of n buf u) = kvsnprintf_loop f args (sb_of n buf (u @ s))"
  by (induction s arbitrary: u) (auto simp: sbuf_putchar_of [OF assms])

lemma sn_plain_piece_loop:
  assumes "piece_ok p" "no_pointer p" "0 < n" "n \<le> length buf" "\<forall>w q. p \<noteq> Width w q"
  shows "kvsnprintf_loop (piece_format p @ f) (piece_args p @ args) (sb_of n buf u)
    = kvsnprintf_loop f args (sb_of n buf (u @ piece_text p))"
proof (cases "\<exists>s. p = Literal s")
  case True
  then show ?thesis using assms sn_literal_loop [OF assms(3,4)] by auto
next
  case False
  note put = sbuf_puts_of [OF assms(3,4)] sbuf_putchar_of [OF assms(3,4)]
  show ?thesis
  proof (cases p)
    case (String s)
    then show ?thesis using assms by (cases s) (simp_all add: conv_same conv_defs null_text_def put)
  qed (use assms False in \<open>simp_all add: conv_same conv_defs number_text int_to_str_eq ucast_back put\<close>)
qed

lemma sn_piece_loop:
  assumes "piece_ok p" "no_pointer p" "0 < n" "n \<le> length buf"
  shows "kvsnprintf_loop (piece_format p @ f) (piece_args p @ args) (sb_of n buf u)
    = kvsnprintf_loop f args (sb_of n buf (u @ piece_text p))"
proof (cases "\<exists>w q. p = Width w q")
  case True
  then obtain w q where p: "p = Width w q" by blast
  have "\<forall>w r. q \<noteq> Width w r" using assms p by auto
  then show ?thesis using width_loop(2) [of w q] sn_plain_piece_loop [of q] assms p by simp
next
  case False
  then show ?thesis using sn_plain_piece_loop assms by blast
qed

lemma ksnprintf_pieces:
  assumes "\<forall>p \<in> set ps. piece_ok p \<and> no_pointer p" "0 < n" "n \<le> length buf"
    and t: "t = concat (map piece_text ps)"
  shows "ksnprintf (Some buf) n (concat (map piece_format ps) @ 0 # rest) (concat (map piece_args ps))
    = Some (Some (take (n - 1) t @ 0 # drop (Suc (min (n - 1) (length t))) buf), min (n - 1) (length t))"
proof -
  have "kvsnprintf_loop (concat (map piece_format ps) @ 0 # rest) (concat (map piece_args ps)) (sb_of n buf u)
      = Some (sb_of n buf (u @ concat (map piece_text ps)))" for u
    using assms(1) by (induction ps arbitrary: u) (simp_all add: sn_piece_loop assms(2,3))
  moreover have "\<lparr>sb_mem = buf, sb_p = 0, sb_end = n\<rparr> = sb_of n buf []" by (simp add: sb_of_def)
  ultimately show ?thesis using sb_of_end [OF assms(2,3), of t] assms(2) t
    by (simp add: ksnprintf_def kvsnprintf_def)
qed

text \<open>C30. A format made of literal text and conversions, with the arguments the conversions call for,
  prints the pieces in order: numbers in decimal or hexadecimal without leading zeros, a negative
  number with a minus sign, strings up to their terminator, NULL as \<open>(null)\<close>.  A width in front of a
  conversion is read and has no effect: nothing is padded.\<close>

theorem kprintf_prints_pieces:
  assumes "\<forall>p \<in> set ps. piece_ok p"
  shows "kprintf (concat (map piece_format ps) @ 0 # rest) (concat (map piece_args ps)) c
    = Some (0, fold console_putchar (concat (map piece_text ps)) c)"
  by (simp add: kprintf_def kvprintf_def pieces_loop [OF assms])

theorem kprintf_prints_pieces_witness:
  "kprintf [120, 61, 37, 100, 0] [Arg32 7] blank_console = Some (0, fold console_putchar [120, 61, 55] blank_console)"
proof -
  have "piece_text (Decimal 7) = [55]"
    by (simp add: signed_dec_def dec_def rev_digits.simps digit_char_def)
  then show ?thesis
    using kprintf_prints_pieces [of "[Literal [120, 61], Decimal 7]" "[]" blank_console] by simp
qed

text \<open>A format that ends inside a conversion, after a width, is read past its terminator.\<close>

theorem kprintf_width_at_end:
  assumes "w \<noteq> []" "\<forall>d \<in> set w. is_digit d"
  shows "kprintf (37 # w @ [0]) args c = None"
proof -
  obtain d ds where w: "w = d # ds" using assms(1) by (cases w) auto
  have skip: "\<forall>d \<in> set w. is_digit d \<Longrightarrow> skip_digits (w @ [0]) = Some [0]" for w
    by (induction w) (auto simp: is_digit_def)
  have d: "d \<noteq> 45" "d \<noteq> 0" using assms(2) w by (auto simp: is_digit_def)
  have "parse_spec (w @ [0]) = Some (False, 0, [])"
    using skip [OF assms(2)] d by (simp add: w parse_spec_def skip_width_def at_format_def)
  then show ?thesis using w d by (simp add: kprintf_def kvprintf_def kvprintf_conv_def)
qed

theorem kprintf_width_at_end_witness: "kprintf [37, 53, 0] [] blank_console = None"
  using kprintf_width_at_end [of "[53]" "[]" blank_console] by (simp add: is_digit_def)

end
