(* ===== verification/Fs_Base.thy ===== *)
theory Fs_Base
  imports C_String Bump_Heap
begin

text \<open>
  \<^verbatim>\<open>kernel/fs/vfs.h\<close> and the path functions of \<^verbatim>\<open>kernel/fs/vfs.c\<close>: the data
  the filesystem layers share.

  A C string argument is its bytes before the terminator.  Inode pointers are the addresses the
  allocator returned, 0 being NULL; an inode and the \<open>ramfs_inode_data_t\<close> its \<open>fs_data\<close> points at
  are one record, since no other pointer to that data exists.  A \<open>file_t\<close> is only reached through
  its slot of the descriptor table, so the slot holds the structure itself.  Each block of the
  allocator is an object of its own; using a freed inode is undefined behaviour (\<open>None\<close>).
\<close>

section \<open>Constants\<close>

definition S_IFMT :: u16 where "S_IFMT = 0xF000"
definition S_IFREG :: u16 where "S_IFREG = 0x8000"
definition S_IFDIR :: u16 where "S_IFDIR = 0x4000"
definition S_IFLNK :: u16 where "S_IFLNK = 0xA000"

definition S_ISREG :: "u16 \<Rightarrow> bool" where "S_ISREG m \<longleftrightarrow> m AND S_IFMT = S_IFREG"
definition S_ISDIR :: "u16 \<Rightarrow> bool" where "S_ISDIR m \<longleftrightarrow> m AND S_IFMT = S_IFDIR"
definition S_ISLNK :: "u16 \<Rightarrow> bool" where "S_ISLNK m \<longleftrightarrow> m AND S_IFMT = S_IFLNK"

definition O_RDONLY :: u32 where "O_RDONLY = 0x0000"
definition O_WRONLY :: u32 where "O_WRONLY = 0x0001"
definition O_RDWR :: u32 where "O_RDWR = 0x0002"
definition O_CREAT :: u32 where "O_CREAT = 0x0040"
definition O_TRUNC :: u32 where "O_TRUNC = 0x0200"
definition O_APPEND :: u32 where "O_APPEND = 0x0400"
definition O_DIRECTORY :: u32 where "O_DIRECTORY = 0x10000"

definition SEEK_SET :: int where "SEEK_SET = 0"
definition SEEK_CUR :: int where "SEEK_CUR = 1"
definition SEEK_END :: int where "SEEK_END = 2"

definition PATH_MAX :: nat where "PATH_MAX = 1024"
definition NAME_MAX :: nat where "NAME_MAX = 255"
definition FD_MAX :: nat where "FD_MAX = 1024"

text \<open>The sizes of the structures on the 32-bit target.\<close>

definition sizeof_inode :: u32 where "sizeof_inode = 72"
definition sizeof_file :: u32 where "sizeof_file = 28"
definition sizeof_mountpoint :: u32 where "sizeof_mountpoint = 1044"
definition sizeof_dirent :: u32 where "sizeof_dirent = 268"
definition sizeof_ramfs_dirent :: u32 where "sizeof_ramfs_dirent = 264"
definition sizeof_ramfs_inode_data :: u32 where "sizeof_ramfs_inode_data = 20"

section \<open>Data\<close>

text \<open>The registered types: \<open>Procfs\<close> and \<open>Vibefs\<close> have a name and no operations.\<close>

datatype fs_type = Ramfs | Procfs | Vibefs

fun fs_name :: "fs_type \<Rightarrow> bytes" where
  "fs_name Ramfs = [114, 97, 109, 102, 115]"
| "fs_name Procfs = [112, 114, 111, 99, 102, 115]"
| "fs_name Vibefs = [118, 105, 98, 101, 102, 115]"

definition fs_has_ops :: "fs_type \<Rightarrow> bool" where
  "fs_has_ops t \<longleftrightarrow> t = Ramfs"

type_synonym dirents = "(bytes \<times> u32) list"

record inode =
  i_ino :: u32
  i_mode :: u16
  i_uid :: u32
  i_gid :: u32
  i_size :: u64
  i_nlinks :: u32
  i_block_size :: u32
  i_ref_count :: u32
  i_dirty :: bool
  i_fs :: fs_type
  i_data :: "bytes option"
  i_capacity :: u64
  i_entries :: dirents
  i_link_target :: "bytes option"

record file_t =
  f_inode :: u32
  f_pos :: u64
  f_flags :: u32
  f_ref_count :: u32
  f_ops :: bool

record mountpoint =
  m_path :: bytes
  m_root :: u32
  m_fs :: fs_type
  m_flags :: u32

text \<open>The global state: the allocator, the inodes, and the static variables of
  \<^verbatim>\<open>ramfs.c\<close> and \<^verbatim>\<open>vfs.c\<close>; \<open>fs_next\<close> is the \<open>next\<close> field of the types.\<close>

record fsys =
  fs_heap :: bump
  inodes :: "u32 \<Rightarrow> inode option"
  next_ino :: u32
  fs_list :: "fs_type option"
  fs_next :: "fs_type \<Rightarrow> fs_type option"
  mount_list :: "mountpoint list"
  fd_table :: "nat \<Rightarrow> file_t option"

definition fsys0 :: "bump \<Rightarrow> fsys" where
  "fsys0 h = \<lparr>fs_heap = h, inodes = (\<lambda>_. None), next_ino = 1, fs_list = None,
     fs_next = (\<lambda>_. None), mount_list = [], fd_table = (\<lambda>_. None)\<rparr>"

definition fs_kmalloc :: "u32 \<Rightarrow> fsys \<Rightarrow> u32 \<times> fsys" where
  "fs_kmalloc n s = (let (p, h) = bump_kmalloc n (fs_heap s) in (p, s\<lparr>fs_heap := h\<rparr>))"

definition put_inode :: "u32 \<Rightarrow> inode \<Rightarrow> fsys \<Rightarrow> fsys" where
  "put_inode p n s = s\<lparr>inodes := (inodes s)(p := Some n)\<rparr>"

definition free_inode :: "u32 \<Rightarrow> fsys \<Rightarrow> fsys" where
  "free_inode p s = s\<lparr>inodes := (inodes s)(p := None)\<rparr>"

section \<open>Paths\<close>

definition last_slash :: "bytes \<Rightarrow> nat option" where
  "last_slash path = (case strrchr (path @ [0]) 47 of Some r \<Rightarrow> r | None \<Rightarrow> None)"

text \<open>The result is \<open>out\<close>, or \<open>None\<close> where the code returns -1.\<close>

definition path_canonicalize :: "bytes \<Rightarrow> nat \<Rightarrow> bytes option" where
  "path_canonicalize path len = (if len = 0 then None else Some (take (len - 1) path))"

definition path_dirname :: "bytes \<Rightarrow> nat \<Rightarrow> bytes option" where
  "path_dirname path len =
     (if len < 2 then None
      else case last_slash path of
             None \<Rightarrow> Some [46]
           | Some i \<Rightarrow>
               if i = 0 then Some [47]
               else (let dlen = if i \<ge> len then len - 1 else i in Some (take dlen path)))"

definition path_basename :: "bytes \<Rightarrow> nat \<Rightarrow> bytes option" where
  "path_basename path len =
     (if len < 1 then None
      else (let base = (case last_slash path of Some i \<Rightarrow> drop (i + 1) path | None \<Rightarrow> path);
                blen = if length base \<ge> len then len - 1 else length base
            in Some (take blen base)))"

definition path_is_absolute :: "bytes \<Rightarrow> bool" where
  "path_is_absolute path \<longleftrightarrow> (case path of [] \<Rightarrow> False | c # _ \<Rightarrow> c = 47)"

end
