(* ===== verification/Ramfs.thy ===== *)
theory Ramfs
  imports Fs_Base
begin

text \<open>
  \<^verbatim>\<open>kernel/fs/ramfs.c\<close>: the in-memory filesystem.  Every operation takes and returns the
  global state; \<open>None\<close> is undefined behaviour (an inode that was freed, a copy outside a buffer).
\<close>

section \<open>Inodes and directories\<close>

definition ramfs_alloc_inode :: "fs_type \<Rightarrow> u16 \<Rightarrow> fsys \<Rightarrow> u32 \<times> fsys" where
  "ramfs_alloc_inode fs m s =
     (let (p, s) = fs_kmalloc sizeof_inode s
      in if p = 0 then (0, s)
         else (let (priv, s) = fs_kmalloc sizeof_ramfs_inode_data s
               in if priv = 0 then (0, s)
                  else (p, put_inode p
                          \<lparr>i_ino = next_ino s, i_mode = m, i_uid = 0, i_gid = 0, i_size = 0, i_nlinks = 1,
                           i_block_size = 4096, i_ref_count = 1, i_dirty = False, i_fs = fs, i_data = None,
                           i_capacity = 0, i_entries = [], i_link_target = None\<rparr>
                          (s\<lparr>next_ino := next_ino s + 1\<rparr>))))"

definition name_eq :: "bytes \<Rightarrow> bytes \<Rightarrow> bool" where
  "name_eq de name \<longleftrightarrow> strncmp (de @ [0]) (name @ [0]) NAME_MAX = Some 0"

fun find_entry :: "dirents \<Rightarrow> bytes \<Rightarrow> u32 option" where
  "find_entry [] name = None"
| "find_entry ((de, p) # des) name = (if name_eq de name then Some p else find_entry des name)"

definition ramfs_lookup :: "u32 \<Rightarrow> bytes \<Rightarrow> fsys \<Rightarrow> (u32 \<times> fsys) option" where
  "ramfs_lookup dir name s =
     do { d \<leftarrow> inodes s dir;
          case find_entry (i_entries d) name of
            None \<Rightarrow> Some (0, s)
          | Some p \<Rightarrow>
              do { n \<leftarrow> inodes s p;
                   Some (p, put_inode p (n\<lparr>i_ref_count := i_ref_count n + 1\<rparr>) s) } }"

definition ramfs_create :: "u32 \<Rightarrow> bytes \<Rightarrow> u16 \<Rightarrow> fsys \<Rightarrow> (int \<times> u32 \<times> fsys) option" where
  "ramfs_create dir name m s =
     do { d \<leftarrow> inodes s dir;
          let (node, s) = ramfs_alloc_inode (i_fs d) m s;
          if node = 0 then Some (-1, 0, s)
          else do {
            let (de, s) = fs_kmalloc sizeof_ramfs_dirent s;
            if de = 0 then Some (-1, 0, free_inode node s)
            else do {
              d \<leftarrow> inodes s dir;
              Some (0, node, put_inode dir (d\<lparr>i_entries := (take NAME_MAX name, node) # i_entries d,
                                              i_nlinks := i_nlinks d + 1\<rparr>) s) } } }"

definition ramfs_mkdir :: "u32 \<Rightarrow> bytes \<Rightarrow> u16 \<Rightarrow> fsys \<Rightarrow> (int \<times> fsys) option" where
  "ramfs_mkdir dir name m s =
     map_option (\<lambda>(r, _, s). (r, s)) (ramfs_create dir name (S_IFDIR OR (m AND 0x1FF)) s)"

fun remove_entry :: "dirents \<Rightarrow> bytes \<Rightarrow> (u32 \<times> dirents) option" where
  "remove_entry [] name = None"
| "remove_entry ((de, p) # des) name =
     (if name_eq de name then Some (p, des)
      else map_option (\<lambda>(v, r). (v, (de, p) # r)) (remove_entry des name))"

definition ramfs_unlink :: "u32 \<Rightarrow> bytes \<Rightarrow> fsys \<Rightarrow> (int \<times> fsys) option" where
  "ramfs_unlink dir name s =
     do { d \<leftarrow> inodes s dir;
          case remove_entry (i_entries d) name of
            None \<Rightarrow> Some (-1, s)
          | Some (victim, rest) \<Rightarrow>
              do { let s = put_inode dir (d\<lparr>i_entries := rest\<rparr>) s;
                   v \<leftarrow> inodes s victim;
                   let v = v\<lparr>i_nlinks := i_nlinks v - 1\<rparr>;
                   let s = (if i_nlinks v = 0 \<and> i_ref_count v \<le> 1 then free_inode victim s
                            else put_inode victim v s);
                   d \<leftarrow> inodes s dir;
                   Some (0, put_inode dir (d\<lparr>i_nlinks := i_nlinks d - 1\<rparr>) s) } }"

definition ramfs_rmdir :: "u32 \<Rightarrow> bytes \<Rightarrow> fsys \<Rightarrow> (int \<times> fsys) option" where
  "ramfs_rmdir dir name s = ramfs_unlink dir name s"

fun rename_entry :: "dirents \<Rightarrow> bytes \<Rightarrow> bytes \<Rightarrow> dirents option" where
  "rename_entry [] old new = None"
| "rename_entry ((de, p) # des) old new =
     (if name_eq de old then Some ((take NAME_MAX new, p) # des)
      else map_option (Cons (de, p)) (rename_entry des old new))"

definition ramfs_rename :: "u32 \<Rightarrow> bytes \<Rightarrow> u32 \<Rightarrow> bytes \<Rightarrow> fsys \<Rightarrow> (int \<times> fsys) option" where
  "ramfs_rename old_dir old_name new_dir new_name s =
     do { d \<leftarrow> inodes s old_dir;
          case rename_entry (i_entries d) old_name new_name of
            None \<Rightarrow> Some (-1, s)
          | Some es \<Rightarrow> Some (0, put_inode old_dir (d\<lparr>i_entries := es\<rparr>) s) }"

definition ramfs_symlink :: "u32 \<Rightarrow> bytes \<Rightarrow> bytes \<Rightarrow> fsys \<Rightarrow> (int \<times> fsys) option" where
  "ramfs_symlink dir name target s =
     do { (r, node, s) \<leftarrow> ramfs_create dir name (S_IFLNK OR 0x1FF) s;
          if r \<noteq> 0 then Some (-1, s)
          else do {
            let (p, s) = fs_kmalloc (of_nat (length target + 1)) s;
            n \<leftarrow> inodes s node;
            if p = 0 then Some (-1, s)
            else Some (0, put_inode node (n\<lparr>i_link_target := Some target,
                                            i_size := of_nat (length target)\<rparr>) s) } }"

text \<open>\<open>buf\<close> is the destination object; \<open>strncpy\<close> and the terminator must stay inside it.\<close>

definition ramfs_readlink :: "u32 \<Rightarrow> bytes \<Rightarrow> nat \<Rightarrow> fsys \<Rightarrow> (int \<times> bytes) option" where
  "ramfs_readlink node buf len s =
     do { n \<leftarrow> inodes s node;
          case i_link_target n of
            None \<Rightarrow> Some (-1, buf)
          | Some t \<Rightarrow>
              do { buf \<leftarrow> strncpy buf (t @ [0]) len;
                   if len = 0 \<or> len > length buf then None
                   else do { let buf = buf[len - 1 := 0];
                             k \<leftarrow> strlen buf;
                             Some (int k, buf) } } }"

definition ramfs_chmod :: "u32 \<Rightarrow> u16 \<Rightarrow> fsys \<Rightarrow> (int \<times> fsys) option" where
  "ramfs_chmod node m s =
     do { n \<leftarrow> inodes s node;
          Some (0, put_inode node (n\<lparr>i_mode := (i_mode n AND S_IFMT) OR (m AND 0x1FF)\<rparr>) s) }"

definition ramfs_chown :: "u32 \<Rightarrow> u32 \<Rightarrow> u32 \<Rightarrow> fsys \<Rightarrow> (int \<times> fsys) option" where
  "ramfs_chown node uid gid s =
     do { n \<leftarrow> inodes s node; Some (0, put_inode node (n\<lparr>i_uid := uid, i_gid := gid\<rparr>) s) }"

text \<open>The size of a request to the allocator is cut to 32 bits.\<close>

definition new_buffer :: "u64 \<Rightarrow> bytes" where
  "new_buffer sz = replicate (unat (ucast sz :: u32)) 0"

definition ramfs_truncate :: "u32 \<Rightarrow> u64 \<Rightarrow> fsys \<Rightarrow> (int \<times> fsys) option" where
  "ramfs_truncate node sz s =
     do { n \<leftarrow> inodes s node;
          if sz = 0 then Some (0, put_inode node (n\<lparr>i_data := None, i_capacity := 0, i_size := 0\<rparr>) s)
          else do {
            let (p, s) = fs_kmalloc (ucast sz) s;
            if p = 0 then Some (-1, s)
            else do {
              nb \<leftarrow> (case i_data n of
                        None \<Rightarrow> Some (new_buffer sz)
                      | Some d \<Rightarrow>
                          do { let copy = (ucast (if i_size n < sz then i_size n else sz) :: u32);
                               xs \<leftarrow> get_bytes d 0 (unat copy);
                               put_bytes (new_buffer sz) 0 xs });
              Some (0, put_inode node (n\<lparr>i_data := Some nb, i_capacity := sz, i_size := sz\<rparr>) s) } } }"

definition ramfs_destroy :: "u32 \<Rightarrow> fsys \<Rightarrow> fsys option" where
  "ramfs_destroy node s = do { _ \<leftarrow> inodes s node; Some (free_inode node s) }"

section \<open>Open files\<close>

text \<open>The result is the number of bytes, the bytes stored into \<open>buf\<close> and the file.\<close>

definition ramfs_file_read :: "file_t \<Rightarrow> u32 \<Rightarrow> fsys \<Rightarrow> (u32 \<times> bytes \<times> file_t) option" where
  "ramfs_file_read f count s =
     do { n \<leftarrow> inodes s (f_inode f);
          case i_data n of
            None \<Rightarrow> Some (0, [], f)
          | Some d \<Rightarrow>
              if f_pos f \<ge> i_size n then Some (0, [], f)
              else do {
                let avail = (ucast (i_size n - f_pos f) :: u32);
                let k = (if count < avail then count else avail);
                xs \<leftarrow> get_bytes d (unat (f_pos f)) (unat k);
                Some (k, xs, f\<lparr>f_pos := f_pos f + ucast k\<rparr>) } }"

definition grow_data :: "u64 \<Rightarrow> u32 \<Rightarrow> fsys \<Rightarrow> (bool \<times> fsys) option" where
  "grow_data new_end node s =
     do { n \<leftarrow> inodes s node;
          if new_end > i_capacity n then do {
            let new_cap = (if new_end < 4096 then 4096 else new_end * 2);
            let (p, s) = fs_kmalloc (ucast new_cap) s;
            if p = 0 then Some (False, s)
            else do {
              nb \<leftarrow> (case i_data n of
                        None \<Rightarrow> Some (new_buffer new_cap)
                      | Some d \<Rightarrow>
                          do { xs \<leftarrow> get_bytes d 0 (unat (ucast (i_capacity n) :: u32));
                               put_bytes (new_buffer new_cap) 0 xs });
              Some (True, put_inode node (n\<lparr>i_data := Some nb, i_capacity := new_cap\<rparr>) s) } }
          else Some (True, s) }"

definition ramfs_file_write :: "file_t \<Rightarrow> bytes \<Rightarrow> fsys \<Rightarrow> (u32 \<times> file_t \<times> fsys) option" where
  "ramfs_file_write f xs s =
     do { let new_end = f_pos f + of_nat (length xs);
          (room, s) \<leftarrow> grow_data new_end (f_inode f) s;
          if \<not> room then Some (-1, f, s)
          else do {
            n \<leftarrow> inodes s (f_inode f);
            d \<leftarrow> (case i_data n of
                     None \<Rightarrow> if xs = [] then Some None else None
                   | Some d \<Rightarrow> if xs = [] then Some (Some d)
                                else map_option Some (put_bytes d (unat (f_pos f)) xs));
            let f = f\<lparr>f_pos := f_pos f + of_nat (length xs)\<rparr>;
            Some (of_nat (length xs), f,
                  put_inode (f_inode f)
                    (n\<lparr>i_data := d, i_size := (if f_pos f > i_size n then f_pos f else i_size n),
                       i_dirty := True\<rparr>) s) } }"

text \<open>\<open>d_name\<close> and \<open>d_ino\<close> of the entries stored into the buffer.\<close>

definition entry_dirent :: "fsys \<Rightarrow> bytes \<times> u32 \<Rightarrow> (bytes \<times> u32) option" where
  "entry_dirent s de = map_option (\<lambda>n. (fst de, i_ino n)) (inodes s (snd de))"

fun those_list :: "'a option list \<Rightarrow> 'a list option" where
  "those_list [] = Some []"
| "those_list (x # xs) = do { y \<leftarrow> x; ys \<leftarrow> those_list xs; Some (y # ys) }"

definition ramfs_file_readdir :: "file_t \<Rightarrow> u32 \<Rightarrow> fsys \<Rightarrow> ((bytes \<times> u32) list \<times> file_t) option" where
  "ramfs_file_readdir f buf_size s =
     do { n \<leftarrow> inodes s (f_inode f);
          let count = unat (buf_size div sizeof_dirent);
          let des = take count (drop (unat (f_pos f)) (i_entries n));
          ds \<leftarrow> those_list (map (entry_dirent s) des);
          Some (ds, f\<lparr>f_pos := f_pos f + of_nat (length ds)\<rparr>) }"

definition ramfs_file_open :: "file_t \<Rightarrow> u32 \<Rightarrow> u32 \<Rightarrow> int \<times> file_t" where
  "ramfs_file_open f node flags = (0, f\<lparr>f_inode := node, f_pos := 0\<rparr>)"

section \<open>Path lookup\<close>

fun skip_slashes :: "bytes \<Rightarrow> bytes" where
  "skip_slashes [] = []"
| "skip_slashes (c # p) = (if c = 47 then skip_slashes p else c # p)"

text \<open>At most \<open>room\<close> characters of a component, and the path behind them.\<close>

fun take_component :: "nat \<Rightarrow> bytes \<Rightarrow> bytes \<times> bytes" where
  "take_component room [] = ([], [])"
| "take_component room (c # p) =
     (if c \<noteq> 47 \<and> 0 < room
      then (let (name, q) = take_component (room - 1) p in (c # name, q)) else ([], c # p))"

lemma skip_slashes_length: "length (skip_slashes p) \<le> length p"
  by (induction p rule: skip_slashes.induct) auto

lemma take_component_length: "length (snd (take_component room p)) \<le> length p"
  by (induction room p rule: take_component.induct) (auto simp: split_beta)

lemma skip_slashes_hd: "skip_slashes p = c # q \<Longrightarrow> c \<noteq> 47"
  by (induction p rule: skip_slashes.induct) (auto split: if_splits)

lemma component_shorter:
  assumes "skip_slashes p \<noteq> []" "take_component NAME_MAX (skip_slashes p) = (name, rest)"
  shows "length rest < length p"
proof -
  obtain c q where q: "skip_slashes p = c # q" using assms(1) by (cases "skip_slashes p") auto
  then have "c \<noteq> 47" by (rule skip_slashes_hd)
  then have "rest = snd (take_component 254 q)" using assms(2) q by (simp add: NAME_MAX_def split_beta)
  then have "length rest \<le> length q" by (simp add: take_component_length)
  then show ?thesis using skip_slashes_length [of p] q by simp
qed

function walk_path :: "bytes \<Rightarrow> u32 \<Rightarrow> fsys \<Rightarrow> (u32 \<times> fsys) option" where
  "walk_path p cur s =
     (if skip_slashes p = [] then Some (cur, s)
      else (let (name, rest) = take_component NAME_MAX (skip_slashes p)
            in if name = [46] \<or> name = [46, 46] then walk_path rest cur s
               else (case inodes s cur of
                       None \<Rightarrow> None
                     | Some c \<Rightarrow>
                         if \<not> S_ISDIR (i_mode c) then Some (0, s)
                         else (case ramfs_lookup cur name s of
                                 None \<Rightarrow> None
                               | Some (nxt, s') \<Rightarrow>
                                   if nxt = 0 then Some (0, s') else walk_path rest nxt s'))))"
  by pat_completeness auto
termination
  by (relation "measure (\<lambda>(p, _). length p)") (auto intro!: component_shorter [OF _ sym])

declare walk_path.simps [simp del]

definition ramfs_get_inode_by_path :: "u32 \<Rightarrow> bytes \<Rightarrow> fsys \<Rightarrow> (u32 \<times> fsys) option" where
  "ramfs_get_inode_by_path root path s =
     (if path = [] \<or> path = [47] then Some (root, s) else walk_path path root s)"

section \<open>Operations on a mount\<close>

text \<open>The directory and the last component of a path, as \<open>open\<close>, \<open>mkdir\<close> and \<open>unlink\<close> find them;
  the directory is 0 where they give up.\<close>

definition is_directory :: "u32 \<Rightarrow> fsys \<Rightarrow> bool option" where
  "is_directory p s = (if p = 0 then Some False else map_option (\<lambda>n. S_ISDIR (i_mode n)) (inodes s p))"

definition ramfs_parent :: "u32 \<Rightarrow> bytes \<Rightarrow> fsys \<Rightarrow> (u32 \<times> bytes \<times> fsys) option" where
  "ramfs_parent root path s =
     do { dname \<leftarrow> path_dirname path PATH_MAX;
          bname \<leftarrow> path_basename path PATH_MAX;
          (dir, s) \<leftarrow> ramfs_get_inode_by_path root dname s;
          is_dir \<leftarrow> is_directory dir s;
          Some (if is_dir then dir else 0, bname, s) }"

definition ramfs_open_node :: "u32 \<Rightarrow> bytes \<Rightarrow> u32 \<Rightarrow> u16 \<Rightarrow> fsys \<Rightarrow> (u32 \<times> fsys) option" where
  "ramfs_open_node root path flags m s =
     do { (node, s) \<leftarrow> ramfs_get_inode_by_path root path s;
          if node = 0 \<and> flags AND O_CREAT \<noteq> 0
          then do {
            (dir, bname, s) \<leftarrow> ramfs_parent root path s;
            if dir = 0 then Some (0, s)
            else do {
              (r, node, s) \<leftarrow> ramfs_create dir bname (S_IFREG OR (m AND 0x1FF)) s;
              Some (if r \<noteq> 0 then 0 else node, s) } }
          else Some (node, s) }"

definition ramfs_fs_open :: "u32 \<Rightarrow> bytes \<Rightarrow> u32 \<Rightarrow> u16 \<Rightarrow> file_t \<Rightarrow> fsys \<Rightarrow> (int \<times> file_t \<times> fsys) option" where
  "ramfs_fs_open root path flags m f s =
     do { (node, s) \<leftarrow> ramfs_open_node root path flags m s;
          if node = 0 then Some (-1, f, s)
          else do {
            let f = f\<lparr>f_inode := node, f_ops := True, f_pos := 0\<rparr>;
            s \<leftarrow> (if flags AND O_TRUNC \<noteq> 0 then map_option snd (ramfs_truncate node 0 s) else Some s);
            n \<leftarrow> inodes s node;
            Some (0, if flags AND O_APPEND \<noteq> 0 then f\<lparr>f_pos := i_size n\<rparr> else f, s) } }"

definition ramfs_fs_mkdir :: "u32 \<Rightarrow> bytes \<Rightarrow> u16 \<Rightarrow> fsys \<Rightarrow> (int \<times> fsys) option" where
  "ramfs_fs_mkdir root path m s =
     do { (dir, bname, s) \<leftarrow> ramfs_parent root path s;
          if dir = 0 then Some (-1, s) else ramfs_mkdir dir bname m s }"

definition ramfs_fs_unlink :: "u32 \<Rightarrow> bytes \<Rightarrow> fsys \<Rightarrow> (int \<times> fsys) option" where
  "ramfs_fs_unlink root path s =
     do { (dir, bname, s) \<leftarrow> ramfs_parent root path s;
          if dir = 0 then Some (-1, s) else ramfs_unlink dir bname s }"

definition ramfs_mount :: "fs_type \<Rightarrow> fsys \<Rightarrow> u32 \<times> fsys" where
  "ramfs_mount t s = ramfs_alloc_inode t (S_IFDIR OR 0x1ED) s"

end
