(* ===== verification/Vfs.thy ===== *)
theory Vfs
  imports Ramfs
begin

text \<open>
  \<^verbatim>\<open>kernel/fs/vfs.c\<close>: registered filesystems, mount points and the descriptor table.
  The operation tables of a filesystem are the functions of \<^theory_text>\<open>Ramfs\<close> or NULL; calling a NULL
  pointer is undefined behaviour.  Log messages are not modelled here.
\<close>

section \<open>Filesystem types\<close>

definition vfs_register_fs :: "fs_type \<Rightarrow> fsys \<Rightarrow> int \<times> fsys" where
  "vfs_register_fs t s = (0, s\<lparr>fs_next := (fs_next s)(t := fs_list s), fs_list := Some t\<rparr>)"

text \<open>A type registered twice makes the list circular.\<close>

partial_function (option) find_fs :: "(fs_type \<Rightarrow> fs_type option) \<Rightarrow> fs_type option \<Rightarrow> bytes \<Rightarrow> fs_type option option" where
  "find_fs nxt f fstype =
     (case f of
        None \<Rightarrow> Some None
      | Some t \<Rightarrow>
          if strcmp (fs_name t @ [0]) (fstype @ [0]) = Some 0 then Some (Some t)
          else find_fs nxt (nxt t) fstype)"

declare find_fs.simps [code]

section \<open>Mount points\<close>

text \<open>The loop of \<open>find_mount\<close>, with the best match and its length so far.\<close>

definition mount_matches :: "bytes \<Rightarrow> mountpoint \<Rightarrow> bool" where
  "mount_matches path m \<longleftrightarrow> strncmp (path @ [0]) (m_path m @ [0]) (length (m_path m)) = Some 0"

definition better_mount :: "bytes \<Rightarrow> mountpoint \<Rightarrow> mountpoint option \<times> nat \<Rightarrow> mountpoint option \<times> nat" where
  "better_mount path m best =
     (if mount_matches path m \<and> length (m_path m) > snd best then (Some m, length (m_path m)) else best)"

definition find_mount :: "bytes \<Rightarrow> fsys \<Rightarrow> (mountpoint \<times> bytes) option" where
  "find_mount path s =
     (case fold (better_mount path) (mount_list s) (None, 0) of
        (None, _) \<Rightarrow> None
      | (Some m, n) \<Rightarrow> Some (m, skip_slashes (drop n path)))"

definition vfs_mount :: "bytes \<Rightarrow> bytes \<Rightarrow> u32 \<Rightarrow> fsys \<Rightarrow> (int \<times> fsys) option" where
  "vfs_mount target fstype flags s =
     do { fs \<leftarrow> find_fs (fs_next s) (fs_list s) fstype;
          case fs of
            None \<Rightarrow> Some (-1, s)
          | Some t \<Rightarrow>
              if \<not> fs_has_ops t then None
              else do {
                let (root, s) = ramfs_mount t s;
                if root = 0 then Some (-1, s)
                else do {
                  let (mnt, s) = fs_kmalloc sizeof_mountpoint s;
                  if mnt = 0 then Some (-1, s)
                  else Some (0, s\<lparr>mount_list :=
                    \<lparr>m_path = take (PATH_MAX - 1) target, m_root = root, m_fs = t, m_flags = flags\<rparr>
                    # mount_list s\<rparr>) } } }"

definition vfs_umount :: "bytes \<Rightarrow> int" where
  "vfs_umount target = -1"

section \<open>Open files\<close>

primrec find_free_fd :: "nat \<Rightarrow> nat \<Rightarrow> (nat \<Rightarrow> file_t option) \<Rightarrow> nat option" where
  "find_free_fd 0 i tab = None"
| "find_free_fd (Suc k) i tab = (if tab i = None then Some i else find_free_fd k (i + 1) tab)"

definition set_fd :: "nat \<Rightarrow> file_t option \<Rightarrow> fsys \<Rightarrow> fsys" where
  "set_fd fd f s = s\<lparr>fd_table := (fd_table s)(fd := f)\<rparr>"

definition vfs_open :: "bytes \<Rightarrow> u32 \<Rightarrow> u16 \<Rightarrow> fsys \<Rightarrow> (int \<times> fsys) option" where
  "vfs_open path flags m s =
     (case find_mount path s of
        None \<Rightarrow> Some (-1, s)
      | Some (mnt, rest) \<Rightarrow>
          if \<not> fs_has_ops (m_fs mnt) then Some (-1, s)
          else do {
            let (p, s) = fs_kmalloc sizeof_file s;
            if p = 0 then Some (-1, s)
            else do {
              let f = \<lparr>f_inode = 0, f_pos = 0, f_flags = flags, f_ref_count = 1, f_ops = False\<rparr>;
              case find_free_fd FD_MAX 0 (fd_table s) of
                None \<Rightarrow> Some (-1, s)
              | Some fd \<Rightarrow>
                  do { (r, f, s) \<leftarrow> ramfs_fs_open (m_root mnt) rest flags m f (set_fd fd (Some f) s);
                       if r < 0 then Some (-1, set_fd fd None s)
                       else Some (int fd, set_fd fd (Some f) s) } } })"

text \<open>The file behind a descriptor.\<close>

definition fd_file :: "int \<Rightarrow> fsys \<Rightarrow> file_t option" where
  "fd_file fd s = (if fd < 0 \<or> fd \<ge> int FD_MAX then None else fd_table s (nat fd))"

definition vfs_close :: "int \<Rightarrow> fsys \<Rightarrow> int \<times> fsys" where
  "vfs_close fd s = (case fd_file fd s of None \<Rightarrow> (-1, s) | Some f \<Rightarrow> (0, set_fd (nat fd) None s))"

definition vfs_read :: "int \<Rightarrow> u32 \<Rightarrow> fsys \<Rightarrow> (u32 \<times> bytes \<times> fsys) option" where
  "vfs_read fd len s =
     (case fd_file fd s of
        None \<Rightarrow> Some (-1, [], s)
      | Some f \<Rightarrow>
          if \<not> f_ops f then Some (-1, [], s)
          else map_option (\<lambda>(r, xs, f). (r, xs, set_fd (nat fd) (Some f) s)) (ramfs_file_read f len s))"

definition vfs_write :: "int \<Rightarrow> bytes \<Rightarrow> fsys \<Rightarrow> (u32 \<times> fsys) option" where
  "vfs_write fd xs s =
     (case fd_file fd s of
        None \<Rightarrow> Some (-1, s)
      | Some f \<Rightarrow>
          if \<not> f_ops f then Some (-1, s)
          else map_option (\<lambda>(r, f, s). (r, set_fd (nat fd) (Some f) s)) (ramfs_file_write f xs s))"

definition vfs_seek :: "int \<Rightarrow> u64 \<Rightarrow> int \<Rightarrow> fsys \<Rightarrow> u64 \<times> fsys" where
  "vfs_seek fd offset whence s =
     (case fd_file fd s of
        None \<Rightarrow> (-1, s)
      | Some f \<Rightarrow>
          if whence = SEEK_SET then (offset, set_fd (nat fd) (Some (f\<lparr>f_pos := offset\<rparr>)) s)
          else if whence = SEEK_CUR
          then (f_pos f + offset, set_fd (nat fd) (Some (f\<lparr>f_pos := f_pos f + offset\<rparr>)) s)
          else if whence = SEEK_END then (f_pos f, s)
          else (-1, s))"

section \<open>Directories\<close>

definition vfs_readdir :: "int \<Rightarrow> u32 \<Rightarrow> fsys \<Rightarrow> (int \<times> (bytes \<times> u32) list \<times> fsys) option" where
  "vfs_readdir fd len s =
     (case fd_file fd s of
        None \<Rightarrow> Some (-1, [], s)
      | Some f \<Rightarrow>
          if f_flags f AND O_DIRECTORY = 0 \<or> \<not> f_ops f then Some (-1, [], s)
          else map_option (\<lambda>(ds, f). (int (length ds), ds, set_fd (nat fd) (Some f) s))
                 (ramfs_file_readdir f len s))"

definition vfs_mkdir :: "bytes \<Rightarrow> u16 \<Rightarrow> fsys \<Rightarrow> (int \<times> fsys) option" where
  "vfs_mkdir path m s =
     (case find_mount path s of
        None \<Rightarrow> Some (-1, s)
      | Some (mnt, rest) \<Rightarrow>
          if \<not> fs_has_ops (m_fs mnt) then Some (-1, s) else ramfs_fs_mkdir (m_root mnt) rest m s)"

definition vfs_unlink :: "bytes \<Rightarrow> fsys \<Rightarrow> (int \<times> fsys) option" where
  "vfs_unlink path s =
     (case find_mount path s of
        None \<Rightarrow> Some (-1, s)
      | Some (mnt, rest) \<Rightarrow>
          if \<not> fs_has_ops (m_fs mnt) then Some (-1, s) else ramfs_fs_unlink (m_root mnt) rest s)"

definition vfs_init :: "fsys \<Rightarrow> fsys" where
  "vfs_init s = s\<lparr>fd_table := (\<lambda>_. None)\<rparr>"

text \<open>The operations that are stubs in the code.\<close>

definition vfs_rmdir :: "bytes \<Rightarrow> int" where "vfs_rmdir path = -1"
definition vfs_rename :: "bytes \<Rightarrow> bytes \<Rightarrow> int" where "vfs_rename old newpath = -1"
definition vfs_symlink :: "bytes \<Rightarrow> bytes \<Rightarrow> int" where "vfs_symlink target linkpath = -1"
definition vfs_chmod :: "bytes \<Rightarrow> u16 \<Rightarrow> int" where "vfs_chmod path m = -1"
definition vfs_chown :: "bytes \<Rightarrow> u32 \<Rightarrow> u32 \<Rightarrow> int" where "vfs_chown path uid gid = -1"
definition vfs_fsync :: "int \<Rightarrow> int" where "vfs_fsync fd = -1"
definition vfs_ftruncate :: "int \<Rightarrow> u64 \<Rightarrow> int" where "vfs_ftruncate fd sz = -1"
definition vfs_readlink :: "bytes \<Rightarrow> bytes \<Rightarrow> int \<times> bytes" where "vfs_readlink path buf = (-1, buf)"
definition vfs_stat :: "bytes \<Rightarrow> 'a \<Rightarrow> int \<times> 'a" where "vfs_stat path st = (-1, st)"
definition vfs_fstat :: "int \<Rightarrow> 'a \<Rightarrow> int \<times> 'a" where "vfs_fstat fd st = (-1, st)"
definition vfs_ioctl :: "int \<Rightarrow> u32 \<Rightarrow> 'a \<Rightarrow> int" where "vfs_ioctl fd cmd a = -1"
definition vfs_mmap :: "int \<Rightarrow> u32 \<Rightarrow> u32 \<Rightarrow> u32 \<Rightarrow> int" where "vfs_mmap fd virt len flags = -1"

text \<open>The types the other files hand out, and their stubs.\<close>

definition ramfs_get_type :: fs_type where "ramfs_get_type = Ramfs"
definition procfs_get_type :: fs_type where "procfs_get_type = Procfs"
definition vibefs_get_type :: fs_type where "vibefs_get_type = Vibefs"
definition procfs_register :: "bytes \<Rightarrow> 'f \<Rightarrow> fsys \<Rightarrow> fsys" where "procfs_register name read_fn s = s"
definition vibefs_mkfs :: "'d \<Rightarrow> u32 \<Rightarrow> bytes \<Rightarrow> int" where "vibefs_mkfs block_dev sz label = -1"

end
