(* ===== verification/Ramfs_Spec.thy ===== *)
theory Ramfs_Spec
  imports Ramfs
begin

text \<open>
  A ramfs file is a byte sequence: the interface of a random-access file as a locale, the ramfs
  inode as an instance of it, and what the directory operations do to the names.
\<close>

section \<open>Files as byte sequences\<close>

text \<open>Writing \<open>xs\<close> at position \<open>p\<close>; a gap behind the end is filled with zeros.\<close>

definition write_at :: "bytes \<Rightarrow> nat \<Rightarrow> bytes \<Rightarrow> bytes" where
  "write_at c p xs = take p c @ replicate (p - length c) 0 @ xs @ drop (p + length xs) c"

lemma write_at_length: "length (write_at c p xs) = max (length c) (p + length xs)"
  by (simp add: write_at_def)

lemma write_at_read: "take (length xs) (drop p (write_at c p xs)) = xs"
  by (simp add: write_at_def)

lemma write_at_append: "write_at (write_at c p xs) (p + length xs) ys = write_at c p (xs @ ys)"
  by (cases "p \<le> length c"; cases "p + length xs \<le> length c")
    (simp_all add: write_at_def add.assoc add.commute add.left_commute)

lemma write_at_end [simp]: "write_at c (length c) xs = c @ xs"
  by (simp add: write_at_def)

locale byte_file =
  fixes wr :: "nat \<Rightarrow> bytes \<Rightarrow> 's \<Rightarrow> 's option"
    and rd :: "nat \<Rightarrow> nat \<Rightarrow> 's \<Rightarrow> bytes"
    and contents :: "'s \<Rightarrow> bytes"
    and ok :: "'s \<Rightarrow> bool"
    and limit :: nat
  assumes write_contents: "ok s \<Longrightarrow> p + length xs < limit \<Longrightarrow> wr p xs s = Some s' \<Longrightarrow>
      ok s' \<and> contents s' = write_at (contents s) p xs"
    and read_contents: "ok s \<Longrightarrow> p < limit \<Longrightarrow> n < limit \<Longrightarrow> rd p n s = take n (drop p (contents s))"
begin

lemma read_after_write:
  assumes "ok s" "p + length xs < limit" "wr p xs s = Some s'"
  shows "rd p (length xs) s' = xs"
  using write_contents [OF assms] read_contents [of s' p "length xs"] assms(2) write_at_read by simp

text \<open>A sequence of writes, each behind the one before.\<close>

fun writes :: "nat \<Rightarrow> bytes list \<Rightarrow> 's \<Rightarrow> 's option" where
  "writes p [] s = Some s"
| "writes p (xs # xss) s = do { s \<leftarrow> wr p xs s; writes (p + length xs) xss s }"

lemma writes_contents:
  "ok s \<Longrightarrow> p \<le> length (contents s) \<Longrightarrow> p + length (concat xss) < limit \<Longrightarrow> writes p xss s = Some s' \<Longrightarrow>
   ok s' \<and> contents s' = write_at (contents s) p (concat xss)"
proof (induction xss arbitrary: p s)
  case Nil
  then show ?case by (simp add: write_at_def)
next
  case (Cons xs xss)
  from Cons.prems(4) obtain s1 where s1: "wr p xs s = Some s1" "writes (p + length xs) xss s1 = Some s'"
    by (auto simp: bind_eq_Some_conv)
  have "ok s1 \<and> contents s1 = write_at (contents s) p xs"
    using write_contents [OF Cons.prems(1) _ s1(1)] Cons.prems(3) by simp
  then show ?case
    using Cons.IH [of s1 "p + length xs"] Cons.prems(3) s1(2)
    by (simp add: write_at_append write_at_length)
qed

end

section \<open>The inode as a byte sequence\<close>

text \<open>The bytes of the buffer behind the end of the file are zero.\<close>

definition inode_ok :: "inode \<Rightarrow> bool" where
  "inode_ok n \<longleftrightarrow>
     (case i_data n of
        None \<Rightarrow> i_size n = 0 \<and> i_capacity n = 0
      | Some d \<Rightarrow> length d = unat (i_capacity n) \<and> unat (i_capacity n) < 4294967296
          \<and> i_size n \<le> i_capacity n
          \<and> drop (unat (i_size n)) d = replicate (length d - unat (i_size n)) 0)"

definition i_contents :: "inode \<Rightarrow> bytes" where
  "i_contents n = (case i_data n of None \<Rightarrow> [] | Some d \<Rightarrow> take (unat (i_size n)) d)"

lemma i_contents_length: "inode_ok n \<Longrightarrow> length (i_contents n) = unat (i_size n)"
  by (auto simp: inode_ok_def i_contents_def word_le_nat_alt split: option.splits)

definition i_image :: "inode \<Rightarrow> nat \<Rightarrow> bytes" where
  "i_image n k = i_contents n @ replicate (k - unat (i_size n)) 0"

lemma inode_ok_image:
  "inode_ok n \<longleftrightarrow> unat (i_size n) \<le> unat (i_capacity n) \<and>
     (case i_data n of None \<Rightarrow> i_capacity n = 0
      | Some d \<Rightarrow> unat (i_capacity n) < 4294967296 \<and> length d = unat (i_capacity n)
          \<and> d = i_image n (unat (i_capacity n)))"
proof (cases "i_data n")
  case (Some d)
  have "d = take (unat (i_size n)) d @ drop (unat (i_size n)) d" by simp
  then have "d = i_image n (length d) \<longleftrightarrow> drop (unat (i_size n)) d = replicate (length d - unat (i_size n)) 0"
    using Some by (metis append_eq_append_conv i_contents_def i_image_def option.simps(5))
  then show ?thesis using Some by (auto simp: inode_ok_def word_le_nat_alt)
qed (auto simp: inode_ok_def unat_eq_0 [symmetric])

lemma inode_ok_SomeD:
  assumes "inode_ok n" "i_data n = Some d"
  shows "length d = unat (i_capacity n)" "d = i_image n (unat (i_capacity n))"
    "unat (i_capacity n) < 4294967296" "unat (i_size n) \<le> unat (i_capacity n)"
  using assms(1) [unfolded inode_ok_image assms(2) option.case] by blast+

lemma put_image:
  assumes "length c \<le> cap" "p + length xs \<le> cap"
  shows "put_bytes (c @ replicate (cap - length c) 0) p xs
    = Some (write_at c p xs @ replicate (cap - max (length c) (p + length xs)) 0)"
proof -
  have "put_bytes (c @ replicate (cap - length c) 0) p xs = Some (take p (c @ replicate (cap - length c) 0)
      @ xs @ drop (p + length xs) (c @ replicate (cap - length c) 0))"
    using assms by (simp add: put_bytes_def)
  also have "take p (c @ replicate (cap - length c) 0) = take p c @ replicate (p - length c) 0"
    using assms by simp
  also have "drop (p + length xs) (c @ replicate (cap - length c) 0)
      = drop (p + length xs) c @ replicate (cap - max (length c) (p + length xs)) 0"
    using assms by (auto simp: max_def)
  finally show ?thesis by (simp add: write_at_def)
qed

lemma fs_kmalloc_frame [simp]:
  "fs_kmalloc k s = (p, s') \<Longrightarrow> inodes s' = inodes s \<and> fd_table s' = fd_table s \<and> mount_list s' = mount_list s"
  by (auto simp: fs_kmalloc_def Let_def split: prod.splits)

lemma unat_ucast_u32: "unat (v::u64) < 4294967296 \<Longrightarrow> unat (ucast v :: u32) = unat v"
  by (simp add: unsigned_ucast_eq take_bit_nat_eq_self)

lemma unat_ucast_u64: "unat (ucast (v::u32) :: u64) = unat v"
proof -
  have "unat v < 2 ^ 64" by (rule less_trans [OF unat_u32_bounds(1)]) simp
  then show ?thesis by (simp add: unsigned_ucast_eq take_bit_nat_eq_self)
qed

lemma grow_data_ok:
  assumes "inodes s node = Some n" "inode_ok n" "unat new_end < 2147483648"
  shows "\<exists>b s'. grow_data new_end node s = Some (b, s') \<and> fd_table s' = fd_table s \<and> mount_list s' = mount_list s
    \<and> (if b then \<exists>n1. inodes s' = (inodes s)(node \<mapsto> n1) \<and> inode_ok n1 \<and> i_contents n1 = i_contents n
              \<and> i_size n1 = i_size n \<and> new_end \<le> i_capacity n1
       else inodes s' = inodes s)"
proof (cases "new_end > i_capacity n")
  case False
  have "(inodes s)(node \<mapsto> n) = inodes s" using assms(1) by auto
  then have "grow_data new_end node s = Some (True, s) \<and> inodes s = (inodes s)(node \<mapsto> n) \<and> new_end \<le> i_capacity n"
    using False assms(1) by (simp add: grow_data_def)
  then show ?thesis using assms(2) by (intro exI [of _ True] exI [of _ s]) auto
next
  case True
  define cap :: u64 where "cap = (if new_end < 4096 then 4096 else new_end * 2)"
  obtain q s1 where k: "fs_kmalloc (ucast cap) s = (q, s1)" by (cases "fs_kmalloc (ucast cap) s")
  note fr = fs_kmalloc_frame [OF k]
  show ?thesis
  proof (cases "q = 0")
    case q: True
    have "grow_data new_end node s = Some (False, s1)"
      using True assms(1) k q by (simp add: grow_data_def Let_def cap_def [symmetric])
    then show ?thesis using fr by auto
  next
    case q: False
    have c: "unat cap < 4294967296" "unat new_end \<le> unat cap" "unat cap = (if new_end < 4096 then 4096 else unat new_end * 2)"
    proof -
      have "unat (new_end * 2) = unat new_end * 2" using assms(3) by (subst unat_mult_lem [THEN iffD1]) simp_all
      then show "unat cap = (if new_end < 4096 then 4096 else unat new_end * 2)" by (simp add: cap_def)
      then show "unat cap < 4294967296" "unat new_end \<le> unat cap"
        using assms(3) by (auto simp: word_less_nat_alt)
    qed
    have nb: "new_buffer cap = replicate (unat cap) 0" by (simp only: new_buffer_def unat_ucast_u32 [OF c(1)])
    have size: "unat (i_size n) \<le> unat (i_capacity n)" "unat (i_capacity n) \<le> unat cap"
      using assms(2) True c(2) by (auto simp: inode_ok_image word_less_nat_alt)
    have "(case i_data n of None \<Rightarrow> Some (new_buffer cap)
            | Some d \<Rightarrow> do { xs \<leftarrow> get_bytes d 0 (unat (ucast (i_capacity n) :: u32)); put_bytes (new_buffer cap) 0 xs })
          = Some (i_image n (unat cap))"
    proof (cases "i_data n")
      case None
      then show ?thesis using assms(2) nb by (simp add: inode_ok_def i_image_def i_contents_def)
    next
      case (Some d)
      note d = inode_ok_SomeD [OF assms(2) Some]
      have "put_bytes (new_buffer cap) 0 d = Some (d @ replicate (unat cap - unat (i_capacity n)) 0)"
        using d(1) size nb by (simp add: put_bytes_def)
      also have "d @ replicate (unat cap - unat (i_capacity n)) 0 = i_image n (unat cap)"
        using size by (subst d(2)) (simp add: i_image_def replicate_add [symmetric])
      finally show ?thesis using Some d(1,3) by (simp add: get_bytes_def unat_ucast_u32)
    qed
    then have g: "grow_data new_end node s
        = Some (True, put_inode node (n\<lparr>i_data := Some (i_image n (unat cap)), i_capacity := cap\<rparr>) s1)"
      using True assms(1) k q by (simp add: grow_data_def Let_def cap_def [symmetric])
    let ?n = "n\<lparr>i_data := Some (i_image n (unat cap)), i_capacity := cap\<rparr>"
    have len: "length (i_contents n) = unat (i_size n)" using assms(2) by (rule i_contents_length)
    have ct: "i_contents ?n = i_contents n" using len by (simp add: i_contents_def i_image_def)
    then have "i_image ?n = i_image n" by (simp add: i_image_def fun_eq_iff)
    then have "inode_ok ?n" using size c(1) len by (simp add: inode_ok_image i_image_def)
    moreover have "new_end \<le> cap" using c(2) by (simp only: word_le_nat_alt)
    ultimately show ?thesis using g fr ct by (intro exI [of _ True] exI) (auto simp: put_inode_def)
  qed
qed

lemma ramfs_file_write_ok:
  assumes "inodes s (f_inode f) = Some n" "inode_ok n" "unat (f_pos f) + length xs < 2147483648"
  shows "\<exists>r f' s'. ramfs_file_write f xs s = Some (r, f', s') \<and> fd_table s' = fd_table s \<and> mount_list s' = mount_list s
    \<and> (if r = -1 then f' = f \<and> inodes s' = inodes s
       else r = of_nat (length xs) \<and> f' = f\<lparr>f_pos := f_pos f + of_nat (length xs)\<rparr>
         \<and> (\<exists>n'. inodes s' = (inodes s)(f_inode f \<mapsto> n') \<and> inode_ok n'
              \<and> i_contents n' = write_at (i_contents n) (unat (f_pos f)) xs))"
proof -
  let ?p = "f_pos f" let ?e = "f_pos f + of_nat (length xs)"
  have l: "unat (of_nat (length xs) :: u64) = length xs" using assms(3) by (simp add: unat_of_nat)
  have e: "unat ?e = unat ?p + length xs"
    using assms(3) l by (subst unat_add_lem [THEN iffD1]) simp_all
  obtain b s1 where g: "grow_data ?e (f_inode f) s = Some (b, s1)" "fd_table s1 = fd_table s" "mount_list s1 = mount_list s"
    "if b then \<exists>n1. inodes s1 = (inodes s)(f_inode f \<mapsto> n1) \<and> inode_ok n1 \<and> i_contents n1 = i_contents n
              \<and> i_size n1 = i_size n \<and> ?e \<le> i_capacity n1
       else inodes s1 = inodes s"
    using grow_data_ok [OF assms(1,2), of ?e] e assms(3) by auto
  show ?thesis
  proof (cases b)
    case False
    then show ?thesis using g by (simp add: ramfs_file_write_def)
  next
    case True
    then obtain n1 where n1: "inodes s1 = (inodes s)(f_inode f \<mapsto> n1)" "inode_ok n1" "i_contents n1 = i_contents n"
      "i_size n1 = i_size n" "?e \<le> i_capacity n1" using g(4) by auto
    have sz: "length (i_contents n) = unat (i_size n)" using assms(2) by (rule i_contents_length)
    have ne: "of_nat (length xs) \<noteq> (-1 :: u32)"
    proof
      assume "of_nat (length xs) = (-1 :: u32)"
      then have "unat (of_nat (length xs) :: u32) = unat (-1 :: u32)" by simp
      then show False using assms(3) by (simp add: unat_of_nat unsigned_minus_1_eq_mask mask_eq_exp_minus_1)
    qed
    have cap: "unat ?p + length xs \<le> unat (i_capacity n1)" using n1(5) e by (simp add: word_le_nat_alt)
    have size': "unat (if ?e > i_size n1 then ?e else i_size n1) = max (unat (i_size n)) (unat ?p + length xs)"
      using e n1(4) by (simp add: word_less_nat_alt max_def)
    have w: "length (write_at (i_contents n) (unat ?p) xs) = max (unat (i_size n)) (unat ?p + length xs)"
      by (simp add: write_at_length sz)
    show ?thesis
    proof (cases "i_data n1")
      case None
      then have "i_capacity n1 = 0" "i_size n = 0" using n1(2,4) by (simp_all add: inode_ok_def)
      then have z: "unat ?p = 0" "xs = []" using cap by simp_all
      then have p0: "?p = 0" by (simp add: unat_eq_0)
      have "i_contents n = []" using sz \<open>i_size n = 0\<close> by simp
      then have "write_at (i_contents n) (unat ?p) xs = []" using z by (simp add: write_at_def)
      let ?n = "n1\<lparr>i_data := None, i_dirty := True\<rparr>"
      have wr: "ramfs_file_write f xs s = Some (of_nat (length xs), f\<lparr>f_pos := ?e\<rparr>, put_inode (f_inode f) ?n s1)"
        using g(1) True n1(1,4) None z p0 \<open>i_size n = 0\<close> by (simp add: ramfs_file_write_def Let_def)
      have "inode_ok ?n" "i_contents ?n = write_at (i_contents n) (unat ?p) xs"
        using n1(4) \<open>i_size n = 0\<close> \<open>i_capacity n1 = 0\<close> \<open>write_at (i_contents n) (unat ?p) xs = []\<close>
        by (simp_all add: inode_ok_def i_contents_def)
      then show ?thesis using wr ne g n1(1) by (auto simp: put_inode_def)
    next
      case (Some d)
      let ?d = "write_at (i_contents n) (unat ?p) xs @ replicate (unat (i_capacity n1) - max (unat (i_size n)) (unat ?p + length xs)) 0"
      let ?n = "n1\<lparr>i_data := Some ?d, i_size := (if ?e > i_size n1 then ?e else i_size n1), i_dirty := True\<rparr>"
      have d: "d = i_contents n @ replicate (unat (i_capacity n1) - length (i_contents n)) 0"
        "unat (i_size n) \<le> unat (i_capacity n1)" "unat (i_capacity n1) < 4294967296"
        using n1(2,3,4) Some sz by (simp_all add: inode_ok_image i_image_def)
      have put: "put_bytes d (unat ?p) xs = Some ?d"
        using put_image [of "i_contents n" "unat (i_capacity n1)" "unat ?p" xs] d cap sz by simp
      have "length d = unat (i_capacity n1)" using d(2) sz unfolding d(1) by simp
      then have "put_bytes d (unat ?p) [] = Some d" using cap by (simp add: put_bytes_def)
      then have dd: "(if xs = [] then Some (Some d) else map_option Some (put_bytes d (unat ?p) xs)) = Some (Some ?d)"
        using put by auto
      have wr: "ramfs_file_write f xs s = Some (of_nat (length xs), f\<lparr>f_pos := ?e\<rparr>, put_inode (f_inode f) ?n s1)"
        using g(1) True n1(1) Some dd by (simp add: ramfs_file_write_def Let_def)
      have ct: "i_contents ?n = write_at (i_contents n) (unat ?p) xs"
        using size' w by (simp add: i_contents_def)
      have "inode_ok ?n" unfolding inode_ok_image using ct size' w d cap
        by (simp add: i_image_def max_def)
      then show ?thesis using wr ct ne g n1(1) by (auto simp: put_inode_def)
    qed
  qed
qed

lemma ramfs_file_read_ok:
  assumes "inodes s (f_inode f) = Some n" "inode_ok n"
  shows "\<exists>r f'. ramfs_file_read f count s = Some (r, take (unat count) (drop (unat (f_pos f)) (i_contents n)), f')
    \<and> unat r = length (take (unat count) (drop (unat (f_pos f)) (i_contents n)))
    \<and> f_inode f' = f_inode f \<and> f_ops f' = f_ops f \<and> f_flags f' = f_flags f
    \<and> unat (f_pos f') = unat (f_pos f) + unat r"
proof -
  have sz: "length (i_contents n) = unat (i_size n)" using assms(2) by (rule i_contents_length)
  show ?thesis
  proof (cases "i_data n")
    case None
    then show ?thesis using assms(1) by (simp add: ramfs_file_read_def i_contents_def)
  next
    case (Some d)
    note d = inode_ok_SomeD [OF assms(2) Some]
    show ?thesis
    proof (cases "f_pos f \<ge> i_size n")
      case True
      then show ?thesis using assms(1) Some sz by (simp add: ramfs_file_read_def word_le_nat_alt)
    next
      case False
      then have lt: "unat (f_pos f) < unat (i_size n)" by (simp add: word_le_nat_alt)
      have av: "unat (ucast (i_size n - f_pos f) :: u32) = unat (i_size n) - unat (f_pos f)"
        using lt d by (subst unat_ucast_u32) (simp_all add: unat_sub word_le_nat_alt)
      let ?k = "if count < (ucast (i_size n - f_pos f) :: u32) then count else ucast (i_size n - f_pos f)"
      have k: "unat ?k = min (unat count) (unat (i_size n) - unat (f_pos f))"
        by (simp only: word_less_nat_alt if_distrib [of unat] av min_def) simp
      have "get_bytes d (unat (f_pos f)) (unat ?k) = Some (take (unat count) (drop (unat (f_pos f)) (i_contents n)))"
        unfolding k using lt d Some by (auto simp: get_bytes_def i_contents_def drop_take min_def)
      then have "ramfs_file_read f count s = Some (?k, take (unat count) (drop (unat (f_pos f)) (i_contents n)), f\<lparr>f_pos := f_pos f + ucast ?k\<rparr>)"
        using assms(1) Some False by (simp add: ramfs_file_read_def Let_def)
      moreover have "unat ?k = length (take (unat count) (drop (unat (f_pos f)) (i_contents n)))"
        unfolding k using sz by (simp add: min.commute)
      moreover have "unat (f_pos f + ucast ?k) = unat (f_pos f) + unat ?k"
      proof -
        have u: "unat (ucast ?k :: u64) = unat ?k" by (rule unat_ucast_u64)
        have "unat (f_pos f) + unat ?k < 2 ^ LENGTH(64)" unfolding k using lt d by simp
        then show ?thesis using u by (subst unat_add_lem [THEN iffD1]) simp_all
      qed
      ultimately show ?thesis by (intro exI conjI) (assumption | simp)+
    qed
  qed
qed

definition at_pos :: "u32 \<Rightarrow> nat \<Rightarrow> file_t" where
  "at_pos node p = \<lparr>f_inode = node, f_pos = of_nat p, f_flags = 0, f_ref_count = 1, f_ops = True\<rparr>"

text \<open>Writing and reading an inode at a position, as the byte file wants it.\<close>

definition ramfs_pwrite :: "nat \<Rightarrow> bytes \<Rightarrow> u32 \<times> fsys \<Rightarrow> (u32 \<times> fsys) option" where
  "ramfs_pwrite p xs st =
     do { (r, f, s) \<leftarrow> ramfs_file_write (at_pos (fst st) p) xs (snd st);
          if r = -1 then None else Some (fst st, s) }"

definition ramfs_pread :: "nat \<Rightarrow> nat \<Rightarrow> u32 \<times> fsys \<Rightarrow> bytes" where
  "ramfs_pread p n st =
     (case ramfs_file_read (at_pos (fst st) p) (of_nat n) (snd st) of
        None \<Rightarrow> [] | Some (r, xs, f) \<Rightarrow> xs)"

definition node_contents :: "u32 \<times> fsys \<Rightarrow> bytes" where
  "node_contents st = (case inodes (snd st) (fst st) of None \<Rightarrow> [] | Some n \<Rightarrow> i_contents n)"

definition node_ok :: "u32 \<times> fsys \<Rightarrow> bool" where
  "node_ok st \<longleftrightarrow> (\<exists>n. inodes (snd st) (fst st) = Some n \<and> inode_ok n)"

interpretation rf: byte_file ramfs_pwrite ramfs_pread node_contents node_ok 2147483648
proof
  fix st st' and p :: nat and xs assume ok: "node_ok st" and lim: "p + length xs < 2147483648" and w: "ramfs_pwrite p xs st = Some st'"
  obtain n where n: "inodes (snd st) (fst st) = Some n" "inode_ok n" using ok by (auto simp: node_ok_def)
  have p: "unat (f_pos (at_pos (fst st) p)) = p" using lim by (simp add: at_pos_def unat_of_nat)
  show "node_ok st' \<and> node_contents st' = write_at (node_contents st) p xs"
    using ramfs_file_write_ok [of "snd st" "at_pos (fst st) p" n xs] n lim w p
    by (auto simp: ramfs_pwrite_def node_ok_def node_contents_def at_pos_def bind_eq_Some_conv split: if_splits)
next
  fix st and p k :: nat assume ok: "node_ok st" and lim: "p < 2147483648" "k < 2147483648"
  obtain n where n: "inodes (snd st) (fst st) = Some n" "inode_ok n" using ok by (auto simp: node_ok_def)
  have u: "unat (f_pos (at_pos (fst st) p)) = p" "unat (of_nat k :: u32) = k"
    using lim by (simp_all add: at_pos_def unat_of_nat)
  show "ramfs_pread p k st = take k (drop p (node_contents st))"
    using ramfs_file_read_ok [of "snd st" "at_pos (fst st) p" n "of_nat k"] n u
    by (auto simp: ramfs_pread_def node_contents_def at_pos_def)
qed

section \<open>Names\<close>

lemma name_eq_iff: "0 \<notin> set de \<Longrightarrow> 0 \<notin> set name \<Longrightarrow> name_eq de name \<longleftrightarrow> take 255 de = take 255 name"
  by (simp add: name_eq_def NAME_MAX_def strncmp_zero_iff)

definition names_ok :: "dirents \<Rightarrow> bool" where
  "names_ok des \<longleftrightarrow> (\<forall>(de, p) \<in> set des. 0 \<notin> set de \<and> length de \<le> 255)"

section \<open>The allocator behind the filesystem\<close>

text \<open>The allocator is in range and every inode lies below its end.\<close>

definition fs_ok :: "fsys \<Rightarrow> bool" where
  "fs_ok s \<longleftrightarrow>
     (let h = fs_heap s in
        0 < bump_start h \<and> bump_used h \<le> bump_size h
        \<and> unat (bump_start h) + unat (bump_size h) + 4096 < 4294967296
        \<and> (\<forall>p. inodes s p \<noteq> None \<longrightarrow> p \<noteq> 0 \<and> unat p < unat (bump_start h) + unat (bump_used h)))"

lemma bump_kmalloc_ok:
  assumes "0 < bump_start h" "bump_used h \<le> bump_size h"
    "unat (bump_start h) + unat (bump_size h) + 4096 < 4294967296"
    "unat (bump_size h) + unat k + 8 < 4294967296"
    and "bump_kmalloc k h = (p, h')"
  shows "bump_start h' = bump_start h \<and> bump_size h' = bump_size h \<and> bump_used h' \<le> bump_size h
    \<and> unat (bump_used h) \<le> unat (bump_used h')
    \<and> (p \<noteq> 0 \<longrightarrow> unat p = unat (bump_start h) + unat (bump_used h) \<and> (0 < unat k \<longrightarrow> unat (bump_used h) < unat (bump_used h')))"
proof -
  let ?sz = "(k + 7) AND NOT 7"
  have m: "(7::u32) = 2 ^ 3 - 1" by simp
  have "unat (k + of_nat 7) = unat k + 7" using assms(4) by (intro unat_add_small) simp
  then have s: "unat ?sz = (unat k + 7) div 8 * 8"
    using unat_and_not_mask [of "k + 7" 3] by (simp only: m [symmetric]) simp
  have b: "unat ?sz \<le> unat k + 7" "0 < unat k \<longrightarrow> 0 < unat ?sz" unfolding s by auto
  have us: "unat (bump_used h) \<le> unat (bump_size h)" using assms(2) by (simp add: word_le_nat_alt)
  have "unat (bump_used h + of_nat (unat ?sz)) = unat (bump_used h) + unat ?sz"
    using b(1) us assms(4) by (intro unat_add_small) linarith
  then have ua: "unat (bump_used h + ?sz) = unat (bump_used h) + unat ?sz" by simp
  have "unat (bump_start h + of_nat (unat (bump_used h))) = unat (bump_start h) + unat (bump_used h)"
    using us assms(3) by (intro unat_add_small) linarith
  then have up: "unat (bump_start h + bump_used h) = unat (bump_start h) + unat (bump_used h)" by simp
  show ?thesis
  proof (cases "bump_used h + ?sz > bump_size h")
    case True
    then have "p = 0" "h' = h" using assms(5) by (simp_all add: bump_kmalloc_def Let_def)
    then show ?thesis using assms(2) by simp
  next
    case False
    then have "p = bump_start h + bump_used h" "h' = h\<lparr>bump_used := bump_used h + ?sz\<rparr>"
      using assms(5) by (simp_all add: bump_kmalloc_def Let_def)
    then show ?thesis using False ua up b(2) by simp
  qed
qed

text \<open>The request fits beside the heap, so nothing wraps.\<close>

definition request_ok :: "fsys \<Rightarrow> u32 \<Rightarrow> bool" where
  "request_ok s k \<longleftrightarrow> unat (bump_size (fs_heap s)) + unat k + 8 < 4294967296"

lemma request_small: "fs_ok s \<Longrightarrow> unat k \<le> 2048 \<Longrightarrow> request_ok s k"
  by (simp add: fs_ok_def Let_def request_ok_def)

lemma fs_kmalloc_ok:
  assumes "fs_ok s" "request_ok s k" "fs_kmalloc k s = (p, s')"
  shows "fs_ok s' \<and> bump_size (fs_heap s') = bump_size (fs_heap s)
    \<and> (p \<noteq> 0 \<longrightarrow> inodes s p = None \<and> (0 < unat k \<longrightarrow> fs_ok (put_inode p n s')) \<and> (\<forall>q. inodes s q \<noteq> None \<longrightarrow> unat q < unat p))"
proof -
  obtain h' where h': "bump_kmalloc k (fs_heap s) = (p, h')" "s' = s\<lparr>fs_heap := h'\<rparr>"
    using assms(3) by (auto simp: fs_kmalloc_def split: prod.splits)
  have ok: "0 < bump_start (fs_heap s)" "bump_used (fs_heap s) \<le> bump_size (fs_heap s)"
    "unat (bump_start (fs_heap s)) + unat (bump_size (fs_heap s)) + 4096 < 4294967296"
    and live: "\<And>q. inodes s q \<noteq> None \<Longrightarrow> q \<noteq> 0 \<and> unat q < unat (bump_start (fs_heap s)) + unat (bump_used (fs_heap s))"
    using assms(1) by (simp_all add: fs_ok_def Let_def)
  note b = bump_kmalloc_ok [OF ok assms(2) [unfolded request_ok_def] h'(1)]
  have live': "q \<noteq> 0 \<and> unat q < unat (bump_start h') + unat (bump_used h')" if "inodes s q \<noteq> None" for q
    using live [OF that] b by auto
  have ok': "fs_ok s'" using b ok(1,3) live' h'(2) by (simp add: fs_ok_def Let_def)
  have new: "inodes s p = None \<and> (0 < unat k \<longrightarrow> fs_ok (put_inode p n s')) \<and> (\<forall>q. inodes s q \<noteq> None \<longrightarrow> unat q < unat p)"
    if p: "p \<noteq> 0"
  proof (intro conjI impI)
    have up: "unat p = unat (bump_start (fs_heap s)) + unat (bump_used (fs_heap s))" using b p by blast
    show "inodes s p = None" using live [of p] up by (cases "inodes s p") simp_all
    show "\<forall>q. inodes s q \<noteq> None \<longrightarrow> unat q < unat p" using live up by auto
    assume "0 < unat k"
    then have "unat (bump_used (fs_heap s)) < unat (bump_used h')" using b p by blast
    then have "unat p < unat (bump_start h') + unat (bump_used h')" using up b by simp
    then show "fs_ok (put_inode p n s')"
      using b ok(1,3) live' h'(2) p by (simp add: fs_ok_def Let_def put_inode_def)
  qed
  show ?thesis using ok' new b h'(2) by simp
qed

lemma fs_ok_update: "fs_ok s \<Longrightarrow> inodes s p \<noteq> None \<Longrightarrow> fs_ok (put_inode p n s)"
  by (auto simp: fs_ok_def Let_def put_inode_def)

lemma fs_ok_free: "fs_ok s \<Longrightarrow> fs_ok (free_inode p s)"
  by (auto simp: fs_ok_def Let_def free_inode_def)

lemma fs_ok_fields [simp]: "fs_ok (s\<lparr>next_ino := i\<rparr>) = fs_ok s" "fs_ok (s\<lparr>fd_table := t\<rparr>) = fs_ok s"
  by (simp_all add: fs_ok_def)

lemmas fs_sizes = sizeof_inode_def sizeof_file_def sizeof_mountpoint_def sizeof_ramfs_dirent_def
  sizeof_ramfs_inode_data_def

lemma requests_ok [simp]:
  "fs_ok s \<Longrightarrow> request_ok s sizeof_inode" "fs_ok s \<Longrightarrow> request_ok s sizeof_file"
  "fs_ok s \<Longrightarrow> request_ok s sizeof_mountpoint" "fs_ok s \<Longrightarrow> request_ok s sizeof_ramfs_dirent"
  "fs_ok s \<Longrightarrow> request_ok s sizeof_ramfs_inode_data"
  by (simp_all add: request_small fs_sizes)

lemma alloc_inode_ok:
  assumes "fs_ok s" "ramfs_alloc_inode t m s = (p, s')"
  shows "fs_ok s' \<and> bump_size (fs_heap s') = bump_size (fs_heap s) \<and> (if p = 0 then inodes s' = inodes s
    else inodes s p = None \<and> (\<forall>q. inodes s q \<noteq> None \<longrightarrow> unat q < unat p) \<and> (\<exists>n. inodes s' = (inodes s)(p \<mapsto> n) \<and> i_mode n = m \<and> i_nlinks n = 1
      \<and> i_ref_count n = 1 \<and> i_entries n = [] \<and> inode_ok n \<and> i_contents n = []))"
proof -
  obtain q s1 where k1: "fs_kmalloc sizeof_inode s = (q, s1)" by (cases "fs_kmalloc sizeof_inode s")
  obtain r s2 where k2: "fs_kmalloc sizeof_ramfs_inode_data s1 = (r, s2)"
    by (cases "fs_kmalloc sizeof_ramfs_inode_data s1")
  define n where "n = \<lparr>i_ino = next_ino s2, i_mode = m, i_uid = 0, i_gid = 0, i_size = 0, i_nlinks = 1,
     i_block_size = 4096, i_ref_count = 1, i_dirty = False, i_fs = t, i_data = None,
     i_capacity = 0, i_entries = [], i_link_target = None\<rparr>"
  have inode_size: "0 < unat sizeof_inode" by (simp add: sizeof_inode_def)
  have s1: "fs_ok s1" "bump_size (fs_heap s1) = bump_size (fs_heap s)" "inodes s1 = inodes s"
    "q \<noteq> 0 \<longrightarrow> inodes s q = None \<and> fs_ok (put_inode q n s1) \<and> (\<forall>p. inodes s p \<noteq> None \<longrightarrow> unat p < unat q)"
    using fs_kmalloc_ok [OF assms(1) _ k1, of n] fs_kmalloc_frame [OF k1] assms(1) inode_size by simp_all
  have s2: "fs_ok s2" "bump_size (fs_heap s2) = bump_size (fs_heap s)" "inodes s2 = inodes s"
    using fs_kmalloc_ok [OF s1(1) _ k2] fs_kmalloc_frame [OF k2] s1 by simp_all
  have put: "fs_ok (put_inode q n s2)" if "q \<noteq> 0"
  proof -
    have a: "fs_ok (put_inode q n s1)" using s1 that by blast
    have "fs_kmalloc sizeof_ramfs_inode_data (put_inode q n s1) = (r, put_inode q n s2)"
      using k2 by (auto simp: fs_kmalloc_def put_inode_def split: prod.splits)
    from fs_kmalloc_ok [OF a _ this] show ?thesis using a by simp
  qed
  have eq: "ramfs_alloc_inode t m s = (if q = 0 then (0, s1) else if r = 0 then (0, s2)
      else (q, put_inode q n (s2\<lparr>next_ino := next_ino s2 + 1\<rparr>)))"
    unfolding ramfs_alloc_inode_def k1 n_def by (simp add: k2)
  have ni: "fs_ok (put_inode q n (s2\<lparr>next_ino := next_ino s2 + 1\<rparr>)) = fs_ok (put_inode q n s2)"
    by (simp add: fs_ok_def put_inode_def)
  have n: "i_mode n = m" "i_nlinks n = 1" "i_ref_count n = 1" "i_entries n = []" "inode_ok n" "i_contents n = []"
    by (simp_all add: n_def inode_ok_def i_contents_def)
  show ?thesis using assms(2) eq s1 s2 put ni n by (auto simp: put_inode_def split: if_splits)
qed

section \<open>Creating and removing names\<close>

lemma ramfs_create_ok:
  assumes "fs_ok s" "inodes s dir = Some d"
  shows "\<exists>r node s'. ramfs_create dir name m s = Some (r, node, s') \<and> fs_ok s'
    \<and> (if r = 0 then node \<noteq> dir \<and> inodes s node = None
          \<and> (\<exists>n. inodes s' = (inodes s)(node \<mapsto> n,
                dir \<mapsto> d\<lparr>i_entries := (take 255 name, node) # i_entries d, i_nlinks := i_nlinks d + 1\<rparr>)
              \<and> i_mode n = m \<and> i_nlinks n = 1 \<and> i_ref_count n = 1 \<and> i_entries n = [] \<and> inode_ok n
              \<and> i_contents n = [])
       else r = -1 \<and> node = 0 \<and> inodes s' = inodes s)"
proof -
  obtain node s1 where a: "ramfs_alloc_inode (i_fs d) m s = (node, s1)" by (cases "ramfs_alloc_inode (i_fs d) m s")
  note A = alloc_inode_ok [OF assms(1) a]
  show ?thesis
  proof (cases "node = 0")
    case True
    then have "ramfs_create dir name m s = Some (-1, 0, s1)"
      using assms(2) a by (simp add: ramfs_create_def)
    then show ?thesis using A True by simp
  next
    case False
    then obtain n where n: "inodes s node = None" "inodes s1 = (inodes s)(node \<mapsto> n)" "i_mode n = m" "i_nlinks n = 1"
      "i_ref_count n = 1" "i_entries n = []" "inode_ok n" "i_contents n = []" "fs_ok s1" using A by auto
    have ne: "node \<noteq> dir" using n(1) assms(2) by auto
    obtain de s2 where k: "fs_kmalloc sizeof_ramfs_dirent s1 = (de, s2)" by (cases "fs_kmalloc sizeof_ramfs_dirent s1")
    have s2: "fs_ok s2" "inodes s2 = inodes s1"
      using fs_kmalloc_ok [OF n(9) _ k] fs_kmalloc_frame [OF k] n(9) by simp_all
    show ?thesis
    proof (cases "de = 0")
      case True
      have "ramfs_create dir name m s = Some (-1, 0, free_inode node s2)"
        using assms(2) a False k True by (simp add: ramfs_create_def)
      moreover have "inodes (free_inode node s2) = inodes s"
        using n(1,2) s2(2) by (auto simp: free_inode_def)
      ultimately show ?thesis using fs_ok_free [OF s2(1)] by auto
    next
      case de: False
      let ?d = "d\<lparr>i_entries := (take 255 name, node) # i_entries d, i_nlinks := i_nlinks d + 1\<rparr>"
      have "ramfs_create dir name m s = Some (0, node, put_inode dir ?d s2)"
        using assms(2) a False k de s2(2) n(2) ne by (simp add: ramfs_create_def NAME_MAX_def)
      moreover have "fs_ok (put_inode dir ?d s2)"
        using s2 n(2) assms(2) ne by (intro fs_ok_update) auto
      moreover have "inodes (put_inode dir ?d s2) = (inodes s)(node \<mapsto> n, dir \<mapsto> ?d)"
        using s2(2) n(2) by (simp add: put_inode_def)
      ultimately show ?thesis using n ne by auto
    qed
  qed
qed

lemma ramfs_create_fresh:
  assumes "fs_ok s" "ramfs_create dir name m s = Some (r, node, s')"
  shows "bump_size (fs_heap s') = bump_size (fs_heap s)"
    "r = 0 \<Longrightarrow> inodes s q \<noteq> None \<Longrightarrow> unat q < unat node"
proof -
  obtain d where d: "inodes s dir = Some d" using assms(2) by (auto simp: ramfs_create_def bind_eq_Some_conv)
  obtain nd s1 where a: "ramfs_alloc_inode (i_fs d) m s = (nd, s1)" by (cases "ramfs_alloc_inode (i_fs d) m s")
  obtain de s2 where k: "fs_kmalloc sizeof_ramfs_dirent s1 = (de, s2)" by (cases "fs_kmalloc sizeof_ramfs_dirent s1")
  note A = alloc_inode_ok [OF assms(1) a]
  have "bump_size (fs_heap s2) = bump_size (fs_heap s1)" using fs_kmalloc_ok [OF _ _ k] A by simp
  then show "bump_size (fs_heap s') = bump_size (fs_heap s)"
    using assms(2) d a k A by (auto simp: ramfs_create_def bind_eq_Some_conv put_inode_def free_inode_def split: if_splits)
  show "unat q < unat node" if "r = 0" "inodes s q \<noteq> None"
    using assms(2) d a k A that by (auto simp: ramfs_create_def bind_eq_Some_conv split: if_splits)
qed

lemma find_entry_create:
  assumes "0 \<notin> set name" "0 \<notin> set nm"
  shows "find_entry ((take 255 name, node) # des) nm =
    (if take 255 nm = take 255 name then Some node else find_entry des nm)"
proof -
  have "0 \<notin> set (take 255 name)" using assms(1) by (meson in_set_takeD)
  then show ?thesis using assms(2) by (auto simp: name_eq_iff)
qed

text \<open>Creating a file in a directory either fails without touching any inode, or adds one fresh, empty
  inode with a link count of one, found afterwards under the new name and under no other; every
  other inode, and every other name in the directory, is as before.\<close>

theorem ramfs_create_lookup:
  assumes "fs_ok s" "inodes s dir = Some d" "0 \<notin> set name"
  shows "\<exists>r node s'. ramfs_create dir name m s = Some (r, node, s') \<and> fs_ok s'
    \<and> (if r = 0
       then inodes s node = None
         \<and> (\<exists>n d'. inodes s' = (inodes s)(node \<mapsto> n, dir \<mapsto> d') \<and> i_mode n = m \<and> i_nlinks n = 1
              \<and> i_contents n = [] \<and> i_nlinks d' = i_nlinks d + 1
              \<and> (\<forall>nm. 0 \<notin> set nm \<longrightarrow> find_entry (i_entries d') nm =
                   (if take NAME_MAX nm = take NAME_MAX name then Some node else find_entry (i_entries d) nm)))
       else r = -1 \<and> inodes s' = inodes s)"
proof -
  obtain r node s' where c: "ramfs_create dir name m s = Some (r, node, s')" "fs_ok s'"
    "if r = 0 then node \<noteq> dir \<and> inodes s node = None
          \<and> (\<exists>n. inodes s' = (inodes s)(node \<mapsto> n,
                dir \<mapsto> d\<lparr>i_entries := (take 255 name, node) # i_entries d, i_nlinks := i_nlinks d + 1\<rparr>)
              \<and> i_mode n = m \<and> i_nlinks n = 1 \<and> i_ref_count n = 1 \<and> i_entries n = [] \<and> inode_ok n
              \<and> i_contents n = [])
       else r = -1 \<and> node = 0 \<and> inodes s' = inodes s"
    using ramfs_create_ok [OF assms(1,2), of name m] by blast
  show ?thesis
  proof (cases "r = 0")
    case True
    let ?d = "d\<lparr>i_entries := (take 255 name, node) # i_entries d, i_nlinks := i_nlinks d + 1\<rparr>"
    have f: "\<forall>nm. 0 \<notin> set nm \<longrightarrow> find_entry (i_entries ?d) nm =
        (if take NAME_MAX nm = take NAME_MAX name then Some node else find_entry (i_entries d) nm)"
      using find_entry_create [OF assms(3)] by (simp add: NAME_MAX_def)
    from c(3) True obtain n where n: "inodes s node = None" "inodes s' = (inodes s)(node \<mapsto> n, dir \<mapsto> ?d)"
      "i_mode n = m" "i_nlinks n = 1" "i_contents n = []" by auto
    have nl: "i_nlinks ?d = i_nlinks d + 1" by simp
    have E: "inodes s node = None \<and> (\<exists>n d'. inodes s' = (inodes s)(node \<mapsto> n, dir \<mapsto> d') \<and> i_mode n = m \<and> i_nlinks n = 1
              \<and> i_contents n = [] \<and> i_nlinks d' = i_nlinks d + 1
              \<and> (\<forall>nm. 0 \<notin> set nm \<longrightarrow> find_entry (i_entries d') nm =
                   (if take NAME_MAX nm = take NAME_MAX name then Some node else find_entry (i_entries d) nm)))"
      using n nl f by blast
    show ?thesis
      by (rule exI [of _ r], rule exI [of _ node], rule exI [of _ s'], rule conjI [OF c(1)], rule conjI [OF c(2)])
        (simp only: if_P [OF True] E simp_thms)
  next
    case False
    then show ?thesis using c by simp
  qed
qed

definition demo_fs :: fsys where
  "demo_fs = snd (ramfs_mount Ramfs (fsys0 (bump0 0x200000)))"

lemma demo_fs_simps [simp]: "inodes demo_fs 0x200000 = Some \<lparr>i_ino = 1, i_mode = 0x41ED, i_uid = 0, i_gid = 0,
    i_size = 0, i_nlinks = 1, i_block_size = 4096, i_ref_count = 1, i_dirty = False, i_fs = Ramfs,
    i_data = None, i_capacity = 0, i_entries = [], i_link_target = None\<rparr>"
  by code_simp

lemma demo_fs_ok: "fs_ok demo_fs"
proof -
  have "ramfs_alloc_inode Ramfs (S_IFDIR OR 0x1ED) (fsys0 (bump0 0x200000)) = (fst (ramfs_mount Ramfs (fsys0 (bump0 0x200000))), demo_fs)"
    by (simp add: demo_fs_def ramfs_mount_def)
  moreover have "fs_ok (fsys0 (bump0 0x200000))"
    by (simp add: fs_ok_def fsys0_def bump0_def STATIC_HEAP_SIZE_def)
  ultimately show ?thesis using alloc_inode_ok by blast
qed

theorem ramfs_create_lookup_witness:
  "\<exists>r node s'. ramfs_create 0x200000 [97] S_IFREG demo_fs = Some (r, node, s') \<and> fs_ok s' \<and> r = 0
     \<and> inodes demo_fs node = None"
proof -
  have "map_option fst (ramfs_create 0x200000 [97] S_IFREG demo_fs) = Some 0" by code_simp
  moreover have "\<exists>r node s'. ramfs_create 0x200000 [97] S_IFREG demo_fs = Some (r, node, s') \<and> fs_ok s'
      \<and> (r = 0 \<longrightarrow> inodes demo_fs node = None)"
    using ramfs_create_lookup [OF demo_fs_ok demo_fs_simps, of "[97]" S_IFREG] by (simp split: if_splits) blast
  ultimately show ?thesis by fastforce
qed

end
