(* ===== verification/Vfs_Spec.thy ===== *)
theory Vfs_Spec
  imports Vfs Ramfs_Spec
begin

text \<open>
  The virtual filesystem: paths, the choice of the mount point, the descriptor table, and reading
  back what was written through a descriptor.
\<close>

section \<open>Paths\<close>

lemma strrchr_loop_none:
  "47 \<notin> set p \<Longrightarrow> 0 \<notin> set p \<Longrightarrow> strrchr_loop (p @ [0]) 47 i r = Some (i + length p, r)"
  by (induction p arbitrary: i r) auto

lemma strrchr_loop_split:
  "0 \<notin> set p \<Longrightarrow> 47 \<notin> set q \<Longrightarrow> 0 \<notin> set q \<Longrightarrow>
   strrchr_loop (p @ 47 # q @ [0]) 47 i r = Some (i + length p + 1 + length q, Some (i + length p))"
  by (induction p arbitrary: i r) (auto simp: strrchr_loop_none)

lemma last_slash_split:
  "0 \<notin> set p \<Longrightarrow> 47 \<notin> set q \<Longrightarrow> 0 \<notin> set q \<Longrightarrow> last_slash (p @ 47 # q) = Some (length p)"
  by (simp add: last_slash_def strrchr_def strrchr_loop_split)

lemma last_slash_none: "47 \<notin> set p \<Longrightarrow> 0 \<notin> set p \<Longrightarrow> last_slash p = None"
  by (simp add: last_slash_def strrchr_def strrchr_loop_none)

text \<open>The directory part and the last component of a path that fits give the path back: a path with
  a slash is the directory, a slash and the component (the root's slash being the directory
  itself), a path without one is its own component in the directory \<open>.\<close>, and the component holds
  no slash.\<close>

theorem path_split_join:
  assumes "0 \<notin> set path" "length path < len" "2 \<le> len"
  shows "\<exists>d b. path_dirname path len = Some d \<and> path_basename path len = Some b \<and> 47 \<notin> set b
    \<and> (if 47 \<in> set path then path = d @ 47 # b \<or> d = [47] \<and> path = 47 # b else d = [46] \<and> path = b)"
proof (cases "47 \<in> set path")
  case True
  then obtain p q where pq: "path = p @ 47 # q" "47 \<notin> set q" by (metis split_list_last)
  then have ls: "last_slash path = Some (length p)" using assms(1) by (simp add: last_slash_split)
  have b: "path_basename path len = Some q" using assms(2) pq(1) ls by (simp add: path_basename_def)
  show ?thesis
  proof (cases "p = []")
    case True
    then show ?thesis using assms(3) pq b ls by (simp add: path_dirname_def)
  next
    case False
    then have d: "path_dirname path len = Some p"
      using assms(2,3) pq(1) ls by (simp add: path_dirname_def)
    then show ?thesis using pq b by auto
  qed
next
  case False
  then show ?thesis using assms last_slash_none [of path]
    by (simp add: path_dirname_def path_basename_def)
qed

theorem path_split_join_witness:
  "path_dirname [47, 97, 47, 98] 1024 = Some [47, 97] \<and> path_basename [47, 97, 47, 98] 1024 = Some [98]
   \<and> (\<exists>d b. path_dirname [47, 97, 47, 98] 1024 = Some d \<and> path_basename [47, 97, 47, 98] 1024 = Some b
        \<and> 47 \<notin> set b)"
proof -
  have "path_dirname [47, 97, 47, 98] 1024 = Some [47, 97]" "path_basename [47, 97, 47, 98] 1024 = Some [98]"
    by code_simp+
  then show ?thesis using path_split_join [of "[47, 97, 47, 98]" 1024] by auto
qed

section \<open>Choosing the mount point\<close>

lemma mount_matches_prefix:
  assumes "0 \<notin> set path" "0 \<notin> set (m_path m)"
  shows "mount_matches path m \<longleftrightarrow> prefix (m_path m) path"
proof -
  have "mount_matches path m \<longleftrightarrow> take (length (m_path m)) path = m_path m"
    using assms by (simp add: mount_matches_def strncmp_zero_iff)
  then show ?thesis by (metis append_eq_conv_conj prefix_def take_is_prefix)
qed

lemma best_mount:
  assumes "0 \<notin> set path" "\<forall>m \<in> set ms. 0 \<notin> set (m_path m)"
  shows "case fold (better_mount path) ms (None, 0) of
      (None, n) \<Rightarrow> n = 0 \<and> (\<forall>m \<in> set ms. prefix (m_path m) path \<longrightarrow> m_path m = [])
    | (Some m, n) \<Rightarrow> m \<in> set ms \<and> n = length (m_path m) \<and> prefix (m_path m) path
        \<and> (\<forall>m' \<in> set ms. prefix (m_path m') path \<longrightarrow> length (m_path m') \<le> n)"
  using assms(2)
proof (induction ms rule: rev_induct)
  case (snoc m ms)
  obtain b n where b: "fold (better_mount path) ms (None, 0) = (b, n)" by force
  have m: "mount_matches path m \<longleftrightarrow> prefix (m_path m) path"
    using snoc.prems by (intro mount_matches_prefix assms(1)) simp
  have IH: "case (b, n) of
      (None, n) \<Rightarrow> n = 0 \<and> (\<forall>m \<in> set ms. prefix (m_path m) path \<longrightarrow> m_path m = [])
    | (Some m, n) \<Rightarrow> m \<in> set ms \<and> n = length (m_path m) \<and> prefix (m_path m) path
        \<and> (\<forall>m' \<in> set ms. prefix (m_path m') path \<longrightarrow> length (m_path m') \<le> n)"
    using snoc by (simp add: b)
  have st: "fold (better_mount path) (ms @ [m]) (None, 0)
      = (if prefix (m_path m) path \<and> length (m_path m) > n then (Some m, length (m_path m)) else (b, n))"
    using b m by (simp add: better_mount_def)
  show ?case
  proof (cases "prefix (m_path m) path \<and> length (m_path m) > n")
    case True
    then show ?thesis using IH unfolding st by (cases b) fastforce+
  next
    case False
    then show ?thesis using IH unfolding st by (cases b) auto
  qed
qed simp

text \<open>C37. A path is served by the mount point with the longest path that is a prefix of it, and the rest
  of the path without its leading slashes is what the filesystem gets; with no such mount point
  the lookup fails.  (The prefix is one of characters: a mount on \<open>/tmp\<close> serves \<open>/tmpfoo\<close> too.)\<close>

theorem find_mount_longest_prefix:
  assumes "0 \<notin> set path" "\<forall>m \<in> set (mount_list s). 0 \<notin> set (m_path m) \<and> m_path m \<noteq> []"
  shows "case find_mount path s of
      None \<Rightarrow> \<forall>m \<in> set (mount_list s). \<not> prefix (m_path m) path
    | Some (m, rest) \<Rightarrow> m \<in> set (mount_list s)
        \<and> (\<exists>slashes. path = m_path m @ slashes @ rest \<and> set slashes \<subseteq> {47}
             \<and> (rest = [] \<or> hd rest \<noteq> 47))
        \<and> (\<forall>m' \<in> set (mount_list s). prefix (m_path m') path \<longrightarrow> length (m_path m') \<le> length (m_path m))"
proof -
  have sk: "\<exists>sl. p = sl @ skip_slashes p \<and> set sl \<subseteq> {47} \<and> (skip_slashes p = [] \<or> hd (skip_slashes p) \<noteq> 47)" for p
  proof -
    have "skip_slashes p = dropWhile (\<lambda>c. c = 47) p" by (induction p) auto
    then show ?thesis using set_takeWhileD [of _ "\<lambda>c. c = 47" p] hd_dropWhile [of "\<lambda>c. c = 47" p]
      by (intro exI [of _ "takeWhile (\<lambda>c. c = 47) p"]) auto
  qed
  obtain b n where b: "fold (better_mount path) (mount_list s) (None, 0) = (b, n)" by force
  note B = best_mount [OF assms(1), of "mount_list s"]
  show ?thesis
  proof (cases b)
    case None
    then show ?thesis using B b assms(2) by (fastforce simp: find_mount_def)
  next
    case (Some m)
    have B': "m \<in> set (mount_list s)" "n = length (m_path m)" "prefix (m_path m) path"
      "\<forall>m' \<in> set (mount_list s). prefix (m_path m') path \<longrightarrow> length (m_path m') \<le> n"
      using B b Some assms(2) by auto
    obtain r where r: "path = m_path m @ r" using B'(3) by (auto simp: prefix_def)
    then show ?thesis using B' b Some sk [of r] by (auto simp: find_mount_def)
  qed
qed

definition demo_mounts :: fsys where
  "demo_mounts = demo_fs\<lparr>mount_list :=
     [\<lparr>m_path = [47, 116], m_root = 1, m_fs = Ramfs, m_flags = 0\<rparr>,
      \<lparr>m_path = [47], m_root = 0x200000, m_fs = Ramfs, m_flags = 0\<rparr>]\<rparr>"

theorem find_mount_longest_prefix_witness:
  "map_option (\<lambda>(m, r). (m_root m, r)) (find_mount [47, 116, 47, 97] demo_mounts) = Some (1, [97])
   \<and> (case find_mount [47, 116, 47, 97] demo_mounts of None \<Rightarrow> False | Some (m, r) \<Rightarrow> m \<in> set (mount_list demo_mounts))"
proof -
  have v: "map_option (\<lambda>(m, r). (m_root m, r)) (find_mount [47, 116, 47, 97] demo_mounts) = Some (1, [97])"
    by code_simp
  have "\<forall>m \<in> set (mount_list demo_mounts). 0 \<notin> set (m_path m) \<and> m_path m \<noteq> []" by (simp add: demo_mounts_def)
  from find_mount_longest_prefix [OF _ this, of "[47, 116, 47, 97]"] v show ?thesis
    by (auto split: option.splits)
qed

section \<open>The descriptor table\<close>

lemma find_free_fd_Some:
  "find_free_fd k i tab = Some fd \<Longrightarrow> i \<le> fd \<and> fd < i + k \<and> tab fd = None \<and> (\<forall>j. i \<le> j \<longrightarrow> j < fd \<longrightarrow> tab j \<noteq> None)"
proof (induction k arbitrary: i)
  case (Suc k)
  show ?case
  proof (cases "tab i = None")
    case False
    then have "find_free_fd k (Suc i) tab = Some fd" using Suc.prems by (simp add: False)
    note IH = Suc.IH [OF this]
    then show ?thesis using False by (metis Suc_leD Suc_leI add_Suc_right add_Suc_shift le_neq_implies_less)
  qed (use Suc.prems in auto)
qed simp

lemma find_free_fd_None: "find_free_fd k i tab = None \<Longrightarrow> i \<le> j \<Longrightarrow> j < i + k \<Longrightarrow> tab j \<noteq> None"
proof (induction k arbitrary: i)
  case (Suc k)
  then show ?case by (cases "j = i") (auto split: if_splits)
qed simp

text \<open>Every ramfs operation leaves the descriptor table and the mount points alone.\<close>

definition same_tables :: "fsys \<Rightarrow> fsys \<Rightarrow> bool" where
  "same_tables s s' \<longleftrightarrow> fd_table s' = fd_table s \<and> mount_list s' = mount_list s"

lemma same_tables_simps [simp]:
  "same_tables s s" "same_tables s (put_inode p n s') = same_tables s s'"
  "same_tables s (free_inode p s') = same_tables s s'" "same_tables s (s'\<lparr>next_ino := i\<rparr>) = same_tables s s'"
  by (simp_all add: same_tables_def put_inode_def free_inode_def)

lemma same_tables_trans: "same_tables s s' \<Longrightarrow> same_tables s' s'' \<Longrightarrow> same_tables s s''"
  by (simp add: same_tables_def)

lemma kmalloc_same: "fs_kmalloc k s = (p, s') \<Longrightarrow> same_tables s s'"
  using fs_kmalloc_frame by (auto simp: same_tables_def)

lemma case_prod_eq_Some: "(case p of (a, b) \<Rightarrow> f a b) = Some r \<longleftrightarrow> (\<exists>a b. p = (a, b) \<and> f a b = Some r)"
  by (cases p) simp

lemma if_eq_Some: "(if b then x else y) = Some r \<longleftrightarrow> b \<and> x = Some r \<or> \<not> b \<and> y = Some r"
  by simp

lemma case_option_eq_Some:
  "(case x of None \<Rightarrow> y | Some a \<Rightarrow> f a) = Some r \<longleftrightarrow> x = None \<and> y = Some r \<or> (\<exists>a. x = Some a \<and> f a = Some r)"
  by (cases x) auto

lemmas some_convs = bind_eq_Some_conv case_prod_eq_Some if_eq_Some case_option_eq_Some Let_def

lemma alloc_same: "ramfs_alloc_inode t m s = (p, s') \<Longrightarrow> same_tables s s'"
  by (auto simp: ramfs_alloc_inode_def split: prod.splits if_splits
      dest!: kmalloc_same intro: same_tables_trans)

lemma create_same: "ramfs_create dir nm m s = Some (r, node, s') \<Longrightarrow> same_tables s s'"
  by (auto simp: ramfs_create_def some_convs dest!: kmalloc_same alloc_same intro: same_tables_trans)

lemma lookup_same: "ramfs_lookup dir nm s = Some (p, s') \<Longrightarrow> same_tables s s'"
  by (auto simp: ramfs_lookup_def some_convs)

lemma walk_same: "walk_path p cur s = Some (r, s') \<Longrightarrow> same_tables s s'"
proof (induction p cur s rule: walk_path.induct)
  case (1 p cur s)
  obtain nm rest where c: "take_component NAME_MAX (skip_slashes p) = (nm, rest)" by force
  show ?case
    using "1.prems" "1.IH" c lookup_same
    by (subst (asm) walk_path.simps) (fastforce split: if_splits option.splits intro: same_tables_trans)
qed

lemma by_path_same: "ramfs_get_inode_by_path root p s = Some (r, s') \<Longrightarrow> same_tables s s'"
  by (auto simp: ramfs_get_inode_by_path_def split: if_splits intro: walk_same)

lemma parent_same: "ramfs_parent root p s = Some (r, b, s') \<Longrightarrow> same_tables s s'"
  by (auto simp: ramfs_parent_def some_convs intro: by_path_same)

lemma truncate_same: "ramfs_truncate p k s = Some (r, s') \<Longrightarrow> same_tables s s'"
  by (auto simp: ramfs_truncate_def some_convs dest!: kmalloc_same)

lemma open_node_same: "ramfs_open_node root p fl m s = Some (r, s') \<Longrightarrow> same_tables s s'"
  by (auto simp: ramfs_open_node_def some_convs
      dest!: by_path_same parent_same create_same intro: same_tables_trans)

lemma fs_open_same:
  assumes "ramfs_fs_open root p fl m f s = Some (r, f', s')"
  shows "same_tables s s'" "f_flags f' = f_flags f" "r = 0 \<or> r = -1" "r = 0 \<longrightarrow> f_ops f'"
proof -
  obtain node s1 where o: "ramfs_open_node root p fl m s = Some (node, s1)"
    and rest: "if node = 0 then r = -1 \<and> f' = f \<and> s' = s1
      else r = 0 \<and> f_ops f' \<and> f_flags f' = f_flags f
        \<and> (s' = s1 \<or> (\<exists>q. ramfs_truncate node 0 s1 = Some (q, s')))"
    using assms by (auto simp: ramfs_fs_open_def some_convs split: if_splits)
  show "same_tables s s'" using rest open_node_same [OF o] truncate_same
    by (auto split: if_splits intro: same_tables_trans)
  show "f_flags f' = f_flags f" "r = 0 \<or> r = -1" "r = 0 \<longrightarrow> f_ops f'" using rest by (auto split: if_splits)
qed

text \<open>C36. Opening a file takes the lowest free descriptor and touches no other one; a failed open leaves
  the table as it was.  Closing the descriptor gives the table back.\<close>

theorem vfs_open_close_fd:
  assumes "vfs_open path flags m s = Some (r, s')"
  shows "(r = -1 \<and> fd_table s' = fd_table s)
    \<or> (\<exists>fd f. r = int fd \<and> fd < FD_MAX \<and> fd_table s fd = None \<and> (\<forall>j<fd. fd_table s j \<noteq> None)
         \<and> fd_table s' = (fd_table s)(fd := Some f) \<and> f_flags f = flags \<and> f_ops f
         \<and> fst (vfs_close r s') = 0 \<and> fd_table (snd (vfs_close r s')) = fd_table s)"
proof (cases "find_mount path s")
  case None
  then show ?thesis using assms by (simp add: vfs_open_def)
next
  case (Some mr)
  obtain mnt rest where mnt: "find_mount path s = Some (mnt, rest)" using Some by (cases mr) auto
  obtain p s1 where k: "fs_kmalloc sizeof_file s = (p, s1)" by (cases "fs_kmalloc sizeof_file s")
  note t1 = fs_kmalloc_frame [OF k]
  let ?f = "\<lparr>f_inode = 0, f_pos = 0, f_flags = flags, f_ref_count = 1, f_ops = False\<rparr>"
  consider "r = -1 \<and> fd_table s' = fd_table s"
    | fd q f s2 where "find_free_fd FD_MAX 0 (fd_table s1) = Some fd"
        "ramfs_fs_open (m_root mnt) rest flags m ?f (set_fd fd (Some ?f) s1) = Some (q, f, s2)"
        "(r, s') = (if q < 0 then (-1, set_fd fd None s2) else (int fd, set_fd fd (Some f) s2))"
    using assms t1 by (auto simp: vfs_open_def mnt k some_convs split: if_splits)
  then show ?thesis
  proof cases
    case 2
    note fd = find_free_fd_Some [OF 2(1)]
    note O = fs_open_same [OF 2(2)]
    have tab: "fd_table s2 = (fd_table s)(fd := Some ?f)"
      using O(1) t1 by (simp add: same_tables_def set_fd_def)
    have free: "fd_table s fd = None" "\<forall>j<fd. fd_table s j \<noteq> None" "fd < FD_MAX" using fd t1 by auto
    show ?thesis
    proof (cases "q < 0")
      case True
      then show ?thesis using 2(3) tab free by (auto simp: set_fd_def)
    next
      case False
      then have r: "r = int fd" "s' = set_fd fd (Some f) s2" "q = 0" using 2(3) O(3) by auto
      have c: "fst (vfs_close r s') = 0" "fd_table (snd (vfs_close r s')) = fd_table s"
        using free tab by (auto simp: vfs_close_def fd_file_def r set_fd_def)
      have "fd_table s' = (fd_table s)(fd := Some f)" using tab r by (simp add: set_fd_def)
      then show ?thesis using c free r(1,3) O(2,4) by auto
    qed
  qed simp
qed

theorem vfs_open_close_fd_witness:
  "\<exists>s'. vfs_open [47, 97] O_CREAT 0 demo_mounts = Some (0, s') \<and> fst (vfs_close 0 s') = 0
     \<and> fd_table (snd (vfs_close 0 s')) = fd_table demo_mounts"
proof -
  have "map_option fst (vfs_open [47, 97] O_CREAT 0 demo_mounts) = Some 0" by code_simp
  then obtain s' where "vfs_open [47, 97] O_CREAT 0 demo_mounts = Some (0, s')" by auto
  from vfs_open_close_fd [OF this] this show ?thesis by auto
qed

section \<open>Writing and reading back\<close>

text \<open>C21. A write through a descriptor puts the bytes into the file at its position, filling a gap behind
  the end with zeros, and changes no other inode, or it fails and changes nothing; seeking back
  and reading gives the bytes written.\<close>

theorem vfs_write_read_back:
  assumes "fd_file fd s = Some f" "f_ops f" "inodes s (f_inode f) = Some n" "inode_ok n"
    and "unat (f_pos f) + length xs < 2147483648"
  shows "\<exists>r s'. vfs_write fd xs s = Some (r, s')
    \<and> (if r = -1 then inodes s' = inodes s \<and> fd_table s' = fd_table s
       else r = of_nat (length xs)
         \<and> (\<exists>n'. inodes s' = (inodes s)(f_inode f \<mapsto> n') \<and> inode_ok n'
              \<and> i_contents n' = write_at (i_contents n) (unat (f_pos f)) xs)
         \<and> (\<exists>s''. vfs_read fd (of_nat (length xs)) (snd (vfs_seek fd (f_pos f) SEEK_SET s'))
                = Some (of_nat (length xs), xs, s'')))"
proof -
  obtain r f' s1 where w: "ramfs_file_write f xs s = Some (r, f', s1)" "fd_table s1 = fd_table s"
    "if r = -1 then f' = f \<and> inodes s1 = inodes s
     else r = of_nat (length xs) \<and> f' = f\<lparr>f_pos := f_pos f + of_nat (length xs)\<rparr>
         \<and> (\<exists>n'. inodes s1 = (inodes s)(f_inode f \<mapsto> n') \<and> inode_ok n'
              \<and> i_contents n' = write_at (i_contents n) (unat (f_pos f)) xs)"
    using ramfs_file_write_ok [OF assms(3-5)] by blast
  have fd: "0 \<le> fd" "fd < int FD_MAX" "fd_table s (nat fd) = Some f"
    using assms(1) by (simp_all add: fd_file_def split: if_splits)
  let ?s = "set_fd (nat fd) (Some f') s1"
  have vw: "vfs_write fd xs s = Some (r, ?s)" using assms(1,2) w(1) by (simp add: vfs_write_def)
  show ?thesis
  proof (cases "r = -1")
    case True
    then show ?thesis using vw w fd by (auto simp: set_fd_def)
  next
    case False
    then obtain n' where n': "r = of_nat (length xs)" "f' = f\<lparr>f_pos := f_pos f + of_nat (length xs)\<rparr>"
      "inodes s1 = (inodes s)(f_inode f \<mapsto> n')" "inode_ok n'"
      "i_contents n' = write_at (i_contents n) (unat (f_pos f)) xs" using w(3) by auto
    let ?g = "f\<lparr>f_pos := f_pos f\<rparr>" let ?sk = "snd (vfs_seek fd (f_pos f) SEEK_SET ?s)"
    have sk: "fd_file fd ?sk = Some ?g" "inodes ?sk = inodes s1"
      using fd n'(2) by (simp_all add: vfs_seek_def fd_file_def set_fd_def)
    have l: "unat (of_nat (length xs) :: u32) = length xs" using assms(5) by (simp add: unat_of_nat)
    obtain k g where "ramfs_file_read ?g (of_nat (length xs)) ?sk = Some (k, xs, g)" "unat k = length xs"
      using ramfs_file_read_ok [of ?sk ?g n' "of_nat (length xs)"] sk(2) n'(3-5) l write_at_read by auto
    moreover from this(2) have "k = of_nat (length xs)" by (metis word_unat_eq_iff l)
    ultimately have "\<exists>s''. vfs_read fd (of_nat (length xs)) ?sk = Some (of_nat (length xs), xs, s'')"
      using sk(1) assms(2) by (simp add: vfs_read_def)
    then show ?thesis using vw False n' by (auto simp: set_fd_def)
  qed
qed

definition demo_open :: fsys where
  "demo_open = demo_fs\<lparr>fd_table := (\<lambda>_. None)(3 := Some (at_pos 0x200000 2))\<rparr>"

theorem vfs_write_read_back_witness:
  "\<exists>s' s''. vfs_write 3 [7, 8] demo_open = Some (2, s') \<and> vfs_read 3 2 (snd (vfs_seek 3 2 SEEK_SET s')) = Some (2, [7, 8], s'')
     \<and> (\<exists>n'. inodes s' 0x200000 = Some n' \<and> i_contents n' = [0, 0, 7, 8])"
proof -
  have r: "map_option fst (vfs_write 3 [7, 8] demo_open) = Some 2" by code_simp
  have two: "replicate 2 (0::u8) = [0, 0]" by (simp add: numeral_2_eq_2)
  have f: "fd_file 3 demo_open = Some (at_pos 0x200000 2)" by (simp add: demo_open_def fd_file_def FD_MAX_def)
  have i: "inodes demo_open (f_inode (at_pos 0x200000 2)) = inodes demo_fs 0x200000"
    by (simp add: demo_open_def at_pos_def)
  show ?thesis
    using vfs_write_read_back [OF f _ i [unfolded demo_fs_simps], of "[7, 8]"] r
    by (auto simp: at_pos_def inode_ok_def i_contents_def write_at_def two)
qed

end
