(* ===== verification/Net.thy ===== *)
theory Net
  imports Printf
begin

text \<open>
  The network stack: \<^verbatim>\<open>include/net/net.h\<close> and \<^verbatim>\<open>kernel/net/{net,netif,eth,arp,ip,icmp}.c\<close>.

  A received frame is the bytes of the buffer from the frame on, which may go on behind the frame;
  the length is a separate argument, as in the code, and reading behind the buffer is \<open>None\<close>.
  The machine is little-endian: a header field of 16 or 32 bits is its bytes from the low one up.
  An interface pointer is the index of the interface in the table of registered interfaces; what
  the cards put on the wire is the list of frames in \<open>wire\<close>.  Log messages are not modelled.
\<close>

section \<open>Constants and byte order\<close>

definition ETH_ALEN :: nat where "ETH_ALEN = 6"
definition ETH_MTU :: nat where "ETH_MTU = 1500"
definition ETH_FRAME_MAX :: nat where "ETH_FRAME_MAX = 1518"
definition ETH_TYPE_ARP :: u16 where "ETH_TYPE_ARP = 0x0806"
definition ETH_TYPE_IP :: u16 where "ETH_TYPE_IP = 0x0800"
definition ETH_BROADCAST :: bytes where "ETH_BROADCAST = [0xFF, 0xFF, 0xFF, 0xFF, 0xFF, 0xFF]"

definition IP4 :: "u8 \<Rightarrow> u8 \<Rightarrow> u8 \<Rightarrow> u8 \<Rightarrow> u32" where
  "IP4 a b c d = push_bit 24 (ucast a) OR push_bit 16 (ucast b) OR push_bit 8 (ucast c) OR ucast d"

definition IP4_BROADCAST :: u32 where "IP4_BROADCAST = IP4 255 255 255 255"
definition IP_PROTO_ICMP :: u8 where "IP_PROTO_ICMP = 1"
definition IP_PROTO_TCP :: u8 where "IP_PROTO_TCP = 6"
definition IP_PROTO_UDP :: u8 where "IP_PROTO_UDP = 17"
definition IP4_DF_FLAG :: u16 where "IP4_DF_FLAG = 0x4000"
definition IP4_DEFAULT_TTL :: u8 where "IP4_DEFAULT_TTL = 64"
definition ICMP_ECHO_REPLY :: u8 where "ICMP_ECHO_REPLY = 0"
definition ICMP_ECHO_REQUEST :: u8 where "ICMP_ECHO_REQUEST = 8"
definition ARP_REQUEST :: u16 where "ARP_REQUEST = 1"
definition ARP_REPLY :: u16 where "ARP_REPLY = 2"
definition ARP_HW_ETH :: u16 where "ARP_HW_ETH = 1"
definition NETIF_MAX :: nat where "NETIF_MAX = 4"
definition NETIF_UP :: u32 where "NETIF_UP = BIT 0"

definition htons :: "u16 \<Rightarrow> u16" where
  "htons v = drop_bit 8 v OR push_bit 8 v"

definition ntohs :: "u16 \<Rightarrow> u16" where "ntohs v = htons v"

definition htonl :: "u32 \<Rightarrow> u32" where
  "htonl v = (drop_bit 24 v AND 0xFF) OR push_bit 8 (drop_bit 16 v AND 0xFF)
     OR push_bit 16 (drop_bit 8 v AND 0xFF) OR push_bit 24 (v AND 0xFF)"

definition ntohl :: "u32 \<Rightarrow> u32" where "ntohl v = htonl v"

text \<open>Fields in memory.\<close>

definition le16 :: "u16 \<Rightarrow> bytes" where
  "le16 v = [ucast v, ucast (drop_bit 8 v)]"

definition le32 :: "u32 \<Rightarrow> bytes" where
  "le32 v = [ucast v, ucast (drop_bit 8 v), ucast (drop_bit 16 v), ucast (drop_bit 24 v)]"

definition join16 :: "u8 \<Rightarrow> u8 \<Rightarrow> u16" where
  "join16 a b = ucast a OR push_bit 8 (ucast b)"

definition join32 :: "u8 \<Rightarrow> u8 \<Rightarrow> u8 \<Rightarrow> u8 \<Rightarrow> u32" where
  "join32 a b c d = ucast a OR push_bit 8 (ucast b) OR push_bit 16 (ucast c) OR push_bit 24 (ucast d)"

definition rd16 :: "bytes \<Rightarrow> nat \<Rightarrow> u16" where
  "rd16 b i = join16 (b ! i) (b ! (i + 1))"

definition rd32 :: "bytes \<Rightarrow> nat \<Rightarrow> u32" where
  "rd32 b i = join32 (b ! i) (b ! (i + 1)) (b ! (i + 2)) (b ! (i + 3))"

section \<open>Headers\<close>

record eth_header =
  eth_dst :: bytes
  eth_src :: bytes
  eth_type :: u16

record ip4_header =
  ihl_ver :: u8
  tos :: u8
  total_len :: u16
  ip_id :: u16
  frag_off :: u16
  ttl :: u8
  protocol :: u8
  ip_checksum :: u16
  ip_src :: u32
  ip_dst :: u32

record icmp_header =
  icmp_type :: u8
  icmp_code :: u8
  icmp_sum :: u16
  icmp_id :: u16
  icmp_seq :: u16

record arp_packet =
  hw_type :: u16
  pro_type :: u16
  hw_size :: u8
  pro_size :: u8
  arp_opcode :: u16
  sender_mac :: bytes
  sender_ip :: u32
  target_mac :: bytes
  target_ip :: u32

definition SIZE_ETH :: nat where "SIZE_ETH = 14"
definition SIZE_IP4 :: nat where "SIZE_IP4 = 20"
definition SIZE_ICMP :: nat where "SIZE_ICMP = 8"
definition SIZE_ARP :: nat where "SIZE_ARP = 28"

definition eth_bytes :: "eth_header \<Rightarrow> bytes" where
  "eth_bytes h = eth_dst h @ eth_src h @ le16 (eth_type h)"

definition read_eth :: "bytes \<Rightarrow> eth_header option" where
  "read_eth b = (if length b < SIZE_ETH then None
     else Some \<lparr>eth_dst = take 6 b, eth_src = take 6 (drop 6 b), eth_type = rd16 b 12\<rparr>)"

definition ip4_bytes :: "ip4_header \<Rightarrow> bytes" where
  "ip4_bytes h = [ihl_ver h, tos h] @ le16 (total_len h) @ le16 (ip_id h) @ le16 (frag_off h)
     @ [ttl h, protocol h] @ le16 (ip_checksum h) @ le32 (ip_src h) @ le32 (ip_dst h)"

definition read_ip4 :: "bytes \<Rightarrow> ip4_header option" where
  "read_ip4 b = (if length b < SIZE_IP4 then None
     else Some \<lparr>ihl_ver = b ! 0, tos = b ! 1, total_len = rd16 b 2, ip_id = rd16 b 4, frag_off = rd16 b 6,
       ttl = b ! 8, protocol = b ! 9, ip_checksum = rd16 b 10, ip_src = rd32 b 12, ip_dst = rd32 b 16\<rparr>)"

definition icmp_bytes :: "icmp_header \<Rightarrow> bytes" where
  "icmp_bytes h = [icmp_type h, icmp_code h] @ le16 (icmp_sum h) @ le16 (icmp_id h) @ le16 (icmp_seq h)"

definition read_icmp :: "bytes \<Rightarrow> icmp_header option" where
  "read_icmp b = (if length b < SIZE_ICMP then None
     else Some \<lparr>icmp_type = b ! 0, icmp_code = b ! 1, icmp_sum = rd16 b 2, icmp_id = rd16 b 4, icmp_seq = rd16 b 6\<rparr>)"

definition arp_bytes :: "arp_packet \<Rightarrow> bytes" where
  "arp_bytes h = le16 (hw_type h) @ le16 (pro_type h) @ [hw_size h, pro_size h] @ le16 (arp_opcode h)
     @ sender_mac h @ le32 (sender_ip h) @ target_mac h @ le32 (target_ip h)"

definition read_arp :: "bytes \<Rightarrow> arp_packet option" where
  "read_arp b = (if length b < SIZE_ARP then None
     else Some \<lparr>hw_type = rd16 b 0, pro_type = rd16 b 2, hw_size = b ! 4, pro_size = b ! 5, arp_opcode = rd16 b 6,
       sender_mac = take 6 (drop 8 b), sender_ip = rd32 b 14, target_mac = take 6 (drop 18 b), target_ip = rd32 b 24\<rparr>)"

definition IP4_IHL :: "ip4_header \<Rightarrow> u8" where "IP4_IHL h = ihl_ver h AND 0x0F"
definition IP4_VERSION :: "ip4_header \<Rightarrow> u8" where "IP4_VERSION h = drop_bit 4 (ihl_ver h) AND 0x0F"

section \<open>Interfaces\<close>

record ip4_config =
  cfg_addr :: u32
  cfg_netmask :: u32
  cfg_gateway :: u32
  cfg_dns :: "u32 list"
  dhcp_enabled :: bool

text \<open>The \<open>transmit\<close> callbacks of the two drivers.\<close>

datatype driver = Virtual_Driver | Rtl8139_Driver

record netif =
  if_name :: bytes
  if_mac :: bytes
  ip_cfg :: ip4_config
  if_flags :: u32
  transmit :: "driver option"
  rx_bytes :: u64
  tx_bytes :: u64
  rx_packets :: u64
  tx_packets :: u64
  tx_errors :: u64

record net =
  interfaces :: "netif list"
  default_iface :: "nat option"
  tx_desc :: nat
  wire :: "bytes list"

definition net0 :: net where
  "net0 = \<lparr>interfaces = [], default_iface = None, tx_desc = 0, wire = []\<rparr>"

definition netif_init :: "net \<Rightarrow> net" where
  "netif_init st = st\<lparr>interfaces := [], default_iface := None\<rparr>"

definition netif_register :: "netif \<Rightarrow> net \<Rightarrow> int \<times> net" where
  "netif_register iface st =
     (if length (interfaces st) \<ge> NETIF_MAX then (-1, st)
      else (0, st\<lparr>interfaces := interfaces st @ [iface],
                  default_iface := (case default_iface st of None \<Rightarrow> Some (length (interfaces st)) | Some d \<Rightarrow> Some d)\<rparr>))"

definition netif_get_default :: "net \<Rightarrow> nat option" where
  "netif_get_default st = default_iface st"

fun by_name_loop :: "netif list \<Rightarrow> nat \<Rightarrow> bytes \<Rightarrow> nat option" where
  "by_name_loop [] i name = None"
| "by_name_loop (n # ns) i name =
     (if strcmp (if_name n @ [0]) (name @ [0]) = Some 0 then Some i else by_name_loop ns (i + 1) name)"

definition netif_by_name :: "bytes \<Rightarrow> net \<Rightarrow> nat option" where
  "netif_by_name name st = by_name_loop (interfaces st) 0 name"

definition put_netif :: "nat \<Rightarrow> netif \<Rightarrow> net \<Rightarrow> net" where
  "put_netif i n st = st\<lparr>interfaces := (interfaces st)[i := n]\<rparr>"

text \<open>The transmit functions: the virtual interface drops the frame, the card takes frames of at most
  1792 bytes into its next buffer.\<close>

fun driver_transmit :: "driver \<Rightarrow> bytes \<Rightarrow> net \<Rightarrow> int \<times> net" where
  "driver_transmit Virtual_Driver frame st = (0, st)"
| "driver_transmit Rtl8139_Driver frame st =
     (if length frame > 1792 then (-1, st)
      else (0, st\<lparr>wire := wire st @ [frame], tx_desc := (tx_desc st + 1) mod 4\<rparr>))"

definition netif_send :: "nat option \<Rightarrow> bytes \<Rightarrow> net \<Rightarrow> int \<times> net" where
  "netif_send iface frame st =
     (case iface of
        None \<Rightarrow> (-1, st)
      | Some i \<Rightarrow>
          (let n = interfaces st ! i
           in case transmit n of
                None \<Rightarrow> (-1, st)
              | Some d \<Rightarrow>
                  if if_flags n AND NETIF_UP = 0 then (-1, st)
                  else (let (ret, st) = driver_transmit d frame st;
                            n = interfaces st ! i
                        in (ret, put_netif i
                              (if ret = 0
                               then n\<lparr>tx_packets := tx_packets n + 1, tx_bytes := tx_bytes n + of_nat (length frame)\<rparr>
                               else n\<lparr>tx_errors := tx_errors n + 1\<rparr>) st))))"

definition virtual_netif :: netif where
  "virtual_netif = \<lparr>if_name = [100, 101, 109, 111], if_mac = [0, 0, 0, 0, 0, 0],
     ip_cfg = \<lparr>cfg_addr = IP4 127 0 0 1, cfg_netmask = IP4 255 0 0 0, cfg_gateway = 0, cfg_dns = [0, 0],
       dhcp_enabled = False\<rparr>,
     if_flags = NETIF_UP, transmit = Some Virtual_Driver, rx_bytes = 0, tx_bytes = 0, rx_packets = 0,
     tx_packets = 0, tx_errors = 0\<rparr>"

definition netif_create_virtual :: "net \<Rightarrow> net" where
  "netif_create_virtual st = snd (netif_register virtual_netif st)"

section \<open>Sending\<close>

definition eth_send :: "nat option \<Rightarrow> bytes \<Rightarrow> u16 \<Rightarrow> bytes \<Rightarrow> net \<Rightarrow> int \<times> net" where
  "eth_send iface dst_mac type data st =
     (case iface of
        None \<Rightarrow> (-1, st)
      | Some i \<Rightarrow>
          if length data > ETH_MTU then (-1, st)
          else netif_send iface
                 (eth_bytes \<lparr>eth_dst = dst_mac, eth_src = if_mac (interfaces st ! i), eth_type = htons type\<rparr> @ data) st)"

text \<open>\<open>data\<close> is the source object and \<open>len\<close> the number of bytes of it; the copy goes into a static
  buffer of \<open>ETH_MTU\<close> bytes before any check of the length.\<close>

definition ip4_send :: "u32 \<Rightarrow> u8 \<Rightarrow> bytes \<Rightarrow> u16 \<Rightarrow> net \<Rightarrow> (int \<times> net) option" where
  "ip4_send dst proto data len st =
     (case netif_get_default st of
        None \<Rightarrow> Some (-1, st)
      | Some i \<Rightarrow>
          do { payload \<leftarrow> get_bytes data 0 (unat len);
               if SIZE_IP4 + unat len > ETH_MTU then None
               else Some (eth_send (Some i) ETH_BROADCAST ETH_TYPE_IP
                 (ip4_bytes \<lparr>ihl_ver = push_bit 4 4 OR 5, tos = 0, total_len = htons (20 + len), ip_id = htons 0,
                    frag_off = htons IP4_DF_FLAG, ttl = IP4_DEFAULT_TTL, protocol = proto, ip_checksum = 0,
                    ip_src = cfg_addr (ip_cfg (interfaces st ! i)), ip_dst = dst\<rparr> @ payload) st) })"

section \<open>ICMP\<close>

text \<open>The sum of the 16-bit words, and its folding to 16 bits.\<close>

fun sum_words :: "u32 \<Rightarrow> bytes \<Rightarrow> u32" where
  "sum_words s [] = s"
| "sum_words s [b] = s + ucast b"
| "sum_words s (a # b # bs) = sum_words (s + (ucast a OR push_bit 8 (ucast b))) bs"

lemma fold_sum_step:
  fixes s :: u32
  shows "unat ((s AND 0xFFFF) + drop_bit 16 s) = unat s mod 65536 + unat s div 65536"
proof -
  have a: "unat (s AND 0xFFFF) = unat s mod 65536"
  proof -
    have "(0xFFFF::u32) = mask 16" by (simp add: mask_eq_exp_minus_1)
    then have "s AND 0xFFFF = take_bit 16 s" by (simp add: take_bit_eq_mask)
    then show ?thesis by (simp only: unsigned_take_bit_eq) (simp add: take_bit_eq_mod)
  qed
  have d: "unat (drop_bit 16 s) = unat s div 65536" by (simp only: unat_drop_bit_eq) (simp add: drop_bit_eq_div)
  have "unat s div 65536 < 65536" using unat_u32_bounds(1) [of s] by (simp add: less_mult_imp_div_less)
  moreover have "unat s mod 65536 < 65536" by simp
  ultimately have "unat (s AND 0xFFFF) + unat (drop_bit 16 s) < 4294967296" unfolding a d by linarith
  then show ?thesis using a d by (subst unat_add_lem [THEN iffD1]) simp_all
qed

lemma fold_sum_decreases: "drop_bit 16 (s::u32) \<noteq> 0 \<Longrightarrow> unat ((s AND 0xFFFF) + drop_bit 16 s) < unat s"
proof -
  assume "drop_bit 16 s \<noteq> 0"
  then have "unat (drop_bit 16 s) \<noteq> 0" by (simp only: unat_eq_0) simp
  then have d: "0 < unat s div 65536" by (simp only: unat_drop_bit_eq) (simp add: drop_bit_eq_div)
  have "unat s = unat s div 65536 * 65536 + unat s mod 65536" by simp
  then show ?thesis unfolding fold_sum_step using d by linarith
qed

function fold_sum :: "u32 \<Rightarrow> u32" where
  "fold_sum s = (if drop_bit 16 s = 0 then s else fold_sum ((s AND 0xFFFF) + drop_bit 16 s))"
  by pat_completeness auto
termination by (relation "measure unat") (use fold_sum_decreases in auto)

declare fold_sum.simps [simp del]

definition icmp_checksum :: "bytes \<Rightarrow> u16" where
  "icmp_checksum b = NOT (ucast (fold_sum (sum_words 0 b)))"

definition ping_payload :: bytes where
  "ping_payload = map (\<lambda>i. of_nat (65 + i mod 26)) [0..<32]"

definition icmp_ping :: "u32 \<Rightarrow> u16 \<Rightarrow> u16 \<Rightarrow> net \<Rightarrow> (int \<times> net) option" where
  "icmp_ping dst ident seq st =
     (let h = \<lparr>icmp_type = ICMP_ECHO_REQUEST, icmp_code = 0, icmp_sum = 0, icmp_id = ident, icmp_seq = seq\<rparr>;
          ck = icmp_checksum (icmp_bytes h @ ping_payload)
      in ip4_send dst IP_PROTO_ICMP (icmp_bytes (h\<lparr>icmp_sum := ck\<rparr>) @ ping_payload) 40 st)"

definition icmp_reply :: "icmp_header \<Rightarrow> bytes \<Rightarrow> bytes" where
  "icmp_reply req payload =
     (let h = \<lparr>icmp_type = ICMP_ECHO_REPLY, icmp_code = 0, icmp_sum = 0, icmp_id = icmp_id req, icmp_seq = icmp_seq req\<rparr>;
          ck = icmp_checksum (icmp_bytes h @ payload)
      in icmp_bytes (h\<lparr>icmp_sum := ck\<rparr>) @ payload)"

definition icmp_recv :: "u32 \<Rightarrow> bytes \<Rightarrow> u32 \<Rightarrow> net \<Rightarrow> net option" where
  "icmp_recv src data len st =
     (if len < of_nat SIZE_ICMP then Some st
      else do {
        h \<leftarrow> read_icmp data;
        if icmp_type h = ICMP_ECHO_REQUEST then do {
          let len = (if len > 1024 then 1024 else len);
          payload \<leftarrow> get_bytes data SIZE_ICMP (unat len - SIZE_ICMP);
          map_option snd (ip4_send src IP_PROTO_ICMP (icmp_reply h payload) (ucast len) st) }
        else Some st })"

section \<open>Receiving\<close>

text \<open>UDP and TCP ignore what they receive.\<close>

definition udp_recv :: "u32 \<Rightarrow> bytes \<Rightarrow> u32 \<Rightarrow> net \<Rightarrow> net" where "udp_recv src data len st = st"
definition tcp_recv_packet :: "u32 \<Rightarrow> bytes \<Rightarrow> u32 \<Rightarrow> net \<Rightarrow> net" where "tcp_recv_packet src data len st = st"

definition ip4_recv :: "bytes \<Rightarrow> u32 \<Rightarrow> net \<Rightarrow> net option" where
  "ip4_recv frame len st =
     (if unat len < SIZE_ETH + SIZE_IP4 then Some st
      else do {
        ip \<leftarrow> read_ip4 (drop SIZE_ETH frame);
        if IP4_VERSION ip \<noteq> 4 then Some st
        else case netif_get_default st of
               None \<Rightarrow> Some st
             | Some i \<Rightarrow>
                 if ip_dst ip \<noteq> cfg_addr (ip_cfg (interfaces st ! i)) \<and> ip_dst ip \<noteq> IP4_BROADCAST then Some st
                 else (let header_len = ucast (IP4_IHL ip) * 4 :: u32;
                           payload = drop (SIZE_ETH + unat header_len) frame;
                           payload_len = ucast (ntohs (total_len ip)) - header_len
                       in if protocol ip = IP_PROTO_ICMP then icmp_recv (ip_src ip) payload payload_len st
                          else if protocol ip = IP_PROTO_UDP then Some (udp_recv (ip_src ip) payload payload_len st)
                          else if protocol ip = IP_PROTO_TCP then Some (tcp_recv_packet (ip_src ip) payload payload_len st)
                          else Some st) })"

definition arp_recv :: "bytes \<Rightarrow> u32 \<Rightarrow> net \<Rightarrow> net option" where
  "arp_recv frame len st =
     (if unat len < SIZE_ETH + SIZE_ARP then Some st
      else case netif_get_default st of
             None \<Rightarrow> Some st
           | Some i \<Rightarrow>
               do { arp \<leftarrow> read_arp (drop SIZE_ETH frame);
                    let n = interfaces st ! i;
                    if ntohs (arp_opcode arp) = ARP_REQUEST \<and> target_ip arp = cfg_addr (ip_cfg n)
                    then Some (snd (netif_send (Some i)
                      (eth_bytes \<lparr>eth_dst = sender_mac arp, eth_src = if_mac n, eth_type = htons ETH_TYPE_ARP\<rparr> @
                       arp_bytes \<lparr>hw_type = htons ARP_HW_ETH, pro_type = htons ETH_TYPE_IP, hw_size = 6, pro_size = 4,
                         arp_opcode = htons ARP_REPLY, sender_mac = if_mac n, sender_ip = cfg_addr (ip_cfg n),
                         target_mac = sender_mac arp, target_ip = sender_ip arp\<rparr>) st))
                    else Some st })"

definition eth_recv :: "nat \<Rightarrow> bytes \<Rightarrow> u32 \<Rightarrow> net \<Rightarrow> net option" where
  "eth_recv i frame len st =
     (if unat len < SIZE_ETH then Some st
      else do {
        h \<leftarrow> read_eth frame;
        if eth_dst h \<noteq> if_mac (interfaces st ! i) \<and> eth_dst h \<noteq> ETH_BROADCAST then Some st
        else if ntohs (eth_type h) = ETH_TYPE_ARP then arp_recv frame len st
        else if ntohs (eth_type h) = ETH_TYPE_IP then ip4_recv frame len st
        else Some st })"

definition netif_recv :: "nat \<Rightarrow> bytes \<Rightarrow> u32 \<Rightarrow> net \<Rightarrow> net option" where
  "netif_recv i frame len st =
     (let n = interfaces st ! i
      in eth_recv i frame len
           (put_netif i (n\<lparr>rx_packets := rx_packets n + 1, rx_bytes := rx_bytes n + ucast len\<rparr>) st))"

section \<open>Addresses as text\<close>

fun octet_loop :: "bytes \<Rightarrow> u8 \<Rightarrow> u8 \<times> bytes" where
  "octet_loop [] octet = (octet, [])"
| "octet_loop (c # s) octet = (if is_digit c then octet_loop s (octet * 10 + (c - 48)) else (octet, c # s))"

text \<open>The string is its bytes before the terminator; \<open>k\<close> octets are still to be read.\<close>

fun parse_octets :: "nat \<Rightarrow> bytes \<Rightarrow> bytes option" where
  "parse_octets 0 str = Some []"
| "parse_octets (Suc k) str =
     (if str = [] \<or> \<not> is_digit (hd str) then None
      else (case octet_loop str 0 of
              (octet, []) \<Rightarrow> if k = 0 then Some [octet] else None
            | (octet, c # str) \<Rightarrow> if c = 46 then map_option (Cons octet) (parse_octets k str) else None))"

definition ip4_parse :: "bytes \<Rightarrow> u32 option" where
  "ip4_parse str =
     (case parse_octets 4 str of
        Some [a, b, c, d] \<Rightarrow> Some (IP4 a b c d)
      | _ \<Rightarrow> None)"

definition ip4_format :: bytes where
  "ip4_format = [37, 117, 46, 37, 117, 46, 37, 117, 46, 37, 117, 0]"

text \<open>The text is stored in a static buffer of 16 bytes.\<close>

definition ip4_to_str :: "u32 \<Rightarrow> bytes \<Rightarrow> bytes option" where
  "ip4_to_str ip buf =
     do { (r, _) \<leftarrow> ksnprintf (Some buf) 16 ip4_format
            [Arg32 (drop_bit 24 ip AND 0xFF), Arg32 (drop_bit 16 ip AND 0xFF),
             Arg32 (drop_bit 8 ip AND 0xFF), Arg32 (ip AND 0xFF)];
          r }"

section \<open>Stubs\<close>

definition dhcp_discover :: int where "dhcp_discover = -1"
definition dhcp_is_configured :: bool where "dhcp_is_configured = False"
definition dns_resolve :: "bytes \<Rightarrow> int" where "dns_resolve hostname = -1"
text \<open>The configuration \<open>start_networking\<close> of \<^verbatim>\<open>kernel.c\<close> ends with, DHCP being a stub.\<close>

definition start_networking :: "net \<Rightarrow> net" where
  "start_networking st =
     (let st = (if netif_get_default st = None then netif_create_virtual st else st)
      in case netif_get_default st of
           None \<Rightarrow> st
         | Some i \<Rightarrow>
             if dhcp_discover \<noteq> 0
             then put_netif i ((interfaces st ! i)\<lparr>ip_cfg := \<lparr>cfg_addr = IP4 10 0 2 15,
                    cfg_netmask = IP4 255 255 255 0, cfg_gateway = IP4 10 0 2 2,
                    cfg_dns = [IP4 8 8 8 8, IP4 0 0 0 0], dhcp_enabled = False\<rparr>\<rparr>) st
             else st)"

end
