(* ===== verification/Net_Spec.thy ===== *)
theory Net_Spec
  imports Net Printf_Spec
begin

text \<open>
  The network stack: headers and addresses read back as they were written, the ICMP checksum, the
  answer to an echo request, and the address comparison that mixes byte orders.
\<close>

section \<open>Fields in memory\<close>

lemma join16_bytes [simp]: "join16 (ucast v) (ucast (drop_bit 8 v)) = v"
proof (rule bit_word_eqI)
  fix n assume "n < LENGTH(16)"
  then show "bit (join16 (ucast v) (ucast (drop_bit 8 v))) n = bit v n"
    by (cases "n < 8") (auto simp: join16_def bit_simps not_less)
qed

lemma join32_bytes [simp]: "join32 (ucast v) (ucast (drop_bit 8 v)) (ucast (drop_bit 16 v)) (ucast (drop_bit 24 v)) = v"
proof (rule bit_word_eqI)
  fix n assume "n < LENGTH(32)"
  then have "n < 8 \<or> 8 \<le> n \<and> n < 16 \<or> 16 \<le> n \<and> n < 24 \<or> 24 \<le> n \<and> n < 32" by auto
  then show "bit (join32 (ucast v) (ucast (drop_bit 8 v)) (ucast (drop_bit 16 v)) (ucast (drop_bit 24 v))) n = bit v n"
    by (auto simp: join32_def bit_simps)
qed

lemma htons_htons [simp]: "htons (htons v) = v"
proof (rule bit_word_eqI)
  fix n assume "n < LENGTH(16)"
  then show "bit (htons (htons v)) n = bit v n"
    by (cases "n < 8") (auto simp: htons_def bit_simps not_less)
qed

lemma length_le [simp]: "length (le16 v) = 2" "length (le32 a) = 4"
  by (simp_all add: le16_def le32_def)

lemma length_headers [simp]:
  "length (ip4_bytes ip) = SIZE_IP4" "length (icmp_bytes ic) = SIZE_ICMP"
  "length (eth_dst e) = 6 \<Longrightarrow> length (eth_src e) = 6 \<Longrightarrow> length (eth_bytes e) = SIZE_ETH"
  by (simp_all add: ip4_bytes_def icmp_bytes_def eth_bytes_def SIZE_IP4_def SIZE_ICMP_def SIZE_ETH_def)

lemma read_ip4_bytes [simp]: "read_ip4 (ip4_bytes ip @ r) = Some ip"
  by (cases ip) (simp add: read_ip4_def ip4_bytes_def SIZE_IP4_def le16_def le32_def rd16_def rd32_def)

lemma read_icmp_bytes [simp]: "read_icmp (icmp_bytes ic @ r) = Some ic"
  by (cases ic) (simp add: read_icmp_def icmp_bytes_def SIZE_ICMP_def le16_def rd16_def)

lemma read_eth_bytes [simp]:
  assumes "length (eth_dst e) = 6" "length (eth_src e) = 6"
  shows "read_eth (eth_bytes e @ r) = Some e"
proof -
  obtain a1 a2 a3 a4 a5 a6 where a: "eth_dst e = [a1, a2, a3, a4, a5, a6]"
    using assms(1) by (auto simp: length_Suc_conv eval_nat_numeral)
  obtain b1 b2 b3 b4 b5 b6 where b: "eth_src e = [b1, b2, b3, b4, b5, b6]"
    using assms(2) by (auto simp: length_Suc_conv eval_nat_numeral)
  show ?thesis using a b by (cases e) (simp add: read_eth_def eth_bytes_def SIZE_ETH_def le16_def rd16_def)
qed

section \<open>The checksum\<close>

text \<open>The 16-bit words of a packet, as a natural number; folding keeps the sum modulo 65535.\<close>

fun word_sum :: "bytes \<Rightarrow> nat" where
  "word_sum [] = 0"
| "word_sum [b] = unat b"
| "word_sum (a # b # bs) = unat a + 256 * unat b + word_sum bs"

lemma word_sum_bound: "word_sum bs \<le> 65535 * length bs"
proof (induction bs rule: word_sum.induct)
  case (2 b)
  have "unat b \<le> 65535" by (rule order_trans [OF unat_u8_bounds(2)]) simp
  then show ?case by simp
next
  case (3 a b bs)
  have "unat a \<le> 255" "unat b \<le> 255" by simp_all
  then have "unat a + 256 * unat b + word_sum bs \<le> 131070 + 65535 * length bs" using 3 by linarith
  then show ?case by simp
qed simp

lemma unat_join: "unat (ucast a OR push_bit 8 (ucast b) :: u32) = unat (a::u8) + 256 * unat (b::u8)"
proof -
  have "ucast a OR push_bit 8 (ucast b) = (ucast a + push_bit 8 (ucast b) :: u32)"
    by (subst disjunctive_add) (auto simp: bit_simps dest: bit_imp_le_length)
  also have "\<dots> = of_nat (unat a + 256 * unat b)" by (simp add: push_bit_eq_mult ac_simps)
  also have "unat \<dots> = unat a + 256 * unat b"
  proof -
    have "unat a \<le> 255" "unat b \<le> 255" by simp_all
    then have "unat a + 256 * unat b < 4294967296" by linarith
    then show ?thesis by (simp only: unat_of_nat) simp
  qed
  finally show ?thesis .
qed

lemma sum_words_eq: "unat s + word_sum bs < 4294967296 \<Longrightarrow> unat (sum_words s bs) = unat s + word_sum bs"
proof (induction s bs rule: sum_words.induct)
  case (2 s b)
  have "unat (s + of_nat (unat b)) = unat s + unat b" using 2 by (intro unat_add_small) simp
  then show ?case by simp
next
  case (3 s a b bs)
  have "unat (s + of_nat (unat (ucast a OR push_bit 8 (ucast b) :: u32))) = unat s + (unat a + 256 * unat b)"
    using 3(2) by (subst unat_add_small) (simp_all add: unat_join)
  then have "unat (s + (ucast a OR push_bit 8 (ucast b))) = unat s + (unat a + 256 * unat b)" by simp
  then show ?case using 3 by simp
qed simp

lemma fold_sum_mod: "unat (fold_sum s) < 65536 \<and> unat (fold_sum s) mod 65535 = unat s mod 65535 \<and> (s \<noteq> 0 \<longrightarrow> fold_sum s \<noteq> 0)"
proof (induction s rule: fold_sum.induct)
  case (1 s)
  show ?case
  proof (cases "drop_bit 16 s = 0")
    case True
    then have "unat (drop_bit 16 s) = 0" by simp
    then have "unat s div 65536 = 0" by (simp only: unat_drop_bit_eq) (simp add: drop_bit_eq_div)
    then show ?thesis using True by (simp add: fold_sum.simps [of s] div_eq_0_iff)
  next
    case False
    let ?t = "(s AND 0xFFFF) + drop_bit 16 s"
    note st = fold_sum_step [of s]
    have m: "unat ?t mod 65535 = unat s mod 65535"
    proof -
      have "unat s = unat s div 65536 * 65536 + unat s mod 65536" by simp
      then have "unat s = unat ?t + 65535 * (unat s div 65536)" unfolding st by linarith
      then show ?thesis by (metis mod_mult_self2)
    qed
    have "unat (drop_bit 16 s) \<noteq> 0" using False by (simp only: unat_eq_0) simp
    then have "0 < unat s div 65536" by (simp only: unat_drop_bit_eq) (simp add: drop_bit_eq_div)
    then have "unat ?t \<noteq> 0" unfolding st by simp
    then have "?t \<noteq> 0" by (simp only: unat_eq_0) simp
    then show ?thesis using 1 [OF False] m False by (simp add: fold_sum.simps [of s])
  qed
qed

lemma unat_not16: "unat (NOT (x::u16)) = 65535 - unat x"
proof -
  have m: "unat (-1::u16) = 65535" by (simp add: unsigned_minus_1_eq_mask mask_eq_exp_minus_1)
  have "NOT x = -1 - x" by (simp add: not_eq_complement)
  moreover have "unat (-1 - x) = unat (-1::u16) - unat x" by (rule unat_sub) simp
  ultimately show ?thesis using m by simp
qed

lemma unat_checksum:
  assumes "length b \<le> 65535"
  shows "unat (icmp_checksum b) = 65535 - unat (fold_sum (sum_words 0 b))"
    "unat (fold_sum (sum_words 0 b)) \<le> 65535"
    "unat (fold_sum (sum_words 0 b)) mod 65535 = word_sum b mod 65535"
    "0 < word_sum b \<Longrightarrow> 0 < unat (fold_sum (sum_words 0 b))"
proof -
  have "65535 * length b < 4294967296" using assms by simp
  then have "unat (0::u32) + word_sum b < 4294967296" using word_sum_bound [of b] by simp
  from sum_words_eq [OF this] have s: "unat (sum_words 0 b) = word_sum b" by simp
  note F = fold_sum_mod [of "sum_words 0 b"]
  show le: "unat (fold_sum (sum_words 0 b)) \<le> 65535" using F by simp
  show "unat (fold_sum (sum_words 0 b)) mod 65535 = word_sum b mod 65535" using F s by simp
  have "unat (ucast (fold_sum (sum_words 0 b)) :: u16) = unat (fold_sum (sum_words 0 b))"
    using F by (simp add: unsigned_ucast_eq take_bit_nat_eq_self)
  then show "unat (icmp_checksum b) = 65535 - unat (fold_sum (sum_words 0 b))"
    by (simp add: icmp_checksum_def unat_not16)
  show "0 < unat (fold_sum (sum_words 0 b))" if "0 < word_sum b"
    using F s that by (metis neq0_conv unat_0 unat_eq_0)
qed

text \<open>The checksum stored in a packet completes the sum of its words to a positive multiple of 65535.\<close>

lemma word_sum_le16: "word_sum (le16 v @ r) = unat v + word_sum r"
proof -
  have "unat (ucast v :: u8) = unat v mod 256" by (simp add: unsigned_ucast_eq take_bit_eq_mod)
  moreover have "unat (drop_bit 8 v) = unat v div 256" by (simp only: unat_drop_bit_eq) (simp add: drop_bit_eq_div)
  then have "unat (ucast (drop_bit 8 v) :: u8) = unat v div 256 mod 256"
    by (simp only: unsigned_ucast_eq) (simp add: take_bit_eq_mod)
  moreover have "unat v div 256 < 256" using unat_u16_bounds(1) [of v] by (simp add: less_mult_imp_div_less)
  ultimately have "unat (ucast v :: u8) + 256 * unat (ucast (drop_bit 8 v) :: u8) = unat v" by simp
  then show ?thesis by (simp add: le16_def)
qed

lemma word_sum_icmp:
  "word_sum (icmp_bytes h @ p) = unat (icmp_type h) + 256 * unat (icmp_code h) + unat (icmp_sum h)
     + unat (icmp_id h) + unat (icmp_seq h) + word_sum p"
  by (simp add: icmp_bytes_def word_sum_le16)

lemma complement_sum: "(f::nat) \<le> m \<Longrightarrow> f mod m = w mod m \<Longrightarrow> (w + (m - f)) mod m = 0"
  by (metis le_add_diff_inverse mod_add_left_eq mod_self)

lemma checksum_completes:
  fixes h :: icmp_header
  assumes "length p \<le> 65000"
  defines "c \<equiv> icmp_bytes (h\<lparr>icmp_sum := icmp_checksum (icmp_bytes (h\<lparr>icmp_sum := 0\<rparr>) @ p)\<rparr>) @ p"
  shows "word_sum c mod 65535 = 0" "0 < word_sum c"
proof -
  let ?b = "icmp_bytes (h\<lparr>icmp_sum := 0\<rparr>) @ p"
  have l: "length ?b \<le> 65535" using assms(1) by (simp add: SIZE_ICMP_def)
  note B = unat_checksum [OF l]
  let ?f = "unat (fold_sum (sum_words 0 ?b))"
  have s: "word_sum c = word_sum ?b + (65535 - ?f)" unfolding c_def using B(1) by (simp add: word_sum_icmp)
  show "word_sum c mod 65535 = 0" unfolding s by (rule complement_sum [OF B(2,3)])
  show "0 < word_sum c"
  proof (cases "0 < word_sum ?b")
    case True
    then show ?thesis unfolding s by simp
  next
    case False
    have l: "65535 * length ?b < 4294967296" using l by simp
    have z: "word_sum ?b = 0" using False by simp
    then have "unat (0::u32) + word_sum ?b < 4294967296" by simp
    from sum_words_eq [OF this] have "unat (sum_words 0 ?b) = 0" using z by simp
    then have "sum_words 0 ?b = 0" by (simp only: unat_eq_0)
    then have "?f = 0" by (simp add: fold_sum.simps [of 0])
    then show ?thesis unfolding s by simp
  qed
qed

text \<open>The ones' complement sum of RFC 1071, stated without the loop: a byte at an even offset counts
  once, one at an odd offset 256 times, to the last byte of the packet. A receiver accepts a packet
  when this sum, the checksum in it included, folds to 0xFFFF: it is a positive multiple of 65535.\<close>

definition packet_sum :: "bytes \<Rightarrow> nat" where
  "packet_sum bs = (\<Sum>i<length bs. (if even i then 1 else 256) * unat (bs ! i))"

lemma word_sum_packet_sum: "word_sum bs = packet_sum bs"
  by (induction bs rule: word_sum.induct)
    (simp_all add: packet_sum_def sum.lessThan_Suc_shift del: sum.lessThan_Suc)

text \<open>C39. The echo reply to any request carries the request's identifier, sequence number and payload
  behind type and code 0, and a checksum that a receiver accepts: the ones' complement sum of the
  whole packet, an odd last byte included, is a positive multiple of 65535. Payloads are bounded by
  65000 bytes, so that the 32-bit sum of the loop cannot wrap; icmp_recv cuts them to 1016.\<close>

theorem icmp_reply_checksum:
  assumes "length payload \<le> 65000"
  shows "packet_sum (icmp_reply h payload) mod 65535 = 0 \<and> 0 < packet_sum (icmp_reply h payload)
    \<and> (\<exists>ck. icmp_reply h payload = [0, 0] @ le16 ck @ le16 (icmp_id h) @ le16 (icmp_seq h) @ payload)"
proof -
  let ?h = "\<lparr>icmp_type = ICMP_ECHO_REPLY, icmp_code = 0, icmp_sum = 0, icmp_id = icmp_id h, icmp_seq = icmp_seq h\<rparr>"
  note C = checksum_completes [OF assms, of ?h]
  have r: "icmp_reply h payload = icmp_bytes (?h\<lparr>icmp_sum := icmp_checksum (icmp_bytes (?h\<lparr>icmp_sum := 0\<rparr>) @ payload)\<rparr>) @ payload"
    by (simp add: icmp_reply_def Let_def)
  show ?thesis
    using C unfolding word_sum_packet_sum r [symmetric]
    by (auto simp: icmp_reply_def Let_def icmp_bytes_def ICMP_ECHO_REPLY_def)
qed

theorem icmp_reply_checksum_witness:
  "packet_sum (icmp_reply \<lparr>icmp_type = 8, icmp_code = 0, icmp_sum = 0, icmp_id = 1, icmp_seq = 2\<rparr> [104, 105, 33]) mod 65535 = 0"
  using icmp_reply_checksum [of "[104, 105, 33]" "\<lparr>icmp_type = 8, icmp_code = 0, icmp_sum = 0, icmp_id = 1, icmp_seq = 2\<rparr>"]
  by simp

section \<open>Addresses as text\<close>

lemma octet_loop_digits:
  assumes "\<forall>d \<in> set ds. d < 10" "rest = [] \<or> \<not> is_digit (hd rest)"
  shows "octet_loop (map digit_char ds @ rest) (of_nat a) = (of_nat (digits_value 10 a ds), rest)"
  using assms(1)
proof (induction ds arbitrary: a)
  case Nil
  then show ?case using assms(2) by (cases rest) auto
next
  case (Cons d ds)
  have "digit_char d - 48 = (of_nat d :: u8)" using Cons.prems by (simp add: digit_char_def)
  then have "of_nat a * 10 + (digit_char d - 48) = (of_nat (a * 10 + d) :: u8)" by (simp add: mult.commute)
  then show ?case using Cons.IH [of "a * 10 + d"] Cons.prems by (simp add: mult.commute)
qed

lemma octet_loop_dec:
  "rest = [] \<or> \<not> is_digit (hd rest) \<Longrightarrow> octet_loop (dec n @ rest) 0 = (of_nat n, rest)"
  using dec_digits [of n] octet_loop_digits [of _ rest 0] by fastforce

lemma dec_hd_digit: "dec n \<noteq> [] \<and> is_digit (hd (dec n))"
  using dec_digits [of n] by (auto simp: hd_map)

lemma parse_octets_dec:
  "parse_octets (Suc 0) (dec n) = Some [of_nat n]"
  "parse_octets (Suc (Suc k)) (dec n @ 46 # s) = map_option (Cons (of_nat n)) (parse_octets (Suc k) s)"
  using dec_hd_digit [of n] octet_loop_dec [of "[]" n] octet_loop_dec [of "46 # s" n]
  by (simp_all add: is_digit_def)

lemma low_byte: "ucast (x AND 0xFF :: u32) = (ucast x :: u8)"
proof -
  have "(0xFF::u32) = mask 8" by (simp add: mask_eq_exp_minus_1)
  then have "x AND 0xFF = take_bit 8 x" by (simp add: take_bit_eq_mask)
  moreover have "ucast (take_bit 8 x) = (ucast x :: u8)" by (rule bit_word_eqI) (simp add: bit_simps)
  ultimately show ?thesis by simp
qed

lemma IP4_join: "IP4 a b c d = join32 d c b a"
  by (simp add: IP4_def join32_def ac_simps)

lemma ip4_octets:
  "IP4 (ucast (drop_bit 24 ip AND 0xFF)) (ucast (drop_bit 16 ip AND 0xFF)) (ucast (drop_bit 8 ip AND 0xFF)) (ucast (ip AND 0xFF)) = ip"
  by (simp only: low_byte IP4_join join32_bytes)

lemma unat_octet: "unat (x AND 0xFF :: u32) < 256" "of_nat (unat (x AND 0xFF :: u32)) = (ucast (x AND 0xFF) :: u8)"
proof -
  have m: "(0xFF::u32) = mask 8" by (simp add: mask_eq_exp_minus_1)
  then have "x AND 0xFF = take_bit 8 x" by (simp add: take_bit_eq_mask)
  then show "unat (x AND 0xFF :: u32) < 256" by (simp only: unsigned_take_bit_eq) (simp add: take_bit_eq_mod)
  show "of_nat (unat (x AND 0xFF :: u32)) = (ucast (x AND 0xFF) :: u8)" by simp
qed

text \<open>C38. Printing an address and parsing the text gives the address back: the text fits in the static
  buffer, for every address.\<close>

theorem ip4_text_roundtrip:
  assumes "16 \<le> length buf"
  shows "\<exists>out. ip4_to_str ip buf = Some out \<and> length (cstr out) < 16 \<and> ip4_parse (cstr out) = Some ip"
proof -
  let ?o = "\<lambda>k. drop_bit k ip AND 0xFF"
  let ?t = "dec (unat (?o 24)) @ 46 # dec (unat (?o 16)) @ 46 # dec (unat (?o 8)) @ 46 # dec (unat (ip AND 0xFF))"
  have n: "0 < (16::nat)" by simp
  note put = sbuf_putchar_of [OF n assms] sbuf_puts_of [OF n assms]
  have init: "\<lparr>sb_mem = buf, sb_p = 0, sb_end = 16\<rparr> = sb_of 16 buf []"
    by (simp add: sb_of_def)
  have loop: "kvsnprintf_loop ip4_format [Arg32 (?o 24), Arg32 (?o 16), Arg32 (?o 8), Arg32 (ip AND 0xFF)]
      (sb_of 16 buf []) = Some (sb_of 16 buf ?t)"
    by (simp add: ip4_format_def kvsnprintf_conv_def unsigned_text_def with_text_def arg32_def number_text put)
  have len: "length (dec (unat (x AND 0xFF :: u32))) \<le> 3" for x
    using unat_octet(1) [of x] by (intro dec_length) simp_all
  have lt: "length ?t \<le> 15" using len [of "drop_bit 24 ip"] len [of "drop_bit 16 ip"] len [of "drop_bit 8 ip"] len [of ip]
    by simp
  have out: "ip4_to_str ip buf = Some (t @ 0 # drop (Suc (length t)) buf)" if t: "t = ?t" for t
  proof -
    have lt': "length t \<le> 15" using lt t by simp
    then have "drop (length t) buf = buf ! length t # drop (Suc (length t)) buf"
      using assms by (simp add: Cons_nth_drop_Suc)
    then have "sb_p (sb_of 16 buf t) = length t" "(sb_mem (sb_of 16 buf t))[length t := 0] = t @ 0 # drop (Suc (length t)) buf"
      "length t < length (sb_mem (sb_of 16 buf t))" using lt' assms by (simp_all add: sb_of_def)
    then show ?thesis
      using loop [folded t] by (simp add: ip4_to_str_def ksnprintf_def kvsnprintf_def init)
  qed
  have z: "0 \<notin> set ?t" using dec_no_zero by auto
  have "parse_octets (Suc (Suc (Suc (Suc 0)))) ?t = Some [of_nat (unat (?o 24)), of_nat (unat (?o 16)), of_nat (unat (?o 8)), of_nat (unat (ip AND 0xFF))]"
    by (simp only: parse_octets_dec option.map)
  moreover have "(4::nat) = Suc (Suc (Suc (Suc 0)))" by simp
  ultimately have "ip4_parse ?t = Some (IP4 (of_nat (unat (?o 24))) (of_nat (unat (?o 16))) (of_nat (unat (?o 8))) (of_nat (unat (ip AND 0xFF))))"
    unfolding ip4_parse_def by (simp only: option.case list.case)
  then have "ip4_parse ?t = Some ip" by (simp only: unat_octet(2) ip4_octets)
  then show ?thesis using out [OF refl] cstr_append_zero [OF z] lt by simp
qed

theorem ip4_text_roundtrip_witness:
  "\<exists>out. ip4_to_str (IP4 10 0 2 15) (replicate 16 0) = Some out \<and> ip4_parse (cstr out) = Some (IP4 10 0 2 15)"
  using ip4_text_roundtrip [of "replicate 16 0" "IP4 10 0 2 15"] by auto

section \<open>Receiving\<close>

lemma join32_inject: "join32 a b c d = join32 a' b' c' d' \<longleftrightarrow> a = a' \<and> b = b' \<and> c = c' \<and> d = d'"
proof
  assume eq: "join32 a b c d = join32 a' b' c' d'"
  have r: "ucast (join32 a b c d) = a" "ucast (drop_bit 8 (join32 a b c d)) = b"
    "ucast (drop_bit 16 (join32 a b c d)) = c" "ucast (drop_bit 24 (join32 a b c d)) = d" for a b c d
    by (rule bit_word_eqI; auto simp: join32_def bit_simps dest: bit_imp_le_length)+
  show "a = a' \<and> b = b' \<and> c = c' \<and> d = d'" using r [of a b c d] r [of a' b' c' d'] eq by simp
qed simp

text \<open>C40. The destination of a packet is compared as it lies in memory with the address of the interface as
  a number, so on the little-endian machine a packet sent to the interface's own address is
  dropped, unless the address reads the same from both ends.\<close>

theorem ip4_own_packet_dropped:
  assumes "default_iface st = Some i" "cfg_addr (ip_cfg (interfaces st ! i)) = IP4 a b c d"
    and "34 \<le> length frame" "take 4 (drop 30 frame) = [a, b, c, d]" "(a, b) \<noteq> (d, c)"
  shows "ip4_recv frame len st = Some st"
proof -
  have f: "frame ! 30 = a" "frame ! 31 = b" "frame ! 32 = c" "frame ! 33 = d"
  proof -
    have "frame ! (30 + k) = take 4 (drop 30 frame) ! k" if "k < 4" for k using that assms(3) by simp
    from this [of 0] this [of 1] this [of 2] this [of 3] show "frame ! 30 = a" "frame ! 31 = b" "frame ! 32 = c" "frame ! 33 = d"
      by (simp_all add: assms(4))
  qed
  have dst: "rd32 (drop 14 frame) 16 = join32 a b c d" using f assms(3) by (simp add: rd32_def)
  have inj: "join32 a b c d = join32 a' b' c' d' \<longleftrightarrow> a = a' \<and> b = b' \<and> c = c' \<and> d = d'" for a' b' c' d'
    by (rule join32_inject)
  have "join32 a b c d \<noteq> IP4 a b c d" unfolding IP4_join inj using assms(5) by auto
  moreover have "join32 a b c d \<noteq> IP4_BROADCAST" unfolding IP4_BROADCAST_def IP4_join inj using assms(5) by auto
  moreover have "\<not> length (drop 14 frame) < 20" using assms(3) by simp
  ultimately show ?thesis
    using assms(1,2) dst by (simp del: length_drop add: ip4_recv_def read_ip4_def SIZE_ETH_def SIZE_IP4_def netif_get_default_def)
qed

definition demo_netif :: netif where
  "demo_netif = virtual_netif\<lparr>transmit := Some Rtl8139_Driver\<rparr>"

definition demo_net :: net where
  "demo_net = start_networking (snd (netif_register demo_netif net0))"

lemma demo_net_simps:
  "default_iface demo_net = Some 0" "length (interfaces demo_net) = 1"
  "cfg_addr (ip_cfg (interfaces demo_net ! 0)) = IP4 10 0 2 15"
  "transmit (interfaces demo_net ! 0) = Some Rtl8139_Driver" "if_flags (interfaces demo_net ! 0) = 1"
  by code_simp+

theorem ip4_own_packet_dropped_witness:
  "ip4_recv (replicate 14 0 @ ip4_bytes \<lparr>ihl_ver = 0x45, tos = 0, total_len = 0x1C00, ip_id = 0, frag_off = 0,
     ttl = 64, protocol = 1, ip_checksum = 0, ip_src = 0x0202000A, ip_dst = 0x0F02000A\<rparr> @ replicate 8 0) 42 demo_net
   = Some demo_net"
  by (rule ip4_own_packet_dropped [OF demo_net_simps(1,3)])
    (simp_all add: ip4_bytes_def le16_def le32_def)

lemma netif_send_rtl:
  assumes "i < length (interfaces st)" "transmit (interfaces st ! i) = Some Rtl8139_Driver"
    "if_flags (interfaces st ! i) AND NETIF_UP \<noteq> 0" "length frame \<le> 1792"
  shows "fst (netif_send (Some i) frame st) = 0 \<and> wire (snd (netif_send (Some i) frame st)) = wire st @ [frame]"
  using assms by (simp add: netif_send_def Let_def put_netif_def)

lemma ip4_send_wire:
  assumes "default_iface st = Some i" "i < length (interfaces st)" "transmit (interfaces st ! i) = Some Rtl8139_Driver"
    "if_flags (interfaces st ! i) AND NETIF_UP \<noteq> 0" "length (if_mac (interfaces st ! i)) = 6"
    and "length data = unat len" "unat len \<le> 1024"
  shows "\<exists>st'. ip4_send dst proto data len st = Some (0, st') \<and> wire st' = wire st @
     [eth_bytes \<lparr>eth_dst = ETH_BROADCAST, eth_src = if_mac (interfaces st ! i), eth_type = htons ETH_TYPE_IP\<rparr>
      @ ip4_bytes \<lparr>ihl_ver = 0x45, tos = 0, total_len = htons (20 + len), ip_id = htons 0,
          frag_off = htons IP4_DF_FLAG, ttl = IP4_DEFAULT_TTL, protocol = proto, ip_checksum = 0,
          ip_src = cfg_addr (ip_cfg (interfaces st ! i)), ip_dst = dst\<rparr> @ data]"
proof -
  let ?e = "\<lparr>eth_dst = ETH_BROADCAST, eth_src = if_mac (interfaces st ! i), eth_type = htons ETH_TYPE_IP\<rparr>"
  let ?ip = "\<lparr>ihl_ver = 0x45, tos = 0, total_len = htons (20 + len), ip_id = htons 0,
          frag_off = htons IP4_DF_FLAG, ttl = IP4_DEFAULT_TTL, protocol = proto, ip_checksum = 0,
          ip_src = cfg_addr (ip_cfg (interfaces st ! i)), ip_dst = dst\<rparr>"
  let ?f = "eth_bytes ?e @ ip4_bytes ?ip @ data"
  have v: "push_bit 4 4 OR 5 = (0x45 :: u8)" by simp
  have "length (eth_bytes ?e) = SIZE_ETH" using assms(5) by (intro length_headers(3)) (simp_all add: ETH_BROADCAST_def)
  then have "length ?f \<le> 1792" using assms(6,7) by (simp add: SIZE_ETH_def SIZE_IP4_def)
  note send = netif_send_rtl [OF assms(2-4) this]
  have "get_bytes data 0 (unat len) = Some data" using assms(6) by (simp add: get_bytes_def)
  moreover have "\<not> SIZE_IP4 + unat len > ETH_MTU" using assms(7) by (simp add: SIZE_IP4_def ETH_MTU_def)
  ultimately have "ip4_send dst proto data len st = Some (eth_send (Some i) ETH_BROADCAST ETH_TYPE_IP (ip4_bytes ?ip @ data) st)"
    using assms(1) by (simp add: ip4_send_def netif_get_default_def v)
  also have "eth_send (Some i) ETH_BROADCAST ETH_TYPE_IP (ip4_bytes ?ip @ data) st = netif_send (Some i) ?f st"
    using assms(6,7) by (simp add: eth_send_def SIZE_IP4_def ETH_MTU_def)
  finally show ?thesis using send by (cases "netif_send (Some i) ?f st") simp
qed

lemma ip4_recv_icmp:
  assumes "default_iface st = Some i" "34 \<le> unat len" "read_ip4 (drop SIZE_ETH frame) = Some ip"
    "IP4_VERSION ip = 4" "ip_dst ip = IP4_BROADCAST" "protocol ip = IP_PROTO_ICMP"
    "ucast (IP4_IHL ip) * 4 = (20::u32)" "drop (SIZE_ETH + 20) frame = payload"
    "ucast (ntohs (total_len ip)) - 20 = (n::u32)"
  shows "ip4_recv frame len st = icmp_recv (ip_src ip) payload n st"
  using assms by (simp add: ip4_recv_def netif_get_default_def SIZE_ETH_def SIZE_IP4_def Let_def)

text \<open>An echo request is answered by one frame, to everyone, with the request's identifier, sequence
  number and payload.  The payload sent back is as long as the IP header of the request claims, not
  as the frame that was received (\<open>len\<close> plays no part): bytes that follow the frame in the receive
  buffer go out on the wire.\<close>

theorem icmp_echo_reply_length:
  assumes "default_iface st = Some i" "i < length (interfaces st)" "transmit (interfaces st ! i) = Some Rtl8139_Driver"
    "if_flags (interfaces st ! i) AND NETIF_UP \<noteq> 0" "length (if_mac (interfaces st ! i)) = 6"
    and "length (eth_dst e) = 6" "length (eth_src e) = 6"
    and "ihl_ver ip = 0x45" "ip_dst ip = IP4_BROADCAST" "protocol ip = IP_PROTO_ICMP" "icmp_type h = ICMP_ECHO_REQUEST"
    and "total_len ip = htons (of_nat (28 + n))" "n \<le> length rest" "n \<le> 1016" "34 \<le> unat len"
  shows "\<exists>st'. ip4_recv (eth_bytes e @ ip4_bytes ip @ icmp_bytes h @ rest) len st = Some st' \<and> wire st' = wire st @
     [eth_bytes \<lparr>eth_dst = ETH_BROADCAST, eth_src = if_mac (interfaces st ! i), eth_type = htons ETH_TYPE_IP\<rparr>
      @ ip4_bytes \<lparr>ihl_ver = 0x45, tos = 0, total_len = total_len ip, ip_id = htons 0,
          frag_off = htons IP4_DF_FLAG, ttl = IP4_DEFAULT_TTL, protocol = IP_PROTO_ICMP, ip_checksum = 0,
          ip_src = cfg_addr (ip_cfg (interfaces st ! i)), ip_dst = ip_src ip\<rparr> @ icmp_reply h (take n rest)]"
proof -
  let ?f = "eth_bytes e @ ip4_bytes ip @ icmp_bytes h @ rest"
  have eth: "length (eth_bytes e) = 14" using assms(6,7) length_headers(3) by (simp add: SIZE_ETH_def)
  have ip20: "length (ip4_bytes ip) = 20" by (simp add: SIZE_IP4_def)
  have d14: "drop SIZE_ETH ?f = ip4_bytes ip @ icmp_bytes h @ rest" using eth by (simp add: SIZE_ETH_def)
  have d34: "drop (SIZE_ETH + 20) ?f = icmp_bytes h @ rest" using eth ip20 by (simp add: SIZE_ETH_def)
  have ver: "IP4_VERSION ip = 4" "ucast (IP4_IHL ip) * 4 = (20::u32)" using assms(8) by (simp_all add: IP4_VERSION_def IP4_IHL_def)
  have u16: "unat (of_nat (28 + n) :: u16) = 28 + n" using assms(14) by (simp only: unat_of_nat) simp
  have "ucast (of_nat (28 + n) :: u16) = (of_nat (28 + n) :: u32)"
    by (metis u16 of_nat_unat)
  then have pl: "ucast (ntohs (total_len ip)) - 20 = (of_nat (8 + n) :: u32)"
    using assms(12) by (simp add: ntohs_def)
  have up: "unat (of_nat (8 + n) :: u32) = 8 + n" using assms(14) by (simp only: unat_of_nat) simp
  have lens: "\<not> (of_nat (8 + n) :: u32) < of_nat SIZE_ICMP" "\<not> (of_nat (8 + n) :: u32) > 1024"
    using up assms(14) by (simp_all add: word_less_nat_alt SIZE_ICMP_def del: of_nat_add)
  have get: "get_bytes (icmp_bytes h @ rest) SIZE_ICMP (8 + n - SIZE_ICMP) = Some (take n rest)"
    using assms(13) by (simp add: get_bytes_def SIZE_ICMP_def)
  have ul: "ucast (of_nat (8 + n) :: u32) = (of_nat (8 + n) :: u16)" by (metis up of_nat_unat)
  have u8: "unat (of_nat (8 + n) :: u16) = 8 + n" using assms(14) by (simp only: unat_of_nat) simp
  have recv: "ip4_recv ?f len st = icmp_recv (ip_src ip) (icmp_bytes h @ rest) (of_nat (8 + n)) st"
    by (rule ip4_recv_icmp [OF assms(1,15) _ ver(1) assms(9,10) ver(2) d34 pl]) (simp only: d14 read_ip4_bytes)
  have "icmp_recv (ip_src ip) (icmp_bytes h @ rest) (of_nat (8 + n)) st
      = map_option snd (ip4_send (ip_src ip) IP_PROTO_ICMP (icmp_reply h (take n rest)) (of_nat (8 + n)) st)"
    using assms(11) lens get up ul by (simp add: icmp_recv_def del: of_nat_add)
  moreover have "length (icmp_reply h (take n rest)) = unat (of_nat (8 + n) :: u16)"
    using u8 assms(13) by (simp add: icmp_reply_def Let_def SIZE_ICMP_def)
  moreover have "unat (of_nat (8 + n) :: u16) \<le> 1024" using u8 assms(14) by simp
  moreover have "htons (20 + of_nat (8 + n)) = total_len ip" using assms(12) by (simp add: ac_simps)
  ultimately show ?thesis
    using recv ip4_send_wire [OF assms(1-5), of "icmp_reply h (take n rest)" "of_nat (8 + n)" "ip_src ip" IP_PROTO_ICMP] by auto
qed

theorem icmp_echo_reply_length_witness:
  "\<exists>st'. ip4_recv (eth_bytes \<lparr>eth_dst = ETH_BROADCAST, eth_src = replicate 6 2, eth_type = 8\<rparr>
       @ ip4_bytes \<lparr>ihl_ver = 0x45, tos = 0, total_len = htons (of_nat (28 + 4)), ip_id = 0, frag_off = 0,
           ttl = 64, protocol = IP_PROTO_ICMP, ip_checksum = 0, ip_src = 0x0202000A, ip_dst = IP4_BROADCAST\<rparr>
       @ icmp_bytes \<lparr>icmp_type = ICMP_ECHO_REQUEST, icmp_code = 0, icmp_sum = 0, icmp_id = 1, icmp_seq = 1\<rparr>
       @ [115, 101, 99, 114]) 42 demo_net = Some st' \<and> length (wire st') = 1"
proof -
  have up: "if_flags (interfaces demo_net ! 0) AND NETIF_UP \<noteq> 0"
    by (simp add: demo_net_simps NETIF_UP_def BIT_def)
  have mac: "length (if_mac (interfaces demo_net ! 0)) = 6" and w: "wire demo_net = []" by code_simp+
  have i: "0 < length (interfaces demo_net)" by (simp add: demo_net_simps)
  show ?thesis
    using icmp_echo_reply_length [OF demo_net_simps(1) i demo_net_simps(4) up mac,
        of "\<lparr>eth_dst = ETH_BROADCAST, eth_src = replicate 6 2, eth_type = 8\<rparr>"
           "\<lparr>ihl_ver = 0x45, tos = 0, total_len = htons (of_nat (28 + 4)), ip_id = 0, frag_off = 0,
             ttl = 64, protocol = IP_PROTO_ICMP, ip_checksum = 0, ip_src = 0x0202000A, ip_dst = IP4_BROADCAST\<rparr>"
           "\<lparr>icmp_type = ICMP_ECHO_REQUEST, icmp_code = 0, icmp_sum = 0, icmp_id = 1, icmp_seq = 1\<rparr>" 4
           "[115, 101, 99, 114]" 42] w
    by (auto simp: ETH_BROADCAST_def)
qed

end
