(* ===== verification/Ports.thy ===== *)
theory Ports
  imports Earlnux_Prelude
begin

text \<open>
  Port input and output (\<^verbatim>\<open>include/kernel/kernel.h\<close>).  What the processor does to the
  outside is the list of its accesses, the newest first.  The devices are not part of the program:
  a parameter \<open>hw\<close> gives the value a port answers after a list of accesses, so every device whose
  answers depend on what was done to it, and every schedule of changes of its status, is covered.
\<close>

datatype port_op =
  Outb u16 u8 | Outw u16 u16 | Outl u16 u32 | Inb u16 | Inw u16 | Inl u16
| Cli | Sti | Lgdt u16 u32 | Lidt u16 u32

type_synonym io_trace = "port_op list"
type_synonym device = "io_trace \<Rightarrow> u16 \<Rightarrow> u32"

definition outb :: "u16 \<Rightarrow> u8 \<Rightarrow> io_trace \<Rightarrow> io_trace" where "outb p v t = Outb p v # t"
definition outw :: "u16 \<Rightarrow> u16 \<Rightarrow> io_trace \<Rightarrow> io_trace" where "outw p v t = Outw p v # t"
definition outl :: "u16 \<Rightarrow> u32 \<Rightarrow> io_trace \<Rightarrow> io_trace" where "outl p v t = Outl p v # t"

definition inb :: "device \<Rightarrow> u16 \<Rightarrow> io_trace \<Rightarrow> u8 \<times> io_trace" where
  "inb hw p t = (ucast (hw t p), Inb p # t)"

definition inw :: "device \<Rightarrow> u16 \<Rightarrow> io_trace \<Rightarrow> u16 \<times> io_trace" where
  "inw hw p t = (ucast (hw t p), Inw p # t)"

definition inl :: "device \<Rightarrow> u16 \<Rightarrow> io_trace \<Rightarrow> u32 \<times> io_trace" where
  "inl hw p t = (hw t p, Inl p # t)"

definition io_wait :: "io_trace \<Rightarrow> io_trace" where "io_wait t = outb 0x80 0 t"
definition sti :: "io_trace \<Rightarrow> io_trace" where "sti t = Sti # t"
definition cli :: "io_trace \<Rightarrow> io_trace" where "cli t = Cli # t"

lemmas port_defs = outb_def outw_def outl_def inb_def inw_def inl_def io_wait_def sti_def cli_def

end
