(* ===== verification/Klog.thy ===== *)
theory Klog
  imports Printf
begin

text \<open>
  \<^verbatim>\<open>kernel/klog.c\<close>: log messages on the console, and calls of \<open>kprintf\<close> with a literal
  format.  \<open>None\<close> is undefined behaviour of the printing.
\<close>

definition text_of :: "string \<Rightarrow> bytes" where
  "text_of t = map of_char t"

abbreviation nl :: string where "nl \<equiv> [CHR 0x0A]"

definition str_arg :: "bytes \<Rightarrow> varg" where
  "str_arg t = ArgStr (Some (t @ [0]))"

definition kprint :: "string \<Rightarrow> varg list \<Rightarrow> console \<Rightarrow> console option" where
  "kprint fmt args c = map_option snd (kprintf (text_of fmt @ [0]) args c)"

definition LOG_DEBUG :: int where "LOG_DEBUG = 0"
definition LOG_INFO :: int where "LOG_INFO = 1"
definition LOG_WARN :: int where "LOG_WARN = 2"
definition LOG_ERROR :: int where "LOG_ERROR = 3"

definition level_str :: "int \<Rightarrow> string" where
  "level_str level = (if level = LOG_INFO then ''INFO'' else if level = LOG_WARN then ''WARN''
     else if level = LOG_ERROR then ''ERROR'' else ''DEBUG'')"

definition klog :: "int \<Rightarrow> string \<Rightarrow> string \<Rightarrow> varg list \<Rightarrow> console \<Rightarrow> console option" where
  "klog level modul fmt args c =
     do { c \<leftarrow> kprint ''[%s] %s: '' [str_arg (text_of (level_str level)), str_arg (text_of modul)] c;
          c \<leftarrow> kprint fmt args c;
          kprint nl [] c }"

end
