(* ===== verification/Interrupts.thy ===== *)
theory Interrupts
  imports Ports Klog
begin

text \<open>
  The processor tables and the interrupt path: \<^verbatim>\<open>kernel/arch/x86/{gdt,idt,isr,isr_handlers}.c\<close>
  and \<^verbatim>\<open>kernel/drivers/{pic,pic_init}.c\<close>.

  A handler pointer is one of the handlers the drivers register; the address the linker gives it is
  the parameter \<open>addr\<close>.  The addresses of the assembly entry points are the parameters \<open>isr\<close> and
  \<open>irq\<close>.
\<close>

section \<open>Segment descriptors\<close>

definition GDT_ENTRIES :: nat where "GDT_ENTRIES = 6"
definition KERNEL_CS :: nat where "KERNEL_CS = 1"

record gdt_entry =
  limit_low :: u16
  base_low :: u16
  base_middle :: u8
  access :: u8
  granularity :: u8
  base_high :: u8

definition gdt_entry0 :: gdt_entry where
  "gdt_entry0 = \<lparr>limit_low = 0, base_low = 0, base_middle = 0, access = 0, granularity = 0, base_high = 0\<rparr>"

text \<open>The eight bytes of an entry as the processor reads them.\<close>

definition gdt_word :: "gdt_entry \<Rightarrow> u64" where
  "gdt_word e = ucast (limit_low e) OR push_bit 16 (ucast (base_low e)) OR push_bit 32 (ucast (base_middle e)) OR
     push_bit 40 (ucast (access e)) OR push_bit 48 (ucast (granularity e)) OR push_bit 56 (ucast (base_high e))"

definition GDT_ENTRY_KERNEL_CODE :: u64 where "GDT_ENTRY_KERNEL_CODE = 0x00CF9A000000FFFF"
definition GDT_ENTRY_KERNEL_DATA :: u64 where "GDT_ENTRY_KERNEL_DATA = 0x00CF92000000FFFF"
definition GDT_ENTRY_USER_CODE :: u64 where "GDT_ENTRY_USER_CODE = 0x00CFFA000000FFFF"
definition GDT_ENTRY_USER_DATA :: u64 where "GDT_ENTRY_USER_DATA = 0x00CFF2000000FFFF"

definition gdt_set_entry :: "nat \<Rightarrow> u32 \<Rightarrow> u32 \<Rightarrow> u8 \<Rightarrow> u8 \<Rightarrow> gdt_entry list \<Rightarrow> gdt_entry list" where
  "gdt_set_entry num base limit acc gran tab =
     tab[num := \<lparr>limit_low = ucast (limit AND 0xFFFF), base_low = ucast (base AND 0xFFFF),
       base_middle = ucast (drop_bit 16 base AND 0xFF), access = acc,
       granularity = ucast (drop_bit 16 limit AND 0x0F) OR (gran AND 0xF0),
       base_high = ucast (drop_bit 24 base AND 0xFF)\<rparr>]"

text \<open>\<open>gdt_flush\<close> loads the table register and reloads the segment registers.\<close>

definition gdt_init :: "u32 \<Rightarrow> gdt_entry list \<Rightarrow> io_trace \<Rightarrow> gdt_entry list \<times> io_trace" where
  "gdt_init gdt_entries tab t =
     (let tab = gdt_set_entry 0 0 0 0 0 tab;
          tab = gdt_set_entry 1 0 0xFFFFFFFF 0x9A 0xCF tab;
          tab = gdt_set_entry 2 0 0xFFFFFFFF 0x92 0xCF tab;
          tab = gdt_set_entry 3 0 0xFFFFFFFF 0xFA 0xCF tab;
          tab = gdt_set_entry 4 0 0xFFFFFFFF 0xF2 0xCF tab;
          tab = gdt_set_entry 5 0 0 0 0 tab
      in (tab, Lgdt (of_nat (8 * GDT_ENTRIES - 1)) gdt_entries # t))"

section \<open>Interrupt gates\<close>

definition IDT_ENTRIES :: nat where "IDT_ENTRIES = 256"
definition INT_IRQ0 :: nat where "INT_IRQ0 = 32"
definition INT_IRQ1 :: nat where "INT_IRQ1 = 33"

record idt_entry =
  ie_base_low :: u16
  ie_sel :: u16
  ie_zero :: u8
  ie_flags :: u8
  ie_base_high :: u16

definition idt_entry0 :: idt_entry where
  "idt_entry0 = \<lparr>ie_base_low = 0, ie_sel = 0, ie_zero = 0, ie_flags = 0, ie_base_high = 0\<rparr>"

definition idt_set_gate :: "u8 \<Rightarrow> u32 \<Rightarrow> u16 \<Rightarrow> u8 \<Rightarrow> idt_entry list \<Rightarrow> idt_entry list" where
  "idt_set_gate num base sel flags tab =
     tab[unat num := \<lparr>ie_base_low = ucast (base AND 0xFFFF), ie_sel = sel, ie_zero = 0, ie_flags = flags,
       ie_base_high = ucast (drop_bit 16 base AND 0xFFFF)\<rparr>]"

definition idt_init :: "u32 \<Rightarrow> (nat \<Rightarrow> u32) \<Rightarrow> (nat \<Rightarrow> u32) \<Rightarrow> idt_entry list \<Rightarrow> io_trace \<Rightarrow> idt_entry list \<times> io_trace" where
  "idt_init idt isr irq tab t =
     (let tab = replicate IDT_ENTRIES idt_entry0;
          tab = fold (\<lambda>i. idt_set_gate (of_nat i) (isr i) 0x08 0x8E) [0..<32] tab;
          tab = fold (\<lambda>i. idt_set_gate (of_nat (INT_IRQ0 + i)) (irq i) 0x08 0x8E) [0..<16] tab
      in (tab, Lidt (of_nat (8 * IDT_ENTRIES - 1)) idt # t))"

section \<open>The interrupt controller\<close>

definition PIC1_CMD :: u16 where "PIC1_CMD = 0x20"
definition PIC1_DATA :: u16 where "PIC1_DATA = 0x21"
definition PIC2_CMD :: u16 where "PIC2_CMD = 0xA0"
definition PIC2_DATA :: u16 where "PIC2_DATA = 0xA1"

lemmas pic_ports = PIC1_CMD_def PIC1_DATA_def PIC2_CMD_def PIC2_DATA_def

definition pic_remap :: "int \<Rightarrow> int \<Rightarrow> io_trace \<Rightarrow> io_trace" where
  "pic_remap offset1 offset2 t =
     (let t = io_wait (outb PIC1_CMD 0x11 t);
          t = io_wait (outb PIC2_CMD 0x11 t);
          t = io_wait (outb PIC1_DATA (word_of_int offset1) t);
          t = io_wait (outb PIC2_DATA (word_of_int offset2) t);
          t = io_wait (outb PIC1_DATA 0x04 t);
          t = io_wait (outb PIC2_DATA 0x02 t);
          t = io_wait (outb PIC1_DATA 0x01 t);
          t = io_wait (outb PIC2_DATA 0x01 t);
          t = outb PIC1_DATA 0xFB t
      in outb PIC2_DATA 0xFF t)"

definition pic_send_eoi :: "u8 \<Rightarrow> io_trace \<Rightarrow> io_trace" where
  "pic_send_eoi irq t = outb PIC1_CMD 0x20 (if irq \<ge> 8 then outb PIC2_CMD 0x20 t else t)"

text \<open>\<open>1 << n\<close> as an \<open>int\<close>, undefined from 31 on.\<close>

definition irq_bit :: "nat \<Rightarrow> u8 option" where
  "irq_bit n = (if n < 31 then Some (ucast (BIT n)) else None)"

definition pic_mask_irq :: "device \<Rightarrow> u8 \<Rightarrow> io_trace \<Rightarrow> io_trace option" where
  "pic_mask_irq hw irq t =
     (if irq < 8 then
        (let (mask, t) = inb hw PIC1_DATA t
         in map_option (\<lambda>b. outb PIC1_DATA (mask OR b) t) (irq_bit (unat irq)))
      else
        (let (mask, t) = inb hw PIC2_DATA t
         in map_option (\<lambda>b. outb PIC2_DATA (mask OR b) t) (irq_bit (unat irq - 8))))"

definition pic_unmask_irq :: "device \<Rightarrow> u8 \<Rightarrow> io_trace \<Rightarrow> io_trace option" where
  "pic_unmask_irq hw irq t =
     (if irq < 8 then
        (let (mask, t) = inb hw PIC1_DATA t
         in map_option (\<lambda>b. outb PIC1_DATA (mask AND NOT b) t) (irq_bit (unat irq)))
      else
        (let (mask, t) = inb hw PIC2_DATA t
         in map_option (\<lambda>b. outb PIC2_DATA (mask AND NOT b) t) (irq_bit (unat irq - 8))))"

definition pic_init :: "io_trace \<Rightarrow> io_trace" where
  "pic_init t = pic_remap 0x20 0x28 t"

section \<open>Handlers\<close>

datatype handler = Pit_Irq_Handler | Keyboard_Handler | Rtl8139_Handler

text \<open>The static data of the interrupt path; \<open>flash\<close> is the counter of \<open>irq_handler\<close>.\<close>

record intr =
  trace :: io_trace
  isr_handlers :: "handler option list"
  flash :: u8
  vga :: console

text \<open>The macros of \<^verbatim>\<open>kernel.h\<close>.\<close>

definition intr_log :: "int \<Rightarrow> string \<Rightarrow> string \<Rightarrow> varg list \<Rightarrow> 'a intr_scheme \<Rightarrow> 'a intr_scheme option" where
  "intr_log level modul fmt args m = map_option (\<lambda>c. m\<lparr>vga := c\<rparr>) (klog level modul fmt args (vga m))"

definition KDEBUG :: "string \<Rightarrow> string \<Rightarrow> varg list \<Rightarrow> 'a intr_scheme \<Rightarrow> 'a intr_scheme option" where
  "KDEBUG = intr_log LOG_DEBUG"

definition KINFO :: "string \<Rightarrow> string \<Rightarrow> varg list \<Rightarrow> 'a intr_scheme \<Rightarrow> 'a intr_scheme option" where
  "KINFO = intr_log LOG_INFO"

definition KWARN :: "string \<Rightarrow> string \<Rightarrow> varg list \<Rightarrow> 'a intr_scheme \<Rightarrow> 'a intr_scheme option" where
  "KWARN = intr_log LOG_WARN"

text \<open>A negative number passes the test.\<close>

definition isr_register_handler :: "int \<Rightarrow> handler \<Rightarrow> 'a intr_scheme \<Rightarrow> 'a intr_scheme option" where
  "isr_register_handler irq h m =
     (if irq < int IDT_ENTRIES
      then (if irq < 0 then None
            else KINFO ''ISR'' ''Handler registered'' [] (m\<lparr>isr_handlers := (isr_handlers m)[nat irq := Some h]\<rparr>))
      else Some m)"

definition isr_default_handler :: "'a intr_scheme \<Rightarrow> 'a intr_scheme option" where
  "isr_default_handler m = KINFO ''ISR'' ''Unhandled interrupt'' [] m"

definition isr_init :: "'a intr_scheme \<Rightarrow> 'a intr_scheme option" where
  "isr_init m = KINFO ''ISR'' (''Interrupt Service Routines initialized'' @ nl) [] m"

text \<open>The handler called for an exception, if any.\<close>

definition isr_handler :: "u32 \<Rightarrow> 'a intr_scheme \<Rightarrow> (handler option \<times> 'a intr_scheme) option" where
  "isr_handler int_no m =
     (if unat int_no < IDT_ENTRIES
      then (case isr_handlers m ! unat int_no of
              Some h \<Rightarrow> Some (Some h, m)
            | None \<Rightarrow> map_option (Pair None) (KINFO ''ISR'' ''Unhandled exception occurred'' [] m))
      else None)"

text \<open>The corner cell: the character \<open>*\<close> or a blank, in yellow.\<close>

definition flash_cell :: "u8 \<Rightarrow> u16" where
  "flash_cell n = (if n mod 2 \<noteq> 0 then 42 else 32) OR push_bit 8 0x0E"

definition send_eoi_for :: "u32 \<Rightarrow> io_trace \<Rightarrow> io_trace" where
  "send_eoi_for int_no t =
     (if int_no \<ge> 32 \<and> int_no \<le> 47 then pic_send_eoi (ucast (int_no - 32)) t else t)"

definition irq_target :: "(handler \<Rightarrow> u32) \<Rightarrow> u32 \<Rightarrow> 'a intr_scheme \<Rightarrow> handler option" where
  "irq_target addr int_no m =
     (if unat int_no < IDT_ENTRIES
      then (case isr_handlers m ! unat int_no of
              None \<Rightarrow> None | Some h \<Rightarrow> if addr h > 0x1000 then Some h else None)
      else None)"

text \<open>What \<open>irq_handler\<close> does before it calls a handler, and the handler it calls.\<close>

definition irq_handler :: "(handler \<Rightarrow> u32) \<Rightarrow> u32 \<Rightarrow> 'a intr_scheme \<Rightarrow> handler option \<times> 'a intr_scheme" where
  "irq_handler addr int_no m =
     (let m = m\<lparr>vga := put_cell 79 (flash_cell (flash m)) (vga m), flash := flash m + 1\<rparr>;
          m = m\<lparr>trace := send_eoi_for int_no (trace m)\<rparr>
      in (irq_target addr int_no m, m))"

end
