(* ===== verification/Klog_Spec.thy ===== *)
theory Klog_Spec
  imports Klog Printf_Spec
begin

text \<open>
  Log messages whose formats are literal text and conversions are printed: what a call of \<open>klog\<close> puts
  on the console.
\<close>

lemma text_of_simps [simp]: "text_of [] = []" "text_of (c # t) = of_char c # text_of t" "text_of (t @ u) = text_of t @ text_of u"
  by (simp_all add: text_of_def)

lemma kprint_pieces:
  assumes "\<forall>p \<in> set ps. piece_ok p" "text_of fmt = concat (map piece_format ps)" "args = concat (map piece_args ps)"
  shows "kprint fmt args c = Some (fold console_putchar (concat (map piece_text ps)) c)"
  using pieces_loop [OF assms(1), of "[]" c] assms(2,3)
  by (simp add: kprint_def kprintf_def kvprintf_def del: text_of_simps)

lemma kprint_literal:
  assumes "0 \<notin> set (text_of fmt)" "37 \<notin> set (text_of fmt)"
  shows "kprint fmt [] c = Some (fold console_putchar (text_of fmt) c)"
  using kprint_pieces [of "[Literal (text_of fmt)]" fmt "[]" c] assms by simp

lemma level_str_plain: "0 \<notin> set (text_of (level_str level))"
  by (simp add: level_str_def)

text \<open>The line a message makes.\<close>

definition log_text :: "int \<Rightarrow> string \<Rightarrow> piece list \<Rightarrow> bytes" where
  "log_text level modul ps =
     91 # text_of (level_str level) @ [93, 32] @ text_of modul @ [58, 32] @ concat (map piece_text ps) @ [10]"

lemma klog_pieces:
  assumes "\<forall>p \<in> set ps. piece_ok p" "text_of fmt = concat (map piece_format ps)" "args = concat (map piece_args ps)"
    and "0 \<notin> set (text_of modul)"
  shows "klog level modul fmt args c = Some (fold console_putchar (log_text level modul ps) c)"
proof -
  let ?h = "[Literal [91], String (Some (text_of (level_str level))), Literal [93, 32], String (Some (text_of modul)), Literal [58, 32]]"
  have "\<forall>p \<in> set ?h. piece_ok p" using assms(4) level_str_plain by simp
  from kprint_pieces [OF this, of "''[%s] %s: ''" "[str_arg (text_of (level_str level)), str_arg (text_of modul)]"]
  have "kprint ''[%s] %s: '' [str_arg (text_of (level_str level)), str_arg (text_of modul)] d
    = Some (fold console_putchar (91 # text_of (level_str level) @ [93, 32] @ text_of modul @ [58, 32]) d)" for d
    by (simp add: str_arg_def)
  then show ?thesis using kprint_pieces [OF assms(1-3)] kprint_literal [of nl]
    by (simp add: klog_def log_text_def)
qed

lemma klog_literal:
  assumes "0 \<notin> set (text_of fmt)" "37 \<notin> set (text_of fmt)" "0 \<notin> set (text_of modul)"
  shows "klog level modul fmt [] c = Some (fold console_putchar (log_text level modul [Literal (text_of fmt)]) c)"
  using assms by (intro klog_pieces) simp_all

end
