(* ===== verification/Interrupts_Spec.thy ===== *)
theory Interrupts_Spec
  imports Interrupts Klog_Spec
begin

text \<open>
  What the tables of the processor hold after their initialisation, and the interrupt controller as
  a set of enabled lines.
\<close>

section \<open>Segments\<close>

text \<open>Base and limit as the processor reads them from an entry.\<close>

definition segment_base :: "gdt_entry \<Rightarrow> u32" where
  "segment_base e = ucast (base_low e) OR push_bit 16 (ucast (base_middle e)) OR push_bit 24 (ucast (base_high e))"

definition segment_limit :: "gdt_entry \<Rightarrow> u32" where
  "segment_limit e = ucast (limit_low e) OR push_bit 16 (ucast (granularity e AND 0x0F))"

lemma low_masks:
  "(0xFFFF::u32) = mask 16" "(0xFF::u32) = mask 8" "(0x0F::u32) = mask 4" "(0x0F::u8) = mask 4"
  "(0xF0::u8) = push_bit 4 (mask 4)" "(0xFFFFF::u32) = mask 20"
  by (simp_all add: mask_eq_exp_minus_1 push_bit_eq_mult)

lemma gdt_set_entry_nth:
  assumes "num < length tab"
  shows "segment_base (gdt_set_entry num base limit acc gran tab ! num) = base"
    and "segment_limit (gdt_set_entry num base limit acc gran tab ! num) = limit AND 0xFFFFF"
    and "access (gdt_set_entry num base limit acc gran tab ! num) = acc"
    and "granularity (gdt_set_entry num base limit acc gran tab ! num) AND 0xF0 = gran AND 0xF0"
proof -
  have "bit (segment_base (gdt_set_entry num base limit acc gran tab ! num)) n = bit base n" if "n < 32" for n
  proof -
    have "n < 16 \<or> 16 \<le> n \<and> n < 24 \<or> 24 \<le> n \<and> n < 32" using that by auto
    then show ?thesis
      using assms by (auto simp: segment_base_def gdt_set_entry_def low_masks bit_simps)
  qed
  then show "segment_base (gdt_set_entry num base limit acc gran tab ! num) = base"
    by (intro bit_word_eqI) simp
  have "bit (segment_limit (gdt_set_entry num base limit acc gran tab ! num)) n = bit (limit AND 0xFFFFF) n" if "n < 32" for n
  proof -
    have "n < 16 \<or> 16 \<le> n \<and> n < 20 \<or> 20 \<le> n \<and> n < 32" using that by auto
    then show ?thesis
      using assms by (auto simp: segment_limit_def gdt_set_entry_def low_masks bit_simps)
  qed
  then show "segment_limit (gdt_set_entry num base limit acc gran tab ! num) = limit AND 0xFFFFF"
    by (intro bit_word_eqI) simp
  show "access (gdt_set_entry num base limit acc gran tab ! num) = acc"
    using assms by (simp add: gdt_set_entry_def)
  show "granularity (gdt_set_entry num base limit acc gran tab ! num) AND 0xF0 = gran AND 0xF0"
    using assms by (intro bit_word_eqI) (auto simp: gdt_set_entry_def low_masks bit_simps)
qed

text \<open>The table is the documented one, but for the entry of the task segment, which is null.\<close>

lemma gdt_init_entries:
  assumes "length tab = GDT_ENTRIES"
  shows "map gdt_word (fst (gdt_init a tab t)) =
    [0, GDT_ENTRY_KERNEL_CODE, GDT_ENTRY_KERNEL_DATA, GDT_ENTRY_USER_CODE, GDT_ENTRY_USER_DATA, 0]"
proof -
  obtain e0 e1 e2 e3 e4 e5 where tab: "tab = [e0, e1, e2, e3, e4, e5]"
    using assms by (auto simp: GDT_ENTRIES_def numeral_eq_Suc length_Suc_conv)
  show ?thesis unfolding tab
    by (simp add: gdt_init_def Let_def gdt_set_entry_def gdt_word_def GDT_ENTRY_KERNEL_CODE_def
        GDT_ENTRY_KERNEL_DATA_def GDT_ENTRY_USER_CODE_def GDT_ENTRY_USER_DATA_def)
qed

section \<open>Gates\<close>

definition gate_target :: "idt_entry \<Rightarrow> u32" where
  "gate_target e = ucast (ie_base_low e) OR push_bit 16 (ucast (ie_base_high e))"

lemma gate_target_set [simp]:
  "gate_target \<lparr>ie_base_low = ucast (base AND 0xFFFF), ie_sel = sel, ie_zero = 0, ie_flags = flags,
     ie_base_high = ucast (drop_bit 16 base AND 0xFFFF)\<rparr> = base"
proof (rule bit_word_eqI)
  fix n assume "n < LENGTH(32)"
  then have "n < 16 \<or> 16 \<le> n \<and> n < 32" by auto
  then show "bit (gate_target \<lparr>ie_base_low = ucast (base AND 0xFFFF), ie_sel = sel, ie_zero = 0, ie_flags = flags,
     ie_base_high = ucast (drop_bit 16 base AND 0xFFFF)\<rparr>) n = bit base n"
    by (auto simp: gate_target_def low_masks bit_simps)
qed

definition gate :: "u32 \<Rightarrow> idt_entry" where
  "gate a = \<lparr>ie_base_low = ucast (a AND 0xFFFF), ie_sel = 0x08, ie_zero = 0, ie_flags = 0x8E,
     ie_base_high = ucast (drop_bit 16 a AND 0xFFFF)\<rparr>"

definition put_gates :: "nat \<Rightarrow> nat \<Rightarrow> (nat \<Rightarrow> u32) \<Rightarrow> idt_entry list \<Rightarrow> idt_entry list" where
  "put_gates lo n f = fold (\<lambda>i. idt_set_gate (of_nat (lo + i)) (f i) 0x08 0x8E) [0..<n]"

lemma length_put_gates [simp]: "length (put_gates lo n f tab) = length tab"
  by (induction n) (simp_all add: put_gates_def idt_set_gate_def)

lemma nth_put_gates:
  assumes "lo + n \<le> 256" "length tab = 256" "v < 256"
  shows "put_gates lo n f tab ! v = (if lo \<le> v \<and> v < lo + n then gate (f (v - lo)) else tab ! v)"
  using assms
proof (induction n)
  case (Suc n)
  have "lo + n < 256" using Suc.prems by simp
  then have u: "unat (of_nat (lo + n) :: u8) = lo + n" by (simp add: unat_of_nat del: of_nat_add)
  have "put_gates lo (Suc n) f tab = idt_set_gate (of_nat (lo + n)) (f n) 0x08 0x8E (put_gates lo n f tab)"
    by (simp add: put_gates_def)
  then have "put_gates lo (Suc n) f tab ! v = (if v = lo + n then gate (f n) else put_gates lo n f tab ! v)"
    using Suc.prems u by (simp add: idt_set_gate_def gate_def nth_list_update del: of_nat_add)
  then show ?case using Suc by auto
qed (auto simp: put_gates_def)

lemma idt_init_gates:
  assumes "v < 256"
  shows "fst (idt_init a isr irq tab t) ! v =
    (if v < 32 then gate (isr v) else if v < 48 then gate (irq (v - 32)) else idt_entry0)"
proof -
  have "fst (idt_init a isr irq tab t) = put_gates 32 16 irq (put_gates 0 32 isr (replicate 256 idt_entry0))"
    by (simp add: idt_init_def Let_def put_gates_def IDT_ENTRIES_def INT_IRQ0_def)
  then show ?thesis using assms by (auto simp: nth_put_gates)
qed

section \<open>Interrupt lines\<close>

text \<open>The last byte written to a port, which a mask register answers when it is read.\<close>

fun last_out :: "u16 \<Rightarrow> io_trace \<Rightarrow> u8 option" where
  "last_out p [] = None"
| "last_out p (Outb q v # t) = (if q = p then Some v else last_out p t)"
| "last_out p (_ # t) = last_out p t"

definition pic_device :: "device \<Rightarrow> bool" where
  "pic_device hw \<longleftrightarrow> (\<forall>t p v. p \<in> {PIC1_DATA, PIC2_DATA} \<longrightarrow> last_out p t = Some v \<longrightarrow> ucast (hw t p) = v)"

definition masks :: "io_trace \<Rightarrow> (u8 \<times> u8) option" where
  "masks t = (case (last_out PIC1_DATA t, last_out PIC2_DATA t) of
     (Some a, Some b) \<Rightarrow> Some (a, b) | _ \<Rightarrow> None)"

definition enabled :: "io_trace \<Rightarrow> nat set" where
  "enabled t = (case masks t of None \<Rightarrow> {}
     | Some (a, b) \<Rightarrow> {n. n < 8 \<and> \<not> bit a n} \<union> {n. 8 \<le> n \<and> n < 16 \<and> \<not> bit b (n - 8)})"

lemma last_out_simps [simp]:
  "last_out p (outb q v t) = (if q = p then Some v else last_out p t)"
  "last_out p (snd (inb hw q t)) = last_out p t"
  "last_out p (outw q w t) = last_out p t" "last_out p (outl q l t) = last_out p t"
  by (simp_all add: port_defs)

lemma bit_irq: "n < 8 \<Longrightarrow> irq_bit n = Some (push_bit n 1)"
  by (auto simp: irq_bit_def BIT_def intro!: bit_word_eqI) (auto simp: bit_simps)

lemma bit_lines:
  fixes m :: u8
  assumes "k < 8" "n < 8"
  shows "bit (m OR push_bit k 1) n \<longleftrightarrow> n = k \<or> bit m n"
    "bit (m AND NOT (push_bit k 1)) n \<longleftrightarrow> n \<noteq> k \<and> bit m n"
  using assms by (auto simp: bit_simps)

lemma irq_cases:
  fixes irq :: u8
  assumes "irq < 16"
  shows "unat irq < 16" "irq < 8 \<longleftrightarrow> unat irq < 8"
proof -
  show "unat irq < 16" using assms unat_mono [OF assms] by simp
  show "irq < 8 \<longleftrightarrow> unat irq < 8" by (simp add: word_less_nat_alt)
qed

lemma masks_Some: "masks t = Some (a, b) \<longleftrightarrow> last_out PIC1_DATA t = Some a \<and> last_out PIC2_DATA t = Some b"
  by (auto simp: masks_def split: option.splits)

lemma pic_ports_neq [simp]: "PIC1_DATA \<noteq> PIC2_DATA" "PIC2_DATA \<noteq> PIC1_DATA"
  by (simp_all add: pic_ports)

lemma pic_device_read:
  assumes "pic_device hw" "masks t = Some (a, b)"
  shows "fst (inb hw PIC1_DATA t) = a" "fst (inb hw PIC2_DATA t) = b"
  using assms by (auto simp: pic_device_def masks_Some inb_def)

lemma pic_mask_masks:
  assumes "pic_device hw" "masks t = Some (a, b)" "irq < 16"
  shows "\<exists>t'. pic_mask_irq hw irq t = Some t' \<and> masks t' =
      Some (if unat irq < 8 then (a OR push_bit (unat irq) 1, b) else (a, b OR push_bit (unat irq - 8) 1))"
    and "\<exists>t'. pic_unmask_irq hw irq t = Some t' \<and> masks t' =
      Some (if unat irq < 8 then (a AND NOT (push_bit (unat irq) 1), b) else (a, b AND NOT (push_bit (unat irq - 8) 1)))"
proof -
  note u = irq_cases [OF assms(3)]
  note r = pic_device_read [OF assms(1,2)]
  have "unat irq - 8 < 8" using u(1) by linarith
  then show "\<exists>t'. pic_mask_irq hw irq t = Some t' \<and> masks t' =
      Some (if unat irq < 8 then (a OR push_bit (unat irq) 1, b) else (a, b OR push_bit (unat irq - 8) 1))"
    and "\<exists>t'. pic_unmask_irq hw irq t = Some t' \<and> masks t' =
      Some (if unat irq < 8 then (a AND NOT (push_bit (unat irq) 1), b) else (a, b AND NOT (push_bit (unat irq - 8) 1)))"
    unfolding pic_mask_irq_def pic_unmask_irq_def
    using assms(2) by (simp_all add: r u(2) bit_irq masks_Some split_beta)
qed

lemma enabled_masks: "masks t = Some (a, b) \<Longrightarrow>
  enabled t = {n. n < 8 \<and> \<not> bit a n} \<union> {n. 8 \<le> n \<and> n < 16 \<and> \<not> bit b (n - 8)}"
  by (simp add: enabled_def)

lemma lines_unmask:
  fixes a b :: u8
  assumes "k < 16"
  shows "{n. n < 8 \<and> \<not> bit (if k < 8 then a AND NOT (push_bit k 1) else a) n} \<union>
     {n. 8 \<le> n \<and> n < 16 \<and> \<not> bit (if k < 8 then b else b AND NOT (push_bit (k - 8) 1)) (n - 8)} =
     insert k ({n. n < 8 \<and> \<not> bit a n} \<union> {n. 8 \<le> n \<and> n < 16 \<and> \<not> bit b (n - 8)})"
  using assms by (auto simp: bit_simps)

lemma lines_mask:
  fixes a b :: u8
  assumes "k < 16"
  shows "{n. n < 8 \<and> \<not> bit (if k < 8 then a OR push_bit k 1 else a) n} \<union>
     {n. 8 \<le> n \<and> n < 16 \<and> \<not> bit (if k < 8 then b else b OR push_bit (k - 8) 1) (n - 8)} =
     ({n. n < 8 \<and> \<not> bit a n} \<union> {n. 8 \<le> n \<and> n < 16 \<and> \<not> bit b (n - 8)}) - {k}"
  using assms by (auto simp: bit_simps)

lemma pic_unmask_enabled:
  assumes "pic_device hw" "masks t \<noteq> None" "irq < 16"
  shows "\<exists>t'. pic_unmask_irq hw irq t = Some t' \<and> masks t' \<noteq> None \<and> enabled t' = insert (unat irq) (enabled t)"
proof -
  obtain a b where ab: "masks t = Some (a, b)" using assms(2) by auto
  obtain t' where t': "pic_unmask_irq hw irq t = Some t'" "masks t' =
      Some (if unat irq < 8 then (a AND NOT (push_bit (unat irq) 1), b) else (a, b AND NOT (push_bit (unat irq - 8) 1)))"
    using pic_mask_masks(2) [OF assms(1) ab assms(3)] by blast
  have m: "masks t' = Some (if unat irq < 8 then a AND NOT (push_bit (unat irq) 1) else a,
      if unat irq < 8 then b else b AND NOT (push_bit (unat irq - 8) 1))" using t'(2) by simp
  have "enabled t' = insert (unat irq) (enabled t)"
    by (simp only: enabled_masks [OF m] enabled_masks [OF ab] lines_unmask [OF irq_cases(1) [OF assms(3)]])
  then show ?thesis using t'(1) m by (intro exI [of _ t'] conjI) simp_all
qed

lemma pic_mask_enabled:
  assumes "pic_device hw" "masks t \<noteq> None" "irq < 16"
  shows "\<exists>t'. pic_mask_irq hw irq t = Some t' \<and> masks t' \<noteq> None \<and> enabled t' = enabled t - {unat irq}"
proof -
  obtain a b where ab: "masks t = Some (a, b)" using assms(2) by auto
  obtain t' where t': "pic_mask_irq hw irq t = Some t'" "masks t' =
      Some (if unat irq < 8 then (a OR push_bit (unat irq) 1, b) else (a, b OR push_bit (unat irq - 8) 1))"
    using pic_mask_masks(1) [OF assms(1) ab assms(3)] by blast
  have m: "masks t' = Some (if unat irq < 8 then a OR push_bit (unat irq) 1 else a,
      if unat irq < 8 then b else b OR push_bit (unat irq - 8) 1)" using t'(2) by simp
  have "enabled t' = enabled t - {unat irq}"
    by (simp only: enabled_masks [OF m] enabled_masks [OF ab] lines_mask [OF irq_cases(1) [OF assms(3)]])
  then show ?thesis using t'(1) m by (intro exI [of _ t'] conjI) simp_all
qed

lemma lines_FB: "{n. n < 8 \<and> \<not> bit (0xFB::u8) n} = {2}" "{n. 8 \<le> n \<and> n < 16 \<and> \<not> bit (0xFF::u8) (n - 8)} = {}"
proof -
  have "(0xFB::u8) = NOT (2 ^ 2)" by simp
  then have "n < 8 \<Longrightarrow> \<not> bit (0xFB::u8) n \<longleftrightarrow> n = 2" for n
    by (simp only: bit_not_iff bit_exp_iff possible_bit_word) auto
  then show "{n. n < 8 \<and> \<not> bit (0xFB::u8) n} = {2}" by auto
  have m: "(0xFF::u8) = mask 8" by (simp add: mask_eq_exp_minus_1)
  have "bit (0xFF::u8) k" if "k < 8" for k
    unfolding m bit_mask_iff using that by simp
  then show "{n. 8 \<le> n \<and> n < 16 \<and> \<not> bit (0xFF::u8) (n - 8)} = {}" by auto
qed

text \<open>After the initialisation only the cascade line is enabled.\<close>

lemma pic_init_enabled: "masks (pic_init t) \<noteq> None \<and> enabled (pic_init t) = {2}"
proof -
  have "masks (pic_init t) = Some (0xFB, 0xFF)"
    by (simp add: pic_init_def pic_remap_def Let_def masks_Some)
  moreover from this have "enabled (pic_init t) = {2}" by (simp only: enabled_masks lines_FB) simp
  ultimately show ?thesis by simp
qed

section \<open>The controller as a set of lines\<close>

datatype line_op = Mask u8 | Unmask u8

fun line_of :: "line_op \<Rightarrow> u8" where
  "line_of (Mask irq) = irq"
| "line_of (Unmask irq) = irq"

fun pic_line :: "device \<Rightarrow> line_op \<Rightarrow> io_trace \<Rightarrow> io_trace option" where
  "pic_line hw (Mask irq) t = pic_mask_irq hw irq t"
| "pic_line hw (Unmask irq) t = pic_unmask_irq hw irq t"

fun set_line :: "line_op \<Rightarrow> nat set \<Rightarrow> nat set" where
  "set_line (Mask irq) s = s - {unat irq}"
| "set_line (Unmask irq) s = insert (unat irq) s"

lemma pic_line_step:
  assumes "pic_device hw" "masks t \<noteq> None" "line_of x < 16"
  shows "\<exists>t'. pic_line hw x t = Some t' \<and> masks t' \<noteq> None \<and> enabled t' = set_line x (enabled t)"
  using assms pic_mask_enabled pic_unmask_enabled by (cases x) auto

lemma pic_lines_from:
  assumes "pic_device hw" "masks t \<noteq> None" "\<forall>x \<in> set xs. line_of x < 16"
  shows "\<exists>t'. foldo (pic_line hw) xs t = Some t' \<and> enabled t' = fold set_line xs (enabled t)"
  using assms(2,3)
proof (induction xs arbitrary: t)
  case (Cons x xs)
  obtain u where u: "pic_line hw x t = Some u" "masks u \<noteq> None" "enabled u = set_line x (enabled t)"
    using pic_line_step [OF assms(1) Cons.prems(1), of x] Cons.prems(2) by auto
  obtain t' where "foldo (pic_line hw) xs u = Some t'" "enabled t' = fold set_line xs (enabled u)"
    using Cons.IH [OF u(2)] Cons.prems(2) by auto
  then show ?case using u by (intro exI [of _ t']) simp
qed simp

text \<open>A device that answers its mask registers and nothing else.\<close>

definition demo_pic :: device where
  "demo_pic t p = (if p \<in> {PIC1_DATA, PIC2_DATA} then (case last_out p t of Some v \<Rightarrow> ucast v | None \<Rightarrow> 0) else 0)"

lemma demo_pic_device: "pic_device demo_pic"
proof -
  have "ucast (ucast v :: u32) = v" for v :: u8
    by (rule bit_word_eqI) (simp add: bit_simps)
  then show ?thesis by (auto simp: pic_device_def demo_pic_def)
qed

text \<open>C31. The interrupt controller refines a set of enabled lines: after \<open>pic_init\<close>, whatever lines below
  16 are masked and unmasked in whatever order, no shift is undefined and the two mask registers enable
  exactly the lines that masking as removal and unmasking as insertion leave of the set that holds the
  cascade line only.\<close>

theorem pic_lines_refine_set:
  assumes "pic_device hw" "\<forall>x \<in> set xs. line_of x < 16"
  shows "\<exists>t'. foldo (pic_line hw) xs (pic_init t) = Some t' \<and> enabled t' = fold set_line xs {2}"
  using pic_lines_from [of hw "pic_init t" xs] pic_init_enabled [of t] assms by simp

theorem pic_lines_refine_set_witness:
  "\<exists>t'. foldo (pic_line demo_pic) [Unmask 0, Unmask 12, Mask 2, Mask 12] (pic_init []) = Some t' \<and> enabled t' = {0}"
proof -
  have "fold set_line [Unmask 0, Unmask 12, Mask 2, Mask 12] {2} = {0}" by auto
  then show ?thesis
    using pic_lines_refine_set [of demo_pic "[Unmask 0, Unmask 12, Mask 2, Mask 12]" "[]", OF demo_pic_device]
    by (simp del: foldo.simps pic_line.simps fold_simps)
qed

end
