(* ===== verification/Drivers.thy ===== *)
theory Drivers
  imports Interrupts Keyboard Net Bump_Heap
begin

text \<open>
  The device drivers: \<^verbatim>\<open>kernel/drivers/{pit,ps2,pci,rtl8139}.c\<close> and the set-up and the
  interrupt handler of \<^verbatim>\<open>keyboard.c\<close>.

  A loop that polls a device may never end, depending on the device; \<open>None\<close> then is not returning,
  besides undefined behaviour.  What the network card writes into the receive buffer is the parameter
  \<open>dma\<close>, the contents of the buffer after a list of accesses.  The machine has at most one card
  of this type; a second one is outside the model (\<open>None\<close>).
\<close>

section \<open>State\<close>

text \<open>The static data of \<^verbatim>\<open>rtl8139.c\<close>, of its \<open>transmit\<close> function too; the registered
  interface is its number in the table, and the contents of the transmit buffers are \<open>tx_mem\<close>.\<close>

record rtl =
  rx_buffer :: u32
  io_base :: u32
  mac_addr :: bytes
  rx_offset :: u32
  rtl_netif :: "nat option"
  rtl_tx_desc :: nat
  tx_bufs :: "u32 list"
  tx_mem :: "nat \<Rightarrow> bytes"

definition rtl0 :: rtl where
  "rtl0 = \<lparr>rx_buffer = 0, io_base = 0, mac_addr = replicate 6 0, rx_offset = 0, rtl_netif = None,
     rtl_tx_desc = 0, tx_bufs = [0, 0, 0, 0], tx_mem = (\<lambda>_. replicate 2048 0)\<rparr>"

record machine = intr +
  timer_ticks :: u32
  timer_hz :: u32
  kbd :: kb
  nic :: rtl
  nets :: net
  heap :: bump

text \<open>The static data at boot.\<close>

definition machine0 :: "u32 \<Rightarrow> console \<Rightarrow> machine" where
  "machine0 static_heap con =
     \<lparr>trace = [], isr_handlers = replicate 256 None, flash = 0, vga = con, timer_ticks = 0, timer_hz = 0,
      kbd = kb0, nic = rtl0, nets = net0, heap = bump0 static_heap\<rparr>"

section \<open>Timer\<close>

definition PIT_CMD :: u16 where "PIT_CMD = 0x43"
definition PIT_CH0 :: u16 where "PIT_CH0 = 0x40"

definition pit_irq_handler :: "machine \<Rightarrow> machine" where
  "pit_irq_handler m = m\<lparr>timer_ticks := timer_ticks m + 1\<rparr>"

definition pit_divisor :: "u32 \<Rightarrow> u16" where
  "pit_divisor frequency = ucast (1193180 div frequency)"

definition pit_program :: "u16 \<Rightarrow> io_trace \<Rightarrow> io_trace" where
  "pit_program divisor t =
     (let t = io_wait (outb PIT_CMD 0x36 t);
          t = io_wait (outb PIT_CH0 (ucast (divisor AND 0xFF)) t)
      in io_wait (outb PIT_CH0 (ucast (drop_bit 8 divisor AND 0xFF)) t))"

definition pit_init :: "device \<Rightarrow> u32 \<Rightarrow> machine \<Rightarrow> machine option" where
  "pit_init hw frequency m =
     (if frequency = 0 then None
      else do {
        let m = m\<lparr>timer_hz := frequency, trace := pit_program (pit_divisor frequency) (trace m)\<rparr>;
        m \<leftarrow> isr_register_handler (int INT_IRQ0) Pit_Irq_Handler m;
        t \<leftarrow> pic_unmask_irq hw 0 (trace m);
        KINFO ''PIT'' (''Programmable Interval Timer initialized at %u Hz'' @ nl) [Arg32 frequency] (m\<lparr>trace := t\<rparr>) })"

definition timer_get_uptime_ms :: "machine \<Rightarrow> u64 \<times> machine" where
  "timer_get_uptime_ms m =
     (let m = m\<lparr>trace := sti (cli (trace m))\<rparr>
      in if timer_hz m = 0 then (0, m)
         else ((ucast (timer_ticks m) * 1000) div ucast (timer_hz m), m))"

section \<open>Keyboard controller\<close>

definition PS2_DATA_PORT :: u16 where "PS2_DATA_PORT = 0x60"
definition PS2_STATUS_PORT :: u16 where "PS2_STATUS_PORT = 0x64"
definition PS2_COMMAND_PORT :: u16 where "PS2_COMMAND_PORT = 0x64"
definition PS2_STATUS_OUTPUT_FULL :: u8 where "PS2_STATUS_OUTPUT_FULL = 0x01"
definition PS2_STATUS_INPUT_FULL :: u8 where "PS2_STATUS_INPUT_FULL = 0x02"

text \<open>\<open>k\<close> more passes of the loop.\<close>

primrec wait_for_write :: "nat \<Rightarrow> device \<Rightarrow> io_trace \<Rightarrow> int \<times> io_trace" where
  "wait_for_write 0 hw t = (-1, t)"
| "wait_for_write (Suc k) hw t =
     (let (v, t) = inb hw PS2_STATUS_PORT t
      in if v AND PS2_STATUS_INPUT_FULL = 0 then (0, t) else wait_for_write k hw t)"

primrec wait_for_read :: "nat \<Rightarrow> device \<Rightarrow> io_trace \<Rightarrow> int \<times> io_trace" where
  "wait_for_read 0 hw t = (-1, t)"
| "wait_for_read (Suc k) hw t =
     (let (v, t) = inb hw PS2_STATUS_PORT t
      in if v AND PS2_STATUS_OUTPUT_FULL \<noteq> 0 then (0, t) else wait_for_read k hw t)"

definition PS2_TRIES :: nat where "PS2_TRIES = 10000"

definition ps2_write_cmd :: "device \<Rightarrow> u8 \<Rightarrow> io_trace \<Rightarrow> int \<times> io_trace" where
  "ps2_write_cmd hw cmd t =
     (let (r, t) = wait_for_write PS2_TRIES hw t
      in if r < 0 then (-1, t) else (0, outb PS2_COMMAND_PORT cmd t))"

definition ps2_write_data :: "device \<Rightarrow> u8 \<Rightarrow> io_trace \<Rightarrow> int \<times> io_trace" where
  "ps2_write_data hw data t =
     (let (r, t) = wait_for_write PS2_TRIES hw t
      in if r < 0 then (-1, t) else (0, outb PS2_DATA_PORT data t))"

definition ps2_read_data :: "device \<Rightarrow> io_trace \<Rightarrow> u8 \<times> io_trace" where
  "ps2_read_data hw t =
     (let (r, t) = wait_for_read PS2_TRIES hw t in if r < 0 then (0, t) else inb hw PS2_DATA_PORT t)"

text \<open>One pass of the loop that empties the output buffer, and whether it goes on.\<close>

definition flush_step :: "device \<Rightarrow> io_trace \<Rightarrow> bool \<times> io_trace" where
  "flush_step hw t =
     (let (v, t) = inb hw PS2_STATUS_PORT t
      in if v AND PS2_STATUS_OUTPUT_FULL \<noteq> 0 then (True, snd (inb hw PS2_DATA_PORT t)) else (False, t))"

partial_function (option) ps2_flush :: "device \<Rightarrow> io_trace \<Rightarrow> io_trace option" where
  "ps2_flush hw t = (if fst (flush_step hw t) then ps2_flush hw (snd (flush_step hw t)) else Some (snd (flush_step hw t)))"

declare ps2_flush.simps [code]

definition ps2_init :: "device \<Rightarrow> io_trace \<Rightarrow> io_trace option" where
  "ps2_init hw t =
     do { let (_, t) = ps2_write_cmd hw 0xAD t;
          let (_, t) = ps2_write_cmd hw 0xA7 t;
          t \<leftarrow> ps2_flush hw t;
          let (_, t) = ps2_write_cmd hw 0x20 t;
          let (config, t) = ps2_read_data hw t;
          let (_, t) = ps2_write_cmd hw 0x60 t;
          let (_, t) = ps2_write_data hw (config OR 0x41) t;
          let (_, t) = ps2_write_cmd hw 0xAE t;
          Some t }"

definition keyboard_handler :: "device \<Rightarrow> machine \<Rightarrow> machine" where
  "keyboard_handler hw m =
     (let (scancode, t) = inb hw 0x60 (trace m)
      in m\<lparr>trace := t, kbd := keyboard_handle_scancode scancode (kbd m)\<rparr>)"

definition keyboard_init :: "device \<Rightarrow> machine \<Rightarrow> machine option" where
  "keyboard_init hw m =
     do { t \<leftarrow> ps2_init hw (trace m);
          m \<leftarrow> isr_register_handler (int INT_IRQ1) Keyboard_Handler (m\<lparr>trace := t\<rparr>);
          t \<leftarrow> pic_unmask_irq hw 1 (trace m);
          KINFO ''keyboard'' (''PS/2 keyboard initialized'' @ nl) [] (m\<lparr>trace := t, kbd := keyboard_reset (kbd m)\<rparr>) }"

section \<open>PCI configuration space\<close>

definition PCI_CONFIG_ADDRESS :: u16 where "PCI_CONFIG_ADDRESS = 0x0CF8"
definition PCI_CONFIG_DATA :: u16 where "PCI_CONFIG_DATA = 0x0CFC"
definition PCI_BAR0 :: u8 where "PCI_BAR0 = 0x10"
definition PCI_INTERRUPT_LINE :: u8 where "PCI_INTERRUPT_LINE = 0x3C"

record pci_device =
  bus :: u8
  device :: u8
  func :: u8
  vendor_id :: u16
  device_id :: u16
  class_id :: u16
  bar0 :: u32
  pci_irq :: u8

definition pci_address :: "u8 \<Rightarrow> u8 \<Rightarrow> u8 \<Rightarrow> u8 \<Rightarrow> u32" where
  "pci_address b slot f offset =
     push_bit 16 (ucast b) OR push_bit 11 (ucast slot) OR push_bit 8 (ucast f) OR (ucast offset AND 0xFC) OR 0x80000000"

definition pci_config_read_dword :: "device \<Rightarrow> u8 \<Rightarrow> u8 \<Rightarrow> u8 \<Rightarrow> u8 \<Rightarrow> io_trace \<Rightarrow> u32 \<times> io_trace" where
  "pci_config_read_dword hw b slot f offset t =
     inl hw PCI_CONFIG_DATA (outl PCI_CONFIG_ADDRESS (pci_address b slot f offset) t)"

definition pci_config_write_dword :: "u8 \<Rightarrow> u8 \<Rightarrow> u8 \<Rightarrow> u8 \<Rightarrow> u32 \<Rightarrow> io_trace \<Rightarrow> io_trace" where
  "pci_config_write_dword b slot f offset val t =
     outl PCI_CONFIG_DATA val (outl PCI_CONFIG_ADDRESS (pci_address b slot f offset) t)"

section \<open>Network card\<close>

definition RTL_REG_MAC0 :: u16 where "RTL_REG_MAC0 = 0x00"
definition RTL_REG_RBSTART :: u16 where "RTL_REG_RBSTART = 0x30"
definition RTL_REG_CMD :: u16 where "RTL_REG_CMD = 0x37"
definition RTL_REG_CAPR :: u16 where "RTL_REG_CAPR = 0x38"
definition RTL_REG_IMR :: u16 where "RTL_REG_IMR = 0x3C"
definition RTL_REG_ISR :: u16 where "RTL_REG_ISR = 0x3E"
definition RTL_REG_RCR :: u16 where "RTL_REG_RCR = 0x44"
definition RTL_REG_CONFIG1 :: u16 where "RTL_REG_CONFIG1 = 0x52"
definition CMD_RESET :: u8 where "CMD_RESET = 0x10"
definition CMD_RECV_ENABLE :: u8 where "CMD_RECV_ENABLE = 0x08"
definition CMD_XMIT_ENABLE :: u8 where "CMD_XMIT_ENABLE = 0x04"
definition CMD_RX_EMPTY :: u8 where "CMD_RX_EMPTY = 0x01"
definition ISR_ROK :: u16 where "ISR_ROK = 0x01"
definition RX_BUF_SIZE :: u32 where "RX_BUF_SIZE = 8192"
definition RX_TOTAL_SIZE :: u32 where "RX_TOTAL_SIZE = RX_BUF_SIZE + 16 + 2048"

definition rtl_port :: "rtl \<Rightarrow> u16 \<Rightarrow> u16" where
  "rtl_port r reg = ucast (io_base r) + reg"

definition next_rx_offset :: "u32 \<Rightarrow> u16 \<Rightarrow> u32" where
  "next_rx_offset off len = ((off + ucast len + 4 + 3) AND NOT 3) mod RX_BUF_SIZE"

text \<open>One pass of the receive loop, and whether it goes on.\<close>

definition rx_step :: "device \<Rightarrow> (io_trace \<Rightarrow> bytes) \<Rightarrow> machine \<Rightarrow> (bool \<times> machine) option" where
  "rx_step hw dma m =
     (let (cmd, t) = inb hw (rtl_port (nic m) RTL_REG_CMD) (trace m);
          m = m\<lparr>trace := t\<rparr>;
          r = nic m;
          header = drop (unat (rx_offset r)) (dma t)
      in if cmd AND CMD_RX_EMPTY \<noteq> 0 then Some (False, m)
         else if length header < 4 then None
         else if rd16 header 0 AND 1 = 0 then Some (False, m)
         else do {
           i \<leftarrow> rtl_netif r;
           n \<leftarrow> netif_recv i (drop 4 header) (ucast (rd16 header 2) - 4) (nets m);
           let off = next_rx_offset (rx_offset r) (rd16 header 2);
           Some (True, m\<lparr>nets := n, nic := r\<lparr>rx_offset := off\<rparr>,
                         trace := outw (rtl_port r RTL_REG_CAPR) (ucast off - 16) t\<rparr>) })"

partial_function (option) rx_loop :: "device \<Rightarrow> (io_trace \<Rightarrow> bytes) \<Rightarrow> machine \<Rightarrow> machine option" where
  "rx_loop hw dma m =
     (case rx_step hw dma m of
        None \<Rightarrow> None
      | Some r \<Rightarrow> if fst r then rx_loop hw dma (snd r) else Some (snd r))"

declare rx_loop.simps [code]

definition rtl8139_handler :: "device \<Rightarrow> (io_trace \<Rightarrow> bytes) \<Rightarrow> machine \<Rightarrow> machine option" where
  "rtl8139_handler hw dma m =
     (let (status, t) = inw hw (rtl_port (nic m) RTL_REG_ISR) (trace m);
          m = m\<lparr>trace := outw (rtl_port (nic m) RTL_REG_ISR) status t\<rparr>
      in if status AND ISR_ROK \<noteq> 0 then rx_loop hw dma m else Some m)"

text \<open>The four transmit buffers are allocated with the first frame.\<close>

definition alloc_tx_bufs :: "machine \<Rightarrow> machine" where
  "alloc_tx_bufs m =
     (if tx_bufs (nic m) ! 0 = 0
      then fold (\<lambda>i m. (let (p, h) = bump_kmalloc 2048 (heap m)
                        in m\<lparr>heap := h, nic := (nic m)\<lparr>tx_bufs := (tx_bufs (nic m))[i := p]\<rparr>\<rparr>)) [0..<4] m
      else m)"

definition rtl8139_transmit :: "bytes \<Rightarrow> machine \<Rightarrow> (int \<times> machine) option" where
  "rtl8139_transmit frame m0 =
     (let m = alloc_tx_bufs m0;
          r = nic m;
          d = rtl_tx_desc r;
          buf = tx_bufs r ! d
      in if length frame > 1792 then Some (-1, m)
         else if buf = 0 then None
         else do {
           mem \<leftarrow> put_bytes (tx_mem r d) 0 frame;
           let t = outl (rtl_port r (0x20 + of_nat d * 4)) buf (trace m);
           let t = outl (rtl_port r (0x10 + of_nat d * 4)) (of_nat (length frame)) t;
           Some (0, m\<lparr>trace := t, nic := r\<lparr>tx_mem := (tx_mem r)(d := mem), rtl_tx_desc := (d + 1) mod 4\<rparr>\<rparr>) })"

partial_function (option) wait_reset :: "device \<Rightarrow> u16 \<Rightarrow> io_trace \<Rightarrow> io_trace option" where
  "wait_reset hw p t =
     (if fst (inb hw p t) AND CMD_RESET = 0 then Some (snd (inb hw p t)) else wait_reset hw p (snd (inb hw p t)))"

declare wait_reset.simps [code]

primrec read_mac :: "nat \<Rightarrow> device \<Rightarrow> u16 \<Rightarrow> io_trace \<Rightarrow> bytes \<times> io_trace" where
  "read_mac 0 hw p t = ([], t)"
| "read_mac (Suc k) hw p t =
     (let (b, t) = inb hw p t; (bs, t) = read_mac k hw (p + 1) t in (b # bs, t))"

text \<open>The name is \<open>eth0\<close>.\<close>

definition rtl_interface :: "bytes \<Rightarrow> netif" where
  "rtl_interface mac = \<lparr>if_name = [101, 116, 104, 48], if_mac = mac,
     ip_cfg = \<lparr>cfg_addr = IP4 10 0 2 15, cfg_netmask = IP4 255 255 255 0, cfg_gateway = IP4 10 0 2 2,
       cfg_dns = [IP4 10 0 2 3, 0], dhcp_enabled = False\<rparr>,
     if_flags = NETIF_UP, transmit = Some Rtl8139_Driver, rx_bytes = 0, tx_bytes = 0, rx_packets = 0,
     tx_packets = 0, tx_errors = 0\<rparr>"

text \<open>The registers set before the interrupt is enabled.\<close>

definition rtl_setup :: "device \<Rightarrow> rtl \<Rightarrow> u32 \<Rightarrow> io_trace \<Rightarrow> io_trace" where
  "rtl_setup hw r buf t =
     (let t = outl (rtl_port r RTL_REG_RBSTART) buf t;
          t = outw (rtl_port r RTL_REG_IMR) 0x0005 t;
          t = outl (rtl_port r RTL_REG_RCR) 0x8F t
      in outb (rtl_port r RTL_REG_CMD) (CMD_RECV_ENABLE OR CMD_XMIT_ENABLE) t)"

text \<open>A byte passed to a conversion of an \<open>unsigned int\<close>.\<close>

definition byte_arg :: "u8 \<Rightarrow> varg" where
  "byte_arg b = Arg32 (ucast b)"

definition half_arg :: "u16 \<Rightarrow> varg" where
  "half_arg h = Arg32 (ucast h)"

text \<open>\<open>netif_register\<close> with its message.\<close>

definition register_interface :: "netif \<Rightarrow> machine \<Rightarrow> (int \<times> machine) option" where
  "register_interface iface m =
     (let (res, n) = netif_register iface (nets m);
          m = m\<lparr>nets := n\<rparr>
      in if res < 0 then Some (res, m)
         else map_option (Pair res)
           (KINFO ''NET'' (''Registered interface '' @ [CHR 0x27] @ ''%s'' @ [CHR 0x27] @
              '' (MAC: %02x:%02x:%02x:%02x:%02x:%02x)'' @ nl)
              (str_arg (if_name iface) # map byte_arg (take 6 (if_mac iface))) m))"

definition rtl8139_init :: "device \<Rightarrow> pci_device \<Rightarrow> machine \<Rightarrow> machine option" where
  "rtl8139_init hw dev m =
     (if rtl_netif (nic m) \<noteq> None then None
      else do {
        let r = (nic m)\<lparr>io_base := bar0 dev AND NOT 3\<rparr>;
        m \<leftarrow> KINFO ''RTL8139'' (''Initializing at I/O base 0x%x'' @ nl) [Arg32 (io_base r)] m;
        let t = outb (rtl_port r RTL_REG_CONFIG1) 0 (trace m);
        let t = outb (rtl_port r RTL_REG_CMD) CMD_RESET t;
        t \<leftarrow> wait_reset hw (rtl_port r RTL_REG_CMD) t;
        let (mac, t) = read_mac 6 hw (rtl_port r RTL_REG_MAC0) t;
        let (buf, h) = bump_kmalloc RX_TOTAL_SIZE (heap m);
        if buf = 0 then None
        else do {
          let r = r\<lparr>mac_addr := mac, rx_buffer := buf\<rparr>;
          let m = m\<lparr>nic := r, heap := h, trace := rtl_setup hw r buf t\<rparr>;
          m \<leftarrow> isr_register_handler (int (unat (32 + pci_irq dev))) Rtl8139_Handler m;
          t \<leftarrow> pic_unmask_irq hw (pci_irq dev) (trace m);
          let i = length (interfaces (nets m));
          (res, m) \<leftarrow> register_interface (rtl_interface mac) (m\<lparr>trace := t\<rparr>);
          Some (m\<lparr>nic := r\<lparr>rtl_netif := (if res = 0 then Some i else None)\<rparr>\<rparr>) } })"

section \<open>The bus scan\<close>

definition pci_read_device :: "device \<Rightarrow> u8 \<Rightarrow> u8 \<Rightarrow> u8 \<Rightarrow> u32 \<Rightarrow> io_trace \<Rightarrow> pci_device \<times> io_trace" where
  "pci_read_device hw b slot f vendor_device t =
     (let (class_rev, t) = pci_config_read_dword hw b slot f 0x08 t;
          (bar, t) = pci_config_read_dword hw b slot f PCI_BAR0 t;
          (irq_info, t) = pci_config_read_dword hw b slot f PCI_INTERRUPT_LINE t
      in (\<lparr>bus = b, device = slot, func = f, vendor_id = ucast (vendor_device AND 0xFFFF),
           device_id = ucast (drop_bit 16 vendor_device AND 0xFFFF), class_id = ucast (drop_bit 16 class_rev),
           bar0 = bar, pci_irq = ucast (irq_info AND 0xFF)\<rparr>, t))"

definition is_rtl8139 :: "pci_device \<Rightarrow> bool" where
  "is_rtl8139 dev \<longleftrightarrow> vendor_id dev = 0x10EC \<and> device_id dev = 0x8139"

definition is_e1000 :: "pci_device \<Rightarrow> bool" where
  "is_e1000 dev \<longleftrightarrow> vendor_id dev = 0x8086 \<and> (device_id dev = 0x100E \<or> device_id dev = 0x10D3)"

definition pci_found :: "pci_device \<Rightarrow> machine \<Rightarrow> machine option" where
  "pci_found dev m =
     KDEBUG ''PCI'' (''Found [%04x:%04x] at %02x:%02x.%d (IRQ %d)'' @ nl)
       [half_arg (vendor_id dev), half_arg (device_id dev), byte_arg (bus dev), byte_arg (device dev),
        byte_arg (func dev), byte_arg (pci_irq dev)] m"

definition pci_attach :: "device \<Rightarrow> pci_device \<Rightarrow> machine \<Rightarrow> machine option" where
  "pci_attach hw dev m =
     do { m \<leftarrow> pci_found dev m;
          m \<leftarrow> (if is_rtl8139 dev
               then do { m \<leftarrow> KINFO ''PCI'' (''Detected RTL8139 Network Controller'' @ nl) [] m; rtl8139_init hw dev m }
               else Some m);
          if is_e1000 dev then KINFO ''PCI'' (''Detected Intel E1000 Network Controller'' @ nl) [] m
          else Some m }"

definition pci_probe :: "device \<Rightarrow> u8 \<Rightarrow> u8 \<Rightarrow> u8 \<Rightarrow> u32 \<times> machine \<Rightarrow> (u32 \<times> machine) option" where
  "pci_probe hw b slot f s =
     (let (count, m) = s;
          (vendor_device, t) = pci_config_read_dword hw b slot f 0 (trace m)
      in if vendor_device AND 0xFFFF = 0xFFFF then Some (count, m\<lparr>trace := t\<rparr>)
         else (let (dev, t) = pci_read_device hw b slot f vendor_device t
               in map_option (Pair (count + 1)) (pci_attach hw dev (m\<lparr>trace := t\<rparr>))))"

definition pci_scan :: "device \<Rightarrow> machine \<Rightarrow> (u32 \<times> machine) option" where
  "pci_scan hw m =
     foldo (\<lambda>b. foldo (\<lambda>slot. foldo (\<lambda>f. pci_probe hw (of_nat b) (of_nat slot) (of_nat f)) [0..<8]) [0..<32])
       [0..<256] (0, m)"

definition pci_init :: "device \<Rightarrow> machine \<Rightarrow> machine option" where
  "pci_init hw m =
     do { m \<leftarrow> KINFO ''PCI'' (''Scanning PCI bus...'' @ nl) [] m;
          (device_count, m) \<leftarrow> pci_scan hw m;
          KINFO ''PCI'' (''Scan complete. Found %u devices.'' @ nl) [Arg32 device_count] m }"

section \<open>Interrupts\<close>

definition run_handler :: "device \<Rightarrow> (io_trace \<Rightarrow> bytes) \<Rightarrow> handler \<Rightarrow> machine \<Rightarrow> machine option" where
  "run_handler hw dma h m =
     (case h of
        Pit_Irq_Handler \<Rightarrow> Some (pit_irq_handler m)
      | Keyboard_Handler \<Rightarrow> Some (keyboard_handler hw m)
      | Rtl8139_Handler \<Rightarrow> rtl8139_handler hw dma m)"

definition interrupt :: "device \<Rightarrow> (handler \<Rightarrow> u32) \<Rightarrow> (io_trace \<Rightarrow> bytes) \<Rightarrow> u32 \<Rightarrow> machine \<Rightarrow> machine option" where
  "interrupt hw addr dma int_no m =
     (let (h, m) = irq_handler addr int_no m
      in case h of None \<Rightarrow> Some m | Some h \<Rightarrow> run_handler hw dma h m)"

text \<open>\<open>pic_init\<close> with its message, and the wrappers of \<^verbatim>\<open>kernel.c\<close>.\<close>

definition do_pic_init :: "machine \<Rightarrow> machine option" where
  "do_pic_init m = KINFO ''PIC'' (''8259 PIC initialized'' @ nl) [] (m\<lparr>trace := pic_init (trace m)\<rparr>)"

definition do_timer_init :: "device \<Rightarrow> machine \<Rightarrow> machine option" where
  "do_timer_init hw m = pit_init hw 1000 m"

definition do_keyboard_init :: "device \<Rightarrow> machine \<Rightarrow> machine option" where
  "do_keyboard_init hw m = keyboard_init hw m"

text \<open>The part of \<open>kernel_main\<close> that makes the interrupts work.\<close>

definition device_init :: "device \<Rightarrow> machine \<Rightarrow> machine option" where
  "device_init hw m = do { m \<leftarrow> do_pic_init m; m \<leftarrow> do_timer_init hw m; do_keyboard_init hw m }"

end
