(* ===== verification/Drivers_Spec.thy ===== *)
theory Drivers_Spec
  imports Drivers Interrupts_Spec
begin

text \<open>
  The drivers over devices that behave as documented: the mask registers of the interrupt
  controller answer what was last written, the keyboard controller runs empty when it is read.
\<close>

section \<open>The keyboard controller\<close>

definition data_reads :: "io_trace \<Rightarrow> nat" where
  "data_reads t = length (filter (\<lambda>e. e = Inb PS2_DATA_PORT) t)"

text \<open>The output buffer holds \<open>n\<close> bytes when the machine starts; it does not refill during the set-up.\<close>

definition kbc_device :: "nat \<Rightarrow> device \<Rightarrow> bool" where
  "kbc_device n hw \<longleftrightarrow> (\<forall>t. (ucast (hw t PS2_STATUS_PORT) :: u8) AND PS2_STATUS_OUTPUT_FULL \<noteq> 0 \<longrightarrow> data_reads t < n)"

lemma flush_step_reads:
  assumes "fst (flush_step hw t)"
  shows "data_reads (snd (flush_step hw t)) = data_reads t + 1"
  using assms by (auto simp: flush_step_def inb_def data_reads_def PS2_DATA_PORT_def PS2_STATUS_PORT_def)

lemma ps2_flush_ends:
  assumes "kbc_device n hw"
  shows "\<exists>t'. ps2_flush hw t = Some t'"
proof (induction "n - data_reads t" arbitrary: t rule: less_induct)
  case less
  show ?case
  proof (cases "fst (flush_step hw t)")
    case True
    then have "data_reads t < n"
      using assms by (auto simp: flush_step_def inb_def kbc_device_def split: if_splits)
    then have "n - data_reads (snd (flush_step hw t)) < n - data_reads t"
      using flush_step_reads [OF True] by simp
    from less [OF this] show ?thesis using True by (subst ps2_flush.simps) simp
  next
    case False
    then show ?thesis by (subst ps2_flush.simps) simp
  qed
qed

text \<open>The set-up touches no port but those of the controller.\<close>

definition same_masks :: "io_trace \<Rightarrow> io_trace \<Rightarrow> bool" where
  "same_masks t t' \<longleftrightarrow> last_out PIC1_DATA t' = last_out PIC1_DATA t \<and> last_out PIC2_DATA t' = last_out PIC2_DATA t"

lemma same_masks_trans: "same_masks t t' \<Longrightarrow> same_masks t' t'' \<Longrightarrow> same_masks t t''"
  by (simp add: same_masks_def)

lemma same_masks_enabled: "same_masks t t' \<Longrightarrow> masks t' = masks t \<and> enabled t' = enabled t"
  by (simp add: same_masks_def masks_def enabled_def)

lemma same_masks_io [simp]:
  "same_masks t t" "same_masks t (snd (inb hw p t')) \<longleftrightarrow> same_masks t t'"
  "same_masks (snd (inb hw p t)) t' \<longleftrightarrow> same_masks t t'"
  "p \<noteq> PIC1_DATA \<Longrightarrow> p \<noteq> PIC2_DATA \<Longrightarrow> same_masks t (outb p v t') \<longleftrightarrow> same_masks t t'"
  by (auto simp: same_masks_def)

lemma ps2_ports_other [simp]:
  "PS2_DATA_PORT \<noteq> PIC1_DATA" "PS2_DATA_PORT \<noteq> PIC2_DATA"
  "PS2_COMMAND_PORT \<noteq> PIC1_DATA" "PS2_COMMAND_PORT \<noteq> PIC2_DATA"
  by (simp_all add: PS2_DATA_PORT_def PS2_COMMAND_PORT_def pic_ports)

lemma wait_masks:
  "same_masks t (snd (wait_for_write k hw t))" "same_masks t (snd (wait_for_read k hw t))"
proof -
  show "same_masks t (snd (wait_for_write k hw t))"
    by (induction k arbitrary: t) (simp_all add: split_beta, metis same_masks_io(3))
  show "same_masks t (snd (wait_for_read k hw t))"
    by (induction k arbitrary: t) (simp_all add: split_beta, metis same_masks_io(3))
qed

lemma ps2_write_masks:
  "same_masks t (snd (ps2_write_cmd hw c t))" "same_masks t (snd (ps2_write_data hw c t))"
  "same_masks t (snd (ps2_read_data hw t))"
  by (simp_all add: ps2_write_cmd_def ps2_write_data_def ps2_read_data_def split_beta wait_masks)

lemma flush_step_masks: "same_masks t (snd (flush_step hw t))"
  by (simp add: flush_step_def split_beta)

lemma ps2_flush_masks:
  assumes "ps2_flush hw t = Some t'"
  shows "same_masks t t'"
proof (rule ps2_flush.raw_induct [OF _ assms, of "\<lambda>hw. same_masks"])
  fix flush hw t t'
  assume IH: "\<And>hw t t'. flush hw t = Some t' \<Longrightarrow> same_masks t t'"
    and e: "(if fst (flush_step hw t) then flush hw (snd (flush_step hw t)) else Some (snd (flush_step hw t))) = Some t'"
  show "same_masks t t'"
    using e IH flush_step_masks [of t hw] by (auto split: if_splits intro: same_masks_trans)
qed

lemma ps2_init_masks:
  assumes "ps2_init hw t = Some t'"
  shows "same_masks t t'"
proof -
  let ?a = "snd (ps2_write_cmd hw 0xA7 (snd (ps2_write_cmd hw 0xAD t)))"
  obtain u where u: "ps2_flush hw ?a = Some u"
    and t': "t' = snd (ps2_write_cmd hw 0xAE (snd (ps2_write_data hw
        (fst (ps2_read_data hw (snd (ps2_write_cmd hw 0x20 u))) OR 0x41)
        (snd (ps2_write_cmd hw 0x60 (snd (ps2_read_data hw (snd (ps2_write_cmd hw 0x20 u)))))))))"
    using assms by (auto simp: ps2_init_def split_beta bind_eq_Some_conv)
  have "same_masks t u" using ps2_flush_masks [OF u] ps2_write_masks(1) same_masks_trans by blast
  moreover have "same_masks u t'" unfolding t'
    using ps2_write_masks same_masks_trans by meson
  ultimately show ?thesis by (rule same_masks_trans)
qed

lemma ps2_init_ends:
  assumes "kbc_device n hw"
  shows "\<exists>t'. ps2_init hw t = Some t'"
  using ps2_flush_ends [OF assms, of "snd (ps2_write_cmd hw 0xA7 (snd (ps2_write_cmd hw 0xAD t)))"]
  by (auto simp: ps2_init_def split_beta)

section \<open>Start-up and interrupts\<close>

text \<open>A message changes the screen only.\<close>

lemma intr_log_pieces:
  assumes "\<forall>p \<in> set ps. piece_ok p" "text_of fmt = concat (map piece_format ps)" "args = concat (map piece_args ps)"
    and "0 \<notin> set (text_of modul)"
  shows "\<exists>c. intr_log level modul fmt args m = Some (m\<lparr>vga := c\<rparr>)"
  unfolding intr_log_def klog_pieces [OF assms] option.map by blast

lemma KINFO_literal:
  assumes "0 \<notin> set (text_of fmt)" "37 \<notin> set (text_of fmt)" "0 \<notin> set (text_of modul)"
  shows "\<exists>c. KINFO modul fmt [] m = Some (m\<lparr>vga := c\<rparr>)"
  unfolding KINFO_def intr_log_def klog_literal [OF assms] option.map by blast

lemma isr_register_ok:
  assumes "0 \<le> irq" "irq < 256"
  shows "\<exists>c. isr_register_handler irq h m = Some (m\<lparr>isr_handlers := (isr_handlers m)[nat irq := Some h], vga := c\<rparr>)"
  using assms KINFO_literal [of "''Handler registered''" "''ISR''" "m\<lparr>isr_handlers := (isr_handlers m)[nat irq := Some h]\<rparr>"]
  by (simp add: isr_register_handler_def IDT_ENTRIES_def)

lemma pit_program_masks: "same_masks t (pit_program d t)"
  by (simp add: pit_program_def same_masks_def Let_def io_wait_def PIT_CMD_def PIT_CH0_def pic_ports)

lemma pit_init_state:
  assumes "pic_device hw" "masks (trace m) \<noteq> None" "f \<noteq> 0"
  shows "\<exists>t c. pit_init hw f m = Some (m\<lparr>timer_hz := f, isr_handlers := (isr_handlers m)[32 := Some Pit_Irq_Handler],
      trace := t, vga := c\<rparr>) \<and> masks t \<noteq> None \<and> enabled t = insert 0 (enabled (trace m))"
proof -
  let ?t = "pit_program (pit_divisor f) (trace m)"
  have s: "masks ?t = masks (trace m)" "enabled ?t = enabled (trace m)"
    using same_masks_enabled [OF pit_program_masks] by auto
  obtain t where t: "pic_unmask_irq hw 0 ?t = Some t" "masks t \<noteq> None" "enabled t = insert 0 (enabled (trace m))"
    using pic_unmask_enabled [OF assms(1), of ?t 0] assms(2) by (auto simp: s)
  obtain c where c: "isr_register_handler 32 Pit_Irq_Handler (m\<lparr>timer_hz := f, trace := ?t\<rparr>)
      = Some (m\<lparr>timer_hz := f, trace := ?t, isr_handlers := (isr_handlers m)[32 := Some Pit_Irq_Handler], vga := c\<rparr>)"
    using isr_register_ok [of 32 Pit_Irq_Handler "m\<lparr>timer_hz := f, trace := ?t\<rparr>"] by auto
  have "text_of (''Programmable Interval Timer initialized at %u Hz'' @ nl) = concat (map piece_format
      [Literal (text_of ''Programmable Interval Timer initialized at ''), Unsigned f, Literal (text_of '' Hz'' @ [10])])" by simp
  from intr_log_pieces [OF _ this, of "[Arg32 f]" "''PIT''" LOG_INFO
      "m\<lparr>timer_hz := f, isr_handlers := (isr_handlers m)[32 := Some Pit_Irq_Handler], trace := t, vga := c\<rparr>"]
  obtain d where "KINFO ''PIT'' (''Programmable Interval Timer initialized at %u Hz'' @ nl) [Arg32 f]
      (m\<lparr>timer_hz := f, isr_handlers := (isr_handlers m)[32 := Some Pit_Irq_Handler], trace := t, vga := c\<rparr>)
    = Some (m\<lparr>timer_hz := f, isr_handlers := (isr_handlers m)[32 := Some Pit_Irq_Handler], trace := t, vga := d\<rparr>)"
    by (auto simp: KINFO_def)
  then show ?thesis using t c assms(3)
    by (intro exI [of _ t] exI [of _ d]) (cases m, simp add: pit_init_def INT_IRQ0_def)
qed

lemma keyboard_init_state:
  assumes "pic_device hw" "kbc_device n hw" "masks (trace m) \<noteq> None"
  shows "\<exists>t c. keyboard_init hw m = Some (m\<lparr>isr_handlers := (isr_handlers m)[33 := Some Keyboard_Handler], trace := t,
      kbd := keyboard_reset (kbd m), vga := c\<rparr>) \<and> masks t \<noteq> None \<and> enabled t = insert 1 (enabled (trace m))"
proof -
  obtain u where u: "ps2_init hw (trace m) = Some u" using ps2_init_ends [OF assms(2)] by blast
  have s: "masks u = masks (trace m)" "enabled u = enabled (trace m)"
    using same_masks_enabled [OF ps2_init_masks [OF u]] by auto
  obtain t where t: "pic_unmask_irq hw 1 u = Some t" "masks t \<noteq> None" "enabled t = insert 1 (enabled (trace m))"
    using pic_unmask_enabled [OF assms(1), of u 1] assms(3) by (auto simp: s)
  obtain c where c: "isr_register_handler 33 Keyboard_Handler (m\<lparr>trace := u\<rparr>)
      = Some (m\<lparr>trace := u, isr_handlers := (isr_handlers m)[33 := Some Keyboard_Handler], vga := c\<rparr>)"
    using isr_register_ok [of 33 Keyboard_Handler "m\<lparr>trace := u\<rparr>"] by auto
  let ?m = "m\<lparr>isr_handlers := (isr_handlers m)[33 := Some Keyboard_Handler], trace := t, kbd := keyboard_reset (kbd m), vga := c\<rparr>"
  obtain d where "KINFO ''keyboard'' (''PS/2 keyboard initialized'' @ nl) [] ?m = Some (?m\<lparr>vga := d\<rparr>)"
    using KINFO_literal [of "''PS/2 keyboard initialized'' @ nl" "''keyboard''" ?m] by auto
  then show ?thesis using u t c
    by (intro exI [of _ t] exI [of _ d]) (cases m, simp add: keyboard_init_def INT_IRQ1_def)
qed

lemma do_pic_init_state:
  "\<exists>c. do_pic_init m = Some (m\<lparr>trace := pic_init (trace m), vga := c\<rparr>)"
  using KINFO_literal [of "''8259 PIC initialized'' @ nl" "''PIC''" "m\<lparr>trace := pic_init (trace m)\<rparr>"]
  by (simp add: do_pic_init_def)

lemma device_init_state:
  assumes "pic_device hw" "kbc_device n hw"
  shows "\<exists>t c. device_init hw m = Some (m\<lparr>timer_hz := 1000, trace := t, kbd := keyboard_reset (kbd m),
      isr_handlers := (isr_handlers m)[32 := Some Pit_Irq_Handler, 33 := Some Keyboard_Handler], vga := c\<rparr>)
    \<and> masks t \<noteq> None \<and> enabled t = {0, 1, 2}"
proof -
  obtain c where c: "do_pic_init m = Some (m\<lparr>trace := pic_init (trace m), vga := c\<rparr>)" using do_pic_init_state by blast
  let ?m = "m\<lparr>trace := pic_init (trace m), vga := c\<rparr>"
  obtain t d where t: "pit_init hw 1000 ?m = Some (?m\<lparr>timer_hz := 1000,
      isr_handlers := (isr_handlers ?m)[32 := Some Pit_Irq_Handler], trace := t, vga := d\<rparr>)"
    "masks t \<noteq> None" "enabled t = {0, 2}"
    using pit_init_state [OF assms(1), of ?m 1000] pic_init_enabled [of "trace m"] by auto
  let ?n = "?m\<lparr>timer_hz := 1000, isr_handlers := (isr_handlers ?m)[32 := Some Pit_Irq_Handler], trace := t, vga := d\<rparr>"
  obtain u e where "keyboard_init hw ?n = Some (?n\<lparr>isr_handlers := (isr_handlers ?n)[33 := Some Keyboard_Handler],
      trace := u, kbd := keyboard_reset (kbd ?n), vga := e\<rparr>)" "masks u \<noteq> None" "enabled u = insert 1 (enabled t)"
    using keyboard_init_state [OF assms, of ?n] t(2) by auto
  then show ?thesis using c t
    by (intro exI [of _ u] exI [of _ e]) (simp add: device_init_def do_timer_init_def do_keyboard_init_def insert_commute)
qed

text \<open>The state from then on: two handlers, the timer at 1000 Hz.\<close>

definition irq_ready :: "machine \<Rightarrow> bool" where
  "irq_ready m \<longleftrightarrow> timer_hz m = 1000 \<and>
     isr_handlers m = (replicate 256 None)[32 := Some Pit_Irq_Handler, 33 := Some Keyboard_Handler]"

lemma interrupt_ready:
  assumes "irq_ready m" "addr Pit_Irq_Handler > 0x1000"
  shows "\<exists>m'. interrupt hw addr dma v m = Some m' \<and> irq_ready m' \<and>
    timer_ticks m' = timer_ticks m + (if v = 32 then 1 else 0)"
proof -
  define n where "n = snd (irq_handler addr v m)"
  have n: "irq_ready n" "timer_ticks n = timer_ticks m"
    using assms(1) by (simp_all add: n_def irq_handler_def irq_ready_def Let_def)
  have v: "unat v = 32 \<longleftrightarrow> v = 32"
    using unat_eq_unat_iff [of v 32] by simp
  have h: "fst (irq_handler addr v m) = (if v = 32 then Some Pit_Irq_Handler
      else if unat v = 33 \<and> addr Keyboard_Handler > 0x1000 then Some Keyboard_Handler else None)"
    using assms v by (auto simp: irq_handler_def irq_target_def irq_ready_def Let_def IDT_ENTRIES_def nth_list_update)
  have "interrupt hw addr dma v m = (case fst (irq_handler addr v m) of None \<Rightarrow> Some n | Some h \<Rightarrow> run_handler hw dma h n)"
    by (simp add: interrupt_def split_beta n_def cong: option.case_cong)
  then show ?thesis using n unfolding h
    by (auto simp: run_handler_def pit_irq_handler_def keyboard_handler_def irq_ready_def split_beta)
qed

lemma interrupts_ready:
  assumes "irq_ready m" "addr Pit_Irq_Handler > 0x1000"
  shows "\<exists>m'. foldo (interrupt hw addr dma) vs m = Some m' \<and> irq_ready m' \<and>
    timer_ticks m' = timer_ticks m + of_nat (count_list vs 32)"
  using assms(1)
proof (induction vs arbitrary: m)
  case (Cons v vs)
  obtain n where n: "interrupt hw addr dma v m = Some n" "irq_ready n"
    "timer_ticks n = timer_ticks m + (if v = 32 then 1 else 0)"
    using interrupt_ready [where addr = addr, OF Cons.prems assms(2)] by blast
  obtain m' where "foldo (interrupt hw addr dma) vs n = Some m'" "irq_ready m'"
    "timer_ticks m' = timer_ticks n + of_nat (count_list vs 32)"
    using Cons.IH [OF n(2)] by blast
  then show ?case using n by (intro exI [of _ m']) simp
qed simp

lemma uptime_ready:
  assumes "irq_ready m"
  shows "unat (fst (timer_get_uptime_ms m)) = unat (timer_ticks m)"
proof -
  have b: "unat (timer_ticks m) < 4294967296" by simp
  have u: "unat (ucast (timer_ticks m) :: u64) = unat (timer_ticks m)"
    by (simp only: unsigned_ucast_eq) (rule take_bit_nat_eq_self, rule less_trans [OF b], simp)
  obtain k where k: "unat (timer_ticks m) = k" "k < 4294967296" using b by blast
  then have "k * 1000 < 18446744073709551616" by linarith
  then have "unat (ucast (timer_ticks m) * 1000 :: u64) = unat (timer_ticks m) * 1000"
    using u k(1) by (subst unat_mult_lem [THEN iffD1]) simp_all
  then have "unat ((ucast (timer_ticks m) * 1000) div 1000 :: u64) = unat (timer_ticks m)"
    by (simp add: unat_div)
  moreover have "fst (timer_get_uptime_ms m) = (ucast (timer_ticks m) * 1000) div 1000"
    using assms by (simp add: timer_get_uptime_ms_def irq_ready_def Let_def)
  ultimately show ?thesis by simp
qed

lemma kbc_demo_pic: "kbc_device 0 demo_pic"
  by (simp add: kbc_device_def demo_pic_def PS2_STATUS_PORT_def pic_ports)

text \<open>C10. The clock of the system: over devices that behave as documented, the start-up of the
  interrupt controller, the timer and the keyboard returns, with exactly the timer, the keyboard and the
  cascade line enabled; from then on every sequence of interrupts, of whatever numbers, is handled, and
  the uptime is as many milliseconds as there were timer interrupts among them, modulo \<open>2 ^ 32\<close>.\<close>

theorem uptime_counts_timer_interrupts:
  assumes "pic_device hw" "kbc_device n hw" "addr Pit_Irq_Handler > 0x1000"
  shows "\<exists>m m'. device_init hw (machine0 a con) = Some m \<and> enabled (trace m) = {0, 1, 2} \<and>
    foldo (interrupt hw addr dma) vs m = Some m' \<and>
    unat (fst (timer_get_uptime_ms m')) = count_list vs 32 mod 2 ^ 32"
proof -
  obtain m where m: "device_init hw (machine0 a con) = Some m" "enabled (trace m) = {0, 1, 2}"
    "irq_ready m" "timer_ticks m = 0"
    using device_init_state [OF assms(1,2), of "machine0 a con"] by (auto simp: irq_ready_def machine0_def)
  obtain m' where m': "foldo (interrupt hw addr dma) vs m = Some m'" "irq_ready m'"
    "timer_ticks m' = of_nat (count_list vs 32)"
    using interrupts_ready [where addr = addr and hw = hw and dma = dma and vs = vs, OF m(3) assms(3)] m(4) by auto
  have "unat (fst (timer_get_uptime_ms m')) = count_list vs 32 mod 2 ^ 32"
    using uptime_ready [OF m'(2)] m'(3) by (simp add: unat_of_nat)
  then show ?thesis using m(1,2) m'(1) by blast
qed

theorem uptime_counts_timer_interrupts_witness:
  "\<exists>m m'. device_init demo_pic (machine0 0x200000 blank_console) = Some m \<and> enabled (trace m) = {0, 1, 2} \<and>
    foldo (interrupt demo_pic (\<lambda>_. 0x100000) (\<lambda>_. [])) [32, 33, 32, 14, 300] m = Some m' \<and>
    unat (fst (timer_get_uptime_ms m')) = 2"
proof -
  have c: "count_list [32, 33, 32, 14, 300 :: u32] 32 mod 2 ^ 32 = 2" by simp
  show ?thesis
    using uptime_counts_timer_interrupts [OF demo_pic_device kbc_demo_pic, of "\<lambda>_. 0x100000"
      "0x200000" blank_console "\<lambda>_. []" "[32, 33, 32, 14, 300]"] unfolding c by simp
qed

text \<open>The divisor is the frequency's, for the frequencies a 16-bit divisor can express.\<close>

lemma pit_divisor_bounds:
  assumes "19 \<le> unat f"
  shows "unat (pit_divisor f) * unat f \<le> 1193180" "1193180 < (unat (pit_divisor f) + 1) * unat f"
proof -
  have "1193180 div unat f \<le> 1193180 div 19" using assms by (intro div_le_mono2) simp_all
  then have "1193180 div unat f < 65536" by simp
  then have d: "unat (pit_divisor f) = 1193180 div unat f"
    by (simp add: pit_divisor_def unsigned_ucast_eq unat_div take_bit_nat_eq_self)
  show "unat (pit_divisor f) * unat f \<le> 1193180" unfolding d by (rule div_times_less_eq_dividend)
  show "1193180 < (unat (pit_divisor f) + 1) * unat f"
    unfolding d using dividend_less_div_times [of "unat f" 1193180] assms by simp
qed

section \<open>PCI addresses\<close>

lemma bit_pci_address:
  "bit (pci_address b slot f off) n \<longleftrightarrow> n < 32 \<and> (16 \<le> n \<and> bit b (n - 16) \<or> 11 \<le> n \<and> bit slot (n - 11) \<or>
     8 \<le> n \<and> bit f (n - 8) \<or> 2 \<le> n \<and> n < 8 \<and> bit off n \<or> n = 31)"
proof -
  have m: "(0xFC::u32) = push_bit 2 (mask 6)" "(0x80000000::u32) = push_bit 31 1"
    by (simp_all add: mask_eq_exp_minus_1 push_bit_eq_mult)
  have "bit (0xFC::u32) n \<longleftrightarrow> 2 \<le> n \<and> n < 8" unfolding m(1)
    by (simp only: bit_push_bit_iff bit_mask_iff) auto
  moreover have "bit (0x80000000::u32) n \<longleftrightarrow> n = 31" unfolding m(2)
    by (simp only: bit_push_bit_iff bit_1_iff) auto
  ultimately show ?thesis
    by (auto simp: pci_address_def bit_or_iff bit_and_iff bit_push_bit_iff bit_ucast_iff dest: bit_imp_le_length)
qed

lemma small_bits:
  fixes x :: u8
  assumes "unat x < 2 ^ k" "bit x n"
  shows "n < k"
proof (rule ccontr)
  assume "\<not> n < k"
  then have "(2::nat) ^ k \<le> 2 ^ n" by simp
  moreover have "bit (unat x) n" using assms(2) by (simp add: bit_unsigned_iff)
  then have "2 ^ n \<le> unat x" using bit_nat_iff by (metis bit_take_bit_iff le_less_linear less_irrefl take_bit_nat_eq_self)
  ultimately show False using assms(1) by linarith
qed

text \<open>The fields of the address are the arguments, so different functions have different addresses.\<close>

lemma pci_address_fields:
  assumes "slot < 32" "f < 8"
  shows "ucast (drop_bit 16 (pci_address b slot f off)) = b"
    and "take_bit 5 (drop_bit 11 (pci_address b slot f off)) = ucast slot"
    and "take_bit 3 (drop_bit 8 (pci_address b slot f off)) = ucast f"
proof -
  have "unat slot < 2 ^ 5" "unat f < 2 ^ 3" using unat_mono [OF assms(1)] unat_mono [OF assms(2)] by simp_all
  note s = small_bits [OF this(1)] and t = small_bits [OF this(2)]
  have s': "\<not> bit slot n" if "5 \<le> n" for n using s [of n] that by auto
  have t': "\<not> bit f n" if "3 \<le> n" for n using t [of n] that by auto
  have b': "\<not> bit b n" if "8 \<le> n" for n using that bit_imp_le_length [of b n] by auto
  show "ucast (drop_bit 16 (pci_address b slot f off)) = b"
    by (rule bit_word_eqI) (simp add: bit_ucast_iff bit_drop_bit_eq bit_pci_address s' t')
  show "take_bit 5 (drop_bit 11 (pci_address b slot f off)) = ucast slot"
  proof (rule bit_word_eqI)
    fix n
    show "bit (take_bit 5 (drop_bit 11 (pci_address b slot f off))) n = bit (ucast slot :: u32) n"
      by (cases "n < 5") (simp_all add: bit_ucast_iff bit_drop_bit_eq bit_take_bit_iff bit_pci_address s' t')
  qed
  show "take_bit 3 (drop_bit 8 (pci_address b slot f off)) = ucast f"
  proof (rule bit_word_eqI)
    fix n
    show "bit (take_bit 3 (drop_bit 8 (pci_address b slot f off))) n = bit (ucast f :: u32) n"
      by (cases "n < 3") (simp_all add: bit_ucast_iff bit_drop_bit_eq bit_take_bit_iff bit_pci_address s' t')
  qed
qed

section \<open>The receive ring\<close>

text \<open>The next offset is the end of the packet with its header, rounded up to a word, in the ring.\<close>

lemma unat_next_rx_offset:
  assumes "unat off < 8192"
  shows "unat (next_rx_offset off len) = (unat off + unat len + 7) div 4 * 4 mod 8192"
proof -
  obtain l where l: "unat len = l" "l < 65536" using unat_u16_bounds(1) by blast
  have u: "unat (ucast len :: u32) = l"
    using l by (simp only: unsigned_ucast_eq) (simp add: take_bit_nat_eq_self)
  have "unat (off + ucast len) = unat off + l"
    using assms u l(2) by (subst unat_add_lem [THEN iffD1]) simp_all
  then have s: "unat (off + ucast len + 7) = unat off + l + 7"
    using assms l(2) by (subst unat_add_lem [THEN iffD1]) simp_all
  have e: "next_rx_offset off len = ((off + ucast len + 7) AND NOT (2 ^ 2 - 1)) mod RX_BUF_SIZE"
    by (simp add: next_rx_offset_def add.assoc)
  have "unat RX_BUF_SIZE = 8192" by (simp add: RX_BUF_SIZE_def)
  then show ?thesis unfolding e unat_mod unat_and_not_mask s l(1) by (simp only: power2_eq_square) simp
qed

lemma next_rx_offset_ring:
  assumes "unat off < 8192"
  shows "unat (next_rx_offset off len) < 8192" "4 dvd unat (next_rx_offset off len)"
  using assms by (simp_all add: unat_next_rx_offset dvd_mod)

definition rx_ok :: "machine \<Rightarrow> bool" where
  "rx_ok m \<longleftrightarrow> unat (rx_offset (nic m)) < 8192 \<and> 4 dvd unat (rx_offset (nic m))"

text \<open>With a buffer of the allocated size the header is always read inside it, and so is a frame of at
  most 2064 bytes; the loop keeps the offset inside the ring.\<close>

lemma rx_header_in_bounds:
  assumes "rx_ok m" "length (dma t) = unat RX_TOTAL_SIZE"
  shows "4 \<le> length (drop (unat (rx_offset (nic m))) (dma t))"
    and "n \<le> 2064 \<Longrightarrow> n \<le> length (drop 4 (drop (unat (rx_offset (nic m))) (dma t)))"
proof -
  obtain q where "unat (rx_offset (nic m)) = 4 * q" using assms(1) by (auto simp: rx_ok_def)
  then have "unat (rx_offset (nic m)) \<le> 8188" using assms(1) by (simp add: rx_ok_def)
  then show "4 \<le> length (drop (unat (rx_offset (nic m))) (dma t))"
    and "n \<le> 2064 \<Longrightarrow> n \<le> length (drop 4 (drop (unat (rx_offset (nic m))) (dma t)))"
    using assms(2) by (simp_all add: RX_TOTAL_SIZE_def RX_BUF_SIZE_def)
qed

lemma rx_step_ok:
  assumes "rx_step hw dma m = Some (c, m')" "rx_ok m"
  shows "rx_ok m'"
  using assms by (auto simp: rx_step_def rx_ok_def Let_def split_beta bind_eq_Some_conv next_rx_offset_ring
      split: if_splits)

lemma rx_loop_ok:
  assumes "rx_loop hw dma m = Some m'" "rx_ok m"
  shows "rx_ok m'"
proof -
  have "rx_ok m \<longrightarrow> rx_ok m'"
  proof (rule rx_loop.raw_induct [OF _ assms(1), of "\<lambda>_ _ m m'. rx_ok m \<longrightarrow> rx_ok m'"])
    fix loop hw dma m m'
    assume IH: "\<And>hw dma m m'. loop hw dma m = Some m' \<Longrightarrow> rx_ok m \<longrightarrow> rx_ok m'"
      and e: "(case rx_step hw dma m of None \<Rightarrow> None
        | Some r \<Rightarrow> if fst r then loop hw dma (snd r) else Some (snd r)) = Some m'"
    show "rx_ok m \<longrightarrow> rx_ok m'"
      using e IH by (auto split: option.splits if_splits dest: rx_step_ok)
  qed
  then show ?thesis using assms(2) by simp
qed

section \<open>Sending\<close>

text \<open>The driver's transmit function refines the one the network stack is modelled with: same result,
  same next descriptor, and the frame is in the buffer whose address and length the card was given.\<close>

definition tx_ready :: "machine \<Rightarrow> bool" where
  "tx_ready m \<longleftrightarrow> rtl_tx_desc (nic m) < 4 \<and> (\<forall>d < 4. tx_bufs (nic m) ! d \<noteq> 0 \<and> length (tx_mem (nic m) d) = 2048)"

lemma rtl8139_transmit_refines:
  assumes "tx_ready m" "tx_desc st = rtl_tx_desc (nic m)"
  shows "\<exists>m'. rtl8139_transmit frame m = Some (fst (driver_transmit Rtl8139_Driver frame st), m') \<and> tx_ready m' \<and>
    tx_desc (snd (driver_transmit Rtl8139_Driver frame st)) = rtl_tx_desc (nic m') \<and>
    (length frame \<le> 1792 \<longrightarrow> take (length frame) (tx_mem (nic m') (rtl_tx_desc (nic m))) = frame)"
proof -
  have a: "alloc_tx_bufs m = m" using assms(1) by (simp add: alloc_tx_bufs_def tx_ready_def)
  show ?thesis
    using assms by (auto simp: rtl8139_transmit_def a tx_ready_def Let_def put_bytes_def)
qed

end
