(* ===== verification/Shell_Math.thy ===== *)
theory Shell_Math
  imports C_String Digits
begin

text \<open>
  \<^verbatim>\<open>kernel/shell_math.c\<close>: the evaluator of \<open>a op b\<close>.  The string is the bytes of
  its object from the pointer on; overflow of a signed int is \<open>None\<close>.
\<close>

section \<open>The evaluator\<close>

definition is_op :: "u8 \<Rightarrow> bool" where
  "is_op c \<longleftrightarrow> c = 43 \<or> c = 45 \<or> c = 42 \<or> c = 47"

fun skip_spaces :: "bytes \<Rightarrow> bytes option" where
  "skip_spaces [] = None"
| "skip_spaces (c # p) = (if c = 32 then skip_spaces p else Some (c # p))"

text \<open>The digit loop, with the number read so far.\<close>

fun number_loop :: "bytes \<Rightarrow> int \<Rightarrow> (int \<times> bytes) option" where
  "number_loop [] a = None"
| "number_loop (c # p) a =
     (if is_digit c
      then (let a = a * 10 + (uint c - 48) in if int32_ok a then number_loop p a else None)
      else Some (a, c # p))"

text \<open>The result code, and what is stored in \<open>*result\<close>.\<close>

definition calculate :: "u8 \<Rightarrow> int \<Rightarrow> int \<Rightarrow> (int \<times> int option) option" where
  "calculate op a b =
     (if op = 43 then (if int32_ok (a + b) then Some (0, Some (a + b)) else None)
      else if op = 45 then (if int32_ok (a - b) then Some (0, Some (a - b)) else None)
      else if op = 42 then (if int32_ok (a * b) then Some (0, Some (a * b)) else None)
      else if op = 47 then
        (if b = 0 then Some (-2, None)
         else if int32_ok (a sdiv b) then Some (0, Some (a sdiv b)) else None)
      else Some (-1, None))"

definition shell_eval_math :: "bytes \<Rightarrow> (int \<times> int option) option" where
  "shell_eval_math str =
     do { p \<leftarrow> skip_spaces str;
          if \<not> is_digit (hd p) then Some (-1, None)
          else do {
            (a, p) \<leftarrow> number_loop p 0;
            p \<leftarrow> skip_spaces p;
            if \<not> is_op (hd p) then Some (-1, None)
            else do {
              let op = hd p;
              p \<leftarrow> skip_spaces (tl p);
              if \<not> is_digit (hd p) then Some (-1, None)
              else do {
                (b, p) \<leftarrow> number_loop p 0;
                p \<leftarrow> skip_spaces p;
                if hd p \<noteq> 0 then Some (-1, None) else calculate op a b } } } }"

section \<open>What it accepts\<close>

text \<open>The value of a digit sequence, and the texts of the form \<open>a op b\<close>.\<close>

definition text_value :: "bytes \<Rightarrow> int" where
  "text_value ds = foldl (\<lambda>a c. a * 10 + (uint c - 48)) 0 ds"

definition numeral_ok :: "bytes \<Rightarrow> bool" where
  "numeral_ok ds \<longleftrightarrow> ds \<noteq> [] \<and> (\<forall>c \<in> set ds. is_digit c) \<and> int32_ok (text_value ds)"

definition expression :: "bytes \<Rightarrow> u8 \<Rightarrow> bytes \<Rightarrow> bytes \<Rightarrow> bool" where
  "expression ds1 op ds2 s \<longleftrightarrow> numeral_ok ds1 \<and> numeral_ok ds2 \<and> is_op op \<and>
     (\<exists>i j k l rest. s = replicate i 32 @ ds1 @ replicate j 32 @ op # replicate k 32 @ ds2 @ replicate l 32 @ 0 # rest)"

lemma skip_spaces_replicate: "c \<noteq> 32 \<Longrightarrow> skip_spaces (replicate i 32 @ c # p) = Some (c # p)"
  by (induction i) auto

lemma skip_spaces_Some:
  "skip_spaces s = Some p \<Longrightarrow> \<exists>i c q. p = c # q \<and> c \<noteq> 32 \<and> s = replicate i 32 @ p"
proof (induction s)
  case (Cons c s)
  show ?case
  proof (cases "c = 32")
    case True
    then obtain i d q where "p = d # q" "d \<noteq> 32" "s = replicate i 32 @ p" using Cons by auto
    then show ?thesis using True by (intro exI [of _ "Suc i"] exI [of _ d] exI [of _ q]) auto
  next
    case False
    then show ?thesis using Cons.prems by (intro exI [of _ "0::nat"] exI [of _ c] exI [of _ s]) auto
  qed
qed simp

abbreviation accumulate :: "int \<Rightarrow> bytes \<Rightarrow> int" where
  "accumulate \<equiv> foldl (\<lambda>a c. a * 10 + (uint c - 48))"

lemma is_digit_uint: "is_digit c \<Longrightarrow> 48 \<le> uint c"
  by (auto simp: is_digit_def word_le_def)

lemma accumulate_mono: "0 \<le> a \<Longrightarrow> \<forall>c \<in> set ds. is_digit c \<Longrightarrow> a \<le> accumulate a ds"
proof (induction ds arbitrary: a)
  case (Cons c ds)
  have "48 \<le> uint c" using Cons.prems by (simp add: is_digit_uint)
  then have "a \<le> a * 10 + (uint c - 48)" "0 \<le> a * 10 + (uint c - 48)" using Cons.prems(1) by linarith+
  then show ?case using Cons.IH [of "a * 10 + (uint c - 48)"] Cons.prems(2) by simp
qed simp

lemma number_loop_digits:
  assumes "\<forall>c \<in> set ds. is_digit c" "\<not> is_digit d" "0 \<le> a" "int32_ok (accumulate a ds)"
  shows "number_loop (ds @ d # p) a = Some (accumulate a ds, d # p)"
  using assms
proof (induction ds arbitrary: a)
  case (Cons c ds)
  let ?a = "a * 10 + (uint c - 48)"
  have "48 \<le> uint c" using Cons.prems by (simp add: is_digit_uint)
  then have a: "0 \<le> ?a" using Cons.prems(3) by linarith
  then have "?a \<le> accumulate ?a ds" using Cons.prems(1) by (intro accumulate_mono) auto
  then have "int32_ok ?a" using a Cons.prems(4) by (auto intro: int32_ok_mono)
  then show ?case using Cons.IH [OF _ _ a] Cons.prems by simp
qed simp

lemma number_loop_Some:
  "number_loop s a = Some (v, p) \<Longrightarrow> \<exists>ds d q. s = ds @ p \<and> p = d # q \<and> \<not> is_digit d \<and> (\<forall>c \<in> set ds. is_digit c) \<and>
     v = accumulate a ds \<and> (ds \<noteq> [] \<longrightarrow> int32_ok v)"
proof (induction s a rule: number_loop.induct)
  case (2 c s a)
  show ?case
  proof (cases "is_digit c")
    case True
    then obtain ds d q where "s = ds @ p" "p = d # q" "\<not> is_digit d" "\<forall>c \<in> set ds. is_digit c"
      "v = accumulate (a * 10 + (uint c - 48)) ds" "ds \<noteq> [] \<longrightarrow> int32_ok v" "int32_ok (a * 10 + (uint c - 48))"
      using 2 by (auto simp: Let_def split: if_splits)
    then show ?thesis using True by (intro exI [of _ "c # ds"] exI [of _ d] exI [of _ q]) auto
  next
    case False
    then show ?thesis using 2 by (intro exI [of _ "[]"]) auto
  qed
qed simp

lemma char_classes: "\<not> is_digit 32" "\<not> is_digit 0" "\<not> is_op 32" "is_op c \<Longrightarrow> \<not> is_digit c" "is_digit c \<Longrightarrow> c \<noteq> 32"
  "is_op c \<Longrightarrow> c \<noteq> 32"
  by (auto simp: is_digit_def is_op_def)

lemma skip_to: "c \<noteq> 32 \<Longrightarrow> \<not> is_digit c \<Longrightarrow> \<exists>d q. replicate j 32 @ c # p = d # q \<and> \<not> is_digit d"
  using char_classes(1) by (cases j) auto

lemma eval_expression:
  assumes "expression ds1 op ds2 s"
  shows "shell_eval_math s = calculate op (text_value ds1) (text_value ds2)"
proof -
  obtain i j k l rest where s: "s = replicate i 32 @ ds1 @ replicate j 32 @ op # replicate k 32 @ ds2 @ replicate l 32 @ 0 # rest"
    and n: "numeral_ok ds1" "numeral_ok ds2" "is_op op" using assms by (auto simp: expression_def)
  have first: "skip_spaces (replicate m 32 @ ds @ p) = Some (ds @ p) \<and> is_digit (hd (ds @ p))" if "numeral_ok ds" for m ds p
    using that skip_spaces_replicate char_classes(5) by (cases ds) (auto simp: numeral_ok_def)
  have num: "number_loop (ds @ replicate m 32 @ d # p) 0 = Some (text_value ds, replicate m 32 @ d # p)"
    if "numeral_ok ds" "d \<noteq> 32" "\<not> is_digit d" for ds m d p
    using skip_to [OF that(2,3), of m p] that(1) number_loop_digits [of ds _ 0]
    by (auto simp: numeral_ok_def text_value_def)
  note o = char_classes(4,6) [OF n(3)]
  show ?thesis unfolding s
    using n o char_classes first num skip_spaces_replicate [of op] skip_spaces_replicate [of 0]
    by (simp add: shell_eval_math_def)
qed

lemma eval_accepts:
  assumes "shell_eval_math s = Some (r, v)" "r \<noteq> -1"
  shows "\<exists>ds1 op ds2. expression ds1 op ds2 s"
proof -
  obtain p1 a p2 p3 p4 b p5 p6 where 1: "skip_spaces s = Some p1" "is_digit (hd p1)"
    and 2: "number_loop p1 0 = Some (a, p2)" "skip_spaces p2 = Some p3" "is_op (hd p3)"
    and 3: "skip_spaces (tl p3) = Some p4" "is_digit (hd p4)"
    and 4: "number_loop p4 0 = Some (b, p5)" "skip_spaces p5 = Some p6" "hd p6 = 0"
    using assms by (auto simp: shell_eval_math_def bind_eq_Some_conv Let_def split: if_splits)
  note x = skip_spaces_Some [OF 1(1)] skip_spaces_Some [OF 2(2)] skip_spaces_Some [OF 3(1)] skip_spaces_Some [OF 4(2)]
  obtain ds1 where d1: "p1 = ds1 @ p2" "numeral_ok ds1"
    using number_loop_Some [OF 2(1)] 1(2) by (fastforce simp: numeral_ok_def text_value_def)
  obtain ds2 where d2: "p4 = ds2 @ p5" "numeral_ok ds2"
    using number_loop_Some [OF 4(1)] 3(2) by (fastforce simp: numeral_ok_def text_value_def)
  obtain i j k l op q3 q6 where "s = replicate i 32 @ p1" "p2 = replicate j 32 @ p3" "tl p3 = replicate k 32 @ p4"
    "p5 = replicate l 32 @ p6" "p3 = op # q3" "p6 = 0 # q6" using x 4(3) by (metis list.sel(1))
  then have "s = replicate i 32 @ ds1 @ replicate j 32 @ op # replicate k 32 @ ds2 @ replicate l 32 @ 0 # q6" "is_op op"
    using d1(1) d2(1) 2(3) by simp_all
  then show ?thesis using d1(2) d2(2) unfolding expression_def by blast
qed

text \<open>The exact value of an operation, and the answer of the evaluator.\<close>

definition exact_value :: "u8 \<Rightarrow> int \<Rightarrow> int \<Rightarrow> int" where
  "exact_value op a b = (if op = 43 then a + b else if op = 45 then a - b else if op = 42 then a * b else a div b)"

definition math_answer :: "u8 \<Rightarrow> int \<Rightarrow> int \<Rightarrow> (int \<times> int option) option" where
  "math_answer op a b =
     (if op = 47 \<and> b = 0 then Some (-2, None)
      else if int32_ok (exact_value op a b) then Some (0, Some (exact_value op a b)) else None)"

lemma text_value_nonneg: "numeral_ok ds \<Longrightarrow> 0 \<le> text_value ds"
  using accumulate_mono [of 0 ds] by (simp add: numeral_ok_def text_value_def)

lemma calculate_answer: "is_op op \<Longrightarrow> 0 \<le> a \<Longrightarrow> 0 \<le> b \<Longrightarrow> calculate op a b = math_answer op a b"
  by (auto simp: is_op_def calculate_def math_answer_def exact_value_def signed_divide_int_def sgn_if)

text \<open>C32. The shell's evaluator accepts exactly the texts of the form \<open>a op b\<close>, with blanks around the
  numerals: on such a text it answers the exact value, -2 for a division by zero, and overflows only when
  the exact value is no \<open>int\<close>; and every text on which it does not answer -1 has that form.\<close>

theorem shell_eval_math_exact:
  "(\<forall>ds1 op ds2. expression ds1 op ds2 s \<longrightarrow> shell_eval_math s = math_answer op (text_value ds1) (text_value ds2)) \<and>
   (\<forall>r v. shell_eval_math s = Some (r, v) \<longrightarrow> r \<noteq> -1 \<longrightarrow> (\<exists>ds1 op ds2. expression ds1 op ds2 s))"
proof (intro conjI allI impI)
  fix ds1 op ds2 assume e: "expression ds1 op ds2 s"
  then have "is_op op" "0 \<le> text_value ds1" "0 \<le> text_value ds2"
    by (simp_all add: expression_def text_value_nonneg)
  then show "shell_eval_math s = math_answer op (text_value ds1) (text_value ds2)"
    using eval_expression [OF e] by (simp add: calculate_answer)
next
  fix r v assume "shell_eval_math s = Some (r, v)" "r \<noteq> -1"
  then show "\<exists>ds1 op ds2. expression ds1 op ds2 s" by (rule eval_accepts)
qed

text \<open>The text \<open> 12*34 \<close>.\<close>

theorem shell_eval_math_exact_witness:
  "shell_eval_math [32, 49, 50, 42, 51, 52, 32, 0] = Some (0, Some 408)"
proof -
  have "[32, 49, 50, 42, 51, 52, 32, 0] =
      replicate 1 32 @ [49, 50] @ replicate 0 32 @ 42 # replicate 0 32 @ [51, 52] @ replicate 1 32 @ 0 # ([] :: bytes)"
    by simp
  moreover have "numeral_ok [49, 50]" "numeral_ok [51, 52]" "is_op 42"
    by (simp_all add: numeral_ok_def text_value_def is_digit_def is_op_def int32_ok_def)
  ultimately have "expression [49, 50] 42 [51, 52] [32, 49, 50, 42, 51, 52, 32, 0]"
    unfolding expression_def by blast
  then have "shell_eval_math [32, 49, 50, 42, 51, 52, 32, 0] = math_answer 42 (text_value [49, 50]) (text_value [51, 52])"
    using shell_eval_math_exact [of "[32, 49, 50, 42, 51, 52, 32, 0]"] by blast
  then show ?thesis by (simp add: math_answer_def text_value_def exact_value_def int32_ok_def)
qed

end
