(* ===== verification/Shell.thy ===== *)
theory Shell
  imports Drivers Vfs Shell_Math
begin

text \<open>
  \<^verbatim>\<open>kernel/kernel.c\<close> from the shell's path resolution to its main loop,
  the \<open>panic\<close> of \<^verbatim>\<open>kernel/klog.c\<close> and \<^verbatim>\<open>kernel/ps.c\<close>.

  \<open>keys\<close> are the characters the successive calls of \<open>keyboard_getchar\<close> return; \<open>None\<close> is, besides
  undefined behaviour, waiting for a key that never comes.  Paths and the user's name are strings (the
  bytes before the terminator): \<open>strncpy\<close> clears one byte behind arrays that are filled this way, and
  what lies there is not modelled.  The input line is an array, since \<open>tokenize\<close> works inside it and
  \<open>argv\<close> keeps its pointers from line to line; these are offsets.
\<close>

section \<open>State\<close>

definition SHELL_BUF_SIZE :: nat where "SHELL_BUF_SIZE = 256"
definition MAX_ARGS :: nat where "MAX_ARGS = 16"

record sys =
  mach :: machine
  files :: fsys
  keys :: bytes
  shell_input :: bytes
  argv :: "nat option list"
  cwd :: bytes
  current_user :: bytes
  halted :: bool

definition sys0 :: "machine \<Rightarrow> bytes \<Rightarrow> sys" where
  "sys0 m ks = \<lparr>mach = m, files = fsys0 (heap m), keys = ks, shell_input = replicate SHELL_BUF_SIZE 0,
     argv = replicate MAX_ARGS None, cwd = text_of ''/'', current_user = text_of ''guest'', halted = False\<rparr>"

section \<open>Output and log\<close>

definition set_con :: "console \<Rightarrow> sys \<Rightarrow> sys" where
  "set_con c s = s\<lparr>mach := (mach s)\<lparr>vga := c\<rparr>\<rparr>"

definition on_con :: "(console \<Rightarrow> console) \<Rightarrow> sys \<Rightarrow> sys" where
  "on_con f s = set_con (f (vga (mach s))) s"

definition say :: "string \<Rightarrow> varg list \<Rightarrow> sys \<Rightarrow> sys option" where
  "say fmt args s = map_option (\<lambda>c. set_con c s) (kprint fmt args (vga (mach s)))"

text \<open>\<open>panic\<close> writes its text over the first cells, white on red, prints the message and stops.\<close>

definition panic :: "bytes \<Rightarrow> sys \<Rightarrow> sys option" where
  "panic msg s =
     do { let p = text_of ''PANIC: '';
          let s = on_con (\<lambda>c. fold (\<lambda>i. put_cell i (scast (p ! i) OR 0x4F00)) [0..<length p] c) s;
          s \<leftarrow> say (nl @ nl @ ''*** KERNEL PANIC: %s ***'' @ nl) [str_arg msg] s;
          s \<leftarrow> say (''System halted.'' @ nl) [] s;
          Some (s\<lparr>mach := (mach s)\<lparr>trace := cli (trace (mach s))\<rparr>, halted := True\<rparr>) }"

definition ps_dump :: "sys \<Rightarrow> sys option" where
  "ps_dump s = do { s \<leftarrow> say (''Process list (stub)'' @ nl) [] s; say (''No processes running'' @ nl) [] s }"

section \<open>Reading a line\<close>

text \<open>A \<open>char\<close> is signed, so characters from 0x80 on are not taken.\<close>

fun readline_loop :: "nat \<Rightarrow> bytes \<Rightarrow> nat \<Rightarrow> bytes \<Rightarrow> console \<Rightarrow> (nat \<times> bytes \<times> bytes \<times> console) option" where
  "readline_loop maxlen [] pos buf c =
     (if pos < maxlen - 1 then None else Some (pos, buf[pos := 0], [], c))"
| "readline_loop maxlen (k # ks) pos buf c =
     (if pos < maxlen - 1
      then (if k = 10 \<or> k = 13 then Some (pos, buf[pos := 0], ks, console_putchar 10 c)
            else if k = 8 \<or> k = 0x7F
            then (if pos > 0
                  then readline_loop maxlen ks (pos - 1) buf (console_putchar 8 (console_putchar 32 (console_putchar 8 c)))
                  else readline_loop maxlen ks pos buf c)
            else if sint k \<ge> 0x20 then readline_loop maxlen ks (pos + 1) (buf[pos := k]) (console_putchar k c)
            else readline_loop maxlen ks pos buf c)
      else Some (pos, buf[pos := 0], k # ks, c))"

definition shell_readline :: "bytes \<Rightarrow> nat \<Rightarrow> sys \<Rightarrow> (nat \<times> bytes \<times> sys) option" where
  "shell_readline buf maxlen s =
     do { (pos, buf, ks, c) \<leftarrow> readline_loop maxlen (keys s) 0 buf (vga (mach s));
          Some (pos, buf, set_con c (s\<lparr>keys := ks\<rparr>)) }"

section \<open>Words\<close>

definition is_blank :: "u8 \<Rightarrow> bool" where
  "is_blank c \<longleftrightarrow> c = 32 \<or> c = 9"

text \<open>The offset where a \<open>while (P(*p)) p++\<close> from \<open>p\<close> stops.\<close>

definition scan :: "(u8 \<Rightarrow> bool) \<Rightarrow> bytes \<Rightarrow> nat \<Rightarrow> nat" where
  "scan P str p = p + length (takeWhile P (drop p str))"

text \<open>The offsets of the words, and the line with a terminator behind each of them.\<close>

primrec token_loop :: "nat \<Rightarrow> bytes \<Rightarrow> nat \<Rightarrow> (nat list \<times> bytes) option" where
  "token_loop 0 str p = Some ([], str)"
| "token_loop (Suc k) str p =
     (let q = scan is_blank str p;
          e = scan (\<lambda>c. c \<noteq> 0 \<and> \<not> is_blank c) str q
      in if q \<ge> length str \<or> e \<ge> length str then None
         else if str ! q = 0 then Some ([], str)
         else if str ! e = 0 then Some ([q], str)
         else do { (offs, str) \<leftarrow> token_loop k (str[e := 0]) (e + 1); Some (q # offs, str) })"

definition tokenize :: "bytes \<Rightarrow> nat \<Rightarrow> (nat list \<times> bytes) option" where
  "tokenize str max_args = token_loop max_args str 0"

section \<open>Paths\<close>

text \<open>The string \<open>ksnprintf\<close> leaves in a buffer of \<open>PATH_MAX\<close> bytes.\<close>

definition format_path :: "string \<Rightarrow> varg list \<Rightarrow> bytes option" where
  "format_path fmt args =
     do { (r, _) \<leftarrow> ksnprintf (Some (replicate PATH_MAX 0)) PATH_MAX (text_of fmt @ [0]) args;
          map_option cstr r }"

fun slash_back :: "bytes \<Rightarrow> nat \<Rightarrow> nat" where
  "slash_back temp 0 = 0"
| "slash_back temp (Suc i) = (if temp ! Suc i \<noteq> 47 then slash_back temp i else Suc i)"

definition remove_dots :: "bytes \<Rightarrow> bytes option" where
  "remove_dots temp =
     do { r \<leftarrow> strstr (temp @ [0]) (text_of ''..'' @ [0]);
          Some (case r of
                  None \<Rightarrow> temp
                | Some p \<Rightarrow>
                    if p > 1 then (let slash = slash_back temp (p - 2)
                                   in if slash = 0 then text_of ''/'' else take slash temp)
                    else text_of ''/'') }"

definition resolve_path :: "bytes \<Rightarrow> bytes \<Rightarrow> bytes option" where
  "resolve_path dir inp =
     do { temp \<leftarrow> (if inp \<noteq> [] \<and> hd inp = 47 then Some inp
                  else if strcmp (dir @ [0]) (text_of ''/'' @ [0]) = Some 0 then format_path ''/%s'' [str_arg inp]
                  else format_path ''%s/%s'' [str_arg dir, str_arg inp]);
          remove_dots temp }"

section \<open>Commands\<close>

text \<open>A command gets the \<open>argc\<close> words; \<open>arg\<close> is one of them.\<close>

definition cmd_echo :: "bytes list \<Rightarrow> sys \<Rightarrow> sys option" where
  "cmd_echo args s = do { s \<leftarrow> foldo (\<lambda>a. say ''%s '' [str_arg a]) (drop 1 args) s; say nl [] s }"

definition cmd_clear :: "sys \<Rightarrow> sys option" where
  "cmd_clear s = Some (on_con console_clear s)"

definition cmd_meminfo :: "sys \<Rightarrow> sys option" where
  "cmd_meminfo s =
     (let ps = stub_pmm_get_stats; hs = bump_get_stats (fs_heap (files s))
      in say (nl @ ''Memory: %uMB Total, %uMB Free'' @ nl @ ''Heap: %uKB Used / %uKB Total'' @ nl)
           [Arg32 (sp_total_phys ps div (1024 * 1024)), Arg32 (sp_free_phys ps div (1024 * 1024)),
            Arg32 (bs_used_bytes hs div 1024), Arg32 (bs_heap_size hs div 1024)] s)"

text \<open>\<open>ip4_to_str\<close> returns its one static buffer, so both addresses of the line print as the one that was
  formatted last; the arguments of the call are evaluated from right to left on this target.\<close>

definition cmd_netinfo_iface :: "netif \<Rightarrow> sys \<Rightarrow> sys option" where
  "cmd_netinfo_iface n s =
     do { s \<leftarrow> say (''%-8s HWaddr %02x:%02x:%02x:%02x:%02x:%02x'' @ nl)
                (str_arg (if_name n) # map (\<lambda>b. Arg32 (ucast b)) (if_mac n)) s;
          addr \<leftarrow> ip4_to_str (cfg_addr (ip_cfg n)) (replicate 16 0);
          s \<leftarrow> say (''         inet addr:%s  Mask:%s'' @ nl) [ArgStr (Some addr), ArgStr (Some addr)] s;
          say (''         RX packets:%u bytes:%u  TX packets:%u bytes:%u'' @ nl @ nl)
            [Arg32 (ucast (rx_packets n)), Arg32 (ucast (rx_bytes n)), Arg32 (ucast (tx_packets n)), Arg32 (ucast (tx_bytes n))] s }"

definition netif_list :: "sys \<Rightarrow> sys option" where
  "netif_list s =
     (if interfaces (nets (mach s)) = [] then say (''No network interfaces registered.'' @ nl) [] s
      else foldo cmd_netinfo_iface (interfaces (nets (mach s))) s)"

definition net_dump_stats :: "sys \<Rightarrow> sys option" where
  "net_dump_stats s = do { s \<leftarrow> say (nl @ ''Global Network Statistics:'' @ nl) [] s; netif_list s }"

definition cmd_netinfo :: "sys \<Rightarrow> sys option" where
  "cmd_netinfo s = net_dump_stats s"

definition set_net :: "net \<Rightarrow> sys \<Rightarrow> sys" where
  "set_net n s = s\<lparr>mach := (mach s)\<lparr>nets := n\<rparr>\<rparr>"

definition ping_once :: "u32 \<Rightarrow> bytes \<Rightarrow> nat \<Rightarrow> sys \<Rightarrow> sys option" where
  "ping_once target name i s =
     do { (r, n) \<leftarrow> icmp_ping target 12345 (of_nat (i + 1)) (nets (mach s));
          let s = set_net n s;
          if r = 0 then say (''64 bytes from %s: icmp_seq=%d'' @ nl) [str_arg name, Arg32 (of_nat (i + 1))] s
          else say (''Request timeout for icmp_seq=%d'' @ nl) [Arg32 (of_nat (i + 1))] s }"

definition cmd_ping :: "bytes list \<Rightarrow> sys \<Rightarrow> sys option" where
  "cmd_ping args s =
     (if length args < 2 then say (''Usage: ping <ip-address>'' @ nl) [] s
      else case ip4_parse (args ! 1) of
             None \<Rightarrow> say (''ping: invalid IP address '' @ [CHR 0x27] @ ''%s'' @ [CHR 0x27] @ nl) [str_arg (args ! 1)] s
           | Some target \<Rightarrow>
               if netif_get_default (nets (mach s)) = None then say (''ping: no network interface available'' @ nl) [] s
               else do {
                 s \<leftarrow> say (''PING %s (%s): 32 data bytes'' @ nl) [str_arg (args ! 1), str_arg (args ! 1)] s;
                 s \<leftarrow> foldo (ping_once target (args ! 1)) [0..<4] s;
                 s \<leftarrow> say (nl @ ''--- %s ping statistics ---'' @ nl) [str_arg (args ! 1)] s;
                 say (''4 packets transmitted, 0 received, 100%% packet loss'' @ nl) [] s })"

subsection \<open>Files\<close>

definition set_files :: "fsys \<Rightarrow> sys \<Rightarrow> sys" where
  "set_files f s = s\<lparr>files := f\<rparr>"

definition cmd_ls :: "bytes list \<Rightarrow> sys \<Rightarrow> sys option" where
  "cmd_ls args s =
     do { path \<leftarrow> (if length args \<ge> 2 then resolve_path (cwd s) (args ! 1) else Some (cwd s));
          (fd, f) \<leftarrow> vfs_open path (O_RDONLY OR O_DIRECTORY) 0 (files s);
          let s = set_files f s;
          if fd < 0 then say (''ls: cannot access '' @ [CHR 0x27] @ ''%s'' @ [CHR 0x27] @ nl) [str_arg path] s
          else do {
            (n, entries, f) \<leftarrow> vfs_readdir fd (32 * sizeof_dirent) (files s);
            let s = set_files (snd (vfs_close fd f)) s;
            foldo (\<lambda>e. say (''  %s'' @ nl) [str_arg (fst e)]) entries s } }"

text \<open>One pass of the read loop, and whether it goes on.\<close>

definition cat_step :: "int \<Rightarrow> sys \<Rightarrow> (bool \<times> sys) option" where
  "cat_step fd s =
     do { (n, xs, f) \<leftarrow> vfs_read fd 127 (files s);
          let s = set_files f s;
          if sint n > 0 then map_option (Pair True) (say ''%s'' [str_arg xs] s)
          else Some (False, s) }"

partial_function (option) cat_loop :: "int \<Rightarrow> sys \<Rightarrow> sys option" where
  "cat_loop fd s =
     (case cat_step fd s of
        None \<Rightarrow> None
      | Some r \<Rightarrow> if fst r then cat_loop fd (snd r) else Some (snd r))"

declare cat_loop.simps [code]

definition cmd_cat :: "bytes list \<Rightarrow> sys \<Rightarrow> sys option" where
  "cmd_cat args s =
     (if length args < 2 then Some s
      else do {
        path \<leftarrow> resolve_path (cwd s) (args ! 1);
        (fd, f) \<leftarrow> vfs_open path O_RDONLY 0 (files s);
        let s = set_files f s;
        if fd < 0 then say (''cat: %s: No such file'' @ nl) [str_arg (args ! 1)] s
        else do {
          s \<leftarrow> cat_loop fd s;
          let s = set_files (snd (vfs_close fd (files s))) s;
          say nl [] s } })"

definition cmd_mkdir :: "bytes list \<Rightarrow> sys \<Rightarrow> sys option" where
  "cmd_mkdir args s =
     (if length args < 2 then Some s
      else do {
        path \<leftarrow> resolve_path (cwd s) (args ! 1);
        (r, f) \<leftarrow> vfs_mkdir path 0x1ED (files s);
        let s = set_files f s;
        if r < 0 then say (''mkdir: cannot create directory '' @ [CHR 0x27] @ ''%s'' @ [CHR 0x27] @ nl) [str_arg (args ! 1)] s
        else Some s })"

definition cmd_touch :: "bytes list \<Rightarrow> sys \<Rightarrow> sys option" where
  "cmd_touch args s =
     (if length args < 2 then Some s
      else do {
        path \<leftarrow> resolve_path (cwd s) (args ! 1);
        (fd, f) \<leftarrow> vfs_open path (O_WRONLY OR O_CREAT) 0x1A4 (files s);
        let s = set_files f s;
        if fd \<ge> 0 then Some (set_files (snd (vfs_close fd f)) s)
        else say (''touch: cannot create '' @ [CHR 0x27] @ ''%s'' @ [CHR 0x27] @ nl) [str_arg (args ! 1)] s })"

text \<open>The words from the third on, with blanks between them.\<close>

fun write_words :: "int \<Rightarrow> bytes list \<Rightarrow> fsys \<Rightarrow> fsys option" where
  "write_words fd [] f = Some f"
| "write_words fd [w] f = map_option snd (vfs_write fd w f)"
| "write_words fd (w # v # ws) f =
     do { (_, f) \<leftarrow> vfs_write fd w f; (_, f) \<leftarrow> vfs_write fd (text_of '' '') f; write_words fd (v # ws) f }"

definition cmd_write :: "bytes list \<Rightarrow> sys \<Rightarrow> sys option" where
  "cmd_write args s =
     (if length args < 3 then say (''Usage: write <file> <text...>'' @ nl) [] s
      else do {
        path \<leftarrow> resolve_path (cwd s) (args ! 1);
        (fd, f) \<leftarrow> vfs_open path (O_WRONLY OR O_CREAT OR O_TRUNC) 0x1A4 (files s);
        let s = set_files f s;
        if fd < 0 then say (''write: cannot open '' @ [CHR 0x27] @ ''%s'' @ [CHR 0x27] @ nl) [str_arg path] s
        else do {
          f \<leftarrow> write_words fd (drop 2 args) (files s);
          (_, f) \<leftarrow> vfs_write fd (text_of nl) f;
          Some (set_files (snd (vfs_close fd f)) s) } })"

definition cmd_rm :: "bytes list \<Rightarrow> sys \<Rightarrow> sys option" where
  "cmd_rm args s =
     (if length args < 2 then Some s
      else do {
        path \<leftarrow> resolve_path (cwd s) (args ! 1);
        (r, f) \<leftarrow> vfs_unlink path (files s);
        let s = set_files f s;
        if r < 0 then say (''rm: cannot remove '' @ [CHR 0x27] @ ''%s'' @ [CHR 0x27] @ nl) [str_arg (args ! 1)] s
        else Some s })"

definition cmd_cd :: "bytes list \<Rightarrow> sys \<Rightarrow> sys option" where
  "cmd_cd args s =
     do { let target = (if length args \<ge> 2 then args ! 1 else text_of ''/'');
          path \<leftarrow> resolve_path (cwd s) target;
          (fd, f) \<leftarrow> vfs_open path (O_RDONLY OR O_DIRECTORY) 0 (files s);
          let s = set_files f s;
          if fd < 0 then say (''cd: %s: No such directory'' @ nl) [str_arg target] s
          else Some ((set_files (snd (vfs_close fd f)) s)\<lparr>cwd := path\<rparr>) }"

definition cmd_pwd :: "sys \<Rightarrow> sys option" where
  "cmd_pwd s = say (''%s'' @ nl) [str_arg (cwd s)] s"

subsection \<open>System\<close>

definition two_digits :: "u64 \<Rightarrow> string \<Rightarrow> sys \<Rightarrow> sys option" where
  "two_digits v fmt s = do { s \<leftarrow> (if v < 10 then say ''0'' [] s else Some s); say fmt [Arg64 v] s }"

definition cmd_uptime :: "sys \<Rightarrow> sys option" where
  "cmd_uptime s =
     (let (ms, m) = timer_get_uptime_ms (mach s);
          s = s\<lparr>mach := m\<rparr>;
          total_seconds = ms div 1000;
          hours = total_seconds div 3600;
          minutes = (total_seconds mod 3600) div 60;
          seconds = total_seconds mod 60
      in do { s \<leftarrow> say ''Uptime: %lu:'' [Arg64 hours] s;
              s \<leftarrow> two_digits minutes ''%lu:'' s;
              two_digits seconds (''%lu'' @ nl) s })"

definition cmd_uname :: "sys \<Rightarrow> sys option" where
  "cmd_uname s = say (''%s %s i686'' @ nl) [str_arg (text_of '' EarlnuxOS''), str_arg (text_of ''1.0.0'')] s"

definition cmd_sysinfo :: "sys \<Rightarrow> sys option" where
  "cmd_sysinfo s =
     do { let s = on_con (console_set_color (VGA_ATTR COLOR_LIGHT_CYAN COLOR_BLACK)) s;
          s \<leftarrow> say (nl @ ''--- System Information ---'' @ nl) [] s;
          let s = on_con (console_set_color VGA_DEFAULT_ATTR) s;
          s \<leftarrow> say ''OS: '' [] s;
          s \<leftarrow> cmd_uname s;
          s \<leftarrow> say ''Uptime: '' [] s;
          s \<leftarrow> cmd_uptime s;
          s \<leftarrow> cmd_meminfo s;
          s \<leftarrow> cmd_netinfo s;
          say nl [] s }"

definition cmd_reboot :: "sys \<Rightarrow> sys option" where
  "cmd_reboot s = Some (s\<lparr>mach := (mach s)\<lparr>trace := outb 0x64 0xFE (trace (mach s))\<rparr>\<rparr>)"

text \<open>What \<open>cmd_halt\<close> does before its endless loop.\<close>

definition cmd_halt :: "sys \<Rightarrow> sys option" where
  "cmd_halt s =
     do { s \<leftarrow> say (''Halted.'' @ nl) [] s;
          Some (s\<lparr>mach := (mach s)\<lparr>trace := cli (trace (mach s))\<rparr>, halted := True\<rparr>) }"

definition cmd_logout :: "sys \<Rightarrow> sys option" where
  "cmd_logout s = do { s \<leftarrow> say (''Logging out...'' @ nl) [] s; Some (s\<lparr>cwd := text_of ''/''\<rparr>) }"

definition help_files :: "string list" where
  "help_files =
     [''FileSystem:'',
      ''  ls [path]          - List directory contents'',
      ''  cd <path>          - Change current directory (supports ..)'',
      ''  pwd                - Show current working directory'',
      ''  mkdir <name>       - Create a new directory'',
      ''  touch <file>       - Create an empty file'',
      ''  write <file> <txt> - Create file and write text'',
      ''  cat <file>         - Display file contents'',
      ''  rm <file>          - Remove a file or directory'' @ nl]"

definition help_system :: "string list" where
  "help_system =
     [''System:'',
      ''  clear              - Clear the console screen'',
      ''  sysinfo            - Show all system information'',
      ''  meminfo            - Show memory & heap status'',
      ''  netinfo            - Show network statistics'',
      ''  ping <ip>          - Send ICMP echo request to IP'',
      ''  uptime             - Show system uptime in h:m:s'',
      ''  uname              - Show OS name and version'',
      ''  echo <text>        - Print text to console'',
      ''  logout             - End current user session'',
      ''  reboot / halt      - Restart or shut down system'' @ nl,
      ''Tip: Arithmetic (e.g. 5+5) is evaluated automatically.'']"

definition cmd_help :: "sys \<Rightarrow> sys option" where
  "cmd_help s =
     do { let s = on_con (console_set_color (VGA_ATTR COLOR_LIGHT_CYAN COLOR_BLACK)) s;
          s \<leftarrow> say (nl @ ''--- EarlnuxOS Help Menu ---'' @ nl @ nl) [] s;
          let s = on_con (console_set_color VGA_DEFAULT_ATTR) s;
          foldo (\<lambda>l. say (l @ nl) []) (help_files @ help_system) s }"

section \<open>The shell\<close>

datatype command =
  Help | Echo | Clear | Meminfo | Netinfo | Sysinfo | Ping | Ls | Cat | Mkdir | Rm | Touch | Write
| Cd | Pwd | Logout | Uptime | Uname | Reboot | Halt

fun command_fn :: "command \<Rightarrow> bytes list \<Rightarrow> sys \<Rightarrow> sys option" where
  "command_fn Help args s = cmd_help s"
| "command_fn Echo args s = cmd_echo args s"
| "command_fn Clear args s = cmd_clear s"
| "command_fn Meminfo args s = cmd_meminfo s"
| "command_fn Netinfo args s = cmd_netinfo s"
| "command_fn Sysinfo args s = cmd_sysinfo s"
| "command_fn Ping args s = cmd_ping args s"
| "command_fn Ls args s = cmd_ls args s"
| "command_fn Cat args s = cmd_cat args s"
| "command_fn Mkdir args s = cmd_mkdir args s"
| "command_fn Rm args s = cmd_rm args s"
| "command_fn Touch args s = cmd_touch args s"
| "command_fn Write args s = cmd_write args s"
| "command_fn Cd args s = cmd_cd args s"
| "command_fn Pwd args s = cmd_pwd s"
| "command_fn Logout args s = cmd_logout s"
| "command_fn Uptime args s = cmd_uptime s"
| "command_fn Uname args s = cmd_uname s"
| "command_fn Reboot args s = cmd_reboot s"
| "command_fn Halt args s = cmd_halt s"

definition commands :: "(string \<times> command) list" where
  "commands =
     [(''help'', Help), (''echo'', Echo), (''clear'', Clear), (''meminfo'', Meminfo), (''netinfo'', Netinfo),
      (''sysinfo'', Sysinfo), (''ping'', Ping), (''ls'', Ls), (''cat'', Cat), (''mkdir'', Mkdir), (''rm'', Rm),
      (''touch'', Touch), (''write'', Write), (''cd'', Cd), (''pwd'', Pwd), (''logout'', Logout),
      (''uptime'', Uptime), (''uname'', Uname), (''reboot'', Reboot), (''halt'', Halt)]"

fun find_command :: "(string \<times> command) list \<Rightarrow> bytes \<Rightarrow> command option" where
  "find_command [] w = None"
| "find_command ((name, c) # cs) w =
     (if strcmp (text_of name @ [0]) (w @ [0]) = Some 0 then Some c else find_command cs w)"

text \<open>What the shell says to a line that is no command.\<close>

definition run_math :: "bytes \<Rightarrow> bytes \<Rightarrow> sys \<Rightarrow> sys option" where
  "run_math raw_input w s =
     do { (r, v) \<leftarrow> shell_eval_math (raw_input @ [0]);
          if r = 0 then (case v of None \<Rightarrow> None | Some v \<Rightarrow> say (''Result: %d'' @ nl) [Arg32 (word_of_int v)] s)
          else if r = -2 then say (''Error: Division by zero'' @ nl) [] s
          else say (''%s: command not found'' @ nl) [str_arg w] s }"

definition put_argv :: "nat list \<Rightarrow> nat option list \<Rightarrow> nat option list" where
  "put_argv offs old = map Some offs @ drop (length offs) old"

text \<open>The work on one line; the result says whether it ends the session.\<close>

definition shell_line :: "sys \<Rightarrow> (bool \<times> sys) option" where
  "shell_line s =
     do { let raw_input = cstr (shell_input s);
          (offs, line) \<leftarrow> tokenize (shell_input s) MAX_ARGS;
          let s = s\<lparr>shell_input := line, argv := put_argv offs (argv s)\<rparr>;
          let args = map (\<lambda>i. cstr (drop i line)) offs;
          i \<leftarrow> argv s ! 0;
          let w = cstr (drop i line);
          if strcmp (w @ [0]) (text_of ''logout'' @ [0]) = Some 0 then Some (True, s)
          else map_option (Pair False)
            (case find_command commands w of
               Some c \<Rightarrow> command_fn c args s
             | None \<Rightarrow> run_math raw_input w s) }"

definition prompt :: "sys \<Rightarrow> sys option" where
  "prompt s =
     do { let s = on_con (console_set_color (VGA_ATTR COLOR_LIGHT_GREEN COLOR_BLACK)) s;
          s \<leftarrow> say ''%s@EarlnuxOS'' [str_arg (current_user s)] s;
          let s = on_con (console_set_color VGA_DEFAULT_ATTR) s;
          say '':%s# '' [str_arg (cwd s)] s }"

text \<open>One pass of the main loop, and whether it goes on.  The command that halts the machine does not return.\<close>

definition shell_step :: "sys \<Rightarrow> (bool \<times> sys) option" where
  "shell_step s =
     do { s \<leftarrow> prompt s;
          (len, buf, s) \<leftarrow> shell_readline (shell_input s) SHELL_BUF_SIZE s;
          let s = s\<lparr>shell_input := buf\<rparr>;
          if len = 0 then Some (True, s)
          else do {
            (fin, s) \<leftarrow> shell_line s;
            if \<not> fin \<and> halted s then None else Some (\<not> fin, s) } }"

partial_function (option) shell_loop :: "sys \<Rightarrow> sys option" where
  "shell_loop s =
     (case shell_step s of
        None \<Rightarrow> None
      | Some r \<Rightarrow> if fst r then shell_loop (snd r) else Some (snd r))"

declare shell_loop.simps [code]

text \<open>The pointers \<open>argv\<close> are on the stack: a session starts with none.\<close>

definition shell_run :: "sys \<Rightarrow> sys option" where
  "shell_run s = shell_loop (s\<lparr>argv := replicate MAX_ARGS None\<rparr>)"

end
