(* ===== verification/Kernel_Main.thy ===== *)
theory Kernel_Main
  imports Shell Memory
begin

text \<open>
  \<^verbatim>\<open>kernel/user.c\<close> and the start-up of \<^verbatim>\<open>kernel/kernel.c\<close>: the memory map, the
  initialisation of the parts in order with their messages, the initial filesystem (which nothing calls),
  and a session, which is a login, the welcome text and the shell.
\<close>

section \<open>Users\<close>

definition user_init :: "sys \<Rightarrow> sys option" where
  "user_init s = map_option (\<lambda>(_, f). set_files f s) (vfs_mkdir (text_of ''/etc'') 0x1ED (files s))"

fun password_loop :: "nat \<Rightarrow> bytes \<Rightarrow> nat \<Rightarrow> bytes \<Rightarrow> console \<Rightarrow> (nat \<times> bytes \<times> bytes \<times> console) option" where
  "password_loop maxlen [] pos buf c =
     (if pos < maxlen - 1 then None else Some (pos, buf[pos := 0], [], c))"
| "password_loop maxlen (k # ks) pos buf c =
     (if pos < maxlen - 1
      then (if k = 10 then Some (pos, buf[pos := 0], ks, c)
            else if k = 8 \<and> pos > 0
            then password_loop maxlen ks (pos - 1) buf (fold console_putchar [8, 32, 8] c)
            else if sint k \<ge> 32 then password_loop maxlen ks (pos + 1) (buf[pos := k]) (console_putchar 42 c)
            else password_loop maxlen ks pos buf c)
      else Some (pos, buf[pos := 0], k # ks, c))"

definition get_password :: "bytes \<Rightarrow> nat \<Rightarrow> sys \<Rightarrow> (bytes \<times> sys) option" where
  "get_password buf maxlen s =
     do { (pos, buf, ks, c) \<leftarrow> password_loop maxlen (keys s) 0 buf (vga (mach s));
          s \<leftarrow> say nl [] (set_con c (s\<lparr>keys := ks\<rparr>));
          Some (buf, s) }"

definition NAME_BUF :: nat where "NAME_BUF = 32"

definition new_buf :: "nat \<Rightarrow> bytes" where "new_buf n = replicate n 0"

text \<open>The name and the password, as strings.\<close>

definition ask :: "string \<Rightarrow> string \<Rightarrow> sys \<Rightarrow> (bytes \<times> bytes \<times> sys) option" where
  "ask p1 p2 s =
     do { s \<leftarrow> say p1 [] s;
          (_, username, s) \<leftarrow> shell_readline (new_buf NAME_BUF) NAME_BUF s;
          s \<leftarrow> say p2 [] s;
          (password, s) \<leftarrow> get_password (new_buf NAME_BUF) NAME_BUF s;
          Some (cstr username, cstr password, s) }"

definition passwd_path :: bytes where "passwd_path = text_of ''/etc/passwd''"

definition save_creds :: "bytes \<Rightarrow> bytes \<Rightarrow> fsys \<Rightarrow> fsys option" where
  "save_creds username password f =
     do { (fd, f) \<leftarrow> vfs_open passwd_path (O_WRONLY OR O_CREAT) 0x1A4 f;
          if fd \<ge> 0 then do {
            (_, f) \<leftarrow> vfs_write fd username f;
            (_, f) \<leftarrow> vfs_write fd (text_of '':'') f;
            (_, f) \<leftarrow> vfs_write fd password f;
            Some (snd (vfs_close fd f)) }
          else Some f }"

definition first_run :: "sys \<Rightarrow> (bytes \<times> sys) option" where
  "first_run s =
     do { s \<leftarrow> say (''No user accounts found. Initializing Administrative Setup...'' @ nl) [] s;
          (username, password, s) \<leftarrow> ask ''New Username: '' ''New Password: '' s;
          f \<leftarrow> save_creds username password (files s);
          s \<leftarrow> say (nl @ ''Account '' @ [CHR 0x27] @ ''%s'' @ [CHR 0x27] @ '' created successfully.'' @ nl)
                [str_arg username] (set_files f s);
          Some (username, s) }"

text \<open>The check of a name and a password against the stored text, \<open>creds\<close> being the array that was read
  into.\<close>

definition check_creds :: "bytes \<Rightarrow> bytes \<Rightarrow> bytes \<Rightarrow> bool option" where
  "check_creds creds username password =
     do { (r, _) \<leftarrow> ksnprintf (Some (new_buf 128)) 128 (text_of ''%s:%s'' @ [0]) [str_arg username, str_arg password];
          check \<leftarrow> r;
          map_option (\<lambda>r. r \<noteq> None) (strstr creds check) }"

text \<open>One pass of the login loop: the name, and whether it was refused.\<close>

definition login_step :: "bytes \<Rightarrow> sys \<Rightarrow> (bool \<times> bytes \<times> sys) option" where
  "login_step creds s =
     do { (username, password, s) \<leftarrow> ask ''Username: '' ''Password: '' s;
          ok \<leftarrow> check_creds creds username password;
          if ok then Some (False, username, s)
          else do {
            let s = on_con (console_set_color (VGA_ATTR COLOR_RED COLOR_BLACK)) s;
            s \<leftarrow> say (''Login failed. Access Denied.'' @ nl) [] s;
            Some (True, username, on_con (console_set_color VGA_DEFAULT_ATTR) s) } }"

partial_function (option) login_loop :: "bytes \<Rightarrow> sys \<Rightarrow> (bytes \<times> sys) option" where
  "login_loop creds s =
     (case login_step creds s of
        None \<Rightarrow> None
      | Some r \<Rightarrow> if fst r then login_loop creds (snd (snd r)) else Some (snd r))"

declare login_loop.simps [code]

text \<open>\<open>junk\<close> is what the array \<open>stored_creds\<close> on the stack holds before the read.\<close>

definition user_login_sequence :: "bytes \<Rightarrow> sys \<Rightarrow> sys option" where
  "user_login_sequence junk s =
     do { let s = on_con (console_set_color (VGA_ATTR COLOR_LIGHT_GREEN COLOR_BLACK)) s;
          s \<leftarrow> say (nl @ ''[ SECURITY ] System is Locked. Please Authenticate.'' @ nl @ nl) [] s;
          let s = on_con (console_set_color VGA_DEFAULT_ATTR) s;
          (fd, f) \<leftarrow> vfs_open passwd_path O_RDONLY 0 (files s);
          let s = set_files f s;
          (username, s) \<leftarrow>
            (if fd < 0 then first_run s
             else do {
               (_, xs, f) \<leftarrow> vfs_read fd 127 (files s);
               creds \<leftarrow> put_bytes junk 0 xs;
               login_loop creds (set_files (snd (vfs_close fd f)) s) });
          Some (s\<lparr>current_user := username\<rparr>) }"

definition user_get_current :: "sys \<Rightarrow> bytes" where
  "user_get_current s = current_user s"

section \<open>The memory map\<close>

text \<open>The fields of the boot loader's structure the kernel reads.\<close>

record multiboot_info =
  mb_flags :: u32
  mmap_length :: u32
  mmap_addr :: u32

record map_entry =
  me_base :: u64
  me_length :: u64
  me_type :: u32

definition MB_FLAG_MMAP :: u32 where "MB_FLAG_MMAP = BIT 6"
definition MULTIBOOT_MAGIC_VAL :: u32 where "MULTIBOOT_MAGIC_VAL = 0x2BADB002"

definition join64 :: "u32 \<Rightarrow> u32 \<Rightarrow> u64" where
  "join64 high low = push_bit 32 (ucast high) OR ucast low"

definition read_entry :: "mem \<Rightarrow> u32 \<Rightarrow> map_entry" where
  "read_entry m e =
     \<lparr>me_base = join64 (load32 m (e + 8)) (load32 m (e + 4)), me_length = join64 (load32 m (e + 16)) (load32 m (e + 12)),
      me_type = load32 m (e + 20)\<rparr>"

text \<open>The loop with room for \<open>k\<close> more entries.\<close>

primrec parse_entries :: "nat \<Rightarrow> mem \<Rightarrow> u32 \<Rightarrow> u32 \<Rightarrow> map_entry list" where
  "parse_entries 0 m e finish = []"
| "parse_entries (Suc k) m e finish =
     (if e < finish then read_entry m e # parse_entries k m (e + load32 m e + 4) finish else [])"

text \<open>The entries that are handed to \<open>pmm_init\<close>.\<close>

definition parse_memory_map :: "multiboot_info option \<Rightarrow> mem \<Rightarrow> map_entry list" where
  "parse_memory_map info m =
     (case info of
        Some i \<Rightarrow>
          if mb_flags i AND MB_FLAG_MMAP = 0 then [\<lparr>me_base = 0x00100000, me_length = 63 * 1024 * 1024, me_type = 1\<rparr>]
          else parse_entries 64 m (mmap_addr i) (mmap_addr i + mmap_length i)
      | None \<Rightarrow> [\<lparr>me_base = 0x00100000, me_length = 63 * 1024 * 1024, me_type = 1\<rparr>])"

section \<open>The initial filesystem\<close>

definition make_dirs :: "(string \<times> u16) list \<Rightarrow> fsys \<Rightarrow> fsys option" where
  "make_dirs = foldo (\<lambda>(d, m) f. map_option snd (vfs_mkdir (text_of d) m f))"

definition mount_initial_fs :: "sys \<Rightarrow> sys option" where
  "mount_initial_fs s =
     do { let f = snd (vfs_register_fs ramfs_get_type (files s));
          let f = snd (vfs_register_fs procfs_get_type f);
          let f = snd (vfs_register_fs vibefs_get_type f);
          (r, f) \<leftarrow> vfs_mount (text_of ''/'') (text_of ''ramfs'') 0 f;
          if r < 0 then panic (text_of ''Failed to mount root filesystem'') (set_files f s)
          else do {
            f \<leftarrow> make_dirs [(''/dev'', 0x1ED), (''/tmp'', 0x1FF), (''/home'', 0x1ED), (''/bin'', 0x1ED), (''/etc'', 0x1ED)] f;
            (fd, f) \<leftarrow> vfs_open (text_of ''/etc/hostname'') (O_WRONLY OR O_CREAT) 0x1A4 f;
            if fd \<ge> 0 then do {
              (_, f) \<leftarrow> vfs_write fd (text_of (''EarlnuxOS-host'' @ nl)) f;
              Some (set_files (snd (vfs_close fd f)) s) }
            else Some (set_files f s) } }"

section \<open>Printing at start-up\<close>

abbreviation bs :: string where "bs \<equiv> [CHR 0x5C]"
abbreviation sq :: string where "sq \<equiv> [CHR 0x27]"
abbreviation dq :: string where "dq \<equiv> [CHR 0x22]"

definition banner :: "string list" where
  "banner =
     [nl,
      ''          ______           _                         ____   _____ '' @ nl,
      ''         |  ____|         | |                       / __ '' @ bs @ '' / ____|'' @ nl,
      ''         | |__   __ _ _ __| |_ __  _   ___  __     | |  | | (___  '' @ nl,
      ''         |  __| / _` | '' @ sq @ ''__| | '' @ sq @ ''_ '' @ bs @ ''| | | '' @ bs @ '' '' @ bs @ ''/ /     | |  | |'' @ bs @ ''___ '' @ bs @ '' '' @ nl,
      ''         | |___| (_| | |  | | | | | |_| |>  <      | |__| |____) |'' @ nl,
      ''         |______'' @ bs @ ''__,_|_|  |_|_| |_|'' @ bs @ ''__,_/_/'' @ bs @ ''_'' @ bs @ ''      '' @ bs @ ''____/|_____/ '' @ nl]"

text \<open>\<open>date\<close> is the day of the build.\<close>

definition print_banner :: "bytes \<Rightarrow> sys \<Rightarrow> sys option" where
  "print_banner date s =
     do { let s = on_con (console_set_color (VGA_ATTR COLOR_LIGHT_CYAN COLOR_BLACK)) s;
          s \<leftarrow> foldo (\<lambda>l. say l []) banner s;
          let s = on_con (console_set_color (VGA_ATTR COLOR_WHITE COLOR_BLACK)) s;
          s \<leftarrow> say (''    ----------------------------------------------------------------------'' @ nl) [] s;
          s \<leftarrow> say (''    [ EarlnuxOS v%s '' @ dq @ ''%s'' @ dq @ '' | Senior Dev Edition | Built: %s ]'' @ nl)
                [str_arg (text_of ''1.0.0''), str_arg (text_of ''Prism''), str_arg date] s;
          s \<leftarrow> say (''    ----------------------------------------------------------------------'' @ nl @ nl) [] s;
          Some (on_con (console_set_color VGA_DEFAULT_ATTR) s) }"

definition print_welcome :: "bytes \<Rightarrow> sys \<Rightarrow> sys option" where
  "print_welcome date s =
     do { s \<leftarrow> print_banner date (on_con console_clear s);
          let s = on_con (console_set_color (VGA_ATTR COLOR_YELLOW COLOR_BLACK)) s;
          s \<leftarrow> say (''    WELCOME, %s!'' @ nl @ nl) [str_arg (user_get_current s)] s;
          let s = on_con (console_set_color (VGA_ATTR COLOR_LIGHT_GRAY COLOR_BLACK)) s;
          s \<leftarrow> foldo (\<lambda>l. say l [])
            [''    > System status: OPTIMAL'' @ nl, ''    > Security level: ENFORCED'' @ nl,
             ''    > Network stack: ACTIVE'' @ nl @ nl] s;
          let s = on_con (console_set_color (VGA_ATTR COLOR_LIGHT_GREEN COLOR_BLACK)) s;
          s \<leftarrow> say (''    Access granted. Enter '' @ [CHR 0x27] @ ''help'' @ [CHR 0x27] @ '' for command list.'' @ nl @ nl) [] s;
          Some (on_con (console_set_color VGA_DEFAULT_ATTR) s) }"

section \<open>Start-up\<close>

text \<open>A part of the machine runs with the heap the filesystem uses too.\<close>

definition on_machine :: "(machine \<Rightarrow> machine option) \<Rightarrow> sys \<Rightarrow> sys option" where
  "on_machine f s =
     do { m \<leftarrow> f ((mach s)\<lparr>heap := fs_heap (files s)\<rparr>);
          Some (s\<lparr>mach := m, files := (files s)\<lparr>fs_heap := heap m\<rparr>\<rparr>) }"

definition init_step :: "string \<Rightarrow> (sys \<Rightarrow> sys option) \<Rightarrow> sys \<Rightarrow> sys option" where
  "init_step name fn s =
     do { s \<leftarrow> say ''  Initializing %-30s  '' [str_arg (text_of name)] s;
          s \<leftarrow> fn s;
          s \<leftarrow> say (''[  OK  ]'' @ nl) [] (on_con (console_set_color VGA_SUCCESS_ATTR) s);
          Some (on_con (console_set_color VGA_DEFAULT_ATTR) s) }"

text \<open>The page frame allocator and the page tables that are linked are stubs that print a message.\<close>

definition stub_pmm_init :: "map_entry list \<Rightarrow> machine \<Rightarrow> machine option" where
  "stub_pmm_init entries m =
     KINFO ''MM'' ''PMM initialized with %u memory map entries'' [Arg32 (of_nat (length entries))] m"

definition stub_vmm_init :: "machine \<Rightarrow> machine option" where
  "stub_vmm_init m = KINFO ''MM'' ''VMM initialized (stub)'' [] m"

text \<open>The message has a dash of three bytes.\<close>

definition init_memory_map :: "multiboot_info option \<Rightarrow> mem \<Rightarrow> machine \<Rightarrow> machine option" where
  "init_memory_map info mem m =
     do { m \<leftarrow> (case info of
             Some i \<Rightarrow> if mb_flags i AND MB_FLAG_MMAP \<noteq> 0 then Some m
               else KWARN ''kernel'' (''No multiboot memory map '' @ [CHR 0xE2, CHR 0x80, CHR 0x94] @ '' assuming default RAM'') [] m
           | None \<Rightarrow> KWARN ''kernel'' (''No multiboot memory map '' @ [CHR 0xE2, CHR 0x80, CHR 0x94] @ '' assuming default RAM'') [] m);
          stub_pmm_init (parse_memory_map info mem) m }"

definition do_vmm_init :: "sys \<Rightarrow> sys option" where "do_vmm_init = on_machine stub_vmm_init"
definition do_heap_init :: "sys \<Rightarrow> sys option" where "do_heap_init s = Some s"

text \<open>\<open>gdt\<close> and \<open>idt\<close> are the addresses of the tables, \<open>isr\<close> and \<open>irq\<close> those of the assembly entry points.\<close>

definition do_interrupts_init :: "u32 \<Rightarrow> u32 \<Rightarrow> (nat \<Rightarrow> u32) \<Rightarrow> (nat \<Rightarrow> u32) \<Rightarrow> machine \<Rightarrow> machine option" where
  "do_interrupts_init gdt idt isr irq m =
     do { m \<leftarrow> KINFO ''GDT'' (''Initialized successfully'' @ nl) []
            (m\<lparr>trace := snd (gdt_init gdt (replicate GDT_ENTRIES gdt_entry0) (trace m))\<rparr>);
          Some (m\<lparr>trace := snd (idt_init idt isr irq [] (trace m))\<rparr>) }"

definition do_vfs_init :: "sys \<Rightarrow> sys option" where
  "do_vfs_init s = on_machine (KINFO ''vfs'' ''VFS initialized'' []) (set_files (vfs_init (files s)) s)"

definition netif_init_step :: "machine \<Rightarrow> machine option" where
  "netif_init_step m = KINFO ''NET'' (''Network interface layer initialized'' @ nl) [] (m\<lparr>nets := netif_init (nets m)\<rparr>)"

text \<open>The \<open>arp_cache\<close> that \<open>arp_init\<close> clears is never read and is not part of the model; the others without a
  message do nothing.\<close>

definition arp_init :: "machine \<Rightarrow> machine" where "arp_init m = m"
definition udp_init :: "machine \<Rightarrow> machine" where "udp_init m = m"
definition tcp_init :: "machine \<Rightarrow> machine" where "tcp_init m = m"
definition dhcp_init :: "machine \<Rightarrow> machine" where "dhcp_init m = m"
definition dns_init :: "machine \<Rightarrow> machine" where "dns_init m = m"

definition ip4_init :: "machine \<Rightarrow> machine option" where
  "ip4_init m = KINFO ''IP'' (''IPv4 layer initialized'' @ nl) [] m"

definition icmp_init :: "machine \<Rightarrow> machine option" where
  "icmp_init m = KINFO ''ICMP'' (''ICMP layer initialized'' @ nl) [] m"

definition net_init :: "machine \<Rightarrow> machine option" where
  "net_init m =
     do { m \<leftarrow> KINFO ''NET'' (''Initializing Master Network Stack...'' @ nl) [] m;
          m \<leftarrow> ip4_init (arp_init m);
          m \<leftarrow> icmp_init m;
          KINFO ''NET'' (''Network Stack ready.'' @ nl) [] (dns_init (dhcp_init (tcp_init (udp_init m)))) }"

text \<open>The other stubs of the protocols.\<close>

definition net_tick :: "u32 \<Rightarrow> machine \<Rightarrow> machine" where "net_tick ms m = m"
definition dhcp_recv :: "bytes \<Rightarrow> u32 \<Rightarrow> machine \<Rightarrow> machine" where "dhcp_recv data len m = m"
definition dns_set_server :: "u32 \<Rightarrow> machine \<Rightarrow> machine" where "dns_set_server server m = m"
definition dns_cache_dump :: "machine \<Rightarrow> machine" where "dns_cache_dump m = m"
definition tcp_state_name :: "'s \<Rightarrow> bytes" where "tcp_state_name st = text_of ''CLOSED''"

definition create_virtual_step :: "machine \<Rightarrow> machine option" where
  "create_virtual_step m =
     do { (_, m) \<leftarrow> register_interface virtual_netif m;
          KINFO ''NET'' (''Created virtual network interface '' @ sq @ ''demo'' @ sq @
            '' for environments without hardware NIC'' @ nl) [] m }"

definition static_config :: ip4_config where
  "static_config = \<lparr>cfg_addr = IP4 10 0 2 15, cfg_netmask = IP4 255 255 255 0, cfg_gateway = IP4 10 0 2 2,
     cfg_dns = [IP4 8 8 8 8, IP4 0 0 0 0], dhcp_enabled = False\<rparr>"

text \<open>\<open>start_networking\<close> with its messages, the interface being the default one.\<close>

definition configure_interface :: "nat \<Rightarrow> machine \<Rightarrow> machine option" where
  "configure_interface i m =
     do { m \<leftarrow> KINFO ''NET'' (''Configuring network interface '' @ sq @ ''%s'' @ sq) [str_arg (if_name (interfaces (nets m) ! i))] m;
          let m = (if dhcp_discover \<noteq> 0
                   then m\<lparr>nets := put_netif i ((interfaces (nets m) ! i)\<lparr>ip_cfg := static_config\<rparr>) (nets m)\<rparr> else m);
          addr \<leftarrow> ip4_to_str (cfg_addr (ip_cfg (interfaces (nets m) ! i))) (replicate 16 0);
          if dhcp_discover \<noteq> 0 then KINFO ''NET'' ''Configured static IP: %s'' [ArgStr (Some addr)] m
          else KINFO ''NET'' ''DHCP configured IP: %s'' [ArgStr (Some addr)] m }"

definition start_networking_step :: "machine \<Rightarrow> machine option" where
  "start_networking_step m =
     (case netif_get_default (nets m) of
        Some i \<Rightarrow> configure_interface i m
      | None \<Rightarrow>
          do { m \<leftarrow> KWARN ''NET'' ''No hardware network interface available, creating virtual interface'' [] m;
               m \<leftarrow> create_virtual_step m;
               case netif_get_default (nets m) of
                 Some i \<Rightarrow> configure_interface i m
               | None \<Rightarrow> KWARN ''NET'' ''Failed to create virtual interface'' [] m })"

text \<open>\<open>kernel_main\<close> from its entry to the first login.  \<open>mem\<close> is the memory that holds the boot loader's
  map.\<close>

definition kernel_start ::
  "device \<Rightarrow> u32 \<Rightarrow> u32 \<Rightarrow> (nat \<Rightarrow> u32) \<Rightarrow> (nat \<Rightarrow> u32) \<Rightarrow> mem \<Rightarrow> bytes \<Rightarrow> u32 \<Rightarrow> multiboot_info \<Rightarrow> sys \<Rightarrow> sys option" where
  "kernel_start hw gdt idt isr irq mem date mb_magic info s =
     do { let s = on_con (\<lambda>c. console_clear (console_init c)) s;
          let mb_info = (if mb_magic = MULTIBOOT_MAGIC_VAL then Some info else None);
          s \<leftarrow> say (''  === Kernel Initialization ==='' @ nl @ nl) [] s;
          s \<leftarrow> on_machine (init_memory_map mb_info mem) s;
          s \<leftarrow> init_step ''Virtual memory'' do_vmm_init s;
          s \<leftarrow> init_step ''Kernel heap'' do_heap_init s;
          s \<leftarrow> init_step ''Interrupts'' (on_machine (do_interrupts_init gdt idt isr irq)) s;
          s \<leftarrow> init_step ''PIC Controller'' (on_machine do_pic_init) s;
          s \<leftarrow> init_step ''System Timer'' (on_machine (do_timer_init hw)) s;
          s \<leftarrow> init_step ''Keyboard Driver'' (on_machine (do_keyboard_init hw)) s;
          s \<leftarrow> init_step ''Virtual Filesystem'' do_vfs_init s;
          s \<leftarrow> init_step ''Network Interfaces'' (on_machine netif_init_step) s;
          s \<leftarrow> init_step ''PCI Bus Discovery'' (on_machine (pci_init hw)) s;
          s \<leftarrow> init_step ''Networking'' (on_machine net_init) s;
          s \<leftarrow> on_machine start_networking_step s;
          s \<leftarrow> on_machine (\<lambda>m. Some (m\<lparr>trace := sti (trace m)\<rparr>)) s;
          s \<leftarrow> print_banner date (on_con console_clear s);
          user_init s }"

section \<open>Sessions\<close>

text \<open>One round of the loop of \<open>kernel_main\<close>.\<close>

definition session :: "bytes \<Rightarrow> bytes \<Rightarrow> sys \<Rightarrow> sys option" where
  "session junk date s =
     do { s \<leftarrow> user_login_sequence junk s; s \<leftarrow> print_welcome date s; shell_run s }"

end
