(* ===== verification/Path_Spec.thy ===== *)
theory Path_Spec
  imports Kernel_Main Klog_Spec Vfs_Spec
begin

text \<open>
  The paths of the shell: what \<open>resolve_path\<close> makes of a name and the current directory.
\<close>

section \<open>Formatting a path\<close>

lemma format_path_pieces:
  assumes "\<forall>p \<in> set ps. piece_ok p \<and> no_pointer p" "text_of fmt = concat (map piece_format ps)"
    "args = concat (map piece_args ps)" "length (concat (map piece_text ps)) < PATH_MAX"
    "0 \<notin> set (concat (map piece_text ps))"
  shows "format_path fmt args = Some (concat (map piece_text ps))"
proof -
  define t where "t = concat (map piece_text ps)"
  have "0 < PATH_MAX" "PATH_MAX \<le> length (replicate PATH_MAX (0::u8))" by (simp_all add: PATH_MAX_def)
  note r = ksnprintf_pieces [OF assms(1) this t_def, of "[]", folded assms(2,3)]
  have "take (PATH_MAX - 1) t = t" using assms(4) by (simp add: t_def)
  then show ?thesis using r assms(5) by (simp add: format_path_def t_def [symmetric] del: text_of_simps)
qed

text \<open>The path a name stands for.\<close>

definition absolute :: "bytes \<Rightarrow> bytes \<Rightarrow> bytes" where
  "absolute dir inp = (if inp \<noteq> [] \<and> hd inp = 47 then inp else if dir = [47] then 47 # inp else dir @ 47 # inp)"

lemma resolve_path_absolute:
  assumes "0 \<notin> set dir" "0 \<notin> set inp" "length (absolute dir inp) < PATH_MAX"
  shows "resolve_path dir inp = remove_dots (absolute dir inp)"
proof -
  have a: "text_of ''/%s'' = concat (map piece_format [Literal [47], String (Some inp)])"
    "text_of ''%s/%s'' = concat (map piece_format [String (Some dir), Literal [47], String (Some inp)])" by simp_all
  have root: "strcmp (dir @ [0]) [47, 0] = Some 0 \<longleftrightarrow> dir = [47]"
    using assms(1) by (subst strcmp_zero_iff) (simp_all add: terminated_def)
  consider "inp \<noteq> []" "hd inp = 47" | "\<not> (inp \<noteq> [] \<and> hd inp = 47)" "dir = [47]" | "\<not> (inp \<noteq> [] \<and> hd inp = 47)" "dir \<noteq> [47]"
    by blast
  then show ?thesis
  proof cases
    case 1
    then show ?thesis by (simp add: resolve_path_def absolute_def)
  next
    case 2
    then have "format_path ''/%s'' [str_arg inp] = Some (absolute dir inp)"
      using format_path_pieces [OF _ a(1), of "[str_arg inp]"] assms by (auto simp: absolute_def str_arg_def)
    then show ?thesis using 2 root by (auto simp: resolve_path_def)
  next
    case 3
    then have "format_path ''%s/%s'' [str_arg dir, str_arg inp] = Some (absolute dir inp)"
      using format_path_pieces [OF _ a(2), of "[str_arg dir, str_arg inp]"] assms by (auto simp: absolute_def str_arg_def)
    then show ?thesis using 3 root by (auto simp: resolve_path_def)
  qed
qed

section \<open>Dots\<close>

text \<open>The directory a path lies in.\<close>

definition parent :: "bytes \<Rightarrow> bytes" where
  "parent t = (let q = rev (tl (dropWhile (\<lambda>c. c \<noteq> 47) (rev t))) in if q = [] then [47] else q)"

lemma parent_split: "47 \<notin> set name \<Longrightarrow> parent (d @ 47 # name) = (if d = [] then [47] else d)"
proof -
  assume "47 \<notin> set name"
  then have "dropWhile (\<lambda>c. c \<noteq> 47) (rev name @ 47 # rev d) = 47 # rev d"
    by (induction name rule: rev_induct) auto
  then show ?thesis by (simp add: parent_def)
qed

lemma parent_none: "47 \<notin> set t \<Longrightarrow> parent t = [47]"
proof -
  assume "47 \<notin> set t"
  then have "dropWhile (\<lambda>c. c \<noteq> 47) (rev t) = []" unfolding dropWhile_eq_Nil_conv by auto
  then show ?thesis unfolding parent_def by (simp only: list.sel(2) rev.simps Let_def if_True refl)
qed

lemma slash_back_at:
  "k \<le> i \<Longrightarrow> k = 0 \<or> temp ! k = 47 \<Longrightarrow> \<forall>j. k < j \<and> j \<le> i \<longrightarrow> temp ! j \<noteq> 47 \<Longrightarrow> slash_back temp i = k"
  by (induction temp i rule: slash_back.induct) (auto simp: le_Suc_eq)

text \<open>Going back from the end of \<open>u\<close>.\<close>

lemma slash_back_parent:
  assumes "u \<noteq> []"
  shows "(let slash = slash_back (u @ v) (length u - 1) in if slash = 0 then [47] else take slash (u @ v)) = parent u"
proof (cases "47 \<in> set u")
  case True
  then obtain d name where u: "u = d @ 47 # name" "47 \<notin> set name" using split_list_last by fastforce
  have "slash_back (u @ v) (length u - 1) = length d"
    using u by (intro slash_back_at) (auto simp: nth_append nth_Cons' in_set_conv_nth)
  then show ?thesis using u by (simp add: parent_split)
next
  case False
  have "slash_back (u @ v) (length u - 1) = 0"
    using assms False by (intro slash_back_at) (auto simp: nth_append in_set_conv_nth)
  then show ?thesis using False by (simp add: parent_none)
qed

lemma first_dots:
  assumes "\<not> sublist [46, 46] (t @ [46])"
  shows "first_at [46, 46] (t @ [46, 46] @ rest) (length t)"
proof -
  have "\<not> prefix [46, 46] (drop j (t @ [46, 46] @ rest))" if "j < length t" for j
  proof
    assume "prefix [46, 46] (drop j (t @ [46, 46] @ rest))"
    then have p: "prefix [46, 46] (drop j t @ [46, 46] @ rest)" using that by simp
    have "drop j t \<noteq> []" using that by simp
    then obtain x y where d: "drop j t = x # y" by (cases "drop j t") auto
    have "prefix [46, 46] (drop j t @ [46])" using p d by (cases y) auto
    then have "prefix [46, 46] (drop j (t @ [46]))" using that by simp
    then show False using assms by (meson prefix_imp_sublist sublist_drop sublist_order.order_trans)
  qed
  then show ?thesis by (auto simp: first_at_def)
qed

lemma remove_dots_split:
  assumes "0 \<notin> set (t @ [46, 46] @ rest)" "\<not> sublist [46, 46] (t @ [46])"
  shows "remove_dots (t @ [46, 46] @ rest) = Some (parent (butlast t))"
proof -
  let ?s = "t @ [46, 46] @ rest"
  have c: "cstr (?s @ 0 # []) = ?s" by (rule cstr_append_zero [OF assms(1)])
  have c: "cstr (?s @ [0]) = ?s" "cstr [46, 46, 0] = [46, 46]" "terminated (?s @ [0])" "terminated [46, 46, 0]"
    using c by (simp_all add: terminated_def)
  have "strstr (?s @ [0]) [46, 46, 0] = Some (Some (length t))"
    using strstr_at(1) [OF c(3,4)] first_dots [OF assms(2)] c(1,2) by simp
  then have r: "remove_dots ?s = Some (if length t > 1 then (let slash = slash_back ?s (length t - 2)
      in if slash = 0 then [47] else take slash ?s) else [47])"
    by (simp add: remove_dots_def Let_def)
  show ?thesis
  proof (cases "length t > 1")
    case True
    then have n: "butlast t \<noteq> []" "length (butlast t) - 1 = length t - 2" by (cases t; auto)+
    have "?s = butlast t @ last t # [46, 46] @ rest" using True by (cases t rule: rev_cases) auto
    then show ?thesis using r slash_back_parent [OF n(1), of "last t # [46, 46] @ rest"] True n(2) by metis
  next
    case False
    then have "butlast t = []" by (cases t) auto
    then show ?thesis using r False by (simp add: parent_none)
  qed
qed

lemma remove_dots_none:
  assumes "0 \<notin> set s" "\<not> sublist [46, 46] s"
  shows "remove_dots s = Some s"
proof -
  have "strstr (s @ [0]) [46, 46, 0] = Some None"
    using strstr_at(2) [of "s @ [0]" "[46, 46, 0]"] assms by (simp add: terminated_def)
  then show ?thesis by (simp add: remove_dots_def)
qed

text \<open>C34. A name stands for the path it writes, below the current directory if it does not begin with a
  slash.  If this path has no two dots in a row it is the result.  Otherwise, the result is the directory
  of what stands before the first two dots and the character before them: for a \<open>..\<close> component this is
  the parent, but everything behind the dots is dropped, and dots inside a name count as well.\<close>

theorem resolve_path_parent:
  assumes "0 \<notin> set dir" "0 \<notin> set inp" "length (absolute dir inp) < PATH_MAX"
  shows "(\<not> sublist [46, 46] (absolute dir inp) \<longrightarrow> resolve_path dir inp = Some (absolute dir inp)) \<and>
    (\<forall>t rest. absolute dir inp = t @ [46, 46] @ rest \<and> \<not> sublist [46, 46] (t @ [46]) \<longrightarrow>
       resolve_path dir inp = Some (parent (butlast t)))"
proof -
  have "0 \<notin> set (absolute dir inp)" using assms by (auto simp: absolute_def)
  then show ?thesis using resolve_path_absolute [OF assms] remove_dots_none remove_dots_split by metis
qed

text \<open>In \<open>/home/me\<close>, the name \<open>../etc\<close> is \<open>/home\<close>.\<close>

theorem resolve_path_parent_witness:
  "absolute (text_of ''/home/me'') (text_of ''../etc'') = text_of ''/home/me/../etc'' \<and>
   resolve_path (text_of ''/home/me'') (text_of ''../etc'') = Some (text_of ''/home'')"
proof -
  have a: "absolute (text_of ''/home/me'') (text_of ''../etc'') = text_of ''/home/me/../etc''" by (simp add: absolute_def)
  have s: "text_of ''/home/me/../etc'' = text_of ''/home/me/'' @ [46, 46] @ text_of ''/etc''"
    "butlast (text_of ''/home/me/'') = text_of ''/home'' @ 47 # text_of ''me''" by simp_all
  have "47 \<notin> set (text_of ''me'')" by simp
  note p = parent_split [OF this, of "text_of ''/home''", folded s(2)]
  have d: "\<not> sublist [46, 46] (text_of ''/home/me/'' @ [46])" by (simp add: sublist_Cons_right)
  have z: "0 \<notin> set (text_of ''/home/me'')" "0 \<notin> set (text_of ''../etc'')"
    "length (absolute (text_of ''/home/me'') (text_of ''../etc'')) < PATH_MAX"
    by (simp_all add: a PATH_MAX_def del: text_of_simps) (simp_all add: text_of_def)
  have "resolve_path (text_of ''/home/me'') (text_of ''../etc'') = Some (parent (butlast (text_of ''/home/me/'')))"
    using resolve_path_parent [OF z] a s(1) d by metis
  then show ?thesis using a p by simp
qed

end
