(* ===== verification/Shell_Spec.thy ===== *)
theory Shell_Spec
  imports Path_Spec
begin

text \<open>
  The shell as its user sees it: the line editor, the words of a line, the paths, and the login.
\<close>

lemma set_con_simps [simp]:
  "keys (set_con c s) = keys s" "files (set_con c s) = files s" "cwd (set_con c s) = cwd s"
  "current_user (set_con c s) = current_user s" "vga (mach (set_con c s)) = c"
  "shell_input (set_con c s) = shell_input s" "argv (set_con c s) = argv s" "halted (set_con c s) = halted s"
  by (simp_all add: set_con_def)

section \<open>The line editor\<close>

text \<open>The text a series of keys leaves on a line with room for \<open>room\<close> characters, and the keys left.\<close>

fun edit_line :: "nat \<Rightarrow> bytes \<Rightarrow> bytes \<Rightarrow> (bytes \<times> bytes) option" where
  "edit_line room t [] = (if length t < room then None else Some (t, []))"
| "edit_line room t (k # ks) =
     (if length t < room
      then (if k \<in> {10, 13} then Some (t, ks)
            else if k \<in> {8, 127} then edit_line room (butlast t) ks
            else if 32 \<le> sint k then edit_line room (t @ [k]) ks
            else edit_line room t ks)
      else Some (t, k # ks))"

definition holds_line :: "nat \<Rightarrow> bytes \<Rightarrow> bytes \<Rightarrow> bytes \<Rightarrow> bool" where
  "holds_line maxlen buf0 t buf \<longleftrightarrow> length buf = length buf0 \<and> drop maxlen buf = drop maxlen buf0 \<and>
     length t < maxlen \<and> take (length t) buf = t \<and> 0 \<notin> set t"

lemma holds_line_butlast:
  assumes "holds_line maxlen b t buf"
  shows "holds_line maxlen b (butlast t) buf"
proof -
  have "take (length t - 1) buf = take (length t - 1) (take (length t) buf)" by simp
  also have "\<dots> = butlast t" using assms by (simp add: holds_line_def butlast_conv_take)
  finally show ?thesis using assms by (auto simp: holds_line_def dest: in_set_butlastD)
qed

lemma holds_line_snoc:
  assumes "holds_line maxlen b t buf" "length t + 1 < maxlen" "maxlen \<le> length b" "k \<noteq> 0"
  shows "holds_line maxlen b (t @ [k]) (buf[length t := k])"
  using assms by (auto simp: holds_line_def take_Suc_conv_app_nth drop_update_cancel)

lemma holds_line_end:
  assumes "holds_line maxlen b t buf" "maxlen \<le> length b"
  shows "holds_line maxlen b t (buf[length t := 0])" "cstr (buf[length t := 0]) = t"
proof -
  show "holds_line maxlen b t (buf[length t := 0])" using assms by (auto simp: holds_line_def)
  have "length t < length buf" using assms by (simp add: holds_line_def)
  then have "buf[length t := 0] = take (length t) buf @ 0 # drop (Suc (length t)) buf" by (rule upd_conv_take_nth_drop)
  then show "cstr (buf[length t := 0]) = t" using assms(1) by (simp add: holds_line_def)
qed

lemma readline_step:
  assumes "holds_line maxlen b t buf" "maxlen \<le> length b" "length t < maxlen - 1" "k \<notin> {10, 13}"
  shows "\<exists>t2 buf2 c2. readline_loop maxlen (k # ks) (length t) buf c = readline_loop maxlen ks (length t2) buf2 c2 \<and>
    edit_line (maxlen - 1) t (k # ks) = edit_line (maxlen - 1) t2 ks \<and> holds_line maxlen b t2 buf2"
proof -
  consider (erase) "k \<in> {8, 127}" "t \<noteq> []" | (nothing) "k \<in> {8, 127}" "t = []"
    | (char) "k \<notin> {8, 127}" "32 \<le> sint k" | (other) "k \<notin> {8, 127}" "\<not> 32 \<le> sint k" by blast
  then show ?thesis
  proof cases
    case erase
    then show ?thesis using assms holds_line_butlast [OF assms(1)]
      by (intro exI [of _ "butlast t"] exI [of _ buf]
          exI [of _ "console_putchar 8 (console_putchar 32 (console_putchar 8 c))"]) auto
  next
    case nothing
    then show ?thesis using assms by (intro exI [of _ t] exI [of _ buf] exI [of _ c]) auto
  next
    case char
    then have "k \<noteq> 0" by auto
    then have "holds_line maxlen b (t @ [k]) (buf[length t := k])"
      using holds_line_snoc [OF assms(1) _ assms(2)] assms(3) by auto
    then show ?thesis using char assms
      by (intro exI [of _ "t @ [k]"] exI [of _ "buf[length t := k]"] exI [of _ "console_putchar k c"]) auto
  next
    case other
    then show ?thesis using assms by (intro exI [of _ t] exI [of _ buf] exI [of _ c]) auto
  qed
qed

lemma readline_loop_edits:
  assumes "holds_line maxlen b t buf" "maxlen \<le> length b"
  shows "case edit_line (maxlen - 1) t ks of
      None \<Rightarrow> readline_loop maxlen ks (length t) buf c = None
    | Some (t', rest) \<Rightarrow> \<exists>buf' c'. readline_loop maxlen ks (length t) buf c = Some (length t', buf', rest, c') \<and>
        holds_line maxlen b t' buf' \<and> cstr buf' = t'"
  using assms(1)
proof (induction ks arbitrary: t buf c)
  case Nil
  then show ?case using holds_line_end [OF Nil assms(2)] by auto
next
  case (Cons k ks)
  show ?case
  proof (cases "length t < maxlen - 1 \<and> k \<notin> {10, 13}")
    case False
    then show ?thesis using holds_line_end [OF Cons.prems assms(2)] by auto
  next
    case True
    then obtain t2 buf2 c2 where
      "readline_loop maxlen (k # ks) (length t) buf c = readline_loop maxlen ks (length t2) buf2 c2"
      "edit_line (maxlen - 1) t (k # ks) = edit_line (maxlen - 1) t2 ks" "holds_line maxlen b t2 buf2"
      using readline_step [OF Cons.prems assms(2)] by blast
    then show ?thesis using Cons.IH [of t2 buf2 c2] by (simp only:)
  qed
qed

lemma readline_edits:
  assumes "maxlen \<le> length buf" "0 < maxlen" "edit_line (maxlen - 1) [] (keys s) = Some (t, rest)"
  shows "\<exists>buf' c. shell_readline buf maxlen s = Some (length t, buf', set_con c (s\<lparr>keys := rest\<rparr>)) \<and>
    holds_line maxlen buf t buf' \<and> cstr buf' = t"
proof -
  have h: "holds_line maxlen buf [] buf" using assms(2) by (simp add: holds_line_def)
  from readline_loop_edits [OF h assms(1), of "keys s" "vga (mach s)"] assms(3) obtain buf' c' where
    b: "readline_loop maxlen (keys s) 0 buf (vga (mach s)) = Some (length t, buf', rest, c')"
      "holds_line maxlen buf t buf'" "cstr buf' = t" by auto
  then show ?thesis by (auto simp: shell_readline_def)
qed

text \<open>C14. Reading a line is editing it: for every sequence of keys, \<open>shell_readline\<close> stores the text that
  appending the printable characters and dropping the last one on a backspace or delete gives, up to the
  first newline or until the array is full; it returns the length, leaves the keys behind the line unread,
  terminates the text inside the array, changes no byte behind the given size, and waits exactly when the
  keys run out before the line ends.\<close>

theorem shell_readline_edits:
  assumes "0 < maxlen" "maxlen \<le> length buf"
  shows "case edit_line (maxlen - 1) [] (keys s) of
      None \<Rightarrow> shell_readline buf maxlen s = None
    | Some (t, rest) \<Rightarrow> \<exists>buf' s'. shell_readline buf maxlen s = Some (length t, buf', s') \<and> cstr buf' = t \<and>
        length t < maxlen \<and> length buf' = length buf \<and> drop maxlen buf' = drop maxlen buf \<and>
        keys s' = rest \<and> files s' = files s"
proof (cases "edit_line (maxlen - 1) [] (keys s)")
  case None
  have "holds_line maxlen buf [] buf" using assms by (simp add: holds_line_def)
  from readline_loop_edits [OF this assms(2), of "keys s" "vga (mach s)"] show ?thesis
    using None by (simp add: shell_readline_def)
next
  case (Some p)
  obtain t rest where p: "p = (t, rest)" by (cases p)
  from readline_edits [OF assms(2,1)] Some p show ?thesis by (force simp: holds_line_def)
qed

theorem shell_readline_edits_witness:
  "shell_readline (replicate 8 0) 8 (sys0 (machine0 0x200000 blank_console) [97, 98, 8, 99, 10, 100]) \<noteq> None \<and>
   (\<exists>buf' s'. shell_readline (replicate 8 0) 8 (sys0 (machine0 0x200000 blank_console) [97, 98, 8, 99, 10, 100]) = Some (2, buf', s') \<and>
      cstr buf' = [97, 99] \<and> keys s' = [100])"
  using shell_readline_edits [of 8 "replicate 8 0" "sys0 (machine0 0x200000 blank_console) [97, 98, 8, 99, 10, 100]"]
  by (auto simp: sys0_def)

section \<open>Words\<close>

lemma words_shorter:
  assumes "dropWhile is_blank s \<noteq> []"
  shows "length (dropWhile (\<lambda>c. \<not> is_blank c) (dropWhile is_blank s)) < length s"
proof -
  obtain c t where t: "dropWhile is_blank s = c # t" using assms by (cases "dropWhile is_blank s") auto
  then have "\<not> is_blank c" by (metis dropWhile_eq_Cons_conv)
  then have "length (dropWhile (\<lambda>c. \<not> is_blank c) (dropWhile is_blank s)) < length (dropWhile is_blank s)"
    using t length_dropWhile_le [of "\<lambda>c. \<not> is_blank c" t] by simp
  also have "\<dots> \<le> length s" by (rule length_dropWhile_le)
  finally show ?thesis .
qed

text \<open>The words of a text.\<close>

function words :: "bytes \<Rightarrow> bytes list" where
  "words s =
     (let s = dropWhile is_blank s
      in if s = [] then [] else takeWhile (\<lambda>c. \<not> is_blank c) s # words (dropWhile (\<lambda>c. \<not> is_blank c) s))"
  by pat_completeness auto
termination by (relation "measure length") (auto simp: words_shorter)

declare words.simps [simp del]

lemma words_blank: "is_blank c \<Longrightarrow> words (c # s) = words s"
  by (subst (1 2) words.simps) simp

lemma words_empty: "dropWhile is_blank s = [] \<Longrightarrow> words s = []"
  by (subst words.simps) simp

lemma words_word:
  assumes "dropWhile is_blank s = w @ t" "w \<noteq> []" "\<forall>c \<in> set w. \<not> is_blank c" "t = [] \<or> is_blank (hd t)"
  shows "words s = w # words t"
proof -
  have "takeWhile (\<lambda>c. \<not> is_blank c) (w @ t) = w" "dropWhile (\<lambda>c. \<not> is_blank c) (w @ t) = t"
    using assms(3,4) by (cases t; simp add: takeWhile_append dropWhile_append)+
  then show ?thesis using assms(1,2) by (subst words.simps) simp
qed

lemma while_stop:
  assumes "\<not> P x"
  shows "takeWhile P (s @ x # r) = takeWhile P s" "dropWhile P (s @ x # r) = dropWhile P s @ x # r"
  using assms by (induction s) auto

text \<open>Where a scan stops in an array that is terminated behind \<open>p\<close>.\<close>

lemma scan_stop:
  assumes "drop p str = s @ 0 # rest" "\<not> P 0"
  shows "drop (scan P str p) str = dropWhile P s @ 0 # rest" "scan P str p = p + length (takeWhile P s)"
    "scan P str p < length str"
proof -
  have "drop (scan P str p) str = drop (length (takeWhile P (drop p str))) (drop p str)"
    by (simp add: scan_def add.commute)
  also have "\<dots> = dropWhile P (drop p str)" by (simp only: dropWhile_eq_drop)
  finally show e: "drop (scan P str p) str = dropWhile P s @ 0 # rest"
    using assms by (simp add: while_stop)
  show "scan P str p = p + length (takeWhile P s)" using assms by (simp add: scan_def while_stop)
  show "scan P str p < length str"
    using e by (metis append_is_Nil_conv drop_eq_Nil linorder_not_less list.distinct(1))
qed

lemma token_loop_words:
  assumes "drop p str = s @ 0 # rest" "0 \<notin> set s"
  shows "\<exists>offs str'. token_loop k str p = Some (offs, str') \<and> length str' = length str \<and> take p str' = take p str \<and>
    map (\<lambda>i. cstr (drop i str')) offs = take k (words s)"
  using assms
proof (induction k arbitrary: p str s)
  case (Suc k)
  define q where "q = scan is_blank str p"
  define e where "e = scan (\<lambda>c. c \<noteq> 0 \<and> \<not> is_blank c) str q"
  define w where "w = takeWhile (\<lambda>c. c \<noteq> 0 \<and> \<not> is_blank c) (dropWhile is_blank s)"
  define t where "t = dropWhile (\<lambda>c. c \<noteq> 0 \<and> \<not> is_blank c) (dropWhile is_blank s)"
  have "\<not> is_blank 0" by (simp add: is_blank_def)
  note q = scan_stop [where P = is_blank, OF Suc.prems(1) this, folded q_def]
  have "\<not> ((0::u8) \<noteq> 0 \<and> \<not> is_blank 0)" by simp
  note e = scan_stop [where P = "\<lambda>c. c \<noteq> 0 \<and> \<not> is_blank c", OF q(1) this, folded e_def w_def t_def]
  have wt: "dropWhile is_blank s = w @ t" by (simp add: w_def t_def)
  have w0: "\<forall>c \<in> set w. c \<noteq> 0 \<and> \<not> is_blank c" by (auto simp: w_def dest: set_takeWhileD)
  have "0 \<notin> set (dropWhile is_blank s)" using Suc.prems(2) by (metis set_dropWhileD)
  then have t0: "0 \<notin> set t" using wt by auto
  have tb: "t = [] \<or> is_blank (hd t)"
  proof (cases "t = []")
    case False
    then have "\<not> (hd t \<noteq> 0 \<and> \<not> is_blank (hd t))"
      unfolding t_def by (rule hd_dropWhile [of "\<lambda>c. c \<noteq> 0 \<and> \<not> is_blank c"])
    moreover have "hd t \<noteq> 0" using False t0 by (metis list.set_sel(1))
    ultimately show ?thesis by simp
  qed simp
  have nth: "str ! i = hd (drop i str)" if "i < length str" for i using that by (simp add: hd_drop_conv_nth)
  have split: "token_loop (Suc k) str p =
      (if str ! q = 0 then Some ([], str)
       else if str ! e = 0 then Some ([q], str)
       else do { (offs, str) \<leftarrow> token_loop k (str[e := 0]) (e + 1); Some (q # offs, str) })"
    using q(3) e(3) by (simp add: Let_def q_def [symmetric] e_def [symmetric])
  show ?case
  proof (cases "w = []")
    case True
    have dw: "dropWhile is_blank s = []"
    proof (rule ccontr)
      assume n: "dropWhile is_blank s \<noteq> []"
      then have "is_blank (hd (dropWhile is_blank s))" using tb wt True by simp
      then show False using hd_dropWhile [OF n] by simp
    qed
    have "str ! q = 0" using nth [OF q(3)] unfolding q(1) dw by simp
    moreover have "words s = []" by (rule words_empty [OF dw])
    ultimately show ?thesis unfolding split by simp
  next
    case w: False
    have ws: "words s = w # words t" using words_word [OF wt w _ tb] w0 by blast
    have q0: "str ! q \<noteq> 0" using nth [OF q(3)] q(1) wt w w0 by (cases w) auto
    have cw: "cstr (w @ x # y) = w" if "x = 0" for x y using w0 that by auto
    show ?thesis
    proof (cases "t = []")
      case True
      then have "str ! e = 0" using nth [OF e(3)] e(1) by simp
      then show ?thesis unfolding split using q0 ws True q(1) wt w0
        by (cases k) (auto simp: words_empty)
    next
      case False
      then obtain b u where t: "t = b # u" "is_blank b" using tb by (cases t) auto
      have e0: "str ! e \<noteq> 0" using nth [OF e(3)] e(1) t t0 by auto
      let ?s = "str[e := 0]"
      have "drop (e + 1) ?s = drop 1 (drop e str)" by (simp add: add.commute)
      then have d: "drop (e + 1) ?s = u @ 0 # rest" using e(1) t by simp
      have "0 \<notin> set u" using t0 t by simp
      from Suc.IH [OF d this] obtain offs str' where IH: "token_loop k ?s (e + 1) = Some (offs, str')"
        "length str' = length ?s" "take (e + 1) str' = take (e + 1) ?s"
        "map (\<lambda>i. cstr (drop i str')) offs = take k (words u)" by blast
      have qe: "e = q + length w" using e(2) by simp
      have "take (e + 1) ?s = take e str @ [0]" using e(3) by (simp add: take_Suc_conv_app_nth)
      moreover have "take e str = take q str @ w"
        using q(1) wt unfolding qe by (simp add: take_add)
      ultimately have pre: "take (e + 1) str' = take q str @ w @ [0]" using IH(3) by simp
      have str': "str' = take q str @ w @ [0] @ drop (e + 1) str'"
        using pre by (metis append.assoc append_take_drop_id)
      have "length (take q str) = q" using q(3) by simp
      then have "drop q str' = w @ 0 # drop (e + 1) str'" by (subst str') simp
      then have "cstr (drop q str') = w" by (simp add: cw)
      moreover have "take p str' = take p str"
      proof -
        have "p \<le> q" using q(2) by simp
        then have "take p str' = take p (take q (take (e + 1) str'))" using qe by (simp add: min_def)
        also have "\<dots> = take p str" unfolding pre using \<open>length (take q str) = q\<close> \<open>p \<le> q\<close> by simp
        finally show ?thesis .
      qed
      ultimately show ?thesis unfolding split using q0 e0 IH ws t by (auto simp: words_blank)
    qed
  qed
qed simp

text \<open>C15. Splitting a line: for every line that is terminated inside its array, \<open>tokenize\<close> returns pointers
  to the words of the line, the maximal runs of characters other than blank and tab, in order and at most
  as many as there is room for, each terminated in the array.\<close>

theorem tokenize_words:
  assumes "terminated str"
  shows "\<exists>offs str'. tokenize str n = Some (offs, str') \<and> length str' = length str \<and>
    map (\<lambda>i. cstr (drop i str')) offs = take n (words (cstr str))"
proof -
  obtain rest where "str = cstr str @ 0 # rest" using terminated_split [OF assms] by blast
  then have "drop 0 str = cstr str @ 0 # rest" by simp
  from token_loop_words [OF this cstr_no_zero, of n] show ?thesis unfolding tokenize_def by blast
qed

theorem tokenize_words_witness:
  "words [32, 97, 98, 9, 99] = [[97, 98], [99]] \<and>
   (\<exists>offs str'. tokenize [32, 97, 98, 9, 99, 0, 0] 16 = Some (offs, str') \<and>
      map (\<lambda>i. cstr (drop i str')) offs = [[97, 98], [99]])"
proof -
  have w: "words [32, 97, 98, 9, 99] = [[97, 98], [99]]" by (simp add: words.simps is_blank_def)
  have "terminated [32, 97, 98, 9, 99, 0, 0]" by (simp add: terminated_def)
  from tokenize_words [OF this, of 16] show ?thesis using w by fastforce
qed

section \<open>One line\<close>

lemma find_command_map_of:
  assumes "0 \<notin> set w" "\<forall>(n, c) \<in> set cs. 0 \<notin> set (text_of n)"
  shows "find_command cs w = map_of (map (\<lambda>(n, c). (text_of n, c)) cs) w"
  using assms(2)
proof (induction cs)
  case (Cons e cs)
  obtain n c where e: "e = (n, c)" by force
  have "strcmp (text_of n @ [0]) (w @ [0]) = Some 0 \<longleftrightarrow> text_of n = w"
    using assms(1) Cons.prems e by (subst strcmp_zero_iff) (simp_all add: terminated_def)
  then show ?case using Cons e by auto
qed simp

definition command_of :: "bytes \<Rightarrow> command option" where
  "command_of w = map_of (map (\<lambda>(n, c). (text_of n, c)) commands) w"

lemma find_commands: "0 \<notin> set w \<Longrightarrow> find_command commands w = command_of w"
  unfolding command_of_def by (rule find_command_map_of) (simp_all add: commands_def text_of_def)

text \<open>What the word decides.\<close>

definition run_word :: "bytes \<Rightarrow> bytes list \<Rightarrow> sys \<Rightarrow> bytes \<Rightarrow> (bool \<times> sys) option" where
  "run_word raw args s w =
     (if w = text_of ''logout'' then Some (True, s)
      else map_option (Pair False)
        (case command_of w of Some c \<Rightarrow> command_fn c args s | None \<Rightarrow> run_math raw w s))"

lemma shell_line_words:
  assumes "terminated (shell_input s)"
  shows "\<exists>line offs. length line = length (shell_input s) \<and>
    map (\<lambda>i. cstr (drop i line)) offs = take MAX_ARGS (words (cstr (shell_input s))) \<and>
    shell_line s = Option.bind (map_option (\<lambda>i. cstr (drop i line)) (put_argv offs (argv s) ! 0))
      (run_word (cstr (shell_input s)) (take MAX_ARGS (words (cstr (shell_input s))))
        (s\<lparr>shell_input := line, argv := put_argv offs (argv s)\<rparr>))"
proof -
  let ?t = "cstr (shell_input s)"
  obtain rest where "shell_input s = ?t @ 0 # rest" using terminated_split [OF assms] by blast
  then have "drop 0 (shell_input s) = ?t @ 0 # rest" by simp
  from token_loop_words [OF this cstr_no_zero, of MAX_ARGS] obtain offs line where
    t: "tokenize (shell_input s) MAX_ARGS = Some (offs, line)" "length line = length (shell_input s)"
    "map (\<lambda>i. cstr (drop i line)) offs = take MAX_ARGS (words ?t)" unfolding tokenize_def by blast
  define args where "args = take MAX_ARGS (words ?t)"
  have log: "strcmp (w @ [0]) (text_of ''logout'' @ [0]) = Some 0 \<longleftrightarrow> w = text_of ''logout''" if "0 \<notin> set w" for w
    using that by (subst strcmp_zero_iff) (simp_all add: terminated_def)
  show ?thesis
    using t(1,2) t(3) [folded args_def] log [OF cstr_no_zero] find_commands [OF cstr_no_zero]
    by (intro exI [of _ line] exI [of _ offs], cases "put_argv offs (argv s) ! 0")
      (simp_all add: shell_line_def run_word_def Let_def args_def [symmetric] del: text_of_simps split: option.splits)
qed

text \<open>The word that decides: the first of the line, or what the pointer from the line before shows.\<close>

lemma first_word:
  assumes "map f offs = args"
  shows "map_option f (put_argv offs old ! 0) = (if args = [] then map_option f (old ! 0) else Some (hd args))"
  using assms by (cases offs) (auto simp: put_argv_def)

lemma logout_line:
  assumes "terminated (shell_input s)" "words (cstr (shell_input s)) = text_of ''logout'' # ws"
  shows "\<exists>line a. shell_line s = Some (True, s\<lparr>shell_input := line, argv := a\<rparr>)"
proof -
  have a: "take MAX_ARGS (words (cstr (shell_input s))) = text_of ''logout'' # take 15 ws"
    using assms(2) by (simp add: MAX_ARGS_def)
  from shell_line_words [OF assms(1)] obtain line offs where
    m: "map (\<lambda>i. cstr (drop i line)) offs = text_of ''logout'' # take 15 ws" and
    e: "shell_line s = Option.bind (map_option (\<lambda>i. cstr (drop i line)) (put_argv offs (argv s) ! 0))
      (run_word (cstr (shell_input s)) (text_of ''logout'' # take 15 ws)
        (s\<lparr>shell_input := line, argv := put_argv offs (argv s)\<rparr>))"
    unfolding a by (elim exE conjE) (rule that)
  from first_word [OF m, of "argv s"] have
    "map_option (\<lambda>i. cstr (drop i line)) (put_argv offs (argv s) ! 0) = Some (text_of ''logout'')"
    by (simp only: list.simps if_False list.sel)
  then have "shell_line s = Some (True, s\<lparr>shell_input := line, argv := put_argv offs (argv s)\<rparr>)"
    unfolding e by (simp only: bind.bind_lunit) (simp add: run_word_def del: text_of_simps)
  then show ?thesis by blast
qed

text \<open>C8. What a line does: its words are its arguments, at most sixteen, and the first of them decides.
  \<open>logout\<close> ends the session; the name of a command runs that command with the arguments; for any other
  word the line is evaluated as arithmetic.  A line without words does what the word left from the line
  before decides, and is undefined where there is none.\<close>

theorem shell_line_dispatch:
  assumes "terminated (shell_input s)"
  shows "\<exists>line offs. let args = take MAX_ARGS (words (cstr (shell_input s)));
      s1 = s\<lparr>shell_input := line, argv := put_argv offs (argv s)\<rparr>;
      word = (if args = [] then map_option (\<lambda>i. cstr (drop i line)) (argv s ! 0) else Some (hd args))
    in length line = length (shell_input s) \<and> map (\<lambda>i. cstr (drop i line)) offs = args \<and>
      shell_line s =
        (case word of
           None \<Rightarrow> None
         | Some w \<Rightarrow>
             if w = text_of ''logout'' then Some (True, s1)
             else map_option (Pair False)
               (case command_of w of
                  Some c \<Rightarrow> command_fn c args s1
                | None \<Rightarrow> run_math (cstr (shell_input s)) w s1))"
proof -
  obtain line offs where w: "length line = length (shell_input s)"
      "map (\<lambda>i. cstr (drop i line)) offs = take MAX_ARGS (words (cstr (shell_input s)))" and
    l: "shell_line s = Option.bind (map_option (\<lambda>i. cstr (drop i line)) (put_argv offs (argv s) ! 0))
      (run_word (cstr (shell_input s)) (take MAX_ARGS (words (cstr (shell_input s))))
        (s\<lparr>shell_input := line, argv := put_argv offs (argv s)\<rparr>))"
    using shell_line_words [OF assms] by blast
  have b: "Option.bind x f = (case x of None \<Rightarrow> None | Some w \<Rightarrow> f w)" for x :: "bytes option" and f :: "bytes \<Rightarrow> (bool \<times> sys) option"
    by (cases x) simp_all
  show ?thesis using w l [unfolded first_word [OF w(2)] b run_word_def] unfolding Let_def by blast
qed

definition pwd_line :: sys where
  "pwd_line = (sys0 (machine0 0x200000 blank_console) [])\<lparr>shell_input := text_of ''pwd'' @ [0]\<rparr>"

theorem shell_line_dispatch_witness:
  "\<exists>line offs. shell_line pwd_line =
     map_option (Pair False) (cmd_pwd (pwd_line\<lparr>shell_input := line, argv := put_argv offs (argv pwd_line)\<rparr>))"
proof -
  have t: "cstr (shell_input pwd_line) = text_of ''pwd''" "terminated (shell_input pwd_line)"
    by (simp_all add: pwd_line_def terminated_def)
  have w: "words (text_of ''pwd'') = [text_of ''pwd'']" by (simp add: words.simps is_blank_def)
  have c: "command_of (text_of ''pwd'') = Some Pwd" "text_of ''pwd'' \<noteq> text_of ''logout''" by code_simp+
  have k: "take MAX_ARGS [text_of ''pwd''] = [text_of ''pwd'']" by (simp add: MAX_ARGS_def)
  from shell_line_dispatch [OF t(2)] obtain line offs where
    "shell_line pwd_line = map_option (Pair False) (cmd_pwd (pwd_line\<lparr>shell_input := line, argv := put_argv offs (argv pwd_line)\<rparr>))"
    unfolding t(1) w k Let_def by (auto simp: c simp del: text_of_simps)
  then show ?thesis by blast
qed

end
