(* ===== verification/Fs_Inv.thy ===== *)
theory Fs_Inv
  imports Vfs_Spec
begin

text \<open>
  The well-formedness of the filesystem and its preservation: the heap is in range, every inode is a
  sound byte sequence, and the directories form a forest below the roots of the mount points.  On such
  a state the operations of the virtual filesystem run without undefined behaviour.
\<close>

section \<open>The invariant\<close>

text \<open>The part of an inode that path lookups depend on.\<close>

definition shape :: "fsys \<Rightarrow> u32 \<Rightarrow> (u16 \<times> dirents) option" where
  "shape s p = map_option (\<lambda>n. (i_mode n, i_entries n)) (inodes s p)"

lemma shape_simps [simp]:
  "shape (s\<lparr>fd_table := t\<rparr>) = shape s" "shape (s\<lparr>next_ino := i\<rparr>) = shape s" "shape (s\<lparr>fs_heap := h\<rparr>) = shape s"
  "shape (set_fd fd f s) = shape s" "shape (put_inode p n s) = (shape s)(p \<mapsto> (i_mode n, i_entries n))"
  "shape (free_inode p s) = (shape s)(p := None)"
  by (auto simp: shape_def put_inode_def free_inode_def set_fd_def)

lemma shape_inodes: "inodes s' = inodes s \<Longrightarrow> shape s' = shape s"
  by (simp add: shape_def fun_eq_iff)

lemma shape_live [simp]: "shape s p = None \<longleftrightarrow> inodes s p = None"
  by (simp add: shape_def)

lemma shape_Some: "inodes s p = Some n \<Longrightarrow> shape s p = Some (i_mode n, i_entries n)"
  by (simp add: shape_def)

definition dir_entries :: "(u32 \<Rightarrow> (u16 \<times> dirents) option) \<Rightarrow> u32 \<Rightarrow> dirents" where
  "dir_entries h p = (case h p of None \<Rightarrow> [] | Some (m, es) \<Rightarrow> es)"

definition targets :: "(u32 \<Rightarrow> (u16 \<times> dirents) option) \<Rightarrow> u32 \<Rightarrow> u32 set" where
  "targets h p = snd ` set (dir_entries h p)"

lemma dir_entries_Some [simp]: "h p = Some (m, es) \<Longrightarrow> dir_entries h p = es"
  by (simp add: dir_entries_def)

lemma dir_entries_upd: "dir_entries (h(p := x)) q = (if q = p then (case x of None \<Rightarrow> [] | Some (m, es) \<Rightarrow> es) else dir_entries h q)"
  by (simp add: dir_entries_def)

text \<open>An entry leads to a live inode that was allocated after its directory; no inode has two names, and
  the roots of the mount points have none.\<close>

definition forest :: "(u32 \<Rightarrow> (u16 \<times> dirents) option) \<Rightarrow> u32 set \<Rightarrow> bool" where
  "forest h roots \<longleftrightarrow>
     (\<forall>p nm q. (nm, q) \<in> set (dir_entries h p) \<longrightarrow> h q \<noteq> None \<and> unat p < unat q \<and> 0 \<notin> set nm \<and> length nm \<le> 255) \<and>
     (\<forall>p. distinct (map snd (dir_entries h p))) \<and>
     (\<forall>p p'. p \<noteq> p' \<longrightarrow> targets h p \<inter> targets h p' = {}) \<and>
     (\<forall>r \<in> roots. h r \<noteq> None \<and> (\<forall>p. r \<notin> targets h p))"

definition roots :: "fsys \<Rightarrow> u32 set" where
  "roots s = m_root ` set (mount_list s)"

definition fs_inv :: "fsys \<Rightarrow> bool" where
  "fs_inv s \<longleftrightarrow> fs_ok s \<and> unat (bump_size (fs_heap s)) \<le> 1073741824 \<and>
     (\<forall>p n. inodes s p = Some n \<longrightarrow> inode_ok n) \<and> forest (shape s) (roots s)"

lemma fs_invD:
  assumes "fs_inv s"
  shows "fs_ok s" "unat (bump_size (fs_heap s)) \<le> 1073741824" "inodes s p = Some n \<Longrightarrow> inode_ok n"
    "forest (shape s) (roots s)"
  using assms by (auto simp: fs_inv_def)

lemma forest_entry:
  assumes "forest h R" "(nm, q) \<in> set (dir_entries h p)"
  shows "h q \<noteq> None" "unat p < unat q" "0 \<notin> set nm" "length nm \<le> 255" "q \<notin> R" "q \<noteq> p"
proof -
  show a: "h q \<noteq> None" "unat p < unat q" "0 \<notin> set nm" "length nm \<le> 255" using assms by (auto simp: forest_def)
  have "q \<in> targets h p" using assms(2) by (force simp: targets_def)
  then show "q \<notin> R" using assms(1) by (auto simp: forest_def)
  show "q \<noteq> p" using a(2) by auto
qed

section \<open>What keeps a forest\<close>

text \<open>Taking entries away.\<close>

lemma forest_prune:
  assumes "forest h R" "h p = Some (m, es)" "set es' \<subseteq> set es" "distinct (map snd es')"
  shows "forest (h(p \<mapsto> (m', es'))) R"
proof -
  have sub: "set (dir_entries (h(p \<mapsto> (m', es'))) q) \<subseteq> set (dir_entries h q)" for q
    using assms(2,3) by (simp add: dir_entries_upd)
  then have t: "targets (h(p \<mapsto> (m', es'))) q \<subseteq> targets h q" for q by (auto simp: targets_def)
  have l: "h q \<noteq> None \<Longrightarrow> (h(p \<mapsto> (m', es'))) q \<noteq> None" for q by simp
  show ?thesis unfolding forest_def
  proof (intro conjI allI impI ballI)
    fix q nm q' assume "(nm, q') \<in> set (dir_entries (h(p \<mapsto> (m', es'))) q)"
    then have "(nm, q') \<in> set (dir_entries h q)" using sub by blast
    from forest_entry [OF assms(1) this]
    show "(h(p \<mapsto> (m', es'))) q' \<noteq> None" "unat q < unat q'" "0 \<notin> set nm" "length nm \<le> 255" by simp_all
  next
    fix q show "distinct (map snd (dir_entries (h(p \<mapsto> (m', es'))) q))"
      using assms(1,4) by (simp add: dir_entries_upd forest_def)
  next
    fix q q' :: u32 assume "q \<noteq> q'"
    then have "targets h q \<inter> targets h q' = {}" using assms(1) unfolding forest_def by blast
    then show "targets (h(p \<mapsto> (m', es'))) q \<inter> targets (h(p \<mapsto> (m', es'))) q' = {}"
      using t by blast
  next
    fix r assume "r \<in> R"
    then have "h r \<noteq> None \<and> (\<forall>q. r \<notin> targets h q)" using assms(1) unfolding forest_def by blast
    then show "(h(p \<mapsto> (m', es'))) r \<noteq> None" "\<And>q. r \<notin> targets (h(p \<mapsto> (m', es'))) q"
      using t by auto
  qed
qed

text \<open>Freeing an inode that has no name.\<close>

lemma forest_free:
  assumes "forest h R" "q \<notin> R" "\<And>p. q \<notin> targets h p"
  shows "forest (h(q := None)) R"
proof -
  have e: "dir_entries (h(q := None)) p = (if p = q then [] else dir_entries h p)" for p by (simp add: dir_entries_upd)
  then have t: "targets (h(q := None)) p = (if p = q then {} else targets h p)" for p by (simp add: targets_def)
  show ?thesis unfolding forest_def
  proof (intro conjI allI impI ballI)
    fix p nm q' assume a: "(nm, q') \<in> set (dir_entries (h(q := None)) p)"
    then have b: "(nm, q') \<in> set (dir_entries h p)" by (simp add: e split: if_splits)
    then have "q' \<noteq> q" using assms(3) [of p] by (force simp: targets_def)
    then show "(h(q := None)) q' \<noteq> None" "unat p < unat q'" "0 \<notin> set nm" "length nm \<le> 255"
      using forest_entry [OF assms(1) b] by simp_all
  next
    fix p show "distinct (map snd (dir_entries (h(q := None)) p))" using assms(1) by (simp add: e forest_def)
  next
    fix p p' :: u32 assume "p \<noteq> p'"
    then show "targets (h(q := None)) p \<inter> targets (h(q := None)) p' = {}" using assms(1) by (simp add: t forest_def)
  next
    fix r assume r: "r \<in> R"
    then show "(h(q := None)) r \<noteq> None" using assms(1,2) by (auto simp: forest_def)
    show "r \<notin> targets (h(q := None)) p" for p using r assms(1) by (simp add: t forest_def)
  qed
qed

text \<open>A fresh inode without entries, first without a name, then with one.\<close>

lemma forest_fresh:
  assumes "forest h R" "h q = None"
  shows "forest (h(q \<mapsto> (m, []))) R" "forest (h(q \<mapsto> (m, []))) (insert q R)" "\<And>p. q \<notin> targets h p"
proof -
  have e: "dir_entries (h(q \<mapsto> (m, []))) p = dir_entries h p" for p using assms(2) by (simp add: dir_entries_def)
  then have t: "targets (h(q \<mapsto> (m, []))) p = targets h p" for p by (simp add: targets_def)
  show n: "q \<notin> targets h p" for p
    using forest_entry(1) [OF assms(1), of _ q p] assms(2) by (auto simp: targets_def)
  show "forest (h(q \<mapsto> (m, []))) R" "forest (h(q \<mapsto> (m, []))) (insert q R)"
    using assms n by (auto simp: forest_def e t)
qed

lemma forest_link:
  assumes "forest h R" "h p = Some (m, es)" "h q \<noteq> None" "unat p < unat q" "q \<notin> R" "\<And>p. q \<notin> targets h p"
    "0 \<notin> set nm" "length nm \<le> 255"
  shows "forest (h(p \<mapsto> (m', (nm, q) # es))) R"
proof -
  let ?h = "h(p \<mapsto> (m', (nm, q) # es))"
  have e: "dir_entries ?h p' = (if p' = p then (nm, q) # es else dir_entries h p')" for p' by (simp add: dir_entries_upd)
  have es: "dir_entries h p = es" using assms(2) by simp
  have t: "targets ?h p' = (if p' = p then insert q (targets h p) else targets h p')" for p'
    by (simp add: targets_def e es)
  show ?thesis unfolding forest_def
  proof (intro conjI allI impI ballI)
    fix p' n q' assume "(n, q') \<in> set (dir_entries ?h p')"
    then have "(n, q') \<in> set (dir_entries h p') \<or> p' = p \<and> n = nm \<and> q' = q" using es by (auto simp: e split: if_splits)
    then show "?h q' \<noteq> None" "unat p' < unat q'" "0 \<notin> set n" "length n \<le> 255"
      using forest_entry [OF assms(1), of n q' p'] assms(3,4,7,8) by auto
  next
    fix p' show "distinct (map snd (dir_entries ?h p'))"
      using assms(1) assms(6) [of p] es by (auto simp: e forest_def targets_def)
  next
    fix p1 p2 :: u32 assume "p1 \<noteq> p2"
    then show "targets ?h p1 \<inter> targets ?h p2 = {}" using assms(1,6) by (auto simp: t forest_def)
  next
    fix r assume "r \<in> R"
    then show "?h r \<noteq> None" "\<And>p'. r \<notin> targets ?h p'" using assms(1,5) by (auto simp: t forest_def)
  qed
qed

section \<open>What keeps the invariant\<close>

text \<open>Steps that leave the inodes and the mount points alone.\<close>

lemma fs_inv_same:
  assumes "fs_inv s" "inodes s' = inodes s" "mount_list s' = mount_list s" "fs_ok s'"
    "bump_size (fs_heap s') = bump_size (fs_heap s)"
  shows "fs_inv s'"
  using assms shape_inodes [OF assms(2)] by (simp add: fs_inv_def roots_def)

lemma fs_inv_fd [simp]: "fs_inv (set_fd fd f s) = fs_inv s"
  by (simp add: fs_inv_def roots_def) (simp add: set_fd_def)

lemma fs_inv_kmalloc:
  assumes "fs_inv s" "request_ok s k" "fs_kmalloc k s = (p, s')"
  shows "fs_inv s'"
  using fs_inv_same [OF assms(1), of s'] fs_kmalloc_frame [OF assms(3)] fs_kmalloc_ok [OF fs_invD(1) [OF assms(1)] assms(2,3)]
  by simp

text \<open>Changing an inode other than in its mode and entries.\<close>

lemma fs_inv_put:
  assumes "fs_inv s" "inodes s p = Some n" "i_entries n' = i_entries n" "i_mode n' = i_mode n" "inode_ok n'"
  shows "fs_inv (put_inode p n' s)"
proof -
  have "shape (put_inode p n' s) = shape s" using assms(2-4) by (auto simp: shape_Some fun_upd_idem)
  moreover have "roots (put_inode p n' s) = roots s" by (simp add: roots_def put_inode_def)
  ultimately show ?thesis using assms fs_ok_update [of s p n'] unfolding fs_inv_def
    by (auto simp: put_inode_def split: if_splits)
qed

lemma inode_ok_fields [simp]:
  "inode_ok (n\<lparr>i_ref_count := k\<rparr>) = inode_ok n" "inode_ok (n\<lparr>i_nlinks := k\<rparr>) = inode_ok n"
  "inode_ok (n\<lparr>i_entries := es\<rparr>) = inode_ok n"
  by (simp_all add: inode_ok_def split: option.splits)

section \<open>Looking up\<close>

text \<open>Lookups change nothing but reference counts.\<close>

definition no_refs :: "inode \<Rightarrow> inode" where "no_refs n = n\<lparr>i_ref_count := 0\<rparr>"

definition only_refs :: "fsys \<Rightarrow> fsys \<Rightarrow> bool" where
  "only_refs s s' \<longleftrightarrow> fs_heap s' = fs_heap s \<and> same_tables s s' \<and>
     (\<forall>p. map_option no_refs (inodes s' p) = map_option no_refs (inodes s p))"

lemma only_refs_refl [simp]: "only_refs s s"
  by (simp add: only_refs_def)

lemma only_refs_trans: "only_refs s s' \<Longrightarrow> only_refs s' s'' \<Longrightarrow> only_refs s s''"
  by (auto simp: only_refs_def intro: same_tables_trans)

lemma only_refs_put: "inodes s p = Some n \<Longrightarrow> only_refs s (put_inode p (n\<lparr>i_ref_count := k\<rparr>) s)"
  by (simp add: only_refs_def) (simp add: put_inode_def no_refs_def)

lemma no_refs_fields:
  "no_refs n' = no_refs n \<Longrightarrow> i_mode n' = i_mode n \<and> i_entries n' = i_entries n \<and> i_data n' = i_data n \<and>
     i_size n' = i_size n \<and> i_capacity n' = i_capacity n \<and> i_nlinks n' = i_nlinks n \<and> i_ino n' = i_ino n"
  by (cases n; cases n') (simp add: no_refs_def)

lemma only_refs_Some:
  assumes "only_refs s s'" "inodes s p = Some n"
  obtains n' where "inodes s' p = Some n'" "no_refs n' = no_refs n"
  using assms by (auto simp: only_refs_def dest!: spec [of _ p])

lemma only_refs_live: "only_refs s s' \<Longrightarrow> inodes s' p = None \<longleftrightarrow> inodes s p = None"
  by (metis only_refs_def option.map_disc_iff)

lemma only_refs_still: "only_refs s s' \<Longrightarrow> inodes s p \<noteq> None \<Longrightarrow> \<exists>n. inodes s' p = Some n"
  using only_refs_live [of s s' p] by auto

lemma only_refs_shape:
  assumes "only_refs s s'"
  shows "shape s' = shape s"
proof
  fix p show "shape s' p = shape s p"
  proof (cases "inodes s p")
    case None
    then show ?thesis using only_refs_live [OF assms] by (simp add: shape_def)
  next
    case (Some n)
    with assms obtain n' where n': "inodes s' p = Some n'" "no_refs n' = no_refs n" by (rule only_refs_Some)
    from no_refs_fields [OF n'(2)] show ?thesis by (simp add: shape_def n'(1) Some)
  qed
qed

lemma inode_ok_no_refs:
  assumes "no_refs n' = no_refs n"
  shows "inode_ok n' = inode_ok n" "i_contents n' = i_contents n"
  using no_refs_fields [OF assms] by (simp_all add: inode_ok_def i_contents_def split: option.splits)

lemma fs_inv_only_refs:
  assumes "fs_inv s" "only_refs s s'"
  shows "fs_inv s'"
proof -
  have "inode_ok n" if "inodes s' p = Some n" for p n
  proof -
    have "inodes s p \<noteq> None" using that only_refs_live [OF assms(2), of p] by simp
    then obtain m where m: "inodes s p = Some m" by blast
    from assms(2) m obtain n' where n': "inodes s' p = Some n'" "no_refs n' = no_refs m" by (rule only_refs_Some)
    then have "n' = n" using that by simp
    then show ?thesis using fs_invD(3) [OF assms(1) m] inode_ok_no_refs(1) [OF n'(2)] by simp
  qed
  moreover have h: "fs_heap s' = fs_heap s" "mount_list s' = mount_list s"
    using assms(2) by (simp_all add: only_refs_def same_tables_def)
  moreover have "fs_ok s'" using fs_invD(1) [OF assms(1)]
    by (simp add: fs_ok_def h only_refs_live [OF assms(2)])
  ultimately show ?thesis using fs_invD(2,4) [OF assms(1)] only_refs_shape [OF assms(2)]
    by (simp add: fs_inv_def roots_def)
qed

lemma find_entry_in: "find_entry des nm = Some p \<Longrightarrow> \<exists>de. (de, p) \<in> set des"
  by (induction des) (auto split: if_splits)

lemma inodes_entry:
  assumes "fs_inv s" "inodes s p = Some n" "(nm, q) \<in> set (i_entries n)"
  shows "inodes s q \<noteq> None" "unat p < unat q" "0 \<notin> set nm" "q \<notin> roots s" "q \<noteq> p" "q \<noteq> 0"
proof -
  have "(nm, q) \<in> set (dir_entries (shape s) p)" using assms(2,3) by (simp add: shape_Some)
  note e = forest_entry [OF fs_invD(4) [OF assms(1)] this]
  show "inodes s q \<noteq> None" "unat p < unat q" "0 \<notin> set nm" "q \<notin> roots s" "q \<noteq> p" using e by simp_all
  show "q \<noteq> 0" using e(2) by auto
qed

lemma lookup_find:
  assumes "fs_inv s" "inodes s dir = Some d"
  shows "\<exists>s'. ramfs_lookup dir nm s = Some (case find_entry (i_entries d) nm of None \<Rightarrow> 0 | Some q \<Rightarrow> q, s') \<and> only_refs s s'"
proof (cases "find_entry (i_entries d) nm")
  case None
  then show ?thesis using assms by (simp add: ramfs_lookup_def)
next
  case (Some q)
  then obtain de where "(de, q) \<in> set (i_entries d)" using find_entry_in by blast
  then obtain n where "inodes s q = Some n" using inodes_entry(1) [OF assms] by blast
  then show ?thesis using assms Some only_refs_put by (fastforce simp: ramfs_lookup_def)
qed

text \<open>The inode a path leads to in the tree of directories, 0 if there is none.\<close>

function find_path :: "(u32 \<Rightarrow> (u16 \<times> dirents) option) \<Rightarrow> bytes \<Rightarrow> u32 \<Rightarrow> u32" where
  "find_path h p cur =
     (if skip_slashes p = [] then cur
      else (let (name, rest) = take_component NAME_MAX (skip_slashes p)
            in if name = [46] \<or> name = [46, 46] then find_path h rest cur
               else (case h cur of
                       None \<Rightarrow> 0
                     | Some (m, es) \<Rightarrow>
                         if \<not> S_ISDIR m then 0
                         else (case find_entry es name of None \<Rightarrow> 0 | Some q \<Rightarrow> find_path h rest q))))"
  by pat_completeness auto
termination
  by (relation "measure (\<lambda>(_, p, _). length p)") (auto intro!: component_shorter [OF _ sym])

declare find_path.simps [simp del]

lemma walk_find_path:
  assumes "fs_inv s" "inodes s cur \<noteq> None"
  shows "\<exists>s'. walk_path p cur s = Some (find_path (shape s) p cur, s') \<and> only_refs s s' \<and>
    (find_path (shape s) p cur \<noteq> 0 \<longrightarrow> inodes s (find_path (shape s) p cur) \<noteq> None)"
  using assms
proof (induction p cur s rule: walk_path.induct)
  case (1 p cur s)
  obtain n where n: "inodes s cur = Some n" using "1.prems"(2) by auto
  obtain name rest where c: "take_component NAME_MAX (skip_slashes p) = (name, rest)" by force
  note unf = walk_path.simps [of p cur s] find_path.simps [of "shape s" p cur]
  consider "skip_slashes p = []" | (dot) "skip_slashes p \<noteq> []" "name = [46] \<or> name = [46, 46]"
    | (name) "skip_slashes p \<noteq> []" "\<not> (name = [46] \<or> name = [46, 46])" by blast
  then show ?case
  proof cases
    case 1
    then show ?thesis using n by (simp add: unf)
  next
    case dot
    then show ?thesis using "1.IH"(1) [OF dot(1) c [symmetric] refl dot(2) "1.prems"] by (simp add: unf c)
  next
    case name
    obtain s1 where l: "ramfs_lookup cur name s = Some (case find_entry (i_entries n) name of None \<Rightarrow> 0 | Some q \<Rightarrow> q, s1)"
      "only_refs s s1" using lookup_find [OF "1.prems"(1) n] by blast
    show ?thesis
    proof (cases "find_entry (i_entries n) name")
      case None
      then show ?thesis using name n l by (auto simp: unf c shape_Some)
    next
      case (Some q)
      then obtain de where "(de, q) \<in> set (i_entries n)" using find_entry_in by blast
      note q = inodes_entry [OF "1.prems"(1) n this]
      have "fs_inv s1" "inodes s1 q \<noteq> None"
        using fs_inv_only_refs [OF "1.prems"(1) l(2)] only_refs_live [OF l(2)] q(1) by auto
      then have IH: "S_ISDIR (i_mode n) \<Longrightarrow> \<exists>s'. walk_path rest q s1 = Some (find_path (shape s1) rest q, s') \<and> only_refs s1 s' \<and>
          (find_path (shape s1) rest q \<noteq> 0 \<longrightarrow> inodes s1 (find_path (shape s1) rest q) \<noteq> None)"
        using "1.IH"(2) [OF name(1) c [symmetric] refl name(2) n] l(1) Some q(6) by auto
      show ?thesis
      proof (cases "S_ISDIR (i_mode n)")
        case True
        then obtain s' where "walk_path rest q s1 = Some (find_path (shape s) rest q, s')" "only_refs s1 s'"
          "find_path (shape s) rest q \<noteq> 0 \<longrightarrow> inodes s (find_path (shape s) rest q) \<noteq> None"
          using IH only_refs_shape [OF l(2)] only_refs_live [OF l(2)] by auto
        then show ?thesis using name n l Some True q(6) only_refs_trans [OF l(2)] by (auto simp: unf c shape_Some)
      next
        case False
        then show ?thesis using name n by (auto simp: unf c shape_Some)
      qed
    qed
  qed
qed

lemma by_path_find:
  assumes "fs_inv s" "inodes s root \<noteq> None"
  shows "\<exists>s'. ramfs_get_inode_by_path root p s = Some (find_path (shape s) p root, s') \<and> only_refs s s' \<and>
    (find_path (shape s) p root \<noteq> 0 \<longrightarrow> inodes s (find_path (shape s) p root) \<noteq> None)"
proof (cases "p = [] \<or> p = [47]")
  case True
  then have "find_path (shape s) p root = root" by (subst find_path.simps) auto
  then show ?thesis using True assms(2) by (auto simp: ramfs_get_inode_by_path_def)
next
  case False
  then show ?thesis using walk_find_path [OF assms] by (simp add: ramfs_get_inode_by_path_def)
qed

end
