(* ===== verification/Fs_Sound.thy ===== *)
theory Fs_Sound
  imports Fs_Inv
begin

text \<open>
  Every operation of the virtual filesystem keeps the invariant, and none has undefined behaviour as long
  as descriptors are not used after their file was removed.
\<close>

section \<open>Creating and removing names\<close>

lemma create_inv:
  assumes "fs_inv s" "inodes s dir = Some d" "0 \<notin> set name"
  shows "\<exists>r node s'. ramfs_create dir name m s = Some (r, node, s') \<and> fs_inv s' \<and> mount_list s' = mount_list s \<and>
    (if r = 0 then inodes s node = None \<and> unat dir < unat node \<and>
        shape s' = (shape s)(node \<mapsto> (m, []), dir \<mapsto> (i_mode d, (take 255 name, node) # i_entries d))
     else r = -1 \<and> inodes s' = inodes s)"
proof -
  note inv = fs_invD [OF assms(1)]
  obtain r node s' where c: "ramfs_create dir name m s = Some (r, node, s')" "fs_ok s'"
    "if r = 0 then node \<noteq> dir \<and> inodes s node = None
          \<and> (\<exists>n. inodes s' = (inodes s)(node \<mapsto> n,
                dir \<mapsto> d\<lparr>i_entries := (take 255 name, node) # i_entries d, i_nlinks := i_nlinks d + 1\<rparr>)
              \<and> i_mode n = m \<and> i_nlinks n = 1 \<and> i_ref_count n = 1 \<and> i_entries n = [] \<and> inode_ok n
              \<and> i_contents n = [])
       else r = -1 \<and> node = 0 \<and> inodes s' = inodes s"
    using ramfs_create_ok [OF inv(1) assms(2), of name m] by blast
  note h = ramfs_create_fresh [OF inv(1) c(1)]
  have ml: "mount_list s' = mount_list s" using create_same [OF c(1)] by (simp add: same_tables_def)
  show ?thesis
  proof (cases "r = 0")
    case False
    then have i: "r = -1" "inodes s' = inodes s" using c(3) by simp_all
    have "fs_inv s'" by (rule fs_inv_same [OF assms(1) i(2) ml c(2) h(1)])
    then show ?thesis using c(1) ml i by simp
  next
    case True
    then obtain n where n: "node \<noteq> dir" "inodes s node = None" "i_mode n = m" "i_entries n = []" "inode_ok n"
      "inodes s' = (inodes s)(node \<mapsto> n,
          dir \<mapsto> d\<lparr>i_entries := (take 255 name, node) # i_entries d, i_nlinks := i_nlinks d + 1\<rparr>)"
      using c(3) by auto
    let ?h = "(shape s)(node \<mapsto> (m, []))"
    have sh: "shape s' = ?h(dir \<mapsto> (i_mode d, (take 255 name, node) # i_entries d))"
      using n by (auto simp: shape_def)
    have lt: "unat dir < unat node" using h(2) [OF True, of dir] assms(2) by simp
    have fresh: "shape s node = None" using n(2) by simp
    note f = forest_fresh [OF inv(4) fresh]
    have nr: "node \<notin> roots s" using inv(4) fresh by (auto simp: forest_def)
    have t: "node \<notin> targets ?h p" for p
      using f(3) [of p] fresh by (auto simp: targets_def dir_entries_upd)
    have "forest (?h(dir \<mapsto> (i_mode d, (take 255 name, node) # i_entries d))) (roots s)"
    proof (rule forest_link [OF f(1)])
      show "?h dir = Some (i_mode d, i_entries d)" using assms(2) n(1) by (simp add: shape_Some)
      show "0 \<notin> set (take 255 name)" using assms(3) by (meson in_set_takeD)
    qed (use lt nr t in simp_all)
    then have "forest (shape s') (roots s')" using sh ml by (simp add: roots_def)
    moreover have "inode_ok k" if "inodes s' p = Some k" for p k
      using that n(5,6) inv(3) assms(2) by (auto split: if_splits)
    ultimately have "fs_inv s'" using c(2) h(1) inv(2) by (simp add: fs_inv_def)
    then show ?thesis using c(1) ml True n(2) lt sh by auto
  qed
qed

lemma remove_entry_Some:
  "remove_entry es nm = Some (v, rest) \<Longrightarrow> \<exists>pre de post. es = pre @ (de, v) # post \<and> rest = pre @ post"
proof (induction es arbitrary: rest)
  case (Cons e es)
  obtain de p where e: "e = (de, p)" by force
  show ?case
  proof (cases "name_eq de nm")
    case True
    then have "e # es = [] @ (de, v) # es \<and> rest = [] @ es" using Cons.prems e by auto
    then show ?thesis by blast
  next
    case False
    then obtain r where r: "remove_entry es nm = Some (v, r)" "rest = e # r" using Cons.prems e by auto
    then show ?thesis using Cons.IH [OF r(1)] by (metis append_Cons)
  qed
qed simp

lemma fs_inv_free:
  assumes "fs_inv s" "q \<notin> roots s" "\<And>p. q \<notin> targets (shape s) p"
  shows "fs_inv (free_inode q s)"
proof -
  have "forest (shape (free_inode q s)) (roots (free_inode q s))"
    using forest_free [OF fs_invD(4) [OF assms(1)] assms(2,3)] by (simp add: roots_def) (simp add: free_inode_def)
  then show ?thesis using assms(1) fs_ok_free by (auto simp: fs_inv_def free_inode_def split: if_splits)
qed

lemma unlink_inv:
  assumes "fs_inv s" "inodes s dir = Some d"
  shows "\<exists>r s'. ramfs_unlink dir name s = Some (r, s') \<and> fs_inv s'"
proof (cases "remove_entry (i_entries d) name")
  case None
  then show ?thesis using assms by (simp add: ramfs_unlink_def)
next
  case (Some vr)
  obtain v rest where vr: "vr = (v, rest)" by force
  note inv = fs_invD [OF assms(1)]
  obtain pre de post where es: "i_entries d = pre @ (de, v) # post" "rest = pre @ post"
    using remove_entry_Some Some vr by blast
  note e = inodes_entry [OF assms, of de v]
  obtain n where n: "inodes s v = Some n" using e(1) es by auto
  have vd: "v \<noteq> dir" "v \<notin> roots s" using e(4,5) es by auto
  have dist: "distinct (map snd (i_entries d))"
    using inv(4) assms(2) unfolding forest_def by (metis dir_entries_Some shape_Some)
  let ?d = "d\<lparr>i_entries := rest\<rparr>"
  let ?s1 = "put_inode dir ?d s"
  have f1: "forest (shape ?s1) (roots ?s1)"
  proof -
    have "set rest \<subseteq> set (i_entries d)" "distinct (map snd rest)" using dist es by auto
    from forest_prune [OF inv(4) shape_Some [OF assms(2)] this, of "i_mode d"] show ?thesis
      by (simp add: roots_def) (simp add: put_inode_def)
  qed
  have inv1: "fs_inv ?s1"
    using f1 inv assms(2) fs_ok_update [OF inv(1), of dir ?d] by (auto simp: fs_inv_def put_inode_def split: if_splits)
  have nt: "v \<notin> targets (shape ?s1) p" for p
  proof (cases "p = dir")
    case True
    then show ?thesis using dist es by (auto simp: targets_def)
  next
    case False
    have "v \<in> targets (shape s) dir" using es assms(2) by (simp add: targets_def shape_Some)
    then have "v \<notin> targets (shape s) p" using inv(4) False unfolding forest_def by blast
    then show ?thesis using False by (simp add: targets_def dir_entries_upd)
  qed
  have r1: "roots ?s1 = roots s" by (simp add: roots_def put_inode_def)
  let ?v = "n\<lparr>i_nlinks := i_nlinks n - 1\<rparr>"
  define s2 where "s2 = (if i_nlinks n = 1 \<and> i_ref_count n \<le> 1 then free_inode v ?s1 else put_inode v ?v ?s1)"
  have "inodes ?s1 v = Some n" using n vd by (simp add: put_inode_def)
  then have inv2: "fs_inv s2" unfolding s2_def
    using fs_inv_put [OF inv1, of v n ?v] fs_inv_free [OF inv1, of v] fs_invD(3) [OF assms(1) n] vd nt r1 by simp
  have d2: "inodes s2 dir = Some ?d" using vd by (simp add: s2_def put_inode_def free_inode_def)
  have "fs_inv (put_inode dir (?d\<lparr>i_nlinks := i_nlinks ?d - 1\<rparr>) s2)"
    using fs_inv_put [OF inv2 d2] fs_invD(3) [OF inv2 d2] by simp
  moreover have "ramfs_unlink dir name s = Some (0, put_inode dir (?d\<lparr>i_nlinks := i_nlinks ?d - 1\<rparr>) s2)"
  proof -
    have "(if i_nlinks ?v = 0 \<and> i_ref_count ?v \<le> 1 then free_inode v ?s1 else put_inode v ?v ?s1) = s2"
      by (simp add: s2_def)
    then show ?thesis using assms(2) Some vr \<open>inodes ?s1 v = Some n\<close> d2
      by (simp add: ramfs_unlink_def Let_def)
  qed
  ultimately show ?thesis by blast
qed

section \<open>Paths\<close>

lemma set_last_slash: "path_basename path len = Some b \<Longrightarrow> set b \<subseteq> set path"
  by (auto simp: path_basename_def Let_def split: if_splits option.splits dest: in_set_takeD in_set_dropD)

lemma path_parts_total: "2 \<le> len \<Longrightarrow> \<exists>d b. path_dirname path len = Some d \<and> path_basename path len = Some b"
  by (auto simp: path_dirname_def path_basename_def Let_def split: option.splits)

lemma parent_find:
  assumes "fs_inv s" "inodes s root \<noteq> None"
  shows "\<exists>dir b d s'. ramfs_parent root path s = Some (dir, b, s') \<and> only_refs s s' \<and> set b \<subseteq> set path \<and>
    path_dirname path PATH_MAX = Some d \<and> path_basename path PATH_MAX = Some b \<and>
    (dir \<noteq> 0 \<longrightarrow> dir = find_path (shape s) d root \<and> inodes s dir \<noteq> None \<and> (\<exists>m es. shape s dir = Some (m, es) \<and> S_ISDIR m))"
proof -
  obtain d b where db: "path_dirname path PATH_MAX = Some d" "path_basename path PATH_MAX = Some b"
    using path_parts_total [of PATH_MAX path] by (auto simp: PATH_MAX_def)
  obtain s' where g: "ramfs_get_inode_by_path root d s = Some (find_path (shape s) d root, s')" "only_refs s s'"
    "find_path (shape s) d root \<noteq> 0 \<longrightarrow> inodes s (find_path (shape s) d root) \<noteq> None"
    using by_path_find [OF assms] by blast
  have "\<exists>b. is_directory (find_path (shape s) d root) s' = Some b"
    using g(3) only_refs_still [OF g(2), of "find_path (shape s) d root"] by (auto simp: is_directory_def)
  then obtain k where k: "is_directory (find_path (shape s) d root) s' = Some k" by blast
  have "k \<longrightarrow> find_path (shape s) d root \<noteq> 0 \<and> (\<exists>m es. shape s' (find_path (shape s) d root) = Some (m, es) \<and> S_ISDIR m)"
    using k by (auto simp: is_directory_def shape_Some split: if_splits)
  then have "k \<longrightarrow> find_path (shape s) d root \<noteq> 0 \<and> (\<exists>m es. shape s (find_path (shape s) d root) = Some (m, es) \<and> S_ISDIR m)"
    by (simp add: only_refs_shape [OF g(2)])
  then show ?thesis using db g k set_last_slash by (auto simp: ramfs_parent_def)
qed

lemma fs_mkdir_inv:
  assumes "fs_inv s" "inodes s root \<noteq> None" "0 \<notin> set path"
  shows "\<exists>r s'. ramfs_fs_mkdir root path m s = Some (r, s') \<and> fs_inv s'"
proof -
  obtain dir b s1 where p: "ramfs_parent root path s = Some (dir, b, s1)" "only_refs s s1" "set b \<subseteq> set path"
    "dir \<noteq> 0 \<longrightarrow> inodes s dir \<noteq> None" using parent_find [OF assms(1,2)] by blast
  note i = fs_inv_only_refs [OF assms(1) p(2)]
  show ?thesis
  proof (cases "dir = 0")
    case True
    then show ?thesis using p i by (simp add: ramfs_fs_mkdir_def)
  next
    case False
    then obtain d where "inodes s1 dir = Some d" using p(4) only_refs_still [OF p(2), of dir] by auto
    from create_inv [OF i this, of b "S_IFDIR OR (m AND 0x1FF)"] show ?thesis
      using p False assms(3) by (auto simp: ramfs_fs_mkdir_def ramfs_mkdir_def)
  qed
qed

lemma fs_unlink_inv:
  assumes "fs_inv s" "inodes s root \<noteq> None"
  shows "\<exists>r s'. ramfs_fs_unlink root path s = Some (r, s') \<and> fs_inv s'"
proof -
  obtain dir b s1 where p: "ramfs_parent root path s = Some (dir, b, s1)" "only_refs s s1"
    "dir \<noteq> 0 \<longrightarrow> inodes s dir \<noteq> None" using parent_find [OF assms(1,2)] by blast
  note i = fs_inv_only_refs [OF assms(1) p(2)]
  show ?thesis
  proof (cases "dir = 0")
    case True
    then show ?thesis using p i by (simp add: ramfs_fs_unlink_def)
  next
    case False
    then obtain d where "inodes s1 dir = Some d" using p(3) only_refs_still [OF p(2), of dir] by auto
    from unlink_inv [OF i this, of b] show ?thesis using p False by (auto simp: ramfs_fs_unlink_def)
  qed
qed

lemma truncate_inv:
  assumes "fs_inv s" "inodes s p = Some n"
  shows "ramfs_truncate p 0 s = Some (0, put_inode p (n\<lparr>i_data := None, i_capacity := 0, i_size := 0\<rparr>) s)"
    "fs_inv (put_inode p (n\<lparr>i_data := None, i_capacity := 0, i_size := 0\<rparr>) s)"
proof -
  show "ramfs_truncate p 0 s = Some (0, put_inode p (n\<lparr>i_data := None, i_capacity := 0, i_size := 0\<rparr>) s)"
    using assms(2) by (simp add: ramfs_truncate_def)
  show "fs_inv (put_inode p (n\<lparr>i_data := None, i_capacity := 0, i_size := 0\<rparr>) s)"
    by (rule fs_inv_put [OF assms]) (simp_all add: inode_ok_def)
qed

section \<open>Opening\<close>

lemma open_node_inv:
  assumes "fs_inv s" "inodes s root \<noteq> None" "0 \<notin> set path"
  shows "\<exists>node s'. ramfs_open_node root path fl m s = Some (node, s') \<and> fs_inv s' \<and> (node \<noteq> 0 \<longrightarrow> inodes s' node \<noteq> None)"
proof -
  let ?q = "find_path (shape s) path root"
  obtain s1 where g: "ramfs_get_inode_by_path root path s = Some (?q, s1)" "only_refs s s1" "?q \<noteq> 0 \<longrightarrow> inodes s ?q \<noteq> None"
    using by_path_find [OF assms(1,2)] by blast
  note i1 = fs_inv_only_refs [OF assms(1) g(2)]
  have r1: "inodes s1 root \<noteq> None" using only_refs_still [OF g(2) assms(2)] by simp
  show ?thesis
  proof (cases "?q = 0 \<and> fl AND O_CREAT \<noteq> 0")
    case False
    then show ?thesis using g i1 only_refs_still [OF g(2), of ?q] by (auto simp: ramfs_open_node_def)
  next
    case True
    obtain dir b s2 where p: "ramfs_parent root path s1 = Some (dir, b, s2)" "only_refs s1 s2" "set b \<subseteq> set path"
      "dir \<noteq> 0 \<longrightarrow> inodes s1 dir \<noteq> None" using parent_find [OF i1 r1] by blast
    note i2 = fs_inv_only_refs [OF i1 p(2)]
    show ?thesis
    proof (cases "dir = 0")
      case True
      then show ?thesis using \<open>?q = 0 \<and> fl AND O_CREAT \<noteq> 0\<close> g p i2 by (simp add: ramfs_open_node_def)
    next
      case False
      then obtain d where d: "inodes s2 dir = Some d" using p(4) only_refs_still [OF p(2), of dir] by auto
      have "0 \<notin> set b" using p(3) assms(3) by blast
      from create_inv [OF i2 d this, of "S_IFREG OR (m AND 0x1FF)"] obtain r node s3 where
        c: "ramfs_create dir b (S_IFREG OR (m AND 0x1FF)) s2 = Some (r, node, s3)" "fs_inv s3"
        "r = 0 \<longrightarrow> inodes s2 node = None \<and> unat dir < unat node \<and>
           shape s3 = (shape s2)(node \<mapsto> (S_IFREG OR (m AND 0x1FF), []), dir \<mapsto> (i_mode d, (take 255 b, node) # i_entries d))"
        by (auto split: if_splits)
      have "inodes s3 node \<noteq> None" if "r = 0"
      proof -
        have "shape s3 node = Some (S_IFREG OR (m AND 0x1FF), [])" using c(3) that by auto
        then show ?thesis by (metis shape_live option.distinct(1))
      qed
      then show ?thesis using True False g p c by (auto simp: ramfs_open_node_def)
    qed
  qed
qed

lemma fs_open_inv:
  assumes "fs_inv s" "inodes s root \<noteq> None" "0 \<notin> set path"
  shows "\<exists>r f' s'. ramfs_fs_open root path fl m f s = Some (r, f', s') \<and> fs_inv s'"
proof -
  obtain node s1 where o: "ramfs_open_node root path fl m s = Some (node, s1)" "fs_inv s1" "node \<noteq> 0 \<longrightarrow> inodes s1 node \<noteq> None"
    using open_node_inv [OF assms] by blast
  show ?thesis
  proof (cases "node = 0")
    case True
    then show ?thesis using o by (simp add: ramfs_fs_open_def)
  next
    case False
    then obtain n where n: "inodes s1 node = Some n" using o(3) by auto
    note t = truncate_inv [OF o(2) n]
    show ?thesis using o False n t by (auto simp: ramfs_fs_open_def Let_def) (simp_all add: put_inode_def)
  qed
qed

lemma find_mount_in:
  assumes "find_mount path s = Some (mnt, rest)"
  shows "mnt \<in> set (mount_list s)" "set rest \<subseteq> set path"
proof -
  have "fst (fold (better_mount path) ms b) = Some m \<Longrightarrow> m \<in> set ms \<or> fst b = Some m" for ms b m
    by (induction ms arbitrary: b) (fastforce simp: better_mount_def split: if_splits)+
  then have in_list: "fst (fold (better_mount path) (mount_list s) (None, 0)) = Some mnt \<Longrightarrow> mnt \<in> set (mount_list s)"
    by fastforce
  obtain b n where b: "fold (better_mount path) (mount_list s) (None, 0) = (b, n)" by force
  have r: "b = Some mnt" "rest = skip_slashes (drop n path)"
    using assms b by (auto simp: find_mount_def split: option.splits)
  show "mnt \<in> set (mount_list s)" using in_list b r(1) by simp
  have "set (skip_slashes p) \<subseteq> set p" for p by (induction p) auto
  then show "set rest \<subseteq> set path" unfolding r(2) by (meson in_set_dropD subset_iff)
qed

lemma mount_root: "fs_inv s \<Longrightarrow> mnt \<in> set (mount_list s) \<Longrightarrow> inodes s (m_root mnt) \<noteq> None"
  using fs_invD(4) [of s] by (force simp: forest_def roots_def)

lemma vfs_open_inv:
  assumes "fs_inv s" "0 \<notin> set path"
  shows "\<exists>r s'. vfs_open path fl m s = Some (r, s') \<and> fs_inv s'"
proof (cases "find_mount path s")
  case None
  then show ?thesis using assms by (simp add: vfs_open_def)
next
  case (Some mr)
  obtain mnt rest where mr: "mr = (mnt, rest)" by force
  note fm = find_mount_in [OF Some [unfolded mr]]
  obtain p s1 where k: "fs_kmalloc sizeof_file s = (p, s1)" by force
  have i1: "fs_inv s1" using fs_inv_kmalloc [OF assms(1) _ k] fs_invD(1) [OF assms(1)] by simp
  let ?f = "\<lparr>f_inode = 0, f_pos = 0, f_flags = fl, f_ref_count = 1, f_ops = False\<rparr>"
  have root: "inodes (set_fd fd (Some ?f) s1) (m_root mnt) \<noteq> None" for fd
    using mount_root [OF assms(1) fm(1)] fs_kmalloc_frame [OF k] by (simp add: set_fd_def)
  have z: "0 \<notin> set rest" using fm(2) assms(2) by blast
  show ?thesis
  proof (cases "\<not> fs_has_ops (m_fs mnt) \<or> p = 0 \<or> find_free_fd FD_MAX 0 (fd_table s1) = None")
    case True
    then show ?thesis using Some mr k i1 assms(1) by (auto simp: vfs_open_def)
  next
    case False
    then obtain fd where fd: "find_free_fd FD_MAX 0 (fd_table s1) = Some fd" by auto
    obtain r f' s2 where o: "ramfs_fs_open (m_root mnt) rest fl m ?f (set_fd fd (Some ?f) s1) = Some (r, f', s2)" "fs_inv s2"
      using fs_open_inv [OF _ root z] i1 by (metis fs_inv_fd)
    have "vfs_open path fl m s = Some (if r < 0 then (-1, set_fd fd None s2) else (int fd, set_fd fd (Some f') s2))"
      using Some mr k fd o(1) False by (simp add: vfs_open_def Let_def)
    then show ?thesis using o(2) by (cases "r < 0") simp_all
  qed
qed

section \<open>Open files\<close>

lemma put_keeps:
  assumes "fs_ok s" "inodes s p = Some n" "i_mode n' = i_mode n" "i_entries n' = i_entries n"
  shows "fs_ok (put_inode p n' s) \<and> bump_size (fs_heap (put_inode p n' s)) = bump_size (fs_heap s)
    \<and> shape (put_inode p n' s) = shape s"
  using assms fs_ok_update [of s p n'] by (auto simp: shape_Some fun_upd_idem) (simp add: put_inode_def)

lemma write_inv:
  assumes "fs_inv s" "inodes s (f_inode f) \<noteq> None" "unat (f_pos f) + length xs < 1073741824"
  shows "\<exists>r f' s'. ramfs_file_write f xs s = Some (r, f', s') \<and> fs_inv s' \<and> shape s' = shape s"
proof -
  note inv = fs_invD [OF assms(1)]
  obtain n where n: "inodes s (f_inode f) = Some n" using assms(2) by auto
  obtain r f' s' where w: "ramfs_file_write f xs s = Some (r, f', s')" "mount_list s' = mount_list s"
    "if r = -1 then f' = f \<and> inodes s' = inodes s
     else r = of_nat (length xs) \<and> f' = f\<lparr>f_pos := f_pos f + of_nat (length xs)\<rparr>
       \<and> (\<exists>n'. inodes s' = (inodes s)(f_inode f \<mapsto> n') \<and> inode_ok n' \<and> i_contents n' = write_at (i_contents n) (unat (f_pos f)) xs)"
    using ramfs_file_write_ok [OF n inv(3) [OF n], of xs] assms(3) by auto
  let ?e = "f_pos f + of_nat (length xs)"
  obtain b s1 where g: "grow_data ?e (f_inode f) s = Some (b, s1)"
    using w(1) by (auto simp: ramfs_file_write_def bind_eq_Some_conv)
  have e: "unat ?e < 1073741824"
  proof -
    have "unat (of_nat (length xs) :: u64) = length xs" using assms(3) by (simp add: unat_of_nat)
    then show ?thesis using assms(3) by (subst unat_add_lem [THEN iffD1]) simp_all
  qed
  have heap1: "fs_ok s1 \<and> bump_size (fs_heap s1) = bump_size (fs_heap s) \<and> shape s1 = shape s"
  proof (cases "?e > i_capacity n")
    case False
    then show ?thesis using g n inv(1) by (simp add: grow_data_def)
  next
    case True
    define cap :: u64 where "cap = (if ?e < 4096 then 4096 else ?e * 2)"
    obtain q s0 where k: "fs_kmalloc (ucast cap) s = (q, s0)" by force
    have "unat (?e * 2) = unat ?e * 2" using e by (subst unat_mult_lem [THEN iffD1]) simp_all
    then have "unat cap < 2147483648" using e by (simp add: cap_def)
    then have "request_ok s (ucast cap)" using inv(2) by (simp add: request_ok_def unat_ucast_u32)
    note h = fs_kmalloc_ok [OF inv(1) this k] fs_kmalloc_frame [OF k]
    have s0: "shape s0 = shape s" "inodes s0 (f_inode f) = Some n" using h(2) n by (auto intro: shape_inodes)
    have "s1 = s0 \<or> (\<exists>n'. s1 = put_inode (f_inode f) n' s0 \<and> i_mode n' = i_mode n \<and> i_entries n' = i_entries n)"
    proof (cases "q = 0")
      case True
      then show ?thesis using g n \<open>?e > i_capacity n\<close> k by (simp add: grow_data_def Let_def cap_def [symmetric])
    next
      case False
      then show ?thesis using g n \<open>?e > i_capacity n\<close> k
        by (auto simp: grow_data_def Let_def cap_def [symmetric] bind_eq_Some_conv)
    qed
    then show ?thesis using conjunct1 [OF h(1)] conjunct1 [OF conjunct2 [OF h(1)]] s0 put_keeps [OF _ s0(2)] by auto
  qed
  have "fs_ok s' \<and> bump_size (fs_heap s') = bump_size (fs_heap s1) \<and> shape s' = shape s1"
  proof -
    have "s' = s1 \<or> (\<exists>k dat sz. inodes s1 (f_inode f) = Some k \<and>
        s' = put_inode (f_inode f) (k\<lparr>i_data := dat, i_size := sz, i_dirty := True\<rparr>) s1)"
    proof (cases b)
      case True
      then show ?thesis using w(1) g
        by (auto simp: ramfs_file_write_def Let_def bind_eq_Some_conv split del: if_split)
    next
      case False
      then show ?thesis using w(1) g by (simp add: ramfs_file_write_def Let_def)
    qed
    then have "s' = s1 \<or> (\<exists>k n'. inodes s1 (f_inode f) = Some k \<and> s' = put_inode (f_inode f) n' s1 \<and>
        i_mode n' = i_mode k \<and> i_entries n' = i_entries k)" by (elim disjE exE conjE) (simp, fastforce)
    then show ?thesis using heap1 put_keeps by blast
  qed
  moreover have "inode_ok k" if "inodes s' p = Some k" for p k
    using that w(3) inv(3) by (auto split: if_splits)
  ultimately have "fs_inv s'" using heap1 inv w(2) by (simp add: fs_inv_def roots_def)
  then show ?thesis using w(1) heap1 \<open>fs_ok s' \<and> _ \<and> shape s' = shape s1\<close> by simp
qed

lemma readdir_total:
  assumes "fs_inv s" "inodes s (f_inode f) \<noteq> None"
  shows "\<exists>ds f'. ramfs_file_readdir f k s = Some (ds, f')"
proof -
  obtain n where n: "inodes s (f_inode f) = Some n" using assms(2) by auto
  have "\<exists>ds. those_list (map (entry_dirent s) des) = Some ds" if "set des \<subseteq> set (i_entries n)" for des
    using that
  proof (induction des)
    case (Cons e des)
    obtain nm q where e: "e = (nm, q)" by force
    then have "inodes s q \<noteq> None" using inodes_entry(1) [OF assms(1) n, of nm q] Cons.prems by simp
    then show ?case using Cons e by (auto simp: entry_dirent_def)
  qed simp
  moreover have "set (take i (drop j (i_entries n))) \<subseteq> set (i_entries n)" for i j
    by (meson in_set_dropD in_set_takeD subsetI)
  ultimately obtain ds where "those_list (map (entry_dirent s) (take (unat (k div sizeof_dirent)) (drop (unat (f_pos f)) (i_entries n)))) = Some ds"
    by blast
  then show ?thesis using n by (simp add: ramfs_file_readdir_def Let_def)
qed

section \<open>All operations\<close>

datatype fs_op =
  Do_mount bytes bytes u32 | Do_open bytes u32 u16 | Do_close int | Do_read int u32 | Do_write int bytes
| Do_seek int u64 int | Do_readdir int u32 | Do_mkdir bytes u16 | Do_unlink bytes

fun fs_step :: "fs_op \<Rightarrow> fsys \<Rightarrow> fsys option" where
  "fs_step (Do_mount target ty fl) s = map_option snd (vfs_mount target ty fl s)"
| "fs_step (Do_open path fl m) s = map_option snd (vfs_open path fl m s)"
| "fs_step (Do_close fd) s = Some (snd (vfs_close fd s))"
| "fs_step (Do_read fd n) s = map_option (\<lambda>(_, _, s). s) (vfs_read fd n s)"
| "fs_step (Do_write fd xs) s = map_option snd (vfs_write fd xs s)"
| "fs_step (Do_seek fd pos whence) s = Some (snd (vfs_seek fd pos whence s))"
| "fs_step (Do_readdir fd n) s = map_option (\<lambda>(_, _, s). s) (vfs_readdir fd n s)"
| "fs_step (Do_mkdir path m) s = map_option snd (vfs_mkdir path m s)"
| "fs_step (Do_unlink path) s = map_option snd (vfs_unlink path s)"

text \<open>The file behind a descriptor has not been removed.\<close>

definition fd_live :: "int \<Rightarrow> fsys \<Rightarrow> bool" where
  "fd_live fd s \<longleftrightarrow> (\<forall>f. fd_file fd s = Some f \<longrightarrow> f_ops f \<longrightarrow> inodes s (f_inode f) \<noteq> None)"

definition fd_room :: "int \<Rightarrow> nat \<Rightarrow> fsys \<Rightarrow> bool" where
  "fd_room fd k s \<longleftrightarrow> (\<forall>f. fd_file fd s = Some f \<longrightarrow> unat (f_pos f) + k < 1073741824)"

fun op_ok :: "fs_op \<Rightarrow> fsys \<Rightarrow> bool" where
  "op_ok (Do_mount target ty fl) s \<longleftrightarrow> (\<exists>t. find_fs (fs_next s) (fs_list s) ty = Some t \<and> (t = None \<or> t = Some Ramfs))"
| "op_ok (Do_open path fl m) s \<longleftrightarrow> 0 \<notin> set path"
| "op_ok (Do_read fd n) s \<longleftrightarrow> fd_live fd s"
| "op_ok (Do_write fd xs) s \<longleftrightarrow> fd_live fd s \<and> fd_room fd (length xs) s"
| "op_ok (Do_readdir fd n) s \<longleftrightarrow> fd_live fd s"
| "op_ok (Do_mkdir path m) s \<longleftrightarrow> 0 \<notin> set path"
| "op_ok _ s \<longleftrightarrow> True"

lemma mount_inv:
  assumes "fs_inv s" "find_fs (fs_next s) (fs_list s) ty = Some t" "t = None \<or> t = Some Ramfs"
  shows "\<exists>r s'. vfs_mount target ty fl s = Some (r, s') \<and> fs_inv s'"
proof (cases t)
  case None
  then show ?thesis using assms by (simp add: vfs_mount_def)
next
  case (Some r)
  then have r: "t = Some Ramfs" using assms(3) by simp
  note inv = fs_invD [OF assms(1)]
  obtain root s1 where a: "ramfs_mount Ramfs s = (root, s1)" by force
  note A = alloc_inode_ok [OF inv(1) a [unfolded ramfs_mount_def]]
  note T = alloc_same [OF a [unfolded ramfs_mount_def]]
  obtain mnt s2 where k: "fs_kmalloc sizeof_mountpoint s1 = (mnt, s2)" by force
  note K = fs_kmalloc_ok [OF conjunct1 [OF A] _ k] fs_kmalloc_frame [OF k]
  show ?thesis
  proof (cases "root = 0")
    case True
    then have "fs_inv s1" using A T assms(1) fs_inv_same [of s s1] by (simp add: same_tables_def)
    then show ?thesis using assms(2) r a True by (simp add: vfs_mount_def fs_has_ops_def)
  next
    case False
    then obtain n where n: "inodes s root = None" "inodes s1 = (inodes s)(root \<mapsto> n)" "i_entries n = []" "inode_ok n"
      using A by auto
    have fresh: "shape s root = None" using n(1) by simp
    have sh: "shape s1 = (shape s)(root \<mapsto> (i_mode n, []))" using n by (auto simp: shape_def)
    have i1: "fs_inv s1"
      using A T inv n forest_fresh(1) [OF inv(4) fresh] sh
      by (auto simp: fs_inv_def roots_def same_tables_def split: if_splits)
    then have i2: "fs_inv s2" using fs_inv_kmalloc [OF _ _ k] A by simp
    let ?s = "s2\<lparr>mount_list := \<lparr>m_path = take (PATH_MAX - 1) target, m_root = root, m_fs = Ramfs, m_flags = fl\<rparr> # mount_list s2\<rparr>"
    have r2: "roots s2 = roots s" using K T by (simp add: roots_def same_tables_def)
    have s2: "shape s2 = shape s1" using K by (auto intro: shape_inodes)
    have "shape ?s = shape s2" "roots ?s = insert root (roots s2)" by (simp_all add: shape_def roots_def fun_eq_iff)
    then have "forest (shape ?s) (roots ?s)" using forest_fresh(2) [OF inv(4) fresh] sh s2 r2 by simp
    then have "fs_inv ?s" using i2 by (simp add: fs_inv_def) (simp add: fs_ok_def)
    then show ?thesis using assms(2) r a False k i2 by (auto simp: vfs_mount_def fs_has_ops_def Let_def)
  qed
qed

lemma vfs_read_inv:
  assumes "fs_inv s" "fd_live fd s"
  shows "\<exists>r xs s'. vfs_read fd k s = Some (r, xs, s') \<and> fs_inv s'"
proof (cases "\<exists>f. fd_file fd s = Some f \<and> f_ops f")
  case True
  then obtain f where f: "fd_file fd s = Some f" "f_ops f" by blast
  then obtain n where n: "inodes s (f_inode f) = Some n" using assms(2) by (auto simp: fd_live_def)
  then show ?thesis using ramfs_file_read_ok [OF n fs_invD(3) [OF assms(1) n], of k] assms(1) f
    by (auto simp: vfs_read_def)
next
  case False
  then show ?thesis using assms(1) by (auto simp: vfs_read_def split: option.splits)
qed

lemma vfs_write_inv:
  assumes "fs_inv s" "fd_live fd s" "fd_room fd (length xs) s"
  shows "\<exists>r s'. vfs_write fd xs s = Some (r, s') \<and> fs_inv s'"
proof (cases "\<exists>f. fd_file fd s = Some f \<and> f_ops f")
  case True
  then obtain f where f: "fd_file fd s = Some f" "f_ops f" by blast
  then have "inodes s (f_inode f) \<noteq> None" "unat (f_pos f) + length xs < 1073741824"
    using assms(2,3) by (auto simp: fd_live_def fd_room_def)
  from write_inv [OF assms(1) this] show ?thesis using f by (auto simp: vfs_write_def)
next
  case False
  then show ?thesis using assms(1) by (auto simp: vfs_write_def split: option.splits)
qed

lemma vfs_readdir_inv:
  assumes "fs_inv s" "fd_live fd s"
  shows "\<exists>r ds s'. vfs_readdir fd k s = Some (r, ds, s') \<and> fs_inv s'"
proof (cases "\<exists>f. fd_file fd s = Some f \<and> f_ops f \<and> f_flags f AND O_DIRECTORY \<noteq> 0")
  case True
  then obtain f where f: "fd_file fd s = Some f" "f_ops f" "f_flags f AND O_DIRECTORY \<noteq> 0" by blast
  then have "inodes s (f_inode f) \<noteq> None" using assms(2) by (auto simp: fd_live_def)
  from readdir_total [OF assms(1) this, of k] show ?thesis using f assms(1) by (auto simp: vfs_readdir_def)
next
  case False
  then show ?thesis using assms(1) by (auto simp: vfs_readdir_def split: option.splits)
qed

text \<open>Operations on the filesystem a path is mounted on.\<close>

lemma mounted_inv:
  assumes "fs_inv s" "find_mount path s = Some (mnt, rest)" "0 \<notin> set path"
  shows "inodes s (m_root mnt) \<noteq> None" "0 \<notin> set rest"
  using find_mount_in [OF assms(2)] mount_root [OF assms(1)] assms(3) by blast+

lemma vfs_mkdir_inv:
  assumes "fs_inv s" "0 \<notin> set path"
  shows "\<exists>r s'. vfs_mkdir path m s = Some (r, s') \<and> fs_inv s'"
proof (cases "find_mount path s")
  case (Some mr)
  obtain mnt rest where mr: "mr = (mnt, rest)" by force
  from fs_mkdir_inv [OF assms(1) mounted_inv [OF assms(1) Some [unfolded mr] assms(2)], of m] show ?thesis
    using Some mr assms(1) by (auto simp: vfs_mkdir_def)
qed (use assms in \<open>simp add: vfs_mkdir_def\<close>)

lemma vfs_unlink_inv:
  assumes "fs_inv s"
  shows "\<exists>r s'. vfs_unlink path s = Some (r, s') \<and> fs_inv s'"
proof (cases "find_mount path s")
  case (Some mr)
  obtain mnt rest where mr: "mr = (mnt, rest)" by force
  from fs_unlink_inv [OF assms mount_root [OF assms find_mount_in(1) [OF Some [unfolded mr]]], of rest] show ?thesis
    using Some mr assms by (auto simp: vfs_unlink_def)
qed (use assms in \<open>simp add: vfs_unlink_def\<close>)

lemma vfs_close_inv: "fs_inv (snd (vfs_close fd s)) = fs_inv s"
  by (simp add: vfs_close_def split: option.splits)

lemma vfs_seek_inv: "fs_inv (snd (vfs_seek fd pos wh s)) = fs_inv s"
  by (simp add: vfs_seek_def split: option.splits)

lemmas vfs_invs = vfs_open_inv vfs_read_inv vfs_write_inv vfs_readdir_inv vfs_mkdir_inv vfs_unlink_inv

text \<open>C2. Type soundness of the filesystem: from a well-formed state, a heap in range, inodes whose buffers
  match their sizes, and directories that form a forest below the mounted roots, every operation of the
  virtual filesystem that satisfies \<open>op_ok\<close> returns, without undefined behaviour, a well-formed state.
  \<open>op_ok\<close> asks that paths hold no zero byte, that reads, writes and directory listings go through a descriptor
  whose inode was not freed (\<open>vfs_unlink_created_open\<close> shows that it can be), that no write reaches behind a gigabyte (a
  position made negative by \<open>vfs_seek\<close> would), and that the type to be mounted is unknown or ramfs (mounting
  procfs or vibefs calls a null pointer). Where memory or descriptors run out the operation returns its error.\<close>

theorem vfs_operation_sound:
  assumes "fs_inv s" "op_ok a s"
  shows "\<exists>s'. fs_step a s = Some s' \<and> fs_inv s'"
proof (cases a)
  case (Do_mount target ty fl)
  then show ?thesis using assms mount_inv [OF assms(1)] by fastforce
qed (use assms vfs_invs [OF assms(1)] in \<open>fastforce simp: vfs_close_inv vfs_seek_inv\<close>)+

definition boot_fs :: fsys where
  "boot_fs = snd (vfs_register_fs Ramfs (fsys0 (bump0 0x200000)))"

lemma boot_fs_inv: "fs_inv boot_fs"
  by (simp add: fs_inv_def boot_fs_def vfs_register_fs_def fsys0_def fs_ok_def bump0_def STATIC_HEAP_SIZE_def
      forest_def roots_def shape_def dir_entries_def targets_def)

theorem vfs_operation_sound_witness:
  "fs_inv boot_fs \<and> (\<exists>s1 s2. fs_step (Do_mount [47] (fs_name Ramfs) 0) boot_fs = Some s1 \<and> mount_list s1 \<noteq> [] \<and>
     fs_step (Do_mkdir [47, 97] 0x1ED) s1 = Some s2 \<and> fs_inv s2)"
proof -
  have "map_option (\<lambda>s. mount_list s \<noteq> []) (fs_step (Do_mount [47] (fs_name Ramfs) 0) boot_fs) = Some True" by code_simp
  then obtain s1 where s1: "fs_step (Do_mount [47] (fs_name Ramfs) 0) boot_fs = Some s1" "mount_list s1 \<noteq> []" by auto
  have "find_fs (fs_next boot_fs) (fs_list boot_fs) (fs_name Ramfs) = Some (Some Ramfs)" by code_simp
  then have "op_ok (Do_mount [47] (fs_name Ramfs) 0) boot_fs" by simp
  from vfs_operation_sound [OF boot_fs_inv this] have i1: "fs_inv s1" using s1(1) by (metis option.inject)
  have "op_ok (Do_mkdir [47, 97] 0x1ED) s1" by simp
  from vfs_operation_sound [OF i1 this] show ?thesis using s1 boot_fs_inv by blast
qed

end
