(* ===== verification/Fs_Tree.thy ===== *)
theory Fs_Tree
  imports Fs_Sound
begin

text \<open>
  Lookups in the tree of directories: along a path with several parts, and in a tree that grew.
\<close>

section \<open>Paths with several parts\<close>

lemma skip_slashes_idem [simp]: "skip_slashes (skip_slashes p) = skip_slashes p"
  by (induction p) auto

lemma skip_slashes_append: "skip_slashes (p @ x) = (if skip_slashes p = [] then skip_slashes x else skip_slashes p @ x)"
  by (induction p) auto

lemma find_path_skip: "find_path h (skip_slashes p) cur = find_path h p cur"
  by (subst (1 2) find_path.simps) simp

lemma find_path_nil [simp]: "find_path h [] cur = cur"
  by (subst find_path.simps) simp

lemma find_path_zero: "h 0 = None \<Longrightarrow> find_path h p 0 = 0"
proof (induction h p "0::u32" rule: find_path.induct)
  case (1 h p)
  obtain name rest where "take_component NAME_MAX (skip_slashes p) = (name, rest)" by force
  then show ?case using 1 by (subst find_path.simps) auto
qed

lemma take_component_append:
  "take_component k u = (name, rest) \<Longrightarrow> take_component k (u @ 47 # b) = (name, rest @ 47 # b)"
  by (induction k u arbitrary: name rest rule: take_component.induct) (auto split: if_splits prod.splits)

lemma find_path_append:
  assumes "h 0 = None"
  shows "find_path h (d @ 47 # b) cur = find_path h b (find_path h d cur)"
  using assms
proof (induction h d cur rule: find_path.induct)
  case (1 h d cur)
  obtain name rest where c: "take_component NAME_MAX (skip_slashes d) = (name, rest)" by force
  show ?case
  proof (cases "skip_slashes d = []")
    case True
    then have "find_path h (d @ 47 # b) cur = find_path h b cur"
      by (metis find_path_skip skip_slashes.simps(2) skip_slashes_append)
    moreover have "find_path h d cur = cur" using True by (subst find_path.simps) simp
    ultimately show ?thesis by simp
  next
    case False
    have s: "skip_slashes (d @ 47 # b) = skip_slashes d @ 47 # b" using False by (simp add: skip_slashes_append)
    note c' = take_component_append [OF c, of b]
    show ?thesis
    proof (cases "name = [46] \<or> name = [46, 46]")
      case True
      then show ?thesis using "1.IH"(1) [OF False c [symmetric] refl True "1.prems"] False s c c'
        by (subst (1 3) find_path.simps) auto
    next
      case name: False
      show ?thesis
      proof (cases "\<exists>m es q. h cur = Some (m, es) \<and> S_ISDIR m \<and> find_entry es name = Some q")
        case True
        then obtain m es q where q: "h cur = Some (m, es)" "S_ISDIR m" "find_entry es name = Some q" by blast
        then show ?thesis using "1.IH"(2) [OF False c [symmetric] refl name q(1) refl _ q(3) "1.prems"] False s c c' name
          by (subst (1 3) find_path.simps) auto
      next
        case no: False
        then have "find_path h (d @ 47 # b) cur = 0" "find_path h d cur = 0" using False s c c' name
          by (subst find_path.simps; auto split: option.splits)+
        then show ?thesis using find_path_zero [where h = h, OF "1.prems"] by simp
      qed
    qed
  qed
qed

text \<open>A single component.\<close>

lemma take_component_all: "47 \<notin> set b \<Longrightarrow> length b \<le> k \<Longrightarrow> take_component k b = (b, [])"
  by (induction k b rule: take_component.induct) (auto split: prod.splits)

lemma find_path_component:
  assumes "47 \<notin> set b" "b \<notin> {[], [46], [46, 46]}" "length b \<le> 255" "h cur = Some (m, es)" "S_ISDIR m"
  shows "find_path h b cur = (case find_entry es b of None \<Rightarrow> 0 | Some q \<Rightarrow> q)"
proof -
  have "skip_slashes b = b" using assms(1) by (cases b) auto
  then show ?thesis using assms take_component_all [OF assms(1,3)]
    by (subst find_path.simps) (auto simp: NAME_MAX_def split: option.splits)
qed

lemma find_path_dot [simp]: "find_path h [46] cur = cur"
  by (subst find_path.simps) (simp add: NAME_MAX_def)

section \<open>Trees that grew\<close>

lemma forest_find_entry:
  assumes "forest h R" "h p = Some (m, es)" "find_entry es nm = Some q"
  shows "unat p < unat q"
proof -
  obtain de where "(de, q) \<in> set (dir_entries h p)" using find_entry_in [OF assms(3)] assms(2) by auto
  then show ?thesis by (rule forest_entry(2) [OF assms(1)])
qed

text \<open>The cases of a lookup: at its end, a dot, an entry, or nothing.\<close>

lemma find_path_cases:
  obtains (finish) "\<And>g. find_path g p cur = cur"
  | (dot) name rest where "skip_slashes p \<noteq> []" "take_component NAME_MAX (skip_slashes p) = (name, rest)"
      "name = [46] \<or> name = [46, 46]" "\<And>g. find_path g p cur = find_path g rest cur"
  | (entry) name rest m es q where "skip_slashes p \<noteq> []" "take_component NAME_MAX (skip_slashes p) = (name, rest)"
      "\<not> (name = [46] \<or> name = [46, 46])" "h cur = Some (m, es)" "S_ISDIR m" "find_entry es name = Some q"
      "\<And>g. g cur = h cur \<Longrightarrow> find_path g p cur = find_path g rest q"
  | (nothing) "find_path h p cur = 0"
proof -
  obtain name rest where c: "take_component NAME_MAX (skip_slashes p) = (name, rest)" by force
  show ?thesis
  proof (cases "skip_slashes p = []")
    case True
    then have "find_path g p cur = cur" for g by (subst find_path.simps) simp
    then show ?thesis by (rule finish)
  next
    case ne: False
    show ?thesis
    proof (cases "name = [46] \<or> name = [46, 46]")
      case True
      then have "find_path g p cur = find_path g rest cur" for g using c ne by (subst find_path.simps) auto
      then show ?thesis by (rule dot [OF ne c True])
    next
      case name: False
      show ?thesis
      proof (cases "\<exists>m es q. h cur = Some (m, es) \<and> S_ISDIR m \<and> find_entry es name = Some q")
        case True
        then obtain m es q where q: "h cur = Some (m, es)" "S_ISDIR m" "find_entry es name = Some q" by blast
        then have "find_path g p cur = find_path g rest q" if "g cur = h cur" for g
          using c ne name that by (subst find_path.simps) auto
        then show ?thesis by (rule entry [OF ne c name q])
      next
        case False
        then have "find_path h p cur = 0" using c ne name by (subst find_path.simps) (auto split: option.splits)
        then show ?thesis by (rule nothing)
      qed
    qed
  qed
qed

lemma find_path_ge: "forest h R \<Longrightarrow> find_path h p cur = 0 \<or> unat cur \<le> unat (find_path h p cur)"
proof (induction h p cur rule: find_path.induct)
  case (1 h p cur)
  show ?case
  proof (cases rule: find_path_cases [where p = p and cur = cur and h = h])
    case (dot name rest)
    show ?thesis using "1.IH"(1) [OF dot(1) dot(2) [symmetric] refl dot(3) "1.prems"] dot(4) by simp
  next
    case (entry name rest m es q)
    have "find_path h rest q = 0 \<or> unat q \<le> unat (find_path h rest q)"
      using "1.IH"(2) [OF entry(1) entry(2) [symmetric] refl entry(3,4) refl _ entry(6) "1.prems"] entry(5) by simp
    then show ?thesis using forest_find_entry [OF "1.prems" entry(4,6)] entry(7) [where g = h, OF refl] by auto
  qed simp_all
qed

text \<open>A lookup only depends on the directories that were allocated before its result.\<close>

lemma find_path_frame:
  assumes "forest h R" "find_path h p cur \<noteq> 0" "\<And>q. unat q < unat (find_path h p cur) \<Longrightarrow> h' q = h q"
  shows "find_path h' p cur = find_path h p cur"
  using assms
proof (induction h p cur rule: find_path.induct)
  case (1 h p cur)
  show ?case
  proof (cases rule: find_path_cases [where p = p and cur = cur and h = h])
    case (dot name rest)
    show ?thesis using "1.IH"(1) [OF dot(1) dot(2) [symmetric] refl dot(3) "1.prems"(1)] "1.prems"(2,3) dot(4) by simp
  next
    case (entry name rest m es q)
    note e = entry(7) [where g = h, OF refl]
    have "unat cur < unat q" by (rule forest_find_entry [OF "1.prems"(1) entry(4,6)])
    moreover have "unat q \<le> unat (find_path h rest q)" using find_path_ge [OF "1.prems"(1), of rest q] "1.prems"(2) e by simp
    ultimately have "h' cur = h cur" using "1.prems"(3) [of cur] e by simp
    note e' = entry(7) [where g = h', OF this]
    show ?thesis
      using "1.IH"(2) [OF entry(1) entry(2) [symmetric] refl entry(3,4) refl _ entry(6) "1.prems"(1)] entry(5) "1.prems"(2,3) e e' by simp
  qed (use "1.prems"(2) in simp_all)
qed

end
