(* ===== verification/Files_Spec.thy ===== *)
theory Files_Spec
  imports Fs_Tree Path_Spec
begin

text \<open>
  Files under their paths, from the shell's commands down to the inodes: what is opened, written and
  printed.
\<close>

section \<open>Opening\<close>

text \<open>A path whose last component can be created.\<close>

definition proper_base :: "bytes \<Rightarrow> bool" where
  "proper_base path \<longleftrightarrow> length path < PATH_MAX \<and>
     (case path_basename path PATH_MAX of None \<Rightarrow> False | Some b \<Rightarrow> b \<notin> {[], [46], [46, 46]} \<and> length b \<le> 255)"

lemma find_path_parts:
  assumes "h 0 = None" "0 \<notin> set path" "path = [] \<or> hd path \<noteq> 47" "length path < PATH_MAX"
    "path_dirname path PATH_MAX = Some d" "path_basename path PATH_MAX = Some b"
  shows "find_path h path root = find_path h b (find_path h d root)" "47 \<notin> set b"
proof -
  have M: "2 \<le> PATH_MAX" by (simp add: PATH_MAX_def)
  show "47 \<notin> set b"
  proof (cases "47 \<in> set path")
    case True
    then obtain p q where "path = p @ 47 # q" "47 \<notin> set q" by (metis split_list_last)
    then show ?thesis using assms last_slash_split [of p q] by (simp add: path_basename_def)
  next
    case False
    then show ?thesis using assms last_slash_none [of path] by (simp add: path_basename_def)
  qed
  show "find_path h path root = find_path h b (find_path h d root)"
  proof (cases "47 \<in> set path")
    case True
    then obtain p q where pq: "path = p @ 47 # q" "47 \<notin> set q" by (metis split_list_last)
    then have "p \<noteq> []" using assms(3) by auto
    then have "d = p" "b = q" using pq assms last_slash_split [of p q] M
      by (auto simp: path_dirname_def path_basename_def)
    then show ?thesis using find_path_append [where h = h, OF assms(1)] pq(1) by simp
  next
    case False
    then have "d = [46]" "b = path" using assms last_slash_none [of path] M
      by (simp_all add: path_dirname_def path_basename_def)
    then show ?thesis by simp
  qed
qed

lemma fs_inv_zero: "fs_inv s \<Longrightarrow> shape s 0 = None"
  using fs_invD(1) [of s] by (fastforce simp: fs_ok_def Let_def)

lemma open_node_found:
  assumes "fs_inv s" "inodes s root \<noteq> None" "0 \<notin> set path" "path = [] \<or> hd path \<noteq> 47"
    and o: "ramfs_open_node root path fl m s = Some (node, s')" "node \<noteq> 0"
    and base: "fl AND O_CREAT \<noteq> 0 \<Longrightarrow> proper_base path"
  shows "find_path (shape s') path root = node" "fl AND O_CREAT = 0 \<Longrightarrow> only_refs s s'"
proof -
  let ?q = "find_path (shape s) path root"
  obtain s1 where g: "ramfs_get_inode_by_path root path s = Some (?q, s1)" "only_refs s s1"
    using by_path_find [OF assms(1,2)] by blast
  note i1 = fs_inv_only_refs [OF assms(1) g(2)]
  note sh1 = only_refs_shape [OF g(2)]
  have r1: "inodes s1 root \<noteq> None" using only_refs_still [OF g(2) assms(2)] by simp
  show "fl AND O_CREAT = 0 \<Longrightarrow> only_refs s s'" using o g by (auto simp: ramfs_open_node_def)
  show "find_path (shape s') path root = node"
  proof (cases "?q = 0 \<and> fl AND O_CREAT \<noteq> 0")
    case False
    then show ?thesis using o g sh1 by (auto simp: ramfs_open_node_def)
  next
    case True
    obtain dir b d s2 where p: "ramfs_parent root path s1 = Some (dir, b, s2)" "only_refs s1 s2" "set b \<subseteq> set path"
      "path_dirname path PATH_MAX = Some d" "path_basename path PATH_MAX = Some b"
      "dir \<noteq> 0 \<longrightarrow> dir = find_path (shape s1) d root \<and> inodes s1 dir \<noteq> None \<and> (\<exists>m es. shape s1 dir = Some (m, es) \<and> S_ISDIR m)"
      using parent_find [OF i1 r1] by metis
    note i2 = fs_inv_only_refs [OF i1 p(2)]
    note sh2 = only_refs_shape [OF p(2)]
    have dir: "dir \<noteq> 0" using o True g p by (auto simp: ramfs_open_node_def)
    then obtain dn where dn: "inodes s2 dir = Some dn" using p(6) only_refs_still [OF p(2), of dir] by auto
    have isdir: "S_ISDIR (i_mode dn)" using p(6) dir sh2 shape_Some [OF dn] by auto
    have zb: "0 \<notin> set b" using p(3) assms(3) by blast
    obtain r nd s3 where c: "ramfs_create dir b (S_IFREG OR (m AND 0x1FF)) s2 = Some (r, nd, s3)"
      "r = 0 \<longrightarrow> inodes s2 nd = None \<and> unat dir < unat nd \<and>
         shape s3 = (shape s2)(nd \<mapsto> (S_IFREG OR (m AND 0x1FF), []), dir \<mapsto> (i_mode dn, (take 255 b, nd) # i_entries dn))" "fs_inv s3"
      using create_inv [OF i2 dn zb, of "S_IFREG OR (m AND 0x1FF)"] by (auto split: if_splits)
    have r: "r = 0" "nd = node" "s' = s3" using o True g p(1) dir c(1) by (auto simp: ramfs_open_node_def split: if_splits)
    let ?h = "shape s3"
    have b: "b \<notin> {[], [46], [46, 46]}" "length b \<le> 255" "length path < PATH_MAX"
      using base True p(5) by (auto simp: proper_base_def)
    have "find_path ?h d root = dir"
    proof -
      have e: "find_path (shape s2) d root = dir" using p(6) dir sh2 by simp
      moreover have "find_path ?h d root = find_path (shape s2) d root"
        by (rule find_path_frame [OF fs_invD(4) [OF i2]]) (use e dir c(2) r in auto)
      ultimately show ?thesis by simp
    qed
    moreover have "find_path ?h path root = find_path ?h b (find_path ?h d root)" "47 \<notin> set b"
      using find_path_parts [where h = ?h, OF fs_inv_zero [OF c(3)] assms(3,4) b(3) p(4,5)] by auto
    moreover have "find_path ?h b dir = node"
    proof -
      have h: "?h dir = Some (i_mode dn, (take 255 b, node) # i_entries dn)" using c(2) r by simp
      have "name_eq (take 255 b) b" using zb b(2) by (simp add: name_eq_iff)
      then show ?thesis using find_path_component [where h = ?h and cur = dir, OF calculation(3) b(1,2) h isdir] by simp
    qed
    ultimately show ?thesis using r by simp
  qed
qed

lemma skip_slashes_no_hd: "skip_slashes p = [] \<or> hd (skip_slashes p) \<noteq> 47"
  using skip_slashes_hd [of p] by (cases "skip_slashes p") auto

lemma find_mount_hd: "find_mount path s = Some (mnt, rest) \<Longrightarrow> rest = [] \<or> hd rest \<noteq> 47"
  using skip_slashes_no_hd by (fastforce simp: find_mount_def split: prod.splits option.splits)

lemma find_mount_same: "mount_list s' = mount_list s \<Longrightarrow> find_mount path s' = find_mount path s"
  by (simp add: find_mount_def)

text \<open>What a successful open leaves: a descriptor on the inode the path leads to, at its beginning.\<close>

lemma fs_open_found:
  assumes "fs_inv s" "inodes s root \<noteq> None" "0 \<notin> set path" "path = [] \<or> hd path \<noteq> 47"
    and o: "ramfs_fs_open root path fl m f s = Some (r, f', s')" "0 \<le> r"
    and base: "fl AND O_CREAT \<noteq> 0 \<Longrightarrow> proper_base path"
  shows "f_ops f'" "find_path (shape s') path root = f_inode f'" "f_inode f' \<noteq> 0"
    "\<exists>n. inodes s' (f_inode f') = Some n \<and> (fl AND O_TRUNC \<noteq> 0 \<longrightarrow> i_contents n = [] \<and> i_capacity n = 0)"
    "fl AND O_APPEND = 0 \<Longrightarrow> f_pos f' = 0" "fl AND O_CREAT = 0 \<Longrightarrow> fl AND O_TRUNC = 0 \<Longrightarrow> only_refs s s'"
proof -
  obtain node s1 where n: "ramfs_open_node root path fl m s = Some (node, s1)" "node \<noteq> 0"
    using o by (auto simp: ramfs_fs_open_def bind_eq_Some_conv split: if_splits)
  note F = open_node_found [OF assms(1-4) n base]
  obtain q s2 where "ramfs_open_node root path fl m s = Some (q, s2)" "fs_inv s2" "q \<noteq> 0 \<longrightarrow> inodes s2 q \<noteq> None"
    using open_node_inv [OF assms(1-3), of fl m] by blast
  then have i1: "fs_inv s1" and l1: "inodes s1 node \<noteq> None" using n by auto
  obtain k where k: "inodes s1 node = Some k" using l1 by auto
  note t = truncate_inv [OF i1 k]
  define s2 where "s2 = (if fl AND O_TRUNC \<noteq> 0 then put_inode node (k\<lparr>i_data := None, i_capacity := 0, i_size := 0\<rparr>) s1 else s1)"
  have k2: "\<exists>n. inodes s2 node = Some n \<and> (fl AND O_TRUNC \<noteq> 0 \<longrightarrow> i_contents n = [] \<and> i_capacity n = 0)"
    using k by (auto simp: s2_def put_inode_def i_contents_def)
  then obtain k' where k': "inodes s2 node = Some k'" by auto
  have sh: "shape s2 = shape s1" using k by (auto simp: s2_def shape_Some fun_upd_idem)
  have "s' = s2 \<and> f' = (if fl AND O_APPEND \<noteq> 0 then f\<lparr>f_inode := node, f_ops := True, f_pos := i_size k'\<rparr>
      else f\<lparr>f_inode := node, f_ops := True, f_pos := 0\<rparr>)"
    using o n t(1) k' by (auto simp: ramfs_fs_open_def s2_def Let_def)
  then show "f_ops f'" "find_path (shape s') path root = f_inode f'" "f_inode f' \<noteq> 0"
    "\<exists>n. inodes s' (f_inode f') = Some n \<and> (fl AND O_TRUNC \<noteq> 0 \<longrightarrow> i_contents n = [] \<and> i_capacity n = 0)"
    "fl AND O_APPEND = 0 \<Longrightarrow> f_pos f' = 0" "fl AND O_CREAT = 0 \<Longrightarrow> fl AND O_TRUNC = 0 \<Longrightarrow> only_refs s s'"
    using F n(2) sh k2 by (auto simp: s2_def)
qed

lemma set_fd_twice [simp]: "set_fd i a (set_fd i b s) = set_fd i a s"
  by (simp add: set_fd_def)

lemma set_fd_fields [simp]:
  "inodes (set_fd i f s) = inodes s" "mount_list (set_fd i f s) = mount_list s" "fs_heap (set_fd i f s) = fs_heap s"
  "fd_table (set_fd i f s) = (fd_table s)(i := f)"
  by (simp_all add: set_fd_def)

lemma fd_file_set [simp]: "i < FD_MAX \<Longrightarrow> fd_file (int i) (set_fd i f s) = f"
  by (simp add: fd_file_def)

definition heap_room :: "fsys \<Rightarrow> nat \<Rightarrow> bool" where
  "heap_room s k \<longleftrightarrow> unat (bump_used (fs_heap s)) + k \<le> unat (bump_size (fs_heap s))"

lemma heap_room_fd [simp]: "heap_room (set_fd i f s) k = heap_room s k"
  by (simp add: heap_room_def)

lemma vfs_open_found:
  assumes "fs_inv s" "0 \<notin> set path" "vfs_open path fl m s = Some (r, s')" "0 \<le> r"
    and "find_mount path s = Some (mnt, rest)" "fl AND O_CREAT \<noteq> 0 \<Longrightarrow> proper_base rest"
  shows "\<exists>fd f n. r = int fd \<and> fd < FD_MAX \<and> fd_table s fd = None \<and> fd_table s' = (fd_table s)(fd := Some f) \<and>
    fs_inv s' \<and> mount_list s' = mount_list s \<and> f_ops f \<and> (fl AND O_APPEND = 0 \<longrightarrow> f_pos f = 0) \<and> f_inode f \<noteq> 0 \<and>
    find_path (shape s') rest (m_root mnt) = f_inode f \<and>
    inodes s' (f_inode f) = Some n \<and> (fl AND O_TRUNC \<noteq> 0 \<longrightarrow> i_contents n = [] \<and> i_capacity n = 0)"
proof -
  note fm = mounted_inv [OF assms(1,5,2)] find_mount_hd [OF assms(5)]
  obtain p s1 where k: "fs_kmalloc sizeof_file s = (p, s1)" by force
  have i1: "fs_inv s1" using fs_inv_kmalloc [OF assms(1) _ k] fs_invD(1) [OF assms(1)] by simp
  note K = fs_kmalloc_frame [OF k]
  let ?f = "\<lparr>f_inode = 0, f_pos = 0, f_flags = fl, f_ref_count = 1, f_ops = False\<rparr>"
  obtain fd q f s2 where o: "find_free_fd FD_MAX 0 (fd_table s1) = Some fd"
    "ramfs_fs_open (m_root mnt) rest fl m ?f (set_fd fd (Some ?f) s1) = Some (q, f, s2)"
    "0 \<le> q" "r = int fd" "s' = set_fd fd (Some f) s2"
    using assms(3,4,5) k by (auto simp: vfs_open_def Let_def bind_eq_Some_conv split: if_splits option.splits)
  note fd = find_free_fd_Some [OF o(1)]
  have i1': "fs_inv (set_fd fd (Some ?f) s1)" "inodes (set_fd fd (Some ?f) s1) (m_root mnt) \<noteq> None" using i1 K fm(1) by simp_all
  note F = fs_open_found [OF i1' fm(2,3) o(2,3) assms(6)]
  have i2: "fs_inv s2" using fs_open_inv [OF i1' fm(2), of fl m ?f] o(2) by simp
  have "same_tables (set_fd fd (Some ?f) s1) s2" by (rule fs_open_same(1) [OF o(2)])
  then have tab: "fd_table s2 = (fd_table s)(fd := Some ?f)" "mount_list s2 = mount_list s"
    using K by (simp_all add: same_tables_def)
  obtain n where "inodes s2 (f_inode f) = Some n" "fl AND O_TRUNC \<noteq> 0 \<longrightarrow> i_contents n = [] \<and> i_capacity n = 0" using F(4) by auto
  then show ?thesis using o(4,5) fd K i2 tab F by (intro exI [of _ fd] exI [of _ f] exI [of _ n]) auto
qed

section \<open>Printing\<close>

lemma say_pieces:
  assumes "\<forall>p \<in> set ps. piece_ok p" "text_of fmt = concat (map piece_format ps)" "args = concat (map piece_args ps)"
  shows "say fmt args s = Some (on_con (fold console_putchar (concat (map piece_text ps))) s)"
  using kprint_pieces [OF assms, of "vga (mach s)"] by (simp add: say_def on_con_def)

lemma say_s: "0 \<notin> set t \<Longrightarrow> say ''%s'' [str_arg t] s = Some (on_con (fold console_putchar t) s)"
  using say_pieces [of "[String (Some t)]" "''%s''" "[str_arg t]"] by (simp add: str_arg_def)

text \<open>A text with a zero byte in it is printed up to that byte.\<close>

lemma say_s_cut: "say ''%s'' [str_arg t] s = Some (on_con (fold console_putchar (takeWhile (\<lambda>c. c \<noteq> 0) t)) s)"
proof -
  let ?t = "takeWhile (\<lambda>c. c \<noteq> 0) t"
  have c: "cstr (t @ [0]) = ?t" "cstr (?t @ [0]) = ?t" "0 \<notin> set ?t"
    unfolding cstr_def by (induction t) auto
  have "arg_str [str_arg t] = arg_str [str_arg ?t]" using c(1,2) by (simp add: arg_str_def str_arg_def terminated_def)
  then have "say ''%s'' [str_arg t] s = say ''%s'' [str_arg ?t] s"
    by (simp add: say_def kprint_def kprintf_def kvprintf_def parse_spec_def skip_width_def at_format_def kvprintf_conv_def
        is_digit_def split: option.splits prod.splits)
  then show ?thesis using say_s [OF c(3)] by simp
qed

lemma say_nl: "say nl [] s = Some (on_con (console_putchar 10) s)"
  using say_pieces [of "[Literal [10]]" nl "[]"] by simp

lemma on_con_simps [simp]:
  "files (on_con g s) = files s" "cwd (on_con g s) = cwd s" "vga (mach (on_con g s)) = g (vga (mach s))"
  "on_con g (on_con k s) = on_con (\<lambda>c. g (k c)) s" "set_files f (on_con g s) = on_con g (set_files f s)"
  "on_con (\<lambda>c. c) s = s" "on_con id s = s"
  by (simp_all add: on_con_def set_con_def set_files_def)

lemma set_files_simps [simp]:
  "files (set_files f s) = f" "mach (set_files f s) = mach s" "cwd (set_files f s) = cwd s"
  "set_files f (set_files g s) = set_files f s" "set_files (files s) s = s"
  by (simp_all add: set_files_def)

section \<open>Reading\<close>

lemma vfs_read_file:
  assumes "fd_file fd s = Some f" "f_ops f" "inodes s (f_inode f) = Some n" "inode_ok n"
    and xs: "xs = take (unat k) (drop (unat (f_pos f)) (i_contents n))"
  shows "\<exists>f'. vfs_read fd k s = Some (of_nat (length xs), xs, set_fd (nat fd) (Some f') s) \<and> f_inode f' = f_inode f \<and>
    f_ops f' \<and> unat (f_pos f') = unat (f_pos f) + length xs"
proof -
  obtain r f' where r: "ramfs_file_read f k s = Some (r, xs, f')" "unat r = length xs" "f_inode f' = f_inode f"
    "f_ops f' = f_ops f" "unat (f_pos f') = unat (f_pos f) + unat r"
    using ramfs_file_read_ok [OF assms(3,4), of k] xs by blast
  have "of_nat (unat r) = r" by simp
  then have "r = of_nat (length xs)" using r(2) by simp
  then show ?thesis using r assms(1,2) by (intro exI [of _ f']) (simp add: vfs_read_def)
qed

lemma cat_loop_rec: "cat_loop fd s = (case cat_step fd s of None \<Rightarrow> None | Some r \<Rightarrow> if fst r then cat_loop fd (snd r) else Some (snd r))"
  by (subst cat_loop.simps) simp

text \<open>What \<open>cat\<close> prints of a file: it reads 127 bytes at a time and prints each piece as a string, so up
  to its first zero byte. For a text file that is the file.\<close>

function cat_text :: "bytes \<Rightarrow> bytes" where
  "cat_text c = (if c = [] then [] else takeWhile (\<lambda>x. x \<noteq> 0) (take 127 c) @ cat_text (drop 127 c))"
  by pat_completeness auto
termination by (relation "measure length") auto

declare cat_text.simps [simp del]

lemma cat_text_Nil [simp]: "cat_text [] = []"
  by (subst cat_text.simps) simp

lemma cat_text_plain: "0 \<notin> set c \<Longrightarrow> cat_text c = c"
proof (induction c rule: cat_text.induct)
  case (1 c)
  have t: "takeWhile (\<lambda>x. x \<noteq> 0) (take 127 c) = take 127 c"
    unfolding takeWhile_eq_all_conv using 1(2) by (metis in_set_takeD)
  have d: "0 \<notin> set (drop 127 c)" using 1(2) by (meson in_set_dropD)
  show ?case
  proof (cases "c = []")
    case False
    have "cat_text c = take 127 c @ drop 127 c"
      using 1(1) [OF False d] False t by (subst cat_text.simps) (simp only: if_False)
    then show ?thesis by simp
  qed simp
qed

text \<open>The loop of \<open>cat\<close> prints the rest of the file.\<close>

lemma cat_loop_prints:
  assumes "fd_file (int fd) (files s) = Some f" "fd < FD_MAX" "f_ops f" "inodes (files s) (f_inode f) = Some n" "inode_ok n"
  shows "\<exists>g. cat_loop (int fd) s
    = Some (on_con (fold console_putchar (cat_text (drop (unat (f_pos f)) (i_contents n)))) (set_files (set_fd fd g (files s)) s))"
  using assms
proof (induction "length (i_contents n) - unat (f_pos f)" arbitrary: s f rule: less_induct)
  case less
  let ?c = "i_contents n"
  let ?rest = "drop (unat (f_pos f)) ?c"
  define xs where "xs = take 127 ?rest"
  have "xs = take (unat (127::u32)) ?rest" by (simp add: xs_def)
  from vfs_read_file [OF less.prems(1,3,4,5) this] obtain f' where
    f': "vfs_read (int fd) 127 (files s) = Some (of_nat (length xs), xs, set_fd fd (Some f') (files s))" "f_inode f' = f_inode f"
    "f_ops f'" "unat (f_pos f') = unat (f_pos f) + length xs" by auto
  let ?s = "set_files (set_fd fd (Some f') (files s)) s"
  have l: "length xs \<le> 127" by (simp add: xs_def)
  have si: "sint (of_nat (length xs) :: u32) = int (length xs)" using l by (simp add: signed_of_nat signed_take_bit_int_eq_self)
  show ?case
  proof (cases "xs = []")
    case True
    then have "?rest = []" by (simp add: xs_def)
    moreover have "cat_step (int fd) s = Some (False, ?s)" using f'(1) True by (simp add: cat_step_def)
    ultimately show ?thesis by (subst cat_loop_rec) auto
  next
    case False
    let ?t = "takeWhile (\<lambda>x. x \<noteq> 0) xs"
    let ?s2 = "on_con (fold console_putchar ?t) ?s"
    have st: "cat_step (int fd) s = Some (True, ?s2)" using f'(1) False si by (simp add: cat_step_def say_s_cut)
    have "length ?c - unat (f_pos f') < length ?c - unat (f_pos f)"
      using f'(4) False unfolding xs_def by auto
    from less.hyps [OF this, of ?s2] obtain g where
      "cat_loop (int fd) ?s2 = Some (on_con (fold console_putchar (cat_text (drop (unat (f_pos f')) ?c))) (set_files (set_fd fd g (files ?s2)) ?s2))"
      using f' less.prems by auto
    moreover have "cat_text ?rest = ?t @ cat_text (drop (unat (f_pos f')) ?c)"
    proof -
      have "drop 127 u = drop (length (take 127 u)) u" for u :: bytes by (cases "length u \<le> 127") simp_all
      then have "drop 127 ?rest = drop (length xs) ?rest" unfolding xs_def .
      also have "\<dots> = drop (unat (f_pos f')) ?c" by (simp add: f'(4) add.commute)
      finally have d: "drop 127 ?rest = drop (unat (f_pos f')) ?c" .
      have "?rest \<noteq> []" using False by (auto simp: xs_def)
      then show ?thesis unfolding d [symmetric] xs_def by (subst cat_text.simps) simp
    qed
    ultimately show ?thesis using st by (subst cat_loop_rec, intro exI [of _ g]) (simp add: comp_def)
  qed
qed

section \<open>The file under a path\<close>

definition file_at :: "fsys \<Rightarrow> bytes \<Rightarrow> inode option" where
  "file_at s path =
     (case find_mount path s of
        None \<Rightarrow> None
      | Some (mnt, rest) \<Rightarrow> if fs_has_ops (m_fs mnt) then inodes s (find_path (shape s) rest (m_root mnt)) else None)"

text \<open>Room for one more open file: a free descriptor, and memory for its \<^verbatim>\<open>file_t\<close>.\<close>

definition can_open :: "fsys \<Rightarrow> bool" where
  "can_open s \<longleftrightarrow> (\<exists>fd < FD_MAX. fd_table s fd = None) \<and> fst (fs_kmalloc sizeof_file s) \<noteq> 0"

text \<open>What can be opened under a path.\<close>

definition openable :: "fsys \<Rightarrow> bytes \<Rightarrow> inode option" where
  "openable s path = (if can_open s then file_at s path else None)"

lemma kmalloc_room:
  assumes "fs_ok s" "request_ok s k" "heap_room s (unat k + 8)" "fs_kmalloc k s = (p, s')"
  shows "p \<noteq> 0" "heap_room s (unat k + 8 + j) \<Longrightarrow> heap_room s' j"
proof -
  obtain h where h: "bump_kmalloc k (fs_heap s) = (p, h)" "s' = s\<lparr>fs_heap := h\<rparr>"
    using assms(4) by (auto simp: fs_kmalloc_def split: prod.splits)
  have ok: "0 < bump_start (fs_heap s)" "bump_used (fs_heap s) \<le> bump_size (fs_heap s)"
    "unat (bump_start (fs_heap s)) + unat (bump_size (fs_heap s)) + 4096 < 4294967296"
    using assms(1) by (simp_all add: fs_ok_def Let_def)
  let ?sz = "(k + 7) AND NOT 7"
  have m: "(7::u32) = 2 ^ 3 - 1" by simp
  have "unat (k + of_nat 7) = unat k + 7" using assms(2) by (intro unat_add_small) (simp add: request_ok_def)
  then have "unat ?sz = (unat k + 7) div 8 * 8"
    using unat_and_not_mask [of "k + 7" 3] by (simp only: m [symmetric]) simp
  then have sz: "unat ?sz \<le> unat k + 7" by simp
  have room: "unat (bump_used (fs_heap s)) + unat k + 8 \<le> unat (bump_size (fs_heap s))"
    using assms(3) by (simp add: heap_room_def)
  have "unat (bump_used (fs_heap s) + of_nat (unat ?sz)) = unat (bump_used (fs_heap s)) + unat ?sz"
    using sz room ok(3) by (intro unat_add_small) linarith
  then have u: "unat (bump_used (fs_heap s) + ?sz) = unat (bump_used (fs_heap s)) + unat ?sz" by simp
  then have "\<not> bump_used (fs_heap s) + ?sz > bump_size (fs_heap s)" using sz room by (simp add: word_less_nat_alt)
  then have r: "p = bump_start (fs_heap s) + bump_used (fs_heap s)" "h = (fs_heap s)\<lparr>bump_used := bump_used (fs_heap s) + ?sz\<rparr>"
    using h(1) by (simp_all add: bump_kmalloc_def Let_def)
  have "unat (bump_start (fs_heap s) + of_nat (unat (bump_used (fs_heap s)))) = unat (bump_start (fs_heap s)) + unat (bump_used (fs_heap s))"
    using room ok(3) by (intro unat_add_small) linarith
  then have "unat p = unat (bump_start (fs_heap s)) + unat (bump_used (fs_heap s))" using r(1) by simp
  moreover have "0 < unat (bump_start (fs_heap s))" using ok(1) by (simp add: word_less_nat_alt)
  ultimately show "p \<noteq> 0" by auto
  show "heap_room s (unat k + 8 + j) \<Longrightarrow> heap_room s' j" using u sz r(2) h(2) by (simp add: heap_room_def)
qed

lemma can_open_room: "fs_inv s \<Longrightarrow> heap_room s 36 \<Longrightarrow> fd < FD_MAX \<Longrightarrow> fd_table s fd = None \<Longrightarrow> can_open s"
  using kmalloc_room(1) [OF fs_invD(1) request_small, of s sizeof_file] fs_invD(1) [of s]
  by (cases "fs_kmalloc sizeof_file s") (auto simp: can_open_def sizeof_file_def)

lemma find_free_fd_exists: "j < FD_MAX \<Longrightarrow> tab j = None \<Longrightarrow> \<exists>fd. find_free_fd FD_MAX 0 tab = Some fd"
  using find_free_fd_None [of FD_MAX 0 tab j] by (cases "find_free_fd FD_MAX 0 tab") auto

text \<open>Opening a file without creating or truncating it succeeds exactly if there is one.\<close>

definition plain_flags :: "u32 \<Rightarrow> bool" where
  "plain_flags fl \<longleftrightarrow> fl AND O_CREAT = 0 \<and> fl AND O_TRUNC = 0 \<and> fl AND O_APPEND = 0"

lemma vfs_open_existing:
  assumes "fs_inv s" "0 \<notin> set path" "can_open s" "plain_flags fl"
  shows "case file_at s path of
      None \<Rightarrow> \<exists>s'. vfs_open path fl 0 s = Some (-1, s') \<and> fd_table s' = fd_table s
    | Some n \<Rightarrow> \<exists>fd f n' s'. vfs_open path fl 0 s = Some (int fd, s') \<and> fd < FD_MAX \<and> fd_table s fd = None \<and>
        fd_table s' = (fd_table s)(fd := Some f) \<and> f_ops f \<and> f_pos f = 0 \<and> inodes s' (f_inode f) = Some n' \<and> no_refs n' = no_refs n"
proof (cases "\<exists>mnt rest. find_mount path s = Some (mnt, rest) \<and> fs_has_ops (m_fs mnt)")
  case False
  then have "file_at s path = None" by (auto simp: file_at_def split: option.splits)
  moreover have "vfs_open path fl 0 s = Some (-1, s)" using False by (auto simp: vfs_open_def split: option.splits)
  ultimately show ?thesis by simp
next
  case True
  then obtain mnt rest where fm: "find_mount path s = Some (mnt, rest)" "fs_has_ops (m_fs mnt)" by blast
  note M = mounted_inv [OF assms(1) fm(1) assms(2)]
  let ?q = "find_path (shape s) rest (m_root mnt)"
  have fa: "file_at s path = inodes s ?q" using fm by (simp add: file_at_def)
  obtain p s1 where k: "fs_kmalloc sizeof_file s = (p, s1)" by force
  have i1: "fs_inv s1" using fs_inv_kmalloc [OF assms(1) _ k] fs_invD(1) [OF assms(1)] by simp
  have p: "p \<noteq> 0" using assms(3) k by (simp add: can_open_def)
  note K = fs_kmalloc_frame [OF k]
  obtain fd where fd: "find_free_fd FD_MAX 0 (fd_table s1) = Some fd"
    using assms(3) K find_free_fd_exists by (auto simp: can_open_def)
  note FD = find_free_fd_Some [OF fd]
  let ?f = "\<lparr>f_inode = 0, f_pos = 0, f_flags = fl, f_ref_count = 1, f_ops = False\<rparr>"
  let ?s = "set_fd fd (Some ?f) s1"
  have root: "inodes ?s (m_root mnt) \<noteq> None" "fs_inv ?s" using K M(1) i1 by simp_all
  have sh: "shape ?s = shape s" using K by (auto intro: shape_inodes)
  obtain s2 where g: "ramfs_get_inode_by_path (m_root mnt) rest ?s = Some (?q, s2)" "only_refs ?s s2"
    "?q \<noteq> 0 \<longrightarrow> inodes ?s ?q \<noteq> None" using by_path_find [OF root(2,1), of rest] sh by auto
  have tab: "fd_table s2 = (fd_table s)(fd := Some ?f)" using g(2) K by (simp add: only_refs_def same_tables_def)
  have zero: "inodes s 0 = None" using fs_inv_zero [OF assms(1)] by simp
  show ?thesis
  proof (cases "inodes s ?q")
    case None
    then have q: "?q = 0" using g(3) K by auto
    have "vfs_open path fl 0 s = Some (-1, set_fd fd None s2)"
      using fm k p fd g(1) q assms(4) by (simp add: vfs_open_def ramfs_fs_open_def ramfs_open_node_def plain_flags_def)
    then show ?thesis using fa None tab FD K by auto
  next
    case (Some n)
    then have q: "?q \<noteq> 0" using zero by auto
    obtain n' where n': "inodes s2 ?q = Some n'" "no_refs n' = no_refs n"
      using only_refs_Some [OF g(2), of ?q n] Some K by auto
    have "vfs_open path fl 0 s = Some (int fd, set_fd fd (Some (?f\<lparr>f_inode := ?q, f_ops := True\<rparr>)) s2)"
      using fm k p fd g(1) q n'(1) assms(4) by (simp add: vfs_open_def ramfs_fs_open_def ramfs_open_node_def plain_flags_def)
    then show ?thesis using fa Some n' FD K tab by auto
  qed
qed

lemma vfs_open_no_room:
  assumes "\<not> can_open s"
  shows "\<exists>s'. vfs_open path fl m s = Some (-1, s') \<and> fd_table s' = fd_table s"
proof -
  obtain p s1 where k: "fs_kmalloc sizeof_file s = (p, s1)" by force
  note K = fs_kmalloc_frame [OF k]
  have "p = 0 \<or> find_free_fd FD_MAX 0 (fd_table s1) = None"
    using assms k K find_free_fd_Some [of FD_MAX 0 "fd_table s1"]
    by (cases "find_free_fd FD_MAX 0 (fd_table s1)") (auto simp: can_open_def)
  then show ?thesis using k K by (auto simp: vfs_open_def split: option.splits)
qed

lemma vfs_open_plain:
  assumes "fs_inv s" "0 \<notin> set path" "plain_flags fl"
  shows "case openable s path of
      None \<Rightarrow> \<exists>s'. vfs_open path fl 0 s = Some (-1, s') \<and> fd_table s' = fd_table s
    | Some n \<Rightarrow> \<exists>fd f n' s'. vfs_open path fl 0 s = Some (int fd, s') \<and> fd < FD_MAX \<and> fd_table s fd = None \<and>
        fd_table s' = (fd_table s)(fd := Some f) \<and> f_ops f \<and> f_pos f = 0 \<and> inodes s' (f_inode f) = Some n' \<and> no_refs n' = no_refs n"
  using vfs_open_existing [OF assms(1,2) _ assms(3)] vfs_open_no_room [of s path fl 0]
  by (cases "can_open s") (simp_all add: openable_def)

lemma plain_rdonly [simp]: "plain_flags O_RDONLY" "plain_flags (O_RDONLY OR O_DIRECTORY)"
  by (simp_all add: plain_flags_def O_RDONLY_def O_DIRECTORY_def O_CREAT_def O_TRUNC_def O_APPEND_def)

lemma cat_existing:
  assumes "fs_inv (files s)" "2 \<le> length args" "resolve_path (cwd s) (args ! 1) = Some path" "0 \<notin> set path"
    and "openable (files s) path = Some n"
  shows "\<exists>s'. cmd_cat args s = Some s' \<and> fd_table (files s') = fd_table (files s) \<and>
    vga (mach s') = fold console_putchar (cat_text (i_contents n) @ [10]) (vga (mach s))"
proof -
  obtain fd f n' f1 where o: "vfs_open path O_RDONLY 0 (files s) = Some (int fd, f1)" "fd < FD_MAX"
    "fd_table (files s) fd = None" "fd_table f1 = (fd_table (files s))(fd := Some f)" "f_ops f" "f_pos f = 0"
    "inodes f1 (f_inode f) = Some n'" "no_refs n' = no_refs n"
    using vfs_open_plain [OF assms(1,4) plain_rdonly(1)] assms(5) by auto
  have ct: "i_contents n' = i_contents n" by (rule inode_ok_no_refs(2) [OF o(8)])
  have "fs_inv f1" using vfs_open_inv [OF assms(1,4), of O_RDONLY 0] o(1) by simp
  then have ok: "inode_ok n'" by (rule fs_invD(3) [OF _ o(7)])
  have "fd_file (int fd) (files (set_files f1 s)) = Some f" using o(2,4) by (simp add: fd_file_def)
  from cat_loop_prints [OF this o(2,5) _ ok] obtain g where
    "cat_loop (int fd) (set_files f1 s) = Some (on_con (fold console_putchar (cat_text (i_contents n))) (set_files (set_fd fd g f1) s))"
    using o(6,7) ct by auto
  then show ?thesis using o assms(2,3) by (auto simp: cmd_cat_def say_nl vfs_close_def split: option.splits)
qed

text \<open>C9. Printing a file: \<open>cat\<close> with an argument always returns, and closes what it opened. Where its path
  leads to an inode in the tree of directories, and there is a free descriptor and memory for an open file, it
  prints the bytes of that inode, in pieces of 127 bytes each cut at its first zero byte (so exactly the bytes
  when there is none), and a newline; otherwise it prints the message that there is no such file. (The path is
  what \<open>resolve_path\<close> makes of the argument; the byte its \<open>strncpy\<close> writes behind the arrays is not modelled.)\<close>

theorem cmd_cat_prints_file:
  assumes "fs_inv (files s)" "2 \<le> length args" "0 \<notin> set (args ! 1)"
    and "resolve_path (cwd s) (args ! 1) = Some path" "0 \<notin> set path"
  shows "\<exists>s'. cmd_cat args s = Some s' \<and> fd_table (files s') = fd_table (files s) \<and>
    vga (mach s') = fold console_putchar
      (case openable (files s) path of
         None \<Rightarrow> text_of ''cat: '' @ args ! 1 @ text_of '': No such file'' @ [10]
       | Some n \<Rightarrow> (if 0 \<in> set (i_contents n) then cat_text (i_contents n) else i_contents n) @ [10]) (vga (mach s))"
proof (cases "openable (files s) path")
  case None
  then obtain f1 where o: "vfs_open path O_RDONLY 0 (files s) = Some (-1, f1)" "fd_table f1 = fd_table (files s)"
    using vfs_open_plain [OF assms(1,5) plain_rdonly(1)] by auto
  have "text_of (''cat: %s: No such file'' @ nl) = concat (map piece_format
      [Literal (text_of ''cat: ''), String (Some (args ! 1)), Literal (text_of '': No such file'' @ [10])])" by simp
  from say_pieces [OF _ this, of "[str_arg (args ! 1)]" "set_files f1 s"] show ?thesis
    using None o assms(2-4) by (simp add: cmd_cat_def str_arg_def)
next
  case (Some n)
  then show ?thesis using cat_existing [OF assms(1,2,4,5) Some] cat_text_plain [of "i_contents n"] by auto
qed

text \<open>C33. Changing the directory: \<open>cd\<close> always returns and leaves no descriptor open; without an argument it
  goes to the root. Where its path leads to an inode in the tree of directories, be it a directory or not, and
  there is a free descriptor and memory for an open file, the path becomes the current directory and nothing is
  printed; otherwise the directory stays and the message is printed. (The byte that \<open>strncpy\<close> writes behind
  \<open>current_working_directory\<close> and behind the arrays of \<open>resolve_path\<close> is not modelled.)\<close>

theorem cmd_cd_follows_path:
  assumes "fs_inv (files s)" "target = (if 2 \<le> length args then args ! 1 else text_of ''/'')" "0 \<notin> set target"
    and "resolve_path (cwd s) target = Some path" "0 \<notin> set path"
  shows "\<exists>s'. cmd_cd args s = Some s' \<and> fd_table (files s') = fd_table (files s) \<and>
    (if openable (files s) path = None
     then cwd s' = cwd s \<and> vga (mach s') = fold console_putchar
            (text_of ''cd: '' @ target @ text_of '': No such directory'' @ [10]) (vga (mach s))
     else cwd s' = path \<and> mach s' = mach s)"
proof (cases "openable (files s) path")
  case None
  then obtain f1 where o: "vfs_open path (O_RDONLY OR O_DIRECTORY) 0 (files s) = Some (-1, f1)" "fd_table f1 = fd_table (files s)"
    using vfs_open_plain [OF assms(1,5) plain_rdonly(2)] by auto
  let ?ps = "[Literal (text_of ''cd: ''), String (Some target), Literal (text_of '': No such directory'' @ [10])]"
  have "\<forall>p \<in> set ?ps. piece_ok p" "text_of (''cd: %s: No such directory'' @ nl) = concat (map piece_format ?ps)"
    using assms(3) by simp_all
  from say_pieces [OF this, of "[str_arg target]" "set_files f1 s"] show ?thesis
    using None o assms(3,4) by (simp add: cmd_cd_def Let_def str_arg_def assms(2) [symmetric] del: text_of_simps)
next
  case (Some n)
  then obtain fd f f1 where o: "vfs_open path (O_RDONLY OR O_DIRECTORY) 0 (files s) = Some (int fd, f1)" "fd < FD_MAX"
    "fd_table (files s) fd = None" "fd_table f1 = (fd_table (files s))(fd := Some f)"
    using vfs_open_plain [OF assms(1,5) plain_rdonly(2)] by auto
  then show ?thesis using assms(4) Some
    by (auto simp: cmd_cd_def Let_def assms(2) [symmetric] vfs_close_def fd_file_def simp del: text_of_simps)
qed

section \<open>Writing\<close>

text \<open>The words of a command line with blanks between them.\<close>

fun join_words :: "bytes list \<Rightarrow> bytes" where
  "join_words [] = []"
| "join_words [w] = w"
| "join_words (w # v # ws) = w @ 32 # join_words (v # ws)"

text \<open>A buffer is there, or room for it.\<close>

definition cap_room :: "inode \<Rightarrow> fsys \<Rightarrow> bool" where
  "cap_room n s \<longleftrightarrow> (if i_capacity n = 0 then heap_room s 4200 else 4096 \<le> i_capacity n \<and> heap_room s 64)"

lemma grow_room:
  assumes "fs_inv s" "inodes s node = Some n" "unat e < 4096" "cap_room n s"
  shows "\<exists>s1 n1. grow_data e node s = Some (True, s1) \<and> inodes s1 node = Some n1 \<and> cap_room n1 s1"
proof (cases "e > i_capacity n")
  case False
  then show ?thesis using assms by (simp add: grow_data_def)
next
  case True
  have cap: "i_capacity n = 0"
  proof (rule ccontr)
    assume "i_capacity n \<noteq> 0"
    then have "4096 \<le> unat (i_capacity n)" using assms(4) by (simp add: cap_room_def word_le_nat_alt)
    then show False using True assms(3) by (simp add: word_less_nat_alt)
  qed
  have e: "e < 4096" using assms(3) by (simp add: word_less_nat_alt)
  note inv = fs_invD [OF assms(1)]
  obtain q s0 where k: "fs_kmalloc 4096 s = (q, s0)" by force
  have rq: "request_ok s 4096" using inv(2) by (simp add: request_ok_def)
  have room: "heap_room s (unat (4096::u32) + 8 + 64)" "heap_room s (unat (4096::u32) + 8)"
    using assms(4) cap by (simp_all add: cap_room_def heap_room_def)
  note R = kmalloc_room [OF inv(1) rq room(2) k]
  obtain b s1 where g: "grow_data e node s = Some (b, s1)"
    using grow_data_ok [OF assms(2) inv(3) [OF assms(2)], of e] assms(3) by auto
  then obtain nb where "b \<and> s1 = put_inode node (n\<lparr>i_data := Some nb, i_capacity := 4096\<rparr>) s0"
    using True assms(2) e k R(1) by (auto simp: grow_data_def bind_eq_Some_conv)
  then show ?thesis using g R(2) [OF room(1)] by (auto simp: cap_room_def put_inode_def heap_room_def)
qed

text \<open>A file open for writing whose contents is \<open>c\<close> up to the position.\<close>

definition writing :: "nat \<Rightarrow> u32 \<Rightarrow> bytes \<Rightarrow> fsys \<Rightarrow> bool" where
  "writing fd q c s \<longleftrightarrow> fs_inv s \<and> fd < FD_MAX \<and>
     (\<exists>f n. fd_table s fd = Some f \<and> f_ops f \<and> f_inode f = q \<and> unat (f_pos f) = length c \<and>
        inodes s q = Some n \<and> i_contents n = c \<and> cap_room n s)"

definition kept :: "nat \<Rightarrow> fsys \<Rightarrow> fsys \<Rightarrow> bool" where
  "kept fd s s' \<longleftrightarrow> shape s' = shape s \<and> mount_list s' = mount_list s \<and> (\<forall>j. j \<noteq> fd \<longrightarrow> fd_table s' j = fd_table s j)"

lemma kept_trans: "kept fd s s' \<Longrightarrow> kept fd s' s'' \<Longrightarrow> kept fd s s''"
  by (simp add: kept_def)

lemma write_more:
  assumes "writing fd q c s" "length c + length xs < 4096"
  shows "\<exists>r s'. vfs_write (int fd) xs s = Some (r, s') \<and> writing fd q (c @ xs) s' \<and> kept fd s s'"
proof -
  obtain f n where W: "fs_inv s" "fd < FD_MAX" "fd_table s fd = Some f" "f_ops f" "f_inode f = q" "unat (f_pos f) = length c"
    "inodes s q = Some n" "i_contents n = c" "cap_room n s" using assms(1) by (auto simp: writing_def)
  let ?e = "f_pos f + of_nat (length xs)"
  have l: "unat (of_nat (length xs) :: u64) = length xs" using assms(2) by (simp add: unat_of_nat)
  have e: "unat ?e = length c + length xs"
    using assms(2) l W(6) by (subst unat_add_lem [THEN iffD1]) simp_all
  obtain s1 n1 where g: "grow_data ?e q s = Some (True, s1)" "inodes s1 q = Some n1" "cap_room n1 s1"
    using grow_room [OF W(1,7) _ W(9), of ?e] e assms(2) by auto
  have live: "inodes s (f_inode f) \<noteq> None" "inodes s (f_inode f) = Some n" "unat (f_pos f) + length xs < 1073741824"
    "unat (f_pos f) + length xs < 2147483648" using W(5-7) assms(2) by simp_all
  obtain r f' s2 where w: "ramfs_file_write f xs s = Some (r, f', s2)" "fs_inv s2" "shape s2 = shape s"
    using write_inv [OF W(1) live(1,3)] by blast
  obtain dat sz where s2: "r = of_nat (length xs)" "f' = f\<lparr>f_pos := ?e\<rparr>"
      "s2 = put_inode q (n1\<lparr>i_data := dat, i_size := sz, i_dirty := True\<rparr>) s1"
    using w(1) g W(5) by (auto simp: ramfs_file_write_def Let_def bind_eq_Some_conv split del: if_split)
  have ne: "r \<noteq> -1"
  proof
    assume "r = -1"
    then have "unat (of_nat (length xs) :: u32) = unat (-1 :: u32)" using s2(1) by simp
    then show False using assms(2) by (simp add: unat_of_nat unsigned_minus_1_eq_mask mask_eq_exp_minus_1)
  qed
  obtain n2 where n2: "inodes s2 q = Some n2" "i_contents n2 = write_at c (length c) xs" "fd_table s2 = fd_table s" "mount_list s2 = mount_list s"
    using ramfs_file_write_ok [OF live(2) fs_invD(3) [OF W(1,7)] live(4)] w(1) ne W(5,6,8) by auto
  have "cap_room n2 s2" using g(3) n2(1) s2(3) by (auto simp: cap_room_def put_inode_def heap_room_def split: if_splits)
  moreover have "vfs_write (int fd) xs s = Some (r, set_fd fd (Some f') s2)"
    using W(2-4) w(1) by (simp add: vfs_write_def fd_file_def)
  moreover have "cap_room n2 (set_fd fd (Some f') s2) = cap_room n2 s2" by (simp add: cap_room_def)
  ultimately show ?thesis using W(2-5) w(2,3) n2 s2(2) e
    by (intro exI [of _ r] exI [of _ "set_fd fd (Some f') s2"]) (simp add: writing_def kept_def)
qed

lemma words_written:
  assumes "writing fd q c s" "length c + length (join_words ws) < 4096"
  shows "\<exists>s'. write_words (int fd) ws s = Some s' \<and> writing fd q (c @ join_words ws) s' \<and> kept fd s s'"
  using assms
proof (induction ws arbitrary: c s rule: join_words.induct)
  case 1
  then show ?case by (simp add: kept_def)
next
  case (2 w)
  then show ?case using write_more [of fd q c s w] by auto
next
  case (3 w v ws)
  obtain r s1 where s1: "vfs_write (int fd) w s = Some (r, s1)" "writing fd q (c @ w) s1" "kept fd s s1"
    using write_more [OF 3(2), of w] 3(3) by auto
  obtain r2 s2 where s2: "vfs_write (int fd) [32] s1 = Some (r2, s2)" "writing fd q ((c @ w) @ [32]) s2" "kept fd s1 s2"
    using write_more [OF s1(2), of "[32]"] 3(3) by auto
  obtain s3 where "write_words (int fd) (v # ws) s2 = Some s3" "writing fd q (((c @ w) @ [32]) @ join_words (v # ws)) s3" "kept fd s2 s3"
    using 3(1) [OF s2(2)] 3(3) by auto
  then show ?case using s1 s2 kept_trans [OF kept_trans [OF s1(3) s2(3)]] by auto
qed

text \<open>What \<open>write\<close> leaves under the path.\<close>

lemma write_stores:
  assumes "fs_inv (files s)" "3 \<le> length args" "resolve_path (cwd s) (args ! 1) = Some path" "0 \<notin> set path"
    and fm: "find_mount path (files s) = Some (mnt, rest)" "proper_base rest"
    and o: "vfs_open path (O_WRONLY OR O_CREAT OR O_TRUNC) 0x1A4 (files s) = Some (fd, f1)" "0 \<le> fd"
    and room: "heap_room f1 4200" "length (join_words (drop 2 args)) < 4095"
  shows "\<exists>g n. cmd_write args s = Some (set_files g s) \<and> fs_inv g \<and> can_open g \<and>
    file_at g path = Some n \<and> i_contents n = join_words (drop 2 args) @ [10]"
proof -
  let ?fl = "O_WRONLY OR O_CREAT OR O_TRUNC"
  have fl: "?fl AND O_APPEND = 0" "?fl AND O_TRUNC \<noteq> 0" by (simp_all add: O_WRONLY_def O_CREAT_def O_TRUNC_def O_APPEND_def)
  obtain i f n where O: "fd = int i" "i < FD_MAX" "fd_table (files s) i = None" "fd_table f1 = (fd_table (files s))(i := Some f)"
    "fs_inv f1" "mount_list f1 = mount_list (files s)" "f_ops f" "f_pos f = 0" "f_inode f \<noteq> 0"
    "find_path (shape f1) rest (m_root mnt) = f_inode f" "inodes f1 (f_inode f) = Some n" "i_contents n = []" "i_capacity n = 0"
    using vfs_open_found [OF assms(1,4) o fm(1)] fm(2) fl by auto
  have ops: "fs_has_ops (m_fs mnt)" using o fm(1) by (auto simp: vfs_open_def split: if_splits)
  let ?ws = "drop 2 args" and ?q = "f_inode f"
  have w0: "writing i ?q [] f1" using O room(1) by (simp add: writing_def cap_room_def)
  obtain f2 where f2: "write_words (int i) ?ws f1 = Some f2" "writing i ?q (join_words ?ws) f2" "kept i f1 f2"
    using words_written [OF w0, of ?ws] room(2) by auto
  obtain r f3 where f3: "vfs_write (int i) [10] f2 = Some (r, f3)" "writing i ?q (join_words ?ws @ [10]) f3" "kept i f2 f3"
    using write_more [OF f2(2), of "[10]"] room(2) by auto
  let ?g = "snd (vfs_close (int i) f3)"
  obtain h k where W: "fs_inv f3" "fd_table f3 i = Some h" "inodes f3 ?q = Some k" "i_contents k = join_words ?ws @ [10]" "cap_room k f3"
    using f3(2) by (auto simp: writing_def)
  have g: "?g = set_fd i None f3" using W(2) O(2) by (simp add: vfs_close_def fd_file_def)
  have K: "kept i f1 f3" by (rule kept_trans [OF f2(3) f3(3)])
  have "find_mount path ?g = Some (mnt, rest)" using K O(6) fm(1) find_mount_same [of ?g "files s"] by (simp add: g kept_def)
  then have "file_at ?g path = Some k" using K O(10) W(3) ops by (simp add: file_at_def g kept_def)
  moreover have "heap_room ?g 36" using W(5) by (auto simp: g cap_room_def heap_room_def split: if_splits)
  then have "can_open ?g" using W(1) O(2) by (intro can_open_room [of _ i]) (simp_all add: g)
  moreover have "cmd_write args s = Some (set_files ?g s)"
    using assms(2,3) o(1) O(1) f2(1) f3(1) by (simp add: cmd_write_def)
  ultimately show ?thesis using W(1,4) g by auto
qed

text \<open>C3. What \<open>write\<close> writes \<open>cat\<close> prints. The conditions are: the path of the name has a last component that
  can be created (not empty, not a dot or two, at most 255 characters), opening it for writing succeeds, 4200 bytes
  of heap are left after that, and the words with their blanks are shorter than 4095 bytes and hold no zero byte.
  Then \<open>write\<close> followed by \<open>cat\<close> of the same name returns and prints the words with single blanks between them
  and two newlines, the one \<open>write\<close> put into the file and the one \<open>cat\<close> adds, whether the file is new or replaces
  another. (Without the memory \<open>write\<close> drops text silently; the byte that the \<open>strncpy\<close> calls of
  \<open>resolve_path\<close> write behind its arrays is not modelled.)\<close>

theorem write_cat_roundtrip:
  assumes "fs_inv (files s)" "3 \<le> length args" "resolve_path (cwd s) (args ! 1) = Some path" "0 \<notin> set path"
    and "find_mount path (files s) = Some (mnt, rest)" "proper_base rest"
    and "vfs_open path (O_WRONLY OR O_CREAT OR O_TRUNC) 0x1A4 (files s) = Some (fd, f1)" "0 \<le> fd"
    and "heap_room f1 4200" "length (join_words (drop 2 args)) < 4095" "0 \<notin> set (join_words (drop 2 args))"
    and "2 \<le> length args'" "args' ! 1 = args ! 1"
  shows "\<exists>s1 s2. cmd_write args s = Some s1 \<and> mach s1 = mach s \<and> cmd_cat args' s1 = Some s2 \<and>
    vga (mach s2) = fold console_putchar (join_words (drop 2 args) @ [10, 10]) (vga (mach s))"
proof -
  obtain g n where w: "cmd_write args s = Some (set_files g s)" "fs_inv g" "can_open g" "file_at g path = Some n"
    "i_contents n = join_words (drop 2 args) @ [10]"
    using write_stores [OF assms(1-10)] by blast
  have "openable g path = Some n" "cat_text (i_contents n) = i_contents n"
    using w(3-5) assms(11) by (simp_all add: openable_def cat_text_plain)
  with cat_existing [of "set_files g s" args' path n] obtain s2 where "cmd_cat args' (set_files g s) = Some s2"
    "vga (mach s2) = fold console_putchar (i_contents n @ [10]) (vga (mach s))"
    using w(2-5) assms(3,4,12,13) by auto
  then show ?thesis using w(1,5) by auto
qed

section \<open>Removing an open file\<close>

text \<open>A lookup counts references only of the inodes on its way.\<close>

lemma walk_keeps:
  assumes "fs_inv s" "inodes s cur \<noteq> None" "walk_path p cur s = Some (r, s')" "r \<noteq> 0" "unat r < unat q"
  shows "inodes s' q = inodes s q"
  using assms
proof (induction p cur s rule: walk_path.induct)
  case (1 p cur s)
  obtain n where n: "inodes s cur = Some n" using "1.prems"(2) by auto
  obtain name rest where c: "take_component NAME_MAX (skip_slashes p) = (name, rest)" by force
  note unf = walk_path.simps [of p cur s]
  consider "skip_slashes p = []" | (dot) "skip_slashes p \<noteq> []" "name = [46] \<or> name = [46, 46]"
    | (name) "skip_slashes p \<noteq> []" "\<not> (name = [46] \<or> name = [46, 46])" by blast
  then show ?case
  proof cases
    case 1
    then show ?thesis using "1.prems"(3) by (simp add: unf)
  next
    case dot
    then have "walk_path rest cur s = Some (r, s')" using "1.prems"(3) by (simp add: unf c)
    then show ?thesis using "1.IH"(1) [OF dot(1) c [symmetric] refl dot(2) "1.prems"(1,2)] "1.prems"(4,5) by simp
  next
    case name
    obtain x s1 where l: "ramfs_lookup cur name s = Some (x, s1)" "x \<noteq> 0" "S_ISDIR (i_mode n)" "walk_path rest x s1 = Some (r, s')"
      using "1.prems"(3,4) name n by (auto simp: unf c split: option.splits if_splits)
    obtain k where e: "find_entry (i_entries n) name = Some x" "inodes s x = Some k"
      "s1 = put_inode x (k\<lparr>i_ref_count := i_ref_count k + 1\<rparr>) s"
      using l(1,2) n by (auto simp: ramfs_lookup_def bind_eq_Some_conv split: option.splits)
    have o: "only_refs s s1" unfolding e(3) by (rule only_refs_put [OF e(2)])
    note i1 = fs_inv_only_refs [OF "1.prems"(1) o]
    have x1: "inodes s1 x \<noteq> None" using only_refs_live [OF o] e(2) by auto
    have "inodes s' q = inodes s1 q"
      using "1.IH"(2) [OF name(1) c [symmetric] refl name(2) n] l i1 x1 "1.prems"(4,5) by auto
    moreover have "unat x \<le> unat r"
      using walk_find_path [OF i1 x1, of rest] l(4) find_path_ge [OF fs_invD(4) [OF i1], of rest x] "1.prems"(4) by auto
    then have "q \<noteq> x" using "1.prems"(5) by auto
    ultimately show ?thesis by (simp add: e(3) put_inode_def)
  qed
qed

lemma by_path_keeps:
  assumes "fs_inv s" "inodes s root \<noteq> None" "ramfs_get_inode_by_path root p s = Some (r, s')" "r \<noteq> 0" "unat r < unat q"
  shows "inodes s' q = inodes s q"
  using assms walk_keeps [OF assms(1,2) _ assms(4,5)] by (auto simp: ramfs_get_inode_by_path_def split: if_splits)

text \<open>A file that has just been created: its inode is the first entry of the last directory of the path, and
  its two counts are one.\<close>

definition new_file :: "fsys \<Rightarrow> u32 \<Rightarrow> bytes \<Rightarrow> u32 \<Rightarrow> bool" where
  "new_file s root path node \<longleftrightarrow>
     (\<exists>d b dir dn es n. path_dirname path PATH_MAX = Some d \<and> path_basename path PATH_MAX = Some b \<and> 0 \<notin> set b \<and>
        find_path (shape s) d root = dir \<and> dir \<noteq> 0 \<and> inodes s dir = Some dn \<and> S_ISDIR (i_mode dn) \<and>
        i_entries dn = (take 255 b, node) # es \<and> unat dir < unat node \<and>
        inodes s node = Some n \<and> i_nlinks n = 1 \<and> i_ref_count n = 1)"

lemma open_node_new:
  assumes "fs_inv s" "inodes s root \<noteq> None" "0 \<notin> set path" "find_path (shape s) path root = 0"
    and o: "ramfs_open_node root path fl m s = Some (node, s')" "node \<noteq> 0"
  shows "new_file s' root path node"
proof -
  obtain s1 where g: "ramfs_get_inode_by_path root path s = Some (0, s1)" "only_refs s s1"
    using by_path_find [OF assms(1,2), of path] assms(4) by auto
  note i1 = fs_inv_only_refs [OF assms(1) g(2)]
  have r1: "inodes s1 root \<noteq> None" using only_refs_still [OF g(2) assms(2)] by simp
  obtain dir b d s2 where p: "ramfs_parent root path s1 = Some (dir, b, s2)" "only_refs s1 s2" "set b \<subseteq> set path"
    "path_dirname path PATH_MAX = Some d" "path_basename path PATH_MAX = Some b"
    "dir \<noteq> 0 \<longrightarrow> dir = find_path (shape s1) d root \<and> inodes s1 dir \<noteq> None \<and> (\<exists>m es. shape s1 dir = Some (m, es) \<and> S_ISDIR m)"
    using parent_find [OF i1 r1, of path] by metis
  note i2 = fs_inv_only_refs [OF i1 p(2)]
  note sh2 = only_refs_shape [OF p(2)]
  have creat: "fl AND O_CREAT \<noteq> 0" using o g by (auto simp: ramfs_open_node_def)
  then have dir: "dir \<noteq> 0" using o g p by (auto simp: ramfs_open_node_def)
  then obtain dn where dn: "inodes s2 dir = Some dn" using p(6) only_refs_still [OF p(2), of dir] by auto
  have isdir: "S_ISDIR (i_mode dn)" using p(6) dir sh2 shape_Some [OF dn] by auto
  have zb: "0 \<notin> set b" using p(3) assms(3) by blast
  let ?m = "S_IFREG OR (m AND 0x1FF)"
  obtain r nd s3 where c: "ramfs_create dir b ?m s2 = Some (r, nd, s3)"
    "r = 0 \<longrightarrow> unat dir < unat nd \<and>
       shape s3 = (shape s2)(nd \<mapsto> (?m, []), dir \<mapsto> (i_mode dn, (take 255 b, nd) # i_entries dn))"
    using create_inv [OF i2 dn zb, of ?m] by (auto split: if_splits)
  have r: "r = 0" "nd = node" "s' = s3" using o creat g p(1) dir c(1) by (auto simp: ramfs_open_node_def split: if_splits)
  obtain n where n: "inodes s3 = (inodes s2)(node \<mapsto> n,
      dir \<mapsto> dn\<lparr>i_entries := (take 255 b, node) # i_entries dn, i_nlinks := i_nlinks dn + 1\<rparr>)"
    "i_nlinks n = 1" "i_ref_count n = 1" "node \<noteq> dir"
    using ramfs_create_ok [OF fs_invD(1) [OF i2] dn, of b ?m] c(1) r by auto
  have e: "find_path (shape s2) d root = dir" using p(6) dir sh2 by simp
  have "find_path (shape s3) d root = find_path (shape s2) d root"
    by (rule find_path_frame [OF fs_invD(4) [OF i2]]) (use e dir c(2) r in auto)
  then show ?thesis unfolding new_file_def using e p(4,5) zb dir n isdir c(2) r by auto
qed

lemma unlink_new:
  assumes "fs_inv s" "inodes s root \<noteq> None" "new_file s root path node"
  shows "\<exists>s'. ramfs_fs_unlink root path s = Some (0, s') \<and> inodes s' node = None \<and> fd_table s' = fd_table s"
proof -
  obtain d b dir dn es n where N: "path_dirname path PATH_MAX = Some d" "path_basename path PATH_MAX = Some b" "0 \<notin> set b"
    "find_path (shape s) d root = dir" "dir \<noteq> 0" "inodes s dir = Some dn" "S_ISDIR (i_mode dn)"
    "i_entries dn = (take 255 b, node) # es" "unat dir < unat node"
    "inodes s node = Some n" "i_nlinks n = 1" "i_ref_count n = 1"
    using assms(3) unfolding new_file_def by (elim exE conjE) (rule that)
  obtain s1 where g: "ramfs_get_inode_by_path root d s = Some (dir, s1)" "only_refs s s1"
    using by_path_find [OF assms(1,2), of d] N(4) by auto
  have n1: "inodes s1 node = Some n" using by_path_keeps [OF assms(1,2) g(1) N(5,9)] N(10) by simp
  obtain dn1 where d1: "inodes s1 dir = Some dn1" "i_mode dn1 = i_mode dn" "i_entries dn1 = i_entries dn"
    using only_refs_Some [OF g(2) N(6)] no_refs_fields by metis
  have p: "ramfs_parent root path s = Some (dir, b, s1)"
    using N(1,2,5,7) g(1) d1 by (simp add: ramfs_parent_def is_directory_def)
  have z: "0 \<notin> set (take 255 b)" using N(3) by (meson in_set_takeD)
  have rm: "remove_entry (i_entries dn1) b = Some (node, es)" using N(3,8) d1(3) z by (simp add: name_eq_iff)
  have ne: "node \<noteq> dir" using N(9) by auto
  have "fd_table s1 = fd_table s" using g(2) by (simp add: only_refs_def same_tables_def)
  then show ?thesis using p N(5,11,12) d1(1) n1 rm ne
    by (simp add: ramfs_fs_unlink_def ramfs_unlink_def put_inode_def free_inode_def)
qed

text \<open>Truncating and setting the position do not change what makes the file new.\<close>

lemma fs_open_new:
  assumes "fs_inv s" "inodes s root \<noteq> None" "0 \<notin> set path" "find_path (shape s) path root = 0"
    and o: "ramfs_fs_open root path fl m f s = Some (r, f', s')" "0 \<le> r"
  shows "new_file s' root path (f_inode f')" "f_ops f'"
proof -
  obtain node s1 where n: "ramfs_open_node root path fl m s = Some (node, s1)" "node \<noteq> 0"
    using o by (auto simp: ramfs_fs_open_def bind_eq_Some_conv split: if_splits)
  note N = open_node_new [OF assms(1-4) n]
  obtain q s2 where "ramfs_open_node root path fl m s = Some (q, s2)" "fs_inv s2" "q \<noteq> 0 \<longrightarrow> inodes s2 q \<noteq> None"
    using open_node_inv [OF assms(1-3), of fl m] by blast
  then have i1: "fs_inv s1" and l1: "inodes s1 node \<noteq> None" using n by auto
  obtain k where k: "inodes s1 node = Some k" using l1 by auto
  let ?t = "put_inode node (k\<lparr>i_data := None, i_capacity := 0, i_size := 0\<rparr>) s1"
  have sh: "shape ?t = shape s1" using k by (auto simp: shape_Some fun_upd_idem)
  have t: "new_file ?t root path node"
    using N k unfolding new_file_def sh by (fastforce simp: put_inode_def)
  have "f_inode f' = node \<and> f_ops f' \<and> (s' = s1 \<or> s' = ?t)"
    using o n truncate_inv(1) [OF i1 k] by (auto simp: ramfs_fs_open_def Let_def bind_eq_Some_conv split: if_splits)
  then show "new_file s' root path (f_inode f')" "f_ops f'" using N t by auto
qed

text \<open>C35. A descriptor does not keep the file it created: when \<open>vfs_open\<close> with \<open>O_CREAT\<close> succeeds on a path
  that led to nothing, unlinking that path succeeds and frees the inode although the descriptor is open (the
  inode's reference count of one stands for its name, and creating counts none for the descriptor), and the next read or write
  through the descriptor uses freed memory. (A file that was there before is found by a lookup, which
  does count a reference.)\<close>

theorem vfs_unlink_created_open:
  assumes "fs_inv s" "0 \<notin> set path" "file_at s path = None"
    and "vfs_open path fl m s = Some (fd, s1)" "0 \<le> fd"
  shows "\<exists>s2. vfs_unlink path s1 = Some (0, s2) \<and> fd_file fd s2 = fd_file fd s1 \<and> fd_file fd s1 \<noteq> None \<and>
    vfs_read fd len s2 = None \<and> vfs_write fd xs s2 = None"
proof -
  obtain mnt rest where fm: "find_mount path s = Some (mnt, rest)" "fs_has_ops (m_fs mnt)"
    using assms(4,5) by (auto simp: vfs_open_def split: option.splits if_splits)
  note M = mounted_inv [OF assms(1) fm(1) assms(2)]
  obtain p s0 where k: "fs_kmalloc sizeof_file s = (p, s0)" by force
  have i0: "fs_inv s0" using fs_inv_kmalloc [OF assms(1) _ k] fs_invD(1) [OF assms(1)] by simp
  note K = fs_kmalloc_frame [OF k]
  let ?f = "\<lparr>f_inode = 0, f_pos = 0, f_flags = fl, f_ref_count = 1, f_ops = False\<rparr>"
  obtain i q f s3 where o: "find_free_fd FD_MAX 0 (fd_table s0) = Some i"
    "ramfs_fs_open (m_root mnt) rest fl m ?f (set_fd i (Some ?f) s0) = Some (q, f, s3)"
    "0 \<le> q" "fd = int i" "s1 = set_fd i (Some f) s3"
    using assms(4,5) fm k by (auto simp: vfs_open_def Let_def bind_eq_Some_conv split: if_splits option.splits)
  note i = find_free_fd_Some [OF o(1)]
  let ?s = "set_fd i (Some ?f) s0"
  have root: "fs_inv ?s" "inodes ?s (m_root mnt) \<noteq> None" using i0 K M(1) by simp_all
  have sh: "shape ?s = shape s" using K by (auto intro: shape_inodes)
  have "inodes s (find_path (shape s) rest (m_root mnt)) = None" using assms(3) fm by (simp add: file_at_def)
  then have z: "find_path (shape ?s) rest (m_root mnt) = 0"
    using by_path_find [OF assms(1) M(1), of rest] sh by auto
  note N = fs_open_new [OF root M(2) z o(2,3)]
  have i3: "fs_inv s3" using fs_open_inv [OF root M(2), of fl m ?f] o(2) by simp
  have i1: "fs_inv s1" using i3 o(5) by simp
  have "same_tables ?s s3" by (rule fs_open_same(1) [OF o(2)])
  then have tab: "mount_list s1 = mount_list s" using K o(5) by (simp add: same_tables_def)
  then have fm1: "find_mount path s1 = Some (mnt, rest)" using find_mount_same [of s1 s] fm(1) by simp
  have r1: "inodes s1 (m_root mnt) \<noteq> None" by (rule mounted_inv(1) [OF i1 fm1 assms(2)])
  have "new_file s1 (m_root mnt) rest (f_inode f)" using N(1) o(5) by (simp add: new_file_def)
  from unlink_new [OF i1 r1 this] obtain s2 where u: "ramfs_fs_unlink (m_root mnt) rest s1 = Some (0, s2)"
    "inodes s2 (f_inode f) = None" "fd_table s2 = fd_table s1" by blast
  have fd: "fd_file fd s1 = Some f" "fd_file fd s2 = Some f" using o(4,5) i(1) u(3) by (simp_all add: fd_file_def)
  have "vfs_unlink path s1 = Some (0, s2)" using fm1 fm(2) u(1) by (simp add: vfs_unlink_def)
  moreover have "vfs_read fd len s2 = None" using fd(2) N(2) u(2) by (simp add: vfs_read_def ramfs_file_read_def)
  moreover have "vfs_write fd xs s2 = None"
    using fd(2) N(2) u(2) by (simp add: vfs_write_def ramfs_file_write_def grow_data_def)
  ultimately show ?thesis using fd by simp
qed

section \<open>A machine with a root directory\<close>

definition root_fs :: fsys where
  "root_fs = (case vfs_mount [47] (fs_name Ramfs) 0 boot_fs of None \<Rightarrow> boot_fs | Some (_, s) \<Rightarrow> s)"

lemma root_fs_inv: "fs_inv root_fs"
proof -
  have "find_fs (fs_next boot_fs) (fs_list boot_fs) (fs_name Ramfs) = Some (Some Ramfs)" by code_simp
  from mount_inv [OF boot_fs_inv this, of "[47]" 0] show ?thesis by (auto simp: root_fs_def)
qed

definition demo_sys :: sys where
  "demo_sys = (sys0 (machine0 0x200000 blank_console) [])\<lparr>files := root_fs\<rparr>"

lemma demo_sys_simps [simp]: "files demo_sys = root_fs" "cwd demo_sys = [47]" "mach demo_sys = machine0 0x200000 blank_console"
  by (simp_all add: demo_sys_def sys0_def)

lemma demo_resolve: "resolve_path [47] [102] = Some [47, 102]"
proof -
  have a: "absolute [47] [102] = [47, 102]" by (simp add: absolute_def)
  have "resolve_path [47] [102] = remove_dots [47, 102]"
    using resolve_path_absolute [of "[47]" "[102]"] by (simp add: a PATH_MAX_def)
  then show ?thesis using remove_dots_none [of "[47, 102]"] by (simp add: sublist_Cons_right)
qed

lemma demo_can_open: "can_open root_fs"
proof -
  have h: "bump_used (fs_heap root_fs) = 1144" "bump_size (fs_heap root_fs) = 0x80000" "fd_table root_fs 0 = None" by code_simp+
  then have "heap_room root_fs 36" by (simp add: heap_room_def)
  then show ?thesis using h(3) by (intro can_open_room [OF root_fs_inv, of 0]) (simp_all add: FD_MAX_def)
qed

lemma demo_write:
  obtains mnt f1 where "find_mount [47, 102] root_fs = Some (mnt, [102])" "proper_base [102]" "heap_room f1 4200"
    "vfs_open [47, 102] (O_WRONLY OR O_CREAT OR O_TRUNC) 0x1A4 root_fs = Some (0, f1)"
proof -
  have "map_option (\<lambda>(r, f). (r, bump_used (fs_heap f), bump_size (fs_heap f)))
      (vfs_open [47, 102] (O_WRONLY OR O_CREAT OR O_TRUNC) 0x1A4 root_fs) = Some (0, 1536, 0x80000)"
    by code_simp
  then obtain f1 where o: "vfs_open [47, 102] (O_WRONLY OR O_CREAT OR O_TRUNC) 0x1A4 root_fs = Some (0, f1)"
    "bump_used (fs_heap f1) = 1536" "bump_size (fs_heap f1) = 0x80000" by auto
  then have "heap_room f1 4200" by (simp add: heap_room_def)
  moreover have "map_option snd (find_mount [47, 102] root_fs) = Some [102]" by code_simp
  then obtain mnt where "find_mount [47, 102] root_fs = Some (mnt, [102])" by auto
  moreover have "proper_base [102]" by code_simp
  ultimately show thesis using that o(1) by blast
qed

text \<open>The demonstration machine after \<^verbatim>\<open>write f hi you\<close>.\<close>

lemma demo_written:
  obtains g n where "cmd_write [text_of ''write'', text_of ''f'', text_of ''hi'', text_of ''you''] demo_sys = Some (set_files g demo_sys)"
    "fs_inv g" "openable g [47, 102] = Some n" "i_contents n = text_of ''hi you'' @ [10]"
proof -
  obtain mnt f1 where d: "find_mount [47, 102] root_fs = Some (mnt, [102])" "proper_base [102]" "heap_room f1 4200"
    "vfs_open [47, 102] (O_WRONLY OR O_CREAT OR O_TRUNC) 0x1A4 root_fs = Some (0, f1)" by (rule demo_write)
  obtain g n where "cmd_write [text_of ''write'', text_of ''f'', text_of ''hi'', text_of ''you''] demo_sys = Some (set_files g demo_sys)"
    "fs_inv g" "can_open g" "file_at g [47, 102] = Some n" "i_contents n = text_of ''hi you'' @ [10]"
    using write_stores [of demo_sys "[text_of ''write'', text_of ''f'', text_of ''hi'', text_of ''you'']" "[47, 102]" mnt "[102]" 0 f1]
      root_fs_inv d demo_resolve by auto
  then show thesis using that [of g n] by (simp add: openable_def)
qed

theorem cmd_cat_prints_file_witness:
  "\<exists>s1 s2. cmd_write [text_of ''write'', text_of ''f'', text_of ''hi'', text_of ''you''] demo_sys = Some s1 \<and>
    cmd_cat [text_of ''cat'', text_of ''f''] s1 = Some s2 \<and>
    vga (mach s2) = fold console_putchar (text_of ''hi you'' @ [10, 10]) (vga (mach s1))"
proof -
  obtain g n where w: "cmd_write [text_of ''write'', text_of ''f'', text_of ''hi'', text_of ''you''] demo_sys = Some (set_files g demo_sys)"
    "fs_inv g" "openable g [47, 102] = Some n" "i_contents n = text_of ''hi you'' @ [10]" by (rule demo_written)
  then show ?thesis
    using cmd_cat_prints_file [of "set_files g demo_sys" "[text_of ''cat'', text_of ''f'']" "[47, 102]"] demo_resolve by auto
qed

theorem cmd_cd_follows_path_witness:
  "\<exists>s'. cmd_cd [text_of ''cd''] (demo_sys\<lparr>cwd := text_of ''/f''\<rparr>) = Some s' \<and> cwd s' = text_of ''/''"
proof -
  have "map_option i_ino (file_at root_fs [47]) = Some 1" by code_simp
  then have o: "openable root_fs [47] \<noteq> None" using demo_can_open by (auto simp: openable_def)
  have a: "absolute [47, 102] [47] = [47]" by (simp add: absolute_def)
  have "resolve_path [47, 102] [47] = remove_dots [47]"
    using resolve_path_absolute [of "[47, 102]" "[47]"] by (simp add: a PATH_MAX_def)
  also have "remove_dots [47] = Some [47]" using remove_dots_none [of "[47]"] by (simp add: sublist_Cons_right)
  finally show ?thesis
    using cmd_cd_follows_path [of "demo_sys\<lparr>cwd := text_of ''/f''\<rparr>" "text_of ''/''" "[text_of ''cd'']" "[47]"] root_fs_inv o by auto
qed

theorem write_cat_roundtrip_witness:
  "\<exists>s1 s2. cmd_write [text_of ''write'', text_of ''f'', text_of ''hi'', text_of ''you''] demo_sys = Some s1 \<and>
    cmd_cat [text_of ''cat'', text_of ''f''] s1 = Some s2 \<and>
    vga (mach s2) = fold console_putchar (text_of ''hi you'' @ [10, 10]) (vga (mach demo_sys))"
proof -
  obtain mnt f1 where d: "find_mount [47, 102] root_fs = Some (mnt, [102])" "proper_base [102]" "heap_room f1 4200"
    "vfs_open [47, 102] (O_WRONLY OR O_CREAT OR O_TRUNC) 0x1A4 root_fs = Some (0, f1)" by (rule demo_write)
  show ?thesis
    using write_cat_roundtrip [of demo_sys "[text_of ''write'', text_of ''f'', text_of ''hi'', text_of ''you'']" "[47, 102]" mnt "[102]" 0 f1
        "[text_of ''cat'', text_of ''f'']"] root_fs_inv d demo_resolve by auto
qed

theorem vfs_unlink_created_open_witness:
  "\<exists>s1 s2. vfs_open [47, 102] (O_WRONLY OR O_CREAT OR O_TRUNC) 0x1A4 root_fs = Some (0, s1) \<and>
    vfs_unlink [47, 102] s1 = Some (0, s2) \<and> vfs_write 0 (text_of ''hi'') s2 = None"
proof -
  have "map_option i_ino (file_at root_fs [47, 102]) = None" by code_simp
  then have a: "file_at root_fs [47, 102] = None" by simp
  obtain mnt f1 where o: "vfs_open [47, 102] (O_WRONLY OR O_CREAT OR O_TRUNC) 0x1A4 root_fs = Some (0, f1)" by (rule demo_write)
  from vfs_unlink_created_open [OF root_fs_inv _ a o, of _ "text_of ''hi''"] show ?thesis using o by auto
qed

end
