(* ===== verification/Login_Spec.thy ===== *)
theory Login_Spec
  imports Shell_Spec Files_Spec
begin

text \<open>
  The login: what the check of a password accepts, the first login with nothing mounted, and the logout.
\<close>

section \<open>The check\<close>

lemma check_creds_sublist:
  assumes "terminated creds" "0 \<notin> set x" "0 \<notin> set y" "length x + length y < 127"
  shows "check_creds creds x y = Some (sublist (x @ 58 # y) (cstr creds))"
proof -
  let ?t = "x @ 58 # y" and ?ps = "[String (Some x), Literal [58], String (Some y)]"
  have "\<forall>p \<in> set ?ps. piece_ok p \<and> no_pointer p" "0 < (128::nat)" "128 \<le> length (new_buf 128)" "?t = concat (map piece_text ?ps)"
    using assms(2,3) by (simp_all add: new_buf_def)
  from ksnprintf_pieces [OF this, of "[]"] have
    k: "ksnprintf (Some (new_buf 128)) 128 (text_of ''%s:%s'' @ [0]) [str_arg x, str_arg y]
      = Some (Some (?t @ 0 # drop (Suc (length ?t)) (new_buf 128)), length ?t)"
    using assms(4) by (simp add: str_arg_def)
  let ?c = "?t @ 0 # drop (Suc (length ?t)) (new_buf 128)"
  have z: "0 \<notin> set ?t" using assms(2,3) by simp
  have c: "cstr ?c = ?t" by (rule cstr_append_zero [OF z])
  have tm: "terminated ?c" by (simp add: terminated_def)
  have "strstr creds ?c = Some None \<longleftrightarrow> \<not> sublist ?t (cstr creds)"
    "\<exists>r. strstr creds ?c = Some r"
  proof -
    have ne: "cstr ?c \<noteq> []" unfolding c by simp
    obtain r where r: "strstr_loop creds ?c = Some r"
      "case r of None \<Rightarrow> \<not> sublist (cstr ?c) (cstr creds) | Some i \<Rightarrow> first_at (cstr ?c) (cstr creds) i"
      using strstr_loop_spec [OF assms(1) tm ne] by blast
    have "strstr creds ?c = Some r" using strstr_at [OF assms(1) tm ne] r by (cases r) simp_all
    then show "strstr creds ?c = Some None \<longleftrightarrow> \<not> sublist ?t (cstr creds)" "\<exists>r. strstr creds ?c = Some r"
      using r(2) first_at_sublist c by (auto split: option.splits)
  qed
  then show ?thesis using k by (auto simp: check_creds_def)
qed

text \<open>C17. The check of a login is a search: a name and a password are accepted if and only if the name, a
  colon and the password occur one behind the other anywhere in the stored text.  So the password need
  only be a prefix of the stored one, and the name an end of the stored name: two empty answers are
  always accepted.\<close>

theorem check_creds_substring:
  assumes "terminated creds" "0 \<notin> set x" "0 \<notin> set y" "length x + length y < 127"
  shows "check_creds creds x y = Some (sublist (x @ 58 # y) (cstr creds)) \<and>
    (\<forall>user pass. cstr creds = user @ 58 # pass \<longrightarrow> suffix x user \<longrightarrow> prefix y pass \<longrightarrow> check_creds creds x y = Some True)"
proof -
  have "sublist (x @ 58 # y) (user @ 58 # pass)" if xu: "suffix x user" and yp: "prefix y pass" for user pass
  proof -
    obtain a where "user = a @ x" using xu by (auto simp: suffix_def)
    moreover obtain b where "pass = y @ b" using yp by (auto simp: prefix_def)
    ultimately have "user @ 58 # pass = a @ (x @ 58 # y) @ b" by simp
    then show ?thesis unfolding sublist_def by blast
  qed
  then show ?thesis using check_creds_sublist [OF assms] by auto
qed

theorem check_creds_substring_witness:
  "check_creds (text_of ''root:secret'' @ [0]) (text_of ''root'') (text_of ''s'') = Some True \<and>
   check_creds (text_of ''root:secret'' @ [0]) [] [] = Some True"
proof -
  have t: "terminated (text_of ''root:secret'' @ [0])" by (simp add: terminated_def)
  have c: "cstr (text_of ''root:secret'' @ [0]) = text_of ''root'' @ 58 # text_of ''secret''" by simp
  have "suffix (text_of ''root'') (text_of ''root'')" "prefix (text_of ''s'') (text_of ''secret'')"
    "suffix [] (text_of ''root'')" "prefix [] (text_of ''secret'')" by simp_all
  then show ?thesis
    using check_creds_substring [OF t, of "text_of ''root''" "text_of ''s''"] check_creds_substring [OF t, of "[]" "[]"] c by (auto simp: sublist_Cons_right)
qed

section \<open>The first login\<close>

text \<open>A text that can be typed and is not edited.\<close>

definition plain_text :: "bytes \<Rightarrow> bool" where
  "plain_text t \<longleftrightarrow> (\<forall>c \<in> set t. 32 \<le> sint c \<and> c \<noteq> 127)"

lemma plain_not_zero: "plain_text t \<Longrightarrow> 0 \<notin> set t"
  by (auto simp: plain_text_def)

lemma edit_line_plain:
  "plain_text t \<Longrightarrow> length u + length t < room \<Longrightarrow> edit_line room u (t @ 10 # ks) = Some (u @ t, ks)"
proof (induction t arbitrary: u)
  case (Cons c t)
  then have "c \<noteq> 10" "c \<noteq> 13" "c \<noteq> 8" "c \<noteq> 127" "32 \<le> sint c" by (auto simp: plain_text_def)
  then show ?case using Cons by (simp add: plain_text_def)
qed simp

lemma readline_plain:
  assumes "plain_text t" "length t + 1 < maxlen" "maxlen \<le> length buf" "keys s = t @ 10 # ks"
  shows "\<exists>buf' c. shell_readline buf maxlen s = Some (length t, buf', set_con c (s\<lparr>keys := ks\<rparr>)) \<and> cstr buf' = t"
proof -
  have "holds_line maxlen buf [] buf" using assms(2) by (simp add: holds_line_def)
  moreover have "edit_line (maxlen - 1) [] (keys s) = Some (t, ks)"
    using edit_line_plain [OF assms(1), of "[]"] assms(2,4) by simp
  ultimately have "\<exists>buf' c'. readline_loop maxlen (keys s) 0 buf (vga (mach s)) = Some (length t, buf', ks, c') \<and> cstr buf' = t"
    using readline_loop_edits [where t = "[]" and buf = buf and b = buf and ks = "keys s" and c = "vga (mach s)", OF _ assms(3)] by auto
  then show ?thesis by (auto simp: shell_readline_def)
qed

lemma password_loop_plain:
  assumes "plain_text t" "length u + length t + 1 < maxlen" "maxlen \<le> length b" "holds_line maxlen b u buf"
  shows "\<exists>buf' c'. password_loop maxlen (t @ 10 # ks) (length u) buf c = Some (length (u @ t), buf', ks, c') \<and> cstr buf' = u @ t"
  using assms(1,2,4)
proof (induction t arbitrary: u buf c)
  case Nil
  then show ?case using holds_line_end [OF Nil(3) assms(3)] by auto
next
  case (Cons k t)
  then have k: "k \<noteq> 10" "k \<noteq> 8" "32 \<le> sint k" "k \<noteq> 0" by (auto simp: plain_text_def)
  have "holds_line maxlen b (u @ [k]) (buf[length u := k])"
    using holds_line_snoc [OF Cons.prems(3) _ assms(3) k(4)] Cons.prems(2) by simp
  then show ?case using Cons.IH [of "u @ [k]" "buf[length u := k]" "console_putchar 42 c"] Cons.prems k
    by (simp add: plain_text_def)
qed

lemma say_literal:
  assumes "0 \<notin> set (text_of fmt)" "37 \<notin> set (text_of fmt)"
  shows "say fmt [] s = Some (on_con (fold console_putchar (text_of fmt)) s)"
  using say_pieces [of "[Literal (text_of fmt)]" fmt "[]" s] assms by simp

lemma password_plain:
  assumes "plain_text t" "length t + 1 < maxlen" "maxlen \<le> length buf" "keys s = t @ 10 # ks"
  shows "\<exists>buf' c. get_password buf maxlen s = Some (buf', set_con c (s\<lparr>keys := ks\<rparr>)) \<and> cstr buf' = t"
proof -
  have "holds_line maxlen buf [] buf" using assms(2) by (simp add: holds_line_def)
  from password_loop_plain [OF assms(1) _ assms(3) this, of ks "vga (mach s)"] assms(2) obtain buf' c' where
    "password_loop maxlen (t @ 10 # ks) 0 buf (vga (mach s)) = Some (length t, buf', ks, c')" "cstr buf' = t" by auto
  then show ?thesis using assms(4) by (auto simp: get_password_def say_nl on_con_def set_con_def)
qed

lemma ask_plain:
  assumes "plain_text x" "plain_text y" "length x < 31" "length y < 31" "keys s = x @ 10 # y @ 10 # ks"
    and "\<And>p. p \<in> {p1, p2} \<Longrightarrow> 0 \<notin> set (text_of p) \<and> 37 \<notin> set (text_of p)"
  shows "\<exists>c. ask p1 p2 s = Some (x, y, set_con c (s\<lparr>keys := ks\<rparr>))"
proof -
  have l: "length x + 1 < 32" "length y + 1 < 32" "32 \<le> length (new_buf 32)" using assms(3,4) by (simp_all add: new_buf_def)
  obtain s1 where s1: "say p1 [] s = Some s1" "s1 = on_con (fold console_putchar (text_of p1)) s" using say_literal assms(6) by simp
  have "keys s1 = x @ 10 # y @ 10 # ks" using assms(5) s1(2) by (simp add: on_con_def)
  from readline_plain [OF assms(1) l(1,3) this] obtain b1 c1 where
    r1: "shell_readline (new_buf 32) 32 s1 = Some (length x, b1, set_con c1 (s1\<lparr>keys := y @ 10 # ks\<rparr>))" "cstr b1 = x" by blast
  let ?s2 = "set_con c1 (s1\<lparr>keys := y @ 10 # ks\<rparr>)"
  obtain s3 where s3: "say p2 [] ?s2 = Some s3" "s3 = on_con (fold console_putchar (text_of p2)) ?s2" using say_literal assms(6) by simp
  have "keys s3 = y @ 10 # ks" using s3(2) by (simp add: on_con_def)
  from password_plain [OF assms(2) l(2,3) this] obtain b2 c2 where
    r2: "get_password (new_buf 32) 32 s3 = Some (b2, set_con c2 (s3\<lparr>keys := ks\<rparr>))" "cstr b2 = y" by blast
  have "ask p1 p2 s = Some (x, y, set_con c2 (s3\<lparr>keys := ks\<rparr>))"
    using s1(1) r1 s3(1) r2 by (simp add: ask_def NAME_BUF_def)
  moreover have "set_con c2 (s3\<lparr>keys := ks\<rparr>) = set_con c2 (s\<lparr>keys := ks\<rparr>)"
    by (simp add: s1(2) s3(2) on_con_def set_con_def)
  ultimately show ?thesis by auto
qed

text \<open>With nothing mounted, no file can be opened.\<close>

lemma unmounted_open: "mount_list s = [] \<Longrightarrow> vfs_open path fl m s = Some (-1, s)"
  by (simp add: vfs_open_def find_mount_def)

lemma unmounted_mkdir: "mount_list s = [] \<Longrightarrow> vfs_mkdir path m s = Some (-1, s)"
  by (simp add: vfs_mkdir_def find_mount_def)

lemma unmounted_login:
  assumes "mount_list (files s) = []" "plain_text x" "plain_text y" "length x < 31" "length y < 31" "keys s = x @ 10 # y @ 10 # ks"
  shows "\<exists>c. user_login_sequence junk s = Some (set_con c (s\<lparr>keys := ks, current_user := x\<rparr>))"
proof -
  let ?p1 = "''New Username: ''" and ?p2 = "''New Password: ''"
  have lit: "\<exists>c. say f [] t = Some (set_con c t)"
    if "f \<in> {nl @ ''[ SECURITY ] System is Locked. Please Authenticate.'' @ nl @ nl,
      ''No user accounts found. Initializing Administrative Setup...'' @ nl}" for f t
  proof -
    have "0 \<notin> set (text_of f)" "37 \<notin> set (text_of f)" using that by auto
    from say_literal [OF this, of t] show ?thesis by (auto simp: on_con_def)
  qed
  have prompts: "p \<in> {?p1, ?p2} \<Longrightarrow> 0 \<notin> set (text_of p) \<and> 37 \<notin> set (text_of p)" for p by auto
  have sc: "set_con c (set_con c' t) = set_con c t" "on_con g t = set_con (g (vga (mach t))) t" for c c' g t
    by (simp_all add: set_con_def on_con_def)
  obtain c1 where c1: "say (nl @ ''[ SECURITY ] System is Locked. Please Authenticate.'' @ nl @ nl) []
      (on_con (console_set_color (VGA_ATTR COLOR_LIGHT_GREEN COLOR_BLACK)) s) = Some (set_con c1 s)"
    using lit [OF insertI1, of "on_con (console_set_color (VGA_ATTR COLOR_LIGHT_GREEN COLOR_BLACK)) s"] by (auto simp only: sc)
  obtain c2 where c2: "say (''No user accounts found. Initializing Administrative Setup...'' @ nl) []
      (on_con (console_set_color VGA_DEFAULT_ATTR) (set_con c1 s)) = Some (set_con c2 s)"
    using lit [OF insertI2 [OF insertI1], of "on_con (console_set_color VGA_DEFAULT_ATTR) (set_con c1 s)"] by (auto simp only: sc)
  have "keys (set_con c2 s) = x @ 10 # y @ 10 # ks" using assms(6) by simp
  from ask_plain [OF assms(2-5) this prompts] obtain c3 where
    c3: "ask ?p1 ?p2 (set_con c2 s) = Some (x, y, set_con c3 (s\<lparr>keys := ks\<rparr>))" by (auto simp: set_con_def)
  let ?s3 = "set_con c3 (s\<lparr>keys := ks\<rparr>)"
  have "text_of (nl @ ''Account '' @ [CHR 0x27] @ ''%s'' @ [CHR 0x27] @ '' created successfully.'' @ nl) = concat (map piece_format
      [Literal (10 # text_of ''Account '' @ [39]), String (Some x), Literal (39 # text_of '' created successfully.'' @ [10])])" by simp
  from say_pieces [OF _ this, of "[str_arg x]" ?s3] plain_not_zero [OF assms(2)] obtain c4 where
    c4: "say (nl @ ''Account '' @ [CHR 0x27] @ ''%s'' @ [CHR 0x27] @ '' created successfully.'' @ nl) [str_arg x] ?s3
      = Some (set_con c4 ?s3)" by (auto simp: str_arg_def sc)
  have fl: "files ?s3 = files s" "set_files (files ?s3) ?s3 = ?s3" by (simp_all add: set_con_def set_files_def)
  have f: "first_run (on_con (console_set_color VGA_DEFAULT_ATTR) (set_con c1 s)) = Some (x, set_con c4 ?s3)"
    using c2 c3 c4 fl assms(1) by (simp add: first_run_def save_creds_def unmounted_open)
  have "set_files (files s) (on_con g (set_con c1 s)) = on_con g (set_con c1 s)" for g
    by (simp add: set_con_def set_files_def on_con_def)
  then have "user_login_sequence junk s = Some ((set_con c4 ?s3)\<lparr>current_user := x\<rparr>)"
    using c1 f assms(1) by (simp add: user_login_sequence_def unmounted_open)
  moreover have "(set_con c4 ?s3)\<lparr>current_user := x\<rparr> = set_con c4 (s\<lparr>keys := ks, current_user := x\<rparr>)"
    by (cases s) (simp add: set_con_def)
  ultimately show ?thesis by auto
qed

section \<open>The logout\<close>

lemma prompt_pieces:
  assumes "0 \<notin> set (current_user s)" "0 \<notin> set (cwd s)"
  shows "\<exists>c. prompt s = Some (set_con c s)"
proof -
  let ?s1 = "on_con (console_set_color (VGA_ATTR COLOR_LIGHT_GREEN COLOR_BLACK)) s"
  have sc: "set_con c (set_con c' t) = set_con c t" "on_con g t = set_con (g (vga (mach t))) t" for c c' g t
    by (simp_all add: set_con_def on_con_def)
  have "text_of ''%s@EarlnuxOS'' = concat (map piece_format [String (Some (current_user s)), Literal (text_of ''@EarlnuxOS'')])" by simp
  from say_pieces [OF _ this, of "[str_arg (current_user s)]" ?s1] assms(1) obtain c1 where
    c1: "say ''%s@EarlnuxOS'' [str_arg (current_user s)] ?s1 = Some (set_con c1 s)" by (auto simp: str_arg_def sc)
  let ?s2 = "on_con (console_set_color VGA_DEFAULT_ATTR) (set_con c1 s)"
  have "text_of '':%s# '' = concat (map piece_format [Literal [58], String (Some (cwd s)), Literal [35, 32]])" by simp
  from say_pieces [OF _ this, of "[str_arg (cwd s)]" ?s2] assms(2) obtain c2 where
    c2: "say '':%s# '' [str_arg (cwd s)] ?s2 = Some (set_con c2 s)" by (auto simp: str_arg_def sc)
  have "current_user ?s1 = current_user s" by (simp add: on_con_def)
  then show ?thesis using c1 c2 by (simp only: prompt_def Let_def bind.bind_lunit set_con_simps) auto
qed

text \<open>One pass of the loop on a line that is not empty.\<close>

lemma shell_step_line:
  assumes "edit_line (SHELL_BUF_SIZE - 1) [] (keys s) = Some (t, rest)" "t \<noteq> []"
    and "length (shell_input s) = SHELL_BUF_SIZE" "0 \<notin> set (current_user s)" "0 \<notin> set (cwd s)"
  shows "\<exists>c buf. terminated buf \<and> cstr buf = t \<and>
    shell_step s = Option.bind (shell_line (set_con c (s\<lparr>keys := rest, shell_input := buf\<rparr>)))
      (\<lambda>(fin, s). if \<not> fin \<and> halted s then None else Some (\<not> fin, s))"
proof -
  obtain c where c: "prompt s = Some (set_con c s)" using prompt_pieces [OF assms(4,5)] by auto
  have k: "SHELL_BUF_SIZE \<le> length (shell_input s)" "0 < SHELL_BUF_SIZE"
      "edit_line (SHELL_BUF_SIZE - 1) [] (keys (set_con c s)) = Some (t, rest)"
    using assms(1,3) by (simp_all add: SHELL_BUF_SIZE_def)
  from readline_edits [OF k] obtain buf c2 where
    r: "shell_readline (shell_input s) SHELL_BUF_SIZE (set_con c s) = Some (length t, buf, set_con c2 ((set_con c s)\<lparr>keys := rest\<rparr>))"
    and h: "holds_line SHELL_BUF_SIZE (shell_input s) t buf" and t: "cstr buf = t" by blast
  have "terminated buf"
  proof (rule ccontr)
    assume "\<not> terminated buf"
    then have "cstr buf = buf" by (auto simp: cstr_def terminated_def takeWhile_eq_all_conv)
    then show False using h t k(1) by (simp add: holds_line_def)
  qed
  moreover have "(set_con c2 ((set_con c s)\<lparr>keys := rest\<rparr>))\<lparr>shell_input := buf\<rparr> = set_con c2 (s\<lparr>keys := rest, shell_input := buf\<rparr>)"
    by (cases s) (simp add: set_con_def)
  ultimately show ?thesis using c r t assms(2)
    by (intro exI [of _ c2] exI [of _ buf]) (simp add: shell_step_def)
qed

lemma logout_returns:
  assumes "edit_line (SHELL_BUF_SIZE - 1) [] (keys s) = Some (t, rest)" "words t = text_of ''logout'' # ws"
    and "length (shell_input s) = SHELL_BUF_SIZE" "0 \<notin> set (current_user s)" "0 \<notin> set (cwd s)"
  shows "\<exists>c line a. shell_run s = Some (set_con c (s\<lparr>keys := rest, shell_input := line, argv := a\<rparr>))"
proof -
  let ?s0 = "s\<lparr>argv := replicate MAX_ARGS None\<rparr>"
  have t: "t \<noteq> []" using assms(2) by (auto simp: words.simps)
  have "edit_line (SHELL_BUF_SIZE - 1) [] (keys ?s0) = Some (t, rest)" "length (shell_input ?s0) = SHELL_BUF_SIZE"
    "0 \<notin> set (current_user ?s0)" "0 \<notin> set (cwd ?s0)" using assms by simp_all
  from shell_step_line [OF this(1) t this(2-4)] obtain c buf where b: "terminated buf" "cstr buf = t"
    "shell_step ?s0 = Option.bind (shell_line (set_con c (?s0\<lparr>keys := rest, shell_input := buf\<rparr>)))
      (\<lambda>(fin, s). if \<not> fin \<and> halted s then None else Some (\<not> fin, s))" by blast
  let ?s2 = "set_con c (?s0\<lparr>keys := rest, shell_input := buf\<rparr>)"
  have "terminated (shell_input ?s2)" "words (cstr (shell_input ?s2)) = text_of ''logout'' # ws"
    using b(1,2) assms(2) by simp_all
  from logout_line [OF this] obtain line a where
    "shell_line ?s2 = Some (True, ?s2\<lparr>shell_input := line, argv := a\<rparr>)" by blast
  then have "shell_run s = Some (?s2\<lparr>shell_input := line, argv := a\<rparr>)"
    using b(3) by (simp add: shell_run_def shell_loop.simps)
  moreover have "?s2\<lparr>shell_input := line, argv := a\<rparr> = set_con c (s\<lparr>keys := rest, shell_input := line, argv := a\<rparr>)"
    by (cases s) (simp add: set_con_def)
  ultimately show ?thesis by auto
qed

text \<open>C16. Logging out: a line whose first word is \<open>logout\<close> ends the session, whatever follows the word; the
  shell returns to the login with the keys behind the line unread and nothing but the screen and the line
  changed.  The current directory is among what stays: the command \<open>cmd_logout\<close>, which resets it, is never
  reached, and the next user starts where the last one was.\<close>

theorem shell_logout:
  assumes "edit_line (SHELL_BUF_SIZE - 1) [] (keys s) = Some (t, rest)" "words t = text_of ''logout'' # ws"
    and "length (shell_input s) = SHELL_BUF_SIZE" "0 \<notin> set (current_user s)" "0 \<notin> set (cwd s)"
  shows "\<exists>s'. shell_run s = Some s' \<and> keys s' = rest \<and> cwd s' = cwd s \<and> current_user s' = current_user s \<and>
    files s' = files s \<and> halted s' = halted s"
  using logout_returns [OF assms] by auto

theorem shell_logout_witness:
  "\<exists>s'. shell_run ((sys0 (machine0 0x200000 blank_console) (text_of ''logout'' @ [10, 104, 105]))\<lparr>cwd := text_of ''/home''\<rparr>) = Some s' \<and>
     keys s' = [104, 105] \<and> cwd s' = text_of ''/home''"
proof -
  let ?s = "(sys0 (machine0 0x200000 blank_console) (text_of ''logout'' @ [10, 104, 105]))\<lparr>cwd := text_of ''/home''\<rparr>"
  have "edit_line (SHELL_BUF_SIZE - 1) [] (keys ?s) = Some (text_of ''logout'', [104, 105])"
    by (simp add: sys0_def SHELL_BUF_SIZE_def)
  moreover have "words (text_of ''logout'') = [text_of ''logout'']" by (simp add: words.simps is_blank_def)
  moreover have "length (shell_input ?s) = SHELL_BUF_SIZE" "0 \<notin> set (current_user ?s)" "0 \<notin> set (cwd ?s)" by (simp_all add: sys0_def)
  ultimately show ?thesis using shell_logout [of ?s "text_of ''logout''" "[104, 105]" "[]"] by auto
qed

end
