(* ===== verification/Machine_Start.thy ===== *)
theory Machine_Start
  imports Kernel_Main Drivers_Spec Net_Spec
begin

text \<open>
  The machine at start-up: the stages it goes through, from the interrupt controller to the bus scan
  and the configured interface, with the network card there is a driver for on the bus or without it.
  Each step is a total-correctness triple over what it may rely on.
\<close>

section \<open>Triples\<close>

definition triple :: "('s \<Rightarrow> bool) \<Rightarrow> ('s \<Rightarrow> 's option) \<Rightarrow> ('s \<Rightarrow> bool) \<Rightarrow> bool" where
  "triple P f Q \<longleftrightarrow> (\<forall>s. P s \<longrightarrow> (\<exists>s'. f s = Some s' \<and> Q s'))"

lemma triple_bind [intro]: "triple P f Q \<Longrightarrow> triple Q g R \<Longrightarrow> triple P (\<lambda>s. Option.bind (f s) g) R"
  by (fastforce simp: triple_def)

lemma tripleD: "triple P f Q \<Longrightarrow> P s \<Longrightarrow> \<exists>s'. f s = Some s' \<and> Q s'"
  by (simp add: triple_def)

lemma triple_foldo: "(\<And>x. x \<in> set xs \<Longrightarrow> triple P (f x) P) \<Longrightarrow> triple P (foldo f xs) P"
proof (induction xs)
  case (Cons x xs)
  then have "triple P (f x) P" "triple P (foldo f xs) P" by simp_all
  then show ?case by (fastforce simp: triple_def)
qed (simp add: triple_def)

text \<open>A property of the machine that does not look at the screen.\<close>

definition quiet :: "(machine \<Rightarrow> bool) \<Rightarrow> bool" where
  "quiet M \<longleftrightarrow> (\<forall>m c. M (m\<lparr>vga := c\<rparr>) = M m)"

lemma quiet_vga: "quiet M \<Longrightarrow> M (m\<lparr>vga := c\<rparr>) = M m"
  by (simp add: quiet_def)

lemma triple_log:
  assumes "quiet M" "\<forall>p \<in> set ps. piece_ok p" "text_of fmt = concat (map piece_format ps)" "args = concat (map piece_args ps)"
    and "0 \<notin> set (text_of modul)"
  shows "triple M (intr_log level modul fmt args) M"
  unfolding triple_def
proof (intro allI impI)
  fix m assume "M m"
  then show "\<exists>m'. intr_log level modul fmt args m = Some m' \<and> M m'"
    using intr_log_pieces [OF assms(2-5), of level m] quiet_vga [OF assms(1)] by auto
qed

lemma triple_note:
  assumes "quiet M" "0 \<notin> set (text_of fmt)" "37 \<notin> set (text_of fmt)" "0 \<notin> set (text_of modul)"
  shows "triple M (intr_log level modul fmt []) M"
  using assms by (intro triple_log [where ps = "[Literal (text_of fmt)]"]) simp_all

lemma triple_info_literal:
  assumes "quiet M" "0 \<notin> set (text_of fmt)" "37 \<notin> set (text_of fmt)" "0 \<notin> set (text_of modul)"
  shows "triple M (KINFO modul fmt []) M" "triple M (KWARN modul fmt []) M"
  using triple_note [OF assms] by (simp_all add: KINFO_def KWARN_def)

section \<open>The configuration space and the card\<close>

text \<open>The data port answers the register the address port selects; what the registers hold is \<open>cfg\<close>, as the
  firmware left them.\<close>

definition pci_space :: "device \<Rightarrow> (u32 \<Rightarrow> u32) \<Rightarrow> bool" where
  "pci_space hw cfg \<longleftrightarrow> (\<forall>t a. hw (outl PCI_CONFIG_ADDRESS a t) PCI_CONFIG_DATA = cfg a)"

text \<open>A place on the bus is bus, slot and function.\<close>

type_synonym place = "nat \<times> nat \<times> nat"

definition register_at :: "(u32 \<Rightarrow> u32) \<Rightarrow> place \<Rightarrow> u8 \<Rightarrow> u32" where
  "register_at cfg p off = (case p of (b, slot, f) \<Rightarrow> cfg (pci_address (of_nat b) (of_nat slot) (of_nat f) off))"

definition places :: "place list" where
  "places = List.product [0..<256] (List.product [0..<32] [0..<8])"

definition names_rtl :: "u32 \<Rightarrow> bool" where
  "names_rtl v \<longleftrightarrow> ucast (v AND 0xFFFF) = (0x10EC :: u16) \<and> ucast (drop_bit 16 v AND 0xFFFF) = (0x8139 :: u16)"

text \<open>The card there is a driver for: its place, I/O base, interrupt line and hardware address.\<close>

record network_card =
  card_place :: place
  card_ports :: u32
  card_line :: u8
  card_mac :: bytes

definition card_port :: "network_card \<Rightarrow> u16 \<Rightarrow> u16" where
  "card_port c reg = ucast (card_ports c) + reg"

text \<open>The documented card: the firmware gave it ports above those of the chipset and one of the lines
  3 to 15, its first six registers hold its address, and after at most \<open>k\<close> looks at the command register
  a reset has ended.\<close>

definition rtl_card :: "device \<Rightarrow> (u32 \<Rightarrow> u32) \<Rightarrow> network_card \<Rightarrow> bool" where
  "rtl_card hw cfg c \<longleftrightarrow>
     register_at cfg (card_place c) PCI_BAR0 AND NOT 3 = card_ports c \<and>
     ucast (register_at cfg (card_place c) PCI_INTERRUPT_LINE AND 0xFF) = card_line c \<and>
     0x100 \<le> card_ports c \<and> card_ports c \<le> 0xFF00 \<and> 3 \<le> card_line c \<and> card_line c < 16 \<and>
     length (card_mac c) = 6 \<and> (\<forall>t. \<forall>i < 6. ucast (hw t (card_port c (of_nat i))) = card_mac c ! i) \<and>
     (\<exists>k. \<forall>t. (ucast (hw t (card_port c RTL_REG_CMD)) :: u8) AND CMD_RESET \<noteq> 0 \<longrightarrow>
        count_list t (Inb (card_port c RTL_REG_CMD)) < k)"

text \<open>The bus has at most one such card: none, or the given one.\<close>

definition bus_with :: "device \<Rightarrow> network_card option \<Rightarrow> bool" where
  "bus_with hw nw \<longleftrightarrow> (\<exists>cfg. pci_space hw cfg \<and>
     {p \<in> set places. names_rtl (register_at cfg p 0)} = set_option (map_option card_place nw) \<and>
     (\<forall>c. nw = Some c \<longrightarrow> rtl_card hw cfg c))"

section \<open>The stages\<close>

text \<open>What the card adds: its line and its handler; and the interface the kernel ends up with.\<close>

definition card_lines :: "network_card option \<Rightarrow> nat set" where
  "card_lines nw = (case nw of None \<Rightarrow> {} | Some c \<Rightarrow> {unat (card_line c)})"

definition boot_handlers :: "network_card option \<Rightarrow> handler option list" where
  "boot_handlers nw = (let hs = (replicate 256 None)[32 := Some Pit_Irq_Handler, 33 := Some Keyboard_Handler]
     in case nw of None \<Rightarrow> hs | Some c \<Rightarrow> hs[32 + unat (card_line c) := Some Rtl8139_Handler])"

definition hardware_netif :: "network_card option \<Rightarrow> netif" where
  "hardware_netif nw = (case nw of None \<Rightarrow> virtual_netif | Some c \<Rightarrow> rtl_interface (card_mac c))"

definition boot_netif :: "network_card option \<Rightarrow> netif" where
  "boot_netif nw = (hardware_netif nw)\<lparr>ip_cfg := static_config\<rparr>"

text \<open>The machine after each of the steps that set up interrupts and the network; until the bus scan
  nothing is allocated and no card is driven.\<close>

definition fresh :: "u32 \<Rightarrow> machine \<Rightarrow> bool" where
  "fresh a m \<longleftrightarrow> heap m = bump0 a \<and> rtl_netif (nic m) = None"

definition m_start :: "u32 \<Rightarrow> machine \<Rightarrow> bool" where
  "m_start a m \<longleftrightarrow> fresh a m \<and> timer_ticks m = 0 \<and> isr_handlers m = replicate 256 None"

definition m_pic :: "u32 \<Rightarrow> machine \<Rightarrow> bool" where
  "m_pic a m \<longleftrightarrow> m_start a m \<and> masks (trace m) \<noteq> None \<and> enabled (trace m) = {2}"

definition m_timer :: "u32 \<Rightarrow> machine \<Rightarrow> bool" where
  "m_timer a m \<longleftrightarrow> fresh a m \<and> timer_ticks m = 0 \<and> timer_hz m = 1000 \<and>
     isr_handlers m = (replicate 256 None)[32 := Some Pit_Irq_Handler] \<and> masks (trace m) \<noteq> None \<and> enabled (trace m) = {0, 2}"

definition m_lines :: "network_card option \<Rightarrow> machine \<Rightarrow> bool" where
  "m_lines nw m \<longleftrightarrow> timer_ticks m = 0 \<and> timer_hz m = 1000 \<and> isr_handlers m = boot_handlers nw \<and>
     masks (trace m) \<noteq> None \<and> enabled (trace m) = {0, 1, 2} \<union> card_lines nw"

definition m_irq :: "u32 \<Rightarrow> machine \<Rightarrow> bool" where
  "m_irq a m \<longleftrightarrow> fresh a m \<and> m_lines None m"

definition m_no_net :: "u32 \<Rightarrow> machine \<Rightarrow> bool" where
  "m_no_net a m \<longleftrightarrow> m_irq a m \<and> interfaces (nets m) = [] \<and> default_iface (nets m) = None"

definition m_scanned :: "network_card option \<Rightarrow> machine \<Rightarrow> bool" where
  "m_scanned nw m \<longleftrightarrow> m_lines nw m \<and> (case nw of
      None \<Rightarrow> interfaces (nets m) = [] \<and> default_iface (nets m) = None
    | Some c \<Rightarrow> interfaces (nets m) = [hardware_netif nw] \<and> default_iface (nets m) = Some 0)"

definition m_net :: "network_card option \<Rightarrow> machine \<Rightarrow> bool" where
  "m_net nw m \<longleftrightarrow> m_lines nw m \<and> interfaces (nets m) = [boot_netif nw] \<and> default_iface (nets m) = Some 0"

definition m_ready :: "network_card option \<Rightarrow> machine \<Rightarrow> bool" where
  "m_ready nw m \<longleftrightarrow> m_net nw m \<and> (\<exists>t. trace m = Sti # t)"

lemmas early_defs = fresh_def m_start_def m_pic_def m_timer_def
lemmas line_defs = m_lines_def card_lines_def boot_handlers_def
lemmas stage_defs = early_defs m_irq_def m_no_net_def m_scanned_def m_net_def m_ready_def

lemma quiet_stages [simp]: "quiet (m_start a)" "quiet (m_pic a)" "quiet (m_timer a)" "quiet (m_irq a)" "quiet (m_no_net a)"
  "quiet (m_lines nw)" "quiet (m_scanned nw)" "quiet (m_net nw)" "quiet (m_ready nw)"
  by (simp_all add: quiet_def stage_defs m_lines_def split: option.splits)

lemma triple_pic: "triple (m_start a) do_pic_init (m_pic a)"
  unfolding triple_def
proof (intro allI impI)
  fix m assume "m_start a m"
  then show "\<exists>m'. do_pic_init m = Some m' \<and> m_pic a m'"
    using do_pic_init_state [of m] pic_init_enabled [of "trace m"] by (auto simp: early_defs)
qed

lemma triple_timer:
  assumes "pic_device hw"
  shows "triple (m_pic a) (do_timer_init hw) (m_timer a)"
  unfolding triple_def
proof (intro allI impI)
  fix m assume m: "m_pic a m"
  then have "masks (trace m) \<noteq> None" by (simp add: early_defs)
  from pit_init_state [OF assms this, of 1000] m show "\<exists>m'. do_timer_init hw m = Some m' \<and> m_timer a m'"
    by (auto simp: early_defs do_timer_init_def)
qed

lemma triple_keyboard:
  assumes "pic_device hw" "kbc_device n hw"
  shows "triple (m_timer a) (do_keyboard_init hw) (m_irq a)"
  unfolding triple_def
proof (intro allI impI)
  fix m assume m: "m_timer a m"
  then have "masks (trace m) \<noteq> None" by (simp add: early_defs)
  from keyboard_init_state [OF assms this] m show "\<exists>m'. do_keyboard_init hw m = Some m' \<and> m_irq a m'"
    by (auto simp: early_defs m_irq_def line_defs do_keyboard_init_def)
qed

lemma triple_interrupts: "triple (m_start a) (do_interrupts_init gdt idt isr irq) (m_start a)"
  unfolding triple_def
proof (intro allI impI)
  fix m assume m: "m_start a m"
  let ?m = "m\<lparr>trace := snd (gdt_init gdt (replicate GDT_ENTRIES gdt_entry0) (trace m))\<rparr>"
  from KINFO_literal [of "''Initialized successfully'' @ nl" "''GDT''" ?m]
  show "\<exists>m'. do_interrupts_init gdt idt isr irq m = Some m' \<and> m_start a m'"
    using m by (auto simp: do_interrupts_init_def early_defs)
qed

lemma triple_netif_init: "triple (m_irq a) netif_init_step (m_no_net a)"
proof -
  have "triple (m_no_net a) (KINFO ''NET'' (''Network interface layer initialized'' @ nl) []) (m_no_net a)"
    by (intro triple_info_literal) simp_all
  then show ?thesis by (simp add: netif_init_step_def triple_def early_defs m_irq_def m_no_net_def m_lines_def netif_init_def)
qed


section \<open>The bus scan\<close>

definition scanned :: "machine \<Rightarrow> machine \<Rightarrow> bool" where
  "scanned m m' \<longleftrightarrow> (\<exists>t c. m' = m\<lparr>trace := t, vga := c\<rparr> \<and> same_masks (trace m) t)"

lemma scanned_trans:
  assumes "scanned m m'" "scanned m' m''"
  shows "scanned m m''"
proof -
  obtain t c where m': "m' = m\<lparr>trace := t, vga := c\<rparr>" "same_masks (trace m) t" using assms(1) by (auto simp: scanned_def)
  obtain u d where "m'' = m'\<lparr>trace := u, vga := d\<rparr>" "same_masks (trace m') u" using assms(2) by (auto simp: scanned_def)
  then have "m'' = m\<lparr>trace := u, vga := d\<rparr>" "same_masks (trace m) u" using m' same_masks_trans by auto
  then show ?thesis unfolding scanned_def by blast
qed

lemma scanned_parts [simp]:
  "scanned m m" "scanned m (m\<lparr>vga := c\<rparr>)" "same_masks (trace m) t \<Longrightarrow> scanned m (m\<lparr>trace := t\<rparr>)"
proof -
  have "m = m\<lparr>trace := trace m, vga := vga m\<rparr>" "m\<lparr>vga := c\<rparr> = m\<lparr>trace := trace m, vga := c\<rparr>"
    "m\<lparr>trace := t\<rparr> = m\<lparr>trace := t, vga := vga m\<rparr>" by simp_all
  then show "scanned m m" "scanned m (m\<lparr>vga := c\<rparr>)" "same_masks (trace m) t \<Longrightarrow> scanned m (m\<lparr>trace := t\<rparr>)"
    unfolding scanned_def using same_masks_io(1) by blast+
qed

lemma scanned_log: "intr_log level modul fmt args m = Some m' \<Longrightarrow> scanned m m'"
  by (auto simp: intr_log_def)

lemma config_read_masks: "same_masks t (snd (pci_config_read_dword hw b slot f off t))"
  by (simp add: pci_config_read_dword_def port_defs same_masks_def)

lemma pci_read_device_masks: "same_masks t (snd (pci_read_device hw b slot f v t))"
  unfolding pci_read_device_def Let_def split_beta snd_conv
  by (meson config_read_masks same_masks_trans)

lemma small_decimal: "piece_ok (Decimal (ucast (b::u8)))"
proof -
  have "\<not> bit (ucast b :: u32) 31" using bit_imp_le_length [of b 31] by (auto simp: bit_ucast_iff)
  then have "0 \<le> sint (ucast b :: u32)" using sint_neg_iff [of "ucast b"] by simp
  then show ?thesis by simp
qed

lemma pci_found_scanned: "\<exists>m'. pci_found dev m = Some m' \<and> scanned m m'"
proof -
  let ?ps = "[Literal (text_of ''Found [''), Width [48, 52] (Hexadecimal (ucast (vendor_id dev))), Literal [58],
    Width [48, 52] (Hexadecimal (ucast (device_id dev))), Literal (text_of ''] at ''), Width [48, 50] (Hexadecimal (ucast (bus dev))),
    Literal [58], Width [48, 50] (Hexadecimal (ucast (device dev))), Literal [46], Decimal (ucast (func dev)),
    Literal (text_of '' (IRQ ''), Decimal (ucast (pci_irq dev)), Literal [41, 10]]"
  have "\<forall>p \<in> set ?ps. piece_ok p" using small_decimal by (simp add: is_digit_def del: piece_ok.simps(2))
  moreover have "text_of (''Found [%04x:%04x] at %02x:%02x.%d (IRQ %d)'' @ nl) = concat (map piece_format ?ps)" by simp
  moreover have "[half_arg (vendor_id dev), half_arg (device_id dev), byte_arg (bus dev), byte_arg (device dev),
        byte_arg (func dev), byte_arg (pci_irq dev)] = concat (map piece_args ?ps)" by (simp add: half_arg_def byte_arg_def)
  ultimately obtain c where "pci_found dev m = Some (m\<lparr>vga := c\<rparr>)"
    using intr_log_pieces [where modul = "''PCI''" and level = LOG_DEBUG and m = m] unfolding pci_found_def KDEBUG_def by fastforce
  then show ?thesis using scanned_log unfolding pci_found_def KDEBUG_def by fastforce
qed

lemma pci_attach_scanned:
  assumes "\<not> is_rtl8139 dev"
  shows "\<exists>m'. pci_attach hw dev m = Some m' \<and> scanned m m'"
proof -
  obtain n where n: "pci_found dev m = Some n" "scanned m n" using pci_found_scanned by blast
  obtain c where c: "KINFO ''PCI'' (''Detected Intel E1000 Network Controller'' @ nl) [] n = Some (n\<lparr>vga := c\<rparr>)"
    using KINFO_literal [of "''Detected Intel E1000 Network Controller'' @ nl" "''PCI''" n] by auto
  then show ?thesis using n scanned_parts(2) [of n c] assms scanned_trans by (auto simp: pci_attach_def)
qed

lemma config_read:
  assumes "pci_space hw cfg"
  shows "fst (pci_config_read_dword hw b slot f off t) = cfg (pci_address b slot f off)"
  using assms by (simp add: pci_config_read_dword_def inl_def pci_space_def)

lemma pci_probe_other:
  assumes "pci_space hw cfg" "\<not> names_rtl (cfg (pci_address b slot f 0))"
  shows "\<exists>k' m'. pci_probe hw b slot f (k, m) = Some (k', m') \<and> scanned m m'"
proof -
  obtain v t where v: "pci_config_read_dword hw b slot f 0 (trace m) = (v, t)" by force
  have t: "same_masks (trace m) t" using config_read_masks [of "trace m" hw b slot f 0] v by simp
  have no: "\<not> names_rtl v" using assms(2) config_read [OF assms(1), of b slot f 0 "trace m"] v by simp
  obtain dev u where d: "pci_read_device hw b slot f v t = (dev, u)" by force
  have u: "same_masks (trace m) u" using pci_read_device_masks [of t hw b slot f v] d t same_masks_trans by auto
  have "\<not> is_rtl8139 dev" using d no by (auto simp: pci_read_device_def is_rtl8139_def names_rtl_def split_beta Let_def)
  from pci_attach_scanned [OF this] obtain n where
    n: "pci_attach hw dev (m\<lparr>trace := u\<rparr>) = Some n" "scanned (m\<lparr>trace := u\<rparr>) n" by blast
  show ?thesis
  proof (cases "v AND 0xFFFF = 0xFFFF")
    case True
    then show ?thesis using v t by (simp add: pci_probe_def)
  next
    case False
    then show ?thesis using v d n(1) scanned_trans [OF scanned_parts(3) [OF u] n(2)] by (simp add: pci_probe_def)
  qed
qed

text \<open>The three loops as one over the places.\<close>

lemma foldo_map: "foldo f (map g xs) s = foldo (\<lambda>x. f (g x)) xs s"
  by (induction xs arbitrary: s) (auto split: option.splits)

lemma foldo_product: "foldo (\<lambda>x. foldo (f x) ys) xs s = foldo (\<lambda>(x, y). f x y) (List.product xs ys) s"
  by (induction xs arbitrary: s) (auto simp: foldo_append foldo_map split: option.splits)

definition probe_at :: "device \<Rightarrow> place \<Rightarrow> u32 \<times> machine \<Rightarrow> (u32 \<times> machine) option" where
  "probe_at hw p = (case p of (b, slot, f) \<Rightarrow> pci_probe hw (of_nat b) (of_nat slot) (of_nat f))"

lemma pci_scan_places: "pci_scan hw m = foldo (probe_at hw) places (0, m)"
proof -
  have "(\<lambda>b. foldo (\<lambda>slot. foldo (\<lambda>f. pci_probe hw (of_nat b) (of_nat slot) (of_nat f)) [0..<8]) [0..<32])
    = (\<lambda>b. foldo (\<lambda>(slot, f). pci_probe hw (of_nat b) (of_nat slot) (of_nat f)) (List.product [0..<32] [0..<8]))"
    by (rule ext)+ (rule foldo_product)
  then have "pci_scan hw m = foldo (\<lambda>b. foldo (\<lambda>(slot, f). pci_probe hw (of_nat b) (of_nat slot) (of_nat f))
      (List.product [0..<32] [0..<8])) [0..<256] (0, m)" unfolding pci_scan_def by (rule arg_cong [where f = "\<lambda>g. foldo g [0..<256] (0, m)"])
  moreover have "probe_at hw = (\<lambda>(b, sf). (\<lambda>(slot, f). pci_probe hw (of_nat b) (of_nat slot) (of_nat f)) sf)"
    by (rule ext) (auto simp: probe_at_def)
  ultimately show ?thesis unfolding places_def by (simp only: foldo_product [of "\<lambda>b sf. (case sf of (slot, f) \<Rightarrow> pci_probe hw (of_nat b) (of_nat slot) (of_nat f))", symmetric])
qed

lemma distinct_places: "distinct places"
  unfolding places_def by (intro distinct_product distinct_upt)

lemma triple_foldo_one:
  assumes "distinct xs" "x \<in> set xs" "\<And>y. y \<in> set xs \<Longrightarrow> y \<noteq> x \<Longrightarrow> triple P (f y) P \<and> triple Q (f y) Q" "triple P (f x) Q"
  shows "triple P (foldo f xs) Q"
proof -
  obtain ys zs where xs: "xs = ys @ x # zs" using assms(2) by (auto simp: in_set_conv_decomp)
  have "triple P (foldo f ys) P" "triple Q (foldo f zs) Q"
    using assms(1,3) by (auto intro!: triple_foldo simp: xs)
  then show ?thesis unfolding triple_def
  proof (intro allI impI)
    fix s assume a: "\<forall>s. P s \<longrightarrow> (\<exists>s'. foldo f ys s = Some s' \<and> P s')" "\<forall>s. Q s \<longrightarrow> (\<exists>s'. foldo f zs s = Some s' \<and> Q s')" "P s"
    then obtain s1 where s1: "foldo f ys s = Some s1" "P s1" by blast
    obtain s2 where s2: "f x s1 = Some s2" "Q s2" using tripleD [OF assms(4) s1(2)] by blast
    then show "\<exists>s'. foldo f xs s = Some s' \<and> Q s'" using a(2) s1(1) by (simp add: xs foldo_append)
  qed
qed

section \<open>The card's set-up\<close>

lemma read_mac_address:
  assumes "\<forall>t. \<forall>i < length xs. ucast (hw t (p + of_nat i)) = xs ! i"
  shows "fst (read_mac (length xs) hw p t) = xs \<and> same_masks t (snd (read_mac (length xs) hw p t))"
  using assms
proof (induction xs arbitrary: p t)
  case (Cons x xs)
  have "\<forall>t. \<forall>i < length xs. ucast (hw t (p + 1 + of_nat i)) = xs ! i"
  proof (intro allI impI)
    fix t i assume "i < length xs"
    then show "ucast (hw t (p + 1 + of_nat i)) = xs ! i" using Cons.prems [rule_format, of "Suc i" t] by (simp add: ac_simps)
  qed
  note h = Cons.IH [OF this, of "snd (inb hw p t)"]
  have "same_masks t (snd (inb hw p t))" by simp
  from same_masks_trans [OF this] h have "same_masks t (snd (read_mac (length xs) hw (p + 1) (snd (inb hw p t))))" by blast
  then show ?case using h Cons.prems [rule_format, of 0 t] by (simp add: split_beta Let_def inb_def)
qed simp

lemma wait_reset_ends:
  assumes "\<forall>t. (ucast (hw t p) :: u8) AND CMD_RESET \<noteq> 0 \<longrightarrow> count_list t (Inb p) < k"
  shows "\<exists>t'. wait_reset hw p t = Some t' \<and> same_masks t t'"
proof (induction "k - count_list t (Inb p)" arbitrary: t rule: less_induct)
  case less
  let ?u = "snd (inb hw p t)"
  have m: "same_masks t ?u" by simp
  show ?case
  proof (cases "fst (inb hw p t) AND CMD_RESET = 0")
    case True
    then show ?thesis using m by (subst wait_reset.simps) simp
  next
    case False
    then have "count_list t (Inb p) < k" using assms by (simp add: inb_def)
    then have "k - count_list ?u (Inb p) < k - count_list t (Inb p)" by (simp add: inb_def)
    from less [OF this] obtain t' where "wait_reset hw p ?u = Some t'" "same_masks ?u t'" by blast
    moreover have "wait_reset hw p t = wait_reset hw p ?u" using False by (subst wait_reset.simps) (simp only: if_False)
    ultimately show ?thesis using same_masks_trans [OF m] by metis
  qed
qed

lemma register_first:
  assumes "interfaces (nets m) = []" "default_iface (nets m) = None" "0 \<notin> set (if_name iface)" "length (if_mac iface) = 6"
  shows "\<exists>c. register_interface iface m =
    Some (0, m\<lparr>nets := (nets m)\<lparr>interfaces := [iface], default_iface := Some 0\<rparr>, vga := c\<rparr>)"
proof -
  let ?n = "(nets m)\<lparr>interfaces := [iface], default_iface := Some 0\<rparr>"
  have r: "netif_register iface (nets m) = (0, ?n)" using assms(1,2) by (simp add: netif_register_def NETIF_MAX_def)
  obtain b0 b1 b2 b3 b4 b5 where mac: "if_mac iface = [b0, b1, b2, b3, b4, b5]"
    using assms(4) by (auto simp: numeral_eq_Suc length_Suc_conv)
  let ?byte = "\<lambda>b. Width [48, 50] (Hexadecimal (ucast b))"
  let ?ps = "[Literal (text_of (''Registered interface '' @ sq)), String (Some (if_name iface)), Literal (text_of (sq @ '' (MAC: '')),
    ?byte b0, Literal [58], ?byte b1, Literal [58], ?byte b2, Literal [58], ?byte b3, Literal [58], ?byte b4, Literal [58], ?byte b5,
    Literal [41, 10]]"
  have "text_of (''Registered interface '' @ sq @ ''%s'' @ sq @ '' (MAC: %02x:%02x:%02x:%02x:%02x:%02x)'' @ nl) = concat (map piece_format ?ps)"
    by simp
  moreover have "\<forall>p \<in> set ?ps. piece_ok p" using assms(3) by (simp add: is_digit_def)
  moreover have "str_arg (if_name iface) # map byte_arg (take 6 (if_mac iface)) = concat (map piece_args ?ps)"
    by (simp add: str_arg_def byte_arg_def mac)
  ultimately obtain c where "intr_log LOG_INFO ''NET'' (''Registered interface '' @ sq @ ''%s'' @ sq @ '' (MAC: %02x:%02x:%02x:%02x:%02x:%02x)'' @ nl)
      (str_arg (if_name iface) # map byte_arg (take 6 (if_mac iface))) (m\<lparr>nets := ?n\<rparr>) = Some (m\<lparr>nets := ?n\<rparr>\<lparr>vga := c\<rparr>)"
    using intr_log_pieces [of ?ps _ _ "''NET''" LOG_INFO "m\<lparr>nets := ?n\<rparr>"] by force
  moreover have "m\<lparr>nets := ?n\<rparr>\<lparr>vga := c\<rparr> = m\<lparr>nets := ?n, vga := c\<rparr>" by simp
  ultimately show ?thesis by (intro exI [of _ c]) (simp add: register_interface_def r KINFO_def)
qed

text \<open>The card's ports are not those of the interrupt controller.\<close>

lemma card_port_not_pic:
  assumes "0x100 \<le> card_ports c" "card_ports c \<le> 0xFF00" "reg < 0x100"
  shows "card_port c reg \<noteq> PIC1_DATA" "card_port c reg \<noteq> PIC2_DATA"
proof -
  have p: "0x100 \<le> unat (card_ports c)" "unat (card_ports c) \<le> 0xFF00" "unat reg < 0x100"
    using assms by (simp_all add: word_le_nat_alt word_less_nat_alt)
  then have u: "unat (ucast (card_ports c) :: u16) = unat (card_ports c)"
    by (simp only: unsigned_ucast_eq) (simp add: take_bit_nat_eq_self)
  have "unat (card_port c reg) = unat (card_ports c) + unat reg" unfolding card_port_def
    using p u by (subst unat_add_lem [THEN iffD1]) simp_all
  then have "0x100 \<le> unat (card_port c reg)" using p by simp
  then show "card_port c reg \<noteq> PIC1_DATA" "card_port c reg \<noteq> PIC2_DATA" by (auto simp: pic_ports)
qed

lemma rtl_setup_masks:
  assumes "rtl_card hw cfg c" "io_base r = card_ports c"
  shows "same_masks t (rtl_setup hw r buf t)"
  using card_port_not_pic [of c RTL_REG_CMD] assms
  by (simp add: rtl_setup_def rtl_port_def card_port_def rtl_card_def same_masks_def RTL_REG_CMD_def)

lemma first_block:
  assumes "a \<noteq> 0"
  shows "\<exists>h. bump_kmalloc RX_TOTAL_SIZE (bump0 a) = (a, h)"
  by (simp add: bump_kmalloc_def bump0_def STATIC_HEAP_SIZE_def RX_TOTAL_SIZE_def RX_BUF_SIZE_def)

lemma rtl8139_init_state:
  assumes "pic_device hw" "rtl_card hw cfg c" "a \<noteq> 0" "m_no_net a m"
    and "bar0 dev AND NOT 3 = card_ports c" "pci_irq dev = card_line c"
  shows "\<exists>m'. rtl8139_init hw dev m = Some m' \<and> m_scanned (Some c) m'"
proof -
  note c = assms(2) [unfolded rtl_card_def]
  let ?r = "(nic m)\<lparr>io_base := card_ports c\<rparr>"
  have port: "rtl_port (?r\<lparr>mac_addr := x, rx_buffer := y\<rparr>) reg = card_port c reg" "rtl_port ?r reg = card_port c reg" for reg x y
    by (simp_all add: rtl_port_def card_port_def)
  have "text_of (''Initializing at I/O base 0x%x'' @ nl) = concat (map piece_format
      [Literal (text_of ''Initializing at I/O base 0x''), Hexadecimal (card_ports c), Literal [10]])" by simp
  from intr_log_pieces [OF _ this, of "[Arg32 (card_ports c)]" "''RTL8139''" LOG_INFO m] obtain d where
    d: "KINFO ''RTL8139'' (''Initializing at I/O base 0x%x'' @ nl) [Arg32 (card_ports c)] m = Some (m\<lparr>vga := d\<rparr>)"
    by (auto simp: KINFO_def)
  define t1 where "t1 = outb (card_port c RTL_REG_CMD) CMD_RESET (outb (card_port c RTL_REG_CONFIG1) 0 (trace m))"
  have t1: "same_masks (trace m) t1" using card_port_not_pic [of c] c
    by (simp add: t1_def RTL_REG_CMD_def RTL_REG_CONFIG1_def)
  obtain k where "\<forall>t. (ucast (hw t (card_port c RTL_REG_CMD)) :: u8) AND CMD_RESET \<noteq> 0 \<longrightarrow>
      count_list t (Inb (card_port c RTL_REG_CMD)) < k" using c by blast
  from wait_reset_ends [where hw = hw, OF this, of t1] obtain t2 where
    t2: "wait_reset hw (card_port c RTL_REG_CMD) t1 = Some t2" "same_masks t1 t2" by blast
  have "\<forall>t. \<forall>i < length (card_mac c). ucast (hw t (card_port c RTL_REG_MAC0 + of_nat i)) = card_mac c ! i"
    using c by (simp add: card_port_def RTL_REG_MAC0_def)
  from read_mac_address [where t = t2 and hw = hw, OF this] c obtain t3 where
    t3: "read_mac 6 hw (card_port c RTL_REG_MAC0) t2 = (card_mac c, t3)" "same_masks t2 t3" by (metis prod.collapse)
  obtain h where h: "bump_kmalloc RX_TOTAL_SIZE (bump0 a) = (a, h)" using first_block [OF assms(3)] by blast
  let ?s = "?r\<lparr>mac_addr := card_mac c, rx_buffer := a\<rparr>"
  define t4 where "t4 = rtl_setup hw ?s a t3"
  have "same_masks t3 t4" using rtl_setup_masks [OF assms(2), of ?s] by (simp add: t4_def)
  then have t4: "same_masks (trace m) t4" using t1 t2(2) t3(2) same_masks_trans by blast
  let ?m = "m\<lparr>vga := d, nic := ?s, heap := h, trace := t4\<rparr>"
  have l: "3 \<le> unat (card_line c)" "unat (card_line c) < 16" using c by (simp_all add: word_le_nat_alt word_less_nat_alt)
  have u: "unat (32 + card_line c) = 32 + unat (card_line c)" using l by (subst unat_add_lem [THEN iffD1]) simp_all
  have "int (32 + unat (card_line c)) < 256" using l by linarith
  from isr_register_ok [OF _ this, of Rtl8139_Handler ?m] obtain e where
    e: "isr_register_handler (int (unat (32 + card_line c))) Rtl8139_Handler ?m
      = Some (?m\<lparr>isr_handlers := (isr_handlers m)[32 + unat (card_line c) := Some Rtl8139_Handler], vga := e\<rparr>)"
    unfolding u nat_int by auto
  have "masks t4 \<noteq> None" "enabled t4 = {0, 1, 2}"
    using same_masks_enabled [OF t4] assms(4) by (auto simp: m_no_net_def m_irq_def line_defs)
  with pic_unmask_enabled [OF assms(1), of t4 "card_line c"] c obtain t5 where
    t5: "pic_unmask_irq hw (card_line c) t4 = Some t5" "masks t5 \<noteq> None" "enabled t5 = insert (unat (card_line c)) {0, 1, 2}"
    by auto
  let ?n = "?m\<lparr>isr_handlers := (isr_handlers m)[32 + unat (card_line c) := Some Rtl8139_Handler], vga := e, trace := t5\<rparr>"
  have net: "interfaces (nets m) = []" "default_iface (nets m) = None" "rtl_netif (nic m) = None" "heap m = bump0 a"
    using assms(4) by (simp_all add: m_no_net_def m_irq_def fresh_def)
  obtain g where g: "register_interface (rtl_interface (card_mac c)) ?n =
      Some (0, ?n\<lparr>nets := (nets m)\<lparr>interfaces := [rtl_interface (card_mac c)], default_iface := Some 0\<rparr>, vga := g\<rparr>)"
    using register_first [of ?n "rtl_interface (card_mac c)"] net c by (auto simp: rtl_interface_def)
  let ?e = "?n\<lparr>nets := (nets m)\<lparr>interfaces := [rtl_interface (card_mac c)], default_iface := Some 0\<rparr>, vga := g,
    nic := ?s\<lparr>rtl_netif := Some 0\<rparr>\<rparr>"
  have "rtl8139_init hw dev m = Some ?e"
    using d t2(1) t3(1) h e t5(1) g net assms(3,5,6)
    by (simp add: rtl8139_init_def port t1_def [symmetric] t4_def [symmetric])
  moreover have "m_scanned (Some c) ?e" using assms(4) t5
    by (simp add: m_scanned_def m_no_net_def m_irq_def line_defs hardware_netif_def insert_commute)
  ultimately show ?thesis by blast
qed

section \<open>The scan as a whole\<close>

lemma scanned_stage:
  assumes "scanned m m'"
  shows "m_no_net a m \<Longrightarrow> m_no_net a m'" "m_scanned nw m \<Longrightarrow> m_scanned nw m'"
  using assms same_masks_enabled
  by (auto simp: scanned_def m_no_net_def m_irq_def m_scanned_def m_lines_def fresh_def split: option.splits)

lemma pci_probe_card:
  assumes "pic_device hw" "pci_space hw cfg" "names_rtl (register_at cfg (card_place c) 0)" "rtl_card hw cfg c" "a \<noteq> 0" "m_no_net a m"
  shows "\<exists>k' m'. probe_at hw (card_place c) (k, m) = Some (k', m') \<and> m_scanned (Some c) m'"
proof -
  obtain b slot f where p: "card_place c = (b, slot, f)" using prod_cases3 by blast
  let ?b = "of_nat b :: u8" and ?slot = "of_nat slot :: u8" and ?f = "of_nat f :: u8"
  obtain v t where v: "pci_config_read_dword hw ?b ?slot ?f 0 (trace m) = (v, t)" by force
  have t: "same_masks (trace m) t" using config_read_masks [of "trace m" hw ?b ?slot ?f 0] v by simp
  have v': "names_rtl v" using assms(3) config_read [OF assms(2), of ?b ?slot ?f 0 "trace m"] v by (simp add: register_at_def p)
  have e: "v AND 0xFFFF \<noteq> 0xFFFF"
  proof
    assume "v AND 0xFFFF = 0xFFFF"
    then have "ucast (0xFFFF :: u32) = (0x10EC :: u16)" using v' unfolding names_rtl_def by metis
    then show False by simp
  qed
  obtain dev u where d: "pci_read_device hw ?b ?slot ?f v t = (dev, u)" by force
  have u: "scanned m (m\<lparr>trace := u\<rparr>)" using pci_read_device_masks [of t hw ?b ?slot ?f v] d t same_masks_trans by auto
  have dev: "is_rtl8139 dev" "\<not> is_e1000 dev" "bar0 dev AND NOT 3 = card_ports c" "pci_irq dev = card_line c"
    using d v' assms(4) config_read [OF assms(2)]
    by (auto simp: pci_read_device_def is_rtl8139_def is_e1000_def names_rtl_def rtl_card_def register_at_def p split_beta Let_def)
  obtain n where n: "pci_found dev (m\<lparr>trace := u\<rparr>) = Some n" "scanned (m\<lparr>trace := u\<rparr>) n" using pci_found_scanned by blast
  obtain d where "KINFO ''PCI'' (''Detected RTL8139 Network Controller'' @ nl) [] n = Some (n\<lparr>vga := d\<rparr>)"
    using KINFO_literal [of "''Detected RTL8139 Network Controller'' @ nl" "''PCI''" n] by auto
  moreover have "m_no_net a (n\<lparr>vga := d\<rparr>)"
    using scanned_stage(1) [OF scanned_trans [OF u scanned_trans [OF n(2) scanned_parts(2)]] assms(6)] .
  from rtl8139_init_state [OF assms(1,4,5) this dev(3,4)] obtain m' where
    "rtl8139_init hw dev (n\<lparr>vga := d\<rparr>) = Some m'" "m_scanned (Some c) m'" by blast
  ultimately have "pci_attach hw dev (m\<lparr>trace := u\<rparr>) = Some m'" "m_scanned (Some c) m'"
    using n(1) dev(1,2) by (simp_all add: pci_attach_def)
  then show ?thesis using v \<open>pci_read_device hw ?b ?slot ?f v t = (dev, u)\<close> e by (simp add: probe_at_def p pci_probe_def)
qed

lemma triple_places:
  assumes "pic_device hw" "bus_with hw nw" "nw \<noteq> None \<Longrightarrow> a \<noteq> 0"
  shows "triple (\<lambda>(k, m). m_no_net a m) (foldo (probe_at hw) places) (\<lambda>(k, m). m_scanned nw m)"
proof -
  obtain cfg where cfg: "pci_space hw cfg" "{p \<in> set places. names_rtl (register_at cfg p 0)} = set_option (map_option card_place nw)"
    "\<And>c. nw = Some c \<Longrightarrow> rtl_card hw cfg c" using assms(2) by (auto simp: bus_with_def)
  have other: "triple (\<lambda>(k, m). m_no_net a m) (probe_at hw p) (\<lambda>(k, m). m_no_net a m)"
    "triple (\<lambda>(k, m). m_scanned nw' m) (probe_at hw p) (\<lambda>(k, m). m_scanned nw' m)"
    if "\<not> names_rtl (register_at cfg p 0)" for p nw'
  proof -
    obtain b slot f where p: "p = (b, slot, f)" using prod_cases3 by blast
    have "\<not> names_rtl (cfg (pci_address (of_nat b) (of_nat slot) (of_nat f) 0))" using that by (simp add: register_at_def p)
    from pci_probe_other [OF cfg(1) this] show "triple (\<lambda>(k, m). m_no_net a m) (probe_at hw p) (\<lambda>(k, m). m_no_net a m)"
      "triple (\<lambda>(k, m). m_scanned nw' m) (probe_at hw p) (\<lambda>(k, m). m_scanned nw' m)"
      using scanned_stage by (fastforce simp: triple_def probe_at_def p)+
  qed
  show ?thesis
  proof (cases nw)
    case None
    then have "triple (\<lambda>(k, m). m_no_net a m) (foldo (probe_at hw) places) (\<lambda>(k, m). m_no_net a m)"
      using cfg(2) other(1) by (intro triple_foldo) auto
    then show ?thesis using None by (simp add: triple_def m_no_net_def m_irq_def m_scanned_def) fast
  next
    case (Some c)
    then have c: "card_place c \<in> set places" "names_rtl (register_at cfg (card_place c) 0)"
      "\<And>p. p \<in> set places \<Longrightarrow> p \<noteq> card_place c \<Longrightarrow> \<not> names_rtl (register_at cfg p 0)" using cfg(2) by auto
    have "triple (\<lambda>(k, m). m_no_net a m) (probe_at hw (card_place c)) (\<lambda>(k, m). m_scanned nw m)"
      using pci_probe_card [OF assms(1) cfg(1) c(2) cfg(3) [OF Some]] assms(3) Some unfolding triple_def by fastforce
    with distinct_places c(1) show ?thesis using other c(3) by (intro triple_foldo_one [where x = "card_place c"]) blast+
  qed
qed

lemma triple_pci:
  assumes "pic_device hw" "bus_with hw nw" "nw \<noteq> None \<Longrightarrow> a \<noteq> 0"
  shows "triple (m_no_net a) (pci_init hw) (m_scanned nw)"
  unfolding triple_def
proof (intro allI impI)
  fix m assume m: "m_no_net a m"
  obtain c where c: "KINFO ''PCI'' (''Scanning PCI bus...'' @ nl) [] m = Some (m\<lparr>vga := c\<rparr>)"
    using KINFO_literal [of "''Scanning PCI bus...'' @ nl" "''PCI''" m] by auto
  have "m_no_net a (m\<lparr>vga := c\<rparr>)" using scanned_stage(1) [OF scanned_parts(2) m] .
  then obtain k n where n: "pci_scan hw (m\<lparr>vga := c\<rparr>) = Some (k, n)" "m_scanned nw n"
    using tripleD [OF triple_places [OF assms], of "(0, m\<lparr>vga := c\<rparr>)"] unfolding pci_scan_places by auto
  have "text_of (''Scan complete. Found %u devices.'' @ nl) = concat (map piece_format
      [Literal (text_of ''Scan complete. Found ''), Unsigned k, Literal (text_of '' devices.'' @ [10])])" by simp
  from intr_log_pieces [OF _ this, of "[Arg32 k]" "''PCI''" LOG_INFO n] obtain d where
    d: "KINFO ''PCI'' (''Scan complete. Found %u devices.'' @ nl) [Arg32 k] n = Some (n\<lparr>vga := d\<rparr>)" by (auto simp: KINFO_def)
  have "m_scanned nw (n\<lparr>vga := d\<rparr>)" using scanned_stage(2) [OF scanned_parts(2) n(2)] .
  then show "\<exists>m'. pci_init hw m = Some m' \<and> m_scanned nw m'" using c n(1) d by (simp add: pci_init_def)
qed

section \<open>The network\<close>

lemma triple_net_init: "quiet M \<Longrightarrow> triple M net_init M"
  unfolding net_init_def ip4_init_def icmp_init_def arp_init_def udp_init_def tcp_init_def dhcp_init_def dns_init_def
  by (intro triple_bind [where Q = M] triple_info_literal) simp_all

lemma print_address:
  assumes "terminated a"
  shows "\<exists>c. KINFO ''NET'' ''Configured static IP: %s'' [ArgStr (Some a)] m = Some (m\<lparr>vga := c\<rparr>)"
proof -
  have e: "arg_str [ArgStr (Some a)] = arg_str [str_arg (cstr a)]"
    using assms cstr_no_zero [of a] by (simp add: arg_str_def str_arg_def)
  have "text_of ''Configured static IP: %s'' @ [0] = text_of ''Configured static IP: '' @ 37 # 115 # [0]" by simp
  then have "kprint ''Configured static IP: %s'' [ArgStr (Some a)] c = kprint ''Configured static IP: %s'' [str_arg (cstr a)] c" for c
    unfolding kprint_def kprintf_def kvprintf_def
    by (simp add: literal_loop kvprintf_conv_def e del: text_of_simps) (simp add: kvprintf_conv_def e literal_loop)
  then have k: "KINFO ''NET'' ''Configured static IP: %s'' [ArgStr (Some a)] m = KINFO ''NET'' ''Configured static IP: %s'' [str_arg (cstr a)] m"
    by (simp add: KINFO_def intr_log_def klog_def)
  have "text_of ''Configured static IP: %s'' = concat (map piece_format [Literal (text_of ''Configured static IP: ''), String (Some (cstr a))])"
    by simp
  from intr_log_pieces [OF _ this, of "[str_arg (cstr a)]" "''NET''" LOG_INFO m] cstr_no_zero [of a] show ?thesis unfolding k
    by (simp add: KINFO_def str_arg_def)
qed

lemma hardware_name: "if_name (hardware_netif nw) \<in> {[100, 101, 109, 111], [101, 116, 104, 48]}"
  by (auto simp: hardware_netif_def virtual_netif_def rtl_interface_def split: option.splits)

lemma configure_boot:
  assumes "m_lines nw m" "interfaces (nets m) = [hardware_netif nw]" "default_iface (nets m) = Some 0"
  shows "\<exists>m'. configure_interface 0 m = Some m' \<and> m_net nw m'"
proof -
  let ?i = "hardware_netif nw"
  have name: "0 \<notin> set (if_name ?i)" using hardware_name [of nw] by auto
  have "text_of (''Configuring network interface '' @ sq @ ''%s'' @ sq) = concat (map piece_format
      [Literal (text_of (''Configuring network interface '' @ sq)), String (Some (if_name ?i)), Literal [39]])" by simp
  from intr_log_pieces [OF _ this, of "[str_arg (if_name ?i)]" "''NET''" LOG_INFO m] name obtain c where
    c: "KINFO ''NET'' (''Configuring network interface '' @ sq @ ''%s'' @ sq) [str_arg (if_name ?i)] m = Some (m\<lparr>vga := c\<rparr>)"
    by (auto simp: KINFO_def str_arg_def)
  let ?m = "m\<lparr>vga := c, nets := put_netif 0 (boot_netif nw) (nets m)\<rparr>"
  obtain a where a: "ip4_to_str (cfg_addr static_config) (replicate 16 0) = Some a" "terminated a"
  proof -
    have "map_option terminated (ip4_to_str (cfg_addr static_config) (replicate 16 0)) = Some True" by code_simp
    then show ?thesis using that by auto
  qed
  obtain d where d: "KINFO ''NET'' ''Configured static IP: %s'' [ArgStr (Some a)] ?m = Some (?m\<lparr>vga := d\<rparr>)"
    using print_address [OF a(2)] by blast
  have v: "ip_cfg (boot_netif nw) = static_config" "interfaces (put_netif 0 (boot_netif nw) (nets m)) = [boot_netif nw]"
    using assms(2) by (simp_all add: boot_netif_def put_netif_def)
  have "configure_interface 0 m = Some (?m\<lparr>vga := d\<rparr>)"
    using c d a(1) assms(2) v by (simp add: configure_interface_def dhcp_discover_def boot_netif_def [symmetric] del: append.simps append_Nil)
  moreover have "m_net nw (?m\<lparr>vga := d\<rparr>)"
    using assms v(2) by (simp add: m_net_def m_lines_def put_netif_def)
  ultimately show ?thesis by blast
qed

lemma triple_start_networking: "triple (m_scanned nw) start_networking_step (m_net nw)"
  unfolding triple_def
proof (intro allI impI)
  fix m assume m: "m_scanned nw m"
  show "\<exists>m'. start_networking_step m = Some m' \<and> m_net nw m'"
  proof (cases nw)
    case (Some c)
    then show ?thesis using configure_boot [of nw m] m
      by (simp add: m_scanned_def start_networking_step_def netif_get_default_def)
  next
    case None
    let ?w = "''No hardware network interface available, creating virtual interface''"
    have "triple (m_scanned nw) (KWARN ''NET'' ?w []) (m_scanned nw)" by (intro triple_info_literal) simp_all
    from tripleD [OF this m] obtain n where n: "KWARN ''NET'' ?w [] m = Some n" "m_scanned nw n" by blast
    have e: "interfaces (nets n) = []" "default_iface (nets n) = None" using n(2) None by (simp_all add: m_scanned_def)
    from register_first [OF this, of virtual_netif] obtain c where
      r: "register_interface virtual_netif n = Some (0, n\<lparr>nets := (nets n)\<lparr>interfaces := [virtual_netif], default_iface := Some 0\<rparr>, vga := c\<rparr>)"
      by (auto simp: virtual_netif_def)
    let ?t = "''Created virtual network interface '' @ sq @ ''demo'' @ sq @ '' for environments without hardware NIC'' @ nl"
    let ?r = "n\<lparr>nets := (nets n)\<lparr>interfaces := [virtual_netif], default_iface := Some 0\<rparr>, vga := c\<rparr>"
    obtain d where d: "KINFO ''NET'' ?t [] ?r = Some (?r\<lparr>vga := d\<rparr>)" using KINFO_literal [of ?t "''NET''" ?r] by auto
    have v: "m_lines nw (?r\<lparr>vga := d\<rparr>)" "interfaces (nets (?r\<lparr>vga := d\<rparr>)) = [hardware_netif nw]" "default_iface (nets (?r\<lparr>vga := d\<rparr>)) = Some 0"
      using n(2) None by (simp_all add: m_scanned_def m_lines_def hardware_netif_def)
    from configure_boot [OF this] obtain m' where "configure_interface 0 (?r\<lparr>vga := d\<rparr>) = Some m'" "m_net nw m'" by blast
    moreover have "create_virtual_step n = Some (?r\<lparr>vga := d\<rparr>)" using r d by (simp add: create_virtual_step_def)
    moreover have "netif_get_default (nets m) = None" using m None by (simp add: netif_get_default_def m_scanned_def)
    ultimately show ?thesis using n(1) v(3) by (simp add: start_networking_step_def netif_get_default_def)
  qed
qed

lemma triple_memory_map: "triple (m_start a) (init_memory_map info mem) (m_start a)"
proof -
  let ?w = "''No multiboot memory map '' @ [CHR 0xE2, CHR 0x80, CHR 0x94] @ '' assuming default RAM''"
  have "triple (m_start a) (\<lambda>m. case info of
             Some i \<Rightarrow> if mb_flags i AND MB_FLAG_MMAP \<noteq> 0 then Some m else KWARN ''kernel'' ?w [] m
           | None \<Rightarrow> KWARN ''kernel'' ?w [] m) (m_start a)"
    using triple_info_literal(2) [of "m_start a" ?w "''kernel''"] by (cases info) (simp_all add: triple_def)
  moreover have "triple (m_start a) (stub_pmm_init es) (m_start a)" for es
  proof -
    have "text_of ''PMM initialized with %u memory map entries'' = concat (map piece_format
      [Literal (text_of ''PMM initialized with ''), Unsigned (of_nat (length es)), Literal (text_of '' memory map entries'')])" by simp
    note l = triple_log [OF quiet_stages(1) [of a] _ this, of "[Arg32 (of_nat (length es))]" "''MM''" LOG_INFO]
    show ?thesis unfolding stub_pmm_init_def [abs_def] KINFO_def by (rule l) simp_all
  qed
  ultimately show ?thesis unfolding init_memory_map_def by (rule triple_bind)
qed

lemma triple_sti: "triple (m_net nw) (\<lambda>m. Some (m\<lparr>trace := sti (trace m)\<rparr>)) (m_ready nw)"
  unfolding triple_def
proof (intro allI impI)
  fix m assume m: "m_net nw m"
  have "same_masks (trace m) (sti (trace m))" by (simp add: same_masks_def sti_def)
  from same_masks_enabled [OF this] m have "m_ready nw (m\<lparr>trace := sti (trace m)\<rparr>)"
    by (simp add: m_ready_def m_net_def m_lines_def sti_def)
  then show "\<exists>m'. Some (m\<lparr>trace := sti (trace m)\<rparr>) = Some m' \<and> m_ready nw m'" by simp
qed

section \<open>Machines to show it on\<close>

text \<open>A bus without a card, and the one of the emulator: the card in slot 3 with ports from 0xC000 and line 11.\<close>

definition demo_card :: network_card where
  "demo_card = \<lparr>card_place = (0, 3, 0), card_ports = 0xC000, card_line = 11, card_mac = [0x52, 0x54, 0, 0x12, 0x34, 0x56]\<rparr>"

definition demo_config :: "u32 \<Rightarrow> u32" where
  "demo_config a = (if a = pci_address 0 3 0 0 then 0x813910EC
     else if a = pci_address 0 3 0 PCI_BAR0 then 0xC001
     else if a = pci_address 0 3 0 PCI_INTERRUPT_LINE then 11 else 0xFFFFFFFF)"

definition demo_bus :: device where
  "demo_bus t p =
     (if p = PCI_CONFIG_DATA then (case t of Outl q a # _ \<Rightarrow> if q = PCI_CONFIG_ADDRESS then demo_config a else 0 | _ \<Rightarrow> 0)
      else if 0xC000 \<le> p \<and> p < 0xC006 then ucast (card_mac demo_card ! unat (p - 0xC000))
      else demo_pic t p)"

lemma demo_bus_devices: "pic_device demo_bus" "kbc_device 0 demo_bus"
proof -
  show "pic_device demo_bus" using demo_pic_device
    by (auto simp: pic_device_def demo_bus_def PCI_CONFIG_DATA_def pic_ports)
  show "kbc_device 0 demo_bus" using kbc_demo_pic
    by (auto simp: kbc_device_def demo_bus_def PCI_CONFIG_DATA_def PS2_STATUS_PORT_def)
qed

lemma demo_pic_bus: "bus_with demo_pic None"
proof -
  have "pci_space demo_pic (\<lambda>_. 0)" by (simp add: pci_space_def demo_pic_def PCI_CONFIG_DATA_def pic_ports)
  moreover have "{p \<in> set places. names_rtl (register_at (\<lambda>_. 0) p 0)} = {}"
    by (auto simp: register_at_def names_rtl_def split: prod.splits)
  ultimately show ?thesis unfolding bus_with_def by fastforce
qed

lemma place_unique:
  assumes "(b, slot, f) \<in> set places" "pci_address (of_nat b) (of_nat slot) (of_nat f) off = pci_address 0 3 0 off'"
  shows "b = 0 \<and> slot = 3 \<and> f = 0"
proof -
  have r: "b < 256" "slot < 32" "f < 8" using assms(1) by (auto simp: places_def)
  then have s: "(of_nat slot :: u8) < 32" "(of_nat f :: u8) < 8" by (simp_all add: word_less_nat_alt unat_of_nat)
  note x = pci_address_fields [OF s, of "of_nat b" off, unfolded assms(2)] pci_address_fields [of 3 0 0 off']
  then have "(of_nat b :: u8) = 0" "ucast (of_nat slot :: u8) = (ucast (3 :: u8) :: u32)" "ucast (of_nat f :: u8) = (ucast (0 :: u8) :: u32)"
    by auto
  then have "unat (of_nat b :: u8) = 0" "unat (ucast (of_nat slot :: u8) :: u32) = 3" "unat (ucast (of_nat f :: u8) :: u32) = 0" by simp_all
  then show ?thesis using r by (simp add: unat_of_nat unsigned_ucast_eq take_bit_nat_eq_self)
qed

lemma demo_bus_card: "bus_with demo_bus (Some demo_card)"
proof -
  have s: "pci_space demo_bus demo_config"
    by (simp add: pci_space_def demo_bus_def outl_def)
  have v: "names_rtl 0x813910EC" "\<not> names_rtl 0xC001" "\<not> names_rtl 11" "\<not> names_rtl 0xFFFFFFFF" unfolding names_rtl_def by code_simp+
  have m: "(0, 3, 0) \<in> set places" and z: "(of_nat 0 :: u8) = 0" by (simp_all add: places_def)
  have "p = (0, 3, 0)" if p: "p \<in> set places" "names_rtl (register_at demo_config p 0)" for p
  proof -
    obtain b slot f where e: "p = (b, slot, f)" using prod_cases3 by blast
    let ?a = "pci_address (of_nat b) (of_nat slot) (of_nat f) 0"
    have "\<exists>off. ?a = pci_address 0 3 0 off"
    proof (rule ccontr)
      assume "\<not> ?thesis"
      then have "demo_config ?a = 0xFFFFFFFF" by (simp only: demo_config_def) (metis (full_types))
      then show False using p(2) v(4) by (simp only: register_at_def e prod.case)
    qed
    then obtain off where "?a = pci_address 0 3 0 off" by blast
    from place_unique [OF p(1) [unfolded e] this] show ?thesis by (simp add: e)
  qed
  moreover have "names_rtl (register_at demo_config (0, 3, 0) 0)"
    using v(1) by (simp only: register_at_def prod.case demo_config_def z of_nat_numeral if_True simp_thms)
  ultimately have one: "{p \<in> set places. names_rtl (register_at demo_config p 0)} = {(0, 3, 0)}" using m by blast
  have "pci_address 0 3 0 PCI_BAR0 \<noteq> pci_address 0 3 0 0" "pci_address 0 3 0 PCI_INTERRUPT_LINE \<noteq> pci_address 0 3 0 0"
    "pci_address 0 3 0 PCI_INTERRUPT_LINE \<noteq> pci_address 0 3 0 PCI_BAR0" by code_simp+
  then have r: "register_at demo_config (card_place demo_card) PCI_BAR0 = 0xC001"
    "register_at demo_config (card_place demo_card) PCI_INTERRUPT_LINE = 11"
    by (simp_all add: register_at_def demo_config_def demo_card_def)
  have w: "0xC001 AND NOT 3 = (0xC000 :: u32)" "ucast (11 AND 0xFF :: u32) = (11 :: u8)" by code_simp+
  have mac: "ucast (demo_bus t (card_port demo_card (of_nat i))) = card_mac demo_card ! i" if "i < 6" for t i
  proof -
    have "i \<in> {0, 1, 2, 3, 4, 5}" using that by auto
    then show ?thesis by (auto simp: demo_bus_def card_port_def demo_card_def PCI_CONFIG_DATA_def)
  qed
  have "demo_bus t (card_port demo_card RTL_REG_CMD) = 0" for t
    by (simp add: demo_bus_def demo_pic_def card_port_def demo_card_def PCI_CONFIG_DATA_def RTL_REG_CMD_def pic_ports)
  then have "rtl_card demo_bus demo_config demo_card" unfolding rtl_card_def r w using mac by (simp add: demo_card_def w)
  then show ?thesis unfolding bus_with_def using s one by (intro exI [of _ demo_config]) (simp add: demo_card_def)
qed

end
