(* ===== verification/Boot_Spec.thy ===== *)
theory Boot_Spec
  imports Login_Spec Machine_Start
begin

text \<open>
  The start-up as a whole: from power on over documented devices to the first login, and a session.
  The triples of the machine's steps compose as the steps do.
\<close>

section \<open>Steps of the system\<close>

text \<open>A property of the system that does not look at the screen survives printing.\<close>

definition screen_free :: "(sys \<Rightarrow> bool) \<Rightarrow> bool" where
  "screen_free P \<longleftrightarrow> (\<forall>c s. P (set_con c s) = P s)"

lemma screen_free_on_con: "screen_free P \<Longrightarrow> P (on_con g s) = P s"
  by (simp add: on_con_def screen_free_def)

lemma triple_say:
  assumes "screen_free P" "\<forall>p \<in> set ps. piece_ok p" "text_of fmt = concat (map piece_format ps)" "args = concat (map piece_args ps)"
  shows "triple P (say fmt args) P"
  using say_pieces [OF assms(2-4)] by (simp add: triple_def screen_free_on_con [OF assms(1)])

lemma triple_say_literal:
  assumes "screen_free P" "0 \<notin> set (text_of fmt)" "37 \<notin> set (text_of fmt)"
  shows "triple P (say fmt []) P"
  using assms by (intro triple_say [where ps = "[Literal (text_of fmt)]"]) simp_all

lemma triple_on_con:
  assumes "screen_free P" "triple P f Q"
  shows "triple P (\<lambda>s. f (on_con g s)) Q"
  using assms(2) by (simp add: triple_def screen_free_on_con [OF assms(1)])

lemma triple_colour: "screen_free P \<Longrightarrow> triple P (\<lambda>s. Some (on_con g s)) P"
  by (simp add: triple_def screen_free_on_con)

text \<open>What the start-up keeps of the rest of the system; the heap is one.\<close>

definition boot_inv :: "bytes \<Rightarrow> (machine \<Rightarrow> bool) \<Rightarrow> sys \<Rightarrow> bool" where
  "boot_inv ks M s \<longleftrightarrow> M (mach s) \<and> keys s = ks \<and> mount_list (files s) = [] \<and> current_user s = text_of ''guest'' \<and>
     cwd s = [47] \<and> length (shell_input s) = SHELL_BUF_SIZE \<and> \<not> halted s \<and> heap (mach s) = fs_heap (files s)"

lemma screen_free_boot: "quiet M \<Longrightarrow> screen_free (boot_inv ks M)"
  by (simp add: screen_free_def boot_inv_def set_con_def quiet_vga)

lemma triple_on_machine:
  assumes "triple M f N"
  shows "triple (boot_inv ks M) (on_machine f) (boot_inv ks N)"
  unfolding triple_def
proof (intro allI impI)
  fix s assume s: "boot_inv ks M s"
  then have "M ((mach s)\<lparr>heap := fs_heap (files s)\<rparr>)" by (cases "mach s") (simp add: boot_inv_def)
  from tripleD [OF assms(1) this] show "\<exists>s'. on_machine f s = Some s' \<and> boot_inv ks N s'"
    using s by (auto simp: on_machine_def boot_inv_def)
qed

lemma triple_init_step:
  assumes "quiet M" "quiet N" "0 \<notin> set (text_of name)" "triple (boot_inv ks M) fn (boot_inv ks N)"
  shows "triple (boot_inv ks M) (init_step name fn) (boot_inv ks N)"
proof -
  note f = screen_free_boot [OF assms(1)] and g = screen_free_boot [OF assms(2)]
  have "text_of ''  Initializing %-30s  '' = concat (map piece_format
      [Literal (text_of ''  Initializing ''), Width [45, 51, 48] (String (Some (text_of name))), Literal [32, 32]])" by simp
  from triple_say [OF f _ this, of "[str_arg (text_of name)]"] assms(3)
  have "triple (boot_inv ks M) (say ''  Initializing %-30s  '' [str_arg (text_of name)]) (boot_inv ks M)"
    by (simp add: str_arg_def is_digit_def)
  moreover have "triple (boot_inv ks N) (\<lambda>s. say (''[  OK  ]'' @ nl) [] (on_con (console_set_color VGA_SUCCESS_ATTR) s)) (boot_inv ks N)"
    by (intro triple_on_con triple_say_literal g) simp_all
  ultimately show ?thesis unfolding init_step_def Let_def
    using assms(4) triple_colour [OF g] by (intro triple_bind)
qed

section \<open>From power on to the login\<close>

lemma triple_vfs_init: "quiet M \<Longrightarrow> triple (boot_inv ks M) do_vfs_init (boot_inv ks M)"
proof -
  assume q: "quiet M"
  have "triple (boot_inv ks M) (on_machine (KINFO ''vfs'' ''VFS initialized'' [])) (boot_inv ks M)"
    by (intro triple_on_machine triple_info_literal q) simp_all
  then show ?thesis by (simp add: triple_def do_vfs_init_def boot_inv_def set_files_def vfs_init_def)
qed

lemma triple_banner:
  assumes "screen_free P" "0 \<notin> set date"
  shows "triple P (print_banner date) P"
proof -
  have l: "triple P (\<lambda>s. say f [] (on_con g s)) P"
    "triple P (say f []) P" if "0 \<notin> set (text_of f)" "37 \<notin> set (text_of f)" for f g
    using triple_on_con [OF assms(1) triple_say_literal [OF assms(1) that]] triple_say_literal [OF assms(1) that] by auto
  have "\<forall>f \<in> set banner. 0 \<notin> set (text_of f) \<and> 37 \<notin> set (text_of f)" by code_simp
  then have "triple P (foldo (\<lambda>l. say l []) banner) P" using l(2) by (intro triple_foldo) blast
  note b = triple_on_con [OF assms(1) this, of "console_set_color (VGA_ATTR COLOR_LIGHT_CYAN COLOR_BLACK)"]
  let ?f = "''    [ EarlnuxOS v%s '' @ dq @ ''%s'' @ dq @ '' | Senior Dev Edition | Built: %s ]'' @ nl"
  have "text_of ?f = concat (map piece_format
      [Literal (text_of ''    [ EarlnuxOS v''), String (Some (text_of ''1.0.0'')), Literal (text_of ('' '' @ dq)),
       String (Some (text_of ''Prism'')), Literal (text_of (dq @ '' | Senior Dev Edition | Built: '')), String (Some date),
       Literal (text_of ('' ]'' @ nl))])" by simp
  from triple_say [OF assms(1) _ this, of "[str_arg (text_of ''1.0.0''), str_arg (text_of ''Prism''), str_arg date]"] assms(2)
  have v: "triple P (say ?f [str_arg (text_of ''1.0.0''), str_arg (text_of ''Prism''), str_arg date]) P"
    by (simp add: str_arg_def)
  show ?thesis unfolding print_banner_def Let_def
    by (intro triple_bind [where Q = P] b l v triple_colour assms(1)) simp_all
qed

lemma triple_user_init: "triple (boot_inv ks M) user_init (boot_inv ks M)"
  by (simp add: triple_def user_init_def unmounted_mkdir boot_inv_def set_files_def)

lemma triple_kernel_start:
  assumes "pic_device hw" "kbc_device n hw" "bus_with hw nw" "a \<noteq> 0" "0 \<notin> set date"
  shows "triple (boot_inv ks (m_start a)) (kernel_start hw gdt idt isr irq mem date magic info) (boot_inv ks (m_ready nw))"
proof -
  have c: "triple (boot_inv ks (m_start a)) (\<lambda>s. say (''  === Kernel Initialization ==='' @ nl @ nl) []
      (on_con (\<lambda>c. console_clear (console_init c)) s)) (boot_inv ks (m_start a))"
    by (intro triple_on_con triple_say_literal screen_free_boot) simp_all
  have h: "triple (boot_inv ks (m_start a)) do_heap_init (boot_inv ks (m_start a))" by (simp add: triple_def do_heap_init_def)
  have v: "triple (boot_inv ks (m_start a)) do_vmm_init (boot_inv ks (m_start a))"
    unfolding do_vmm_init_def stub_vmm_init_def [abs_def] by (intro triple_on_machine triple_info_literal) simp_all
  have p: "triple (m_no_net a) (pci_init hw) (m_scanned nw)" by (rule triple_pci [OF assms(1,3,4)])
  note steps = triple_init_step [OF _ _ _ v] triple_init_step [OF _ _ _ h]
    triple_init_step [OF _ _ _ triple_on_machine [OF triple_interrupts]]
    triple_init_step [OF _ _ _ triple_on_machine [OF triple_pic]]
    triple_init_step [OF _ _ _ triple_on_machine [OF triple_timer [OF assms(1)]]]
    triple_init_step [OF _ _ _ triple_on_machine [OF triple_keyboard [OF assms(1,2)]]]
    triple_init_step [OF _ _ _ triple_vfs_init [where M = "m_irq a"]]
    triple_init_step [OF _ _ _ triple_on_machine [OF triple_netif_init]]
    triple_init_step [OF _ _ _ triple_on_machine [OF p]]
    triple_init_step [OF _ _ _ triple_on_machine [OF triple_net_init [where M = "m_scanned nw"]]]
  show ?thesis unfolding kernel_start_def Let_def
    by (intro triple_bind [OF c] triple_bind [OF triple_on_machine [OF triple_memory_map]] triple_bind [OF steps(1)]
        triple_bind [OF steps(2)] triple_bind [OF steps(3)] triple_bind [OF steps(4)] triple_bind [OF steps(5)]
        triple_bind [OF steps(6)] triple_bind [OF steps(7)] triple_bind [OF steps(8)] triple_bind [OF steps(9)]
        triple_bind [OF steps(10)] triple_bind [OF triple_on_machine [OF triple_start_networking]]
        triple_bind [OF triple_on_machine [OF triple_sti]]
        triple_bind [OF triple_on_con [OF _ triple_banner]] triple_user_init screen_free_boot) (simp_all add: assms(5))
qed

section \<open>A session\<close>

text \<open>The state with another screen.\<close>

definition screen_only :: "sys \<Rightarrow> sys \<Rightarrow> bool" where
  "screen_only s s' \<longleftrightarrow> set_con (vga (mach s)) s' = s"

lemma screen_free_screen_only: "screen_free (screen_only s)"
  by (simp add: screen_free_def screen_only_def set_con_def)

lemma screen_onlyD: "screen_only s s' \<Longrightarrow> \<exists>c. s' = set_con c s"
proof -
  assume "screen_only s s'"
  then have "set_con (vga (mach s')) s = set_con (vga (mach s')) (set_con (vga (mach s)) s')" by (simp add: screen_only_def)
  then have "set_con (vga (mach s')) s = s'" by (simp add: set_con_def)
  then show ?thesis by metis
qed

lemma print_welcome_returns:
  assumes "0 \<notin> set date" "0 \<notin> set (current_user s)"
  shows "\<exists>c. print_welcome date s = Some (set_con c s)"
proof -
  let ?P = "screen_only s"
  note f = screen_free_screen_only [of s]
  have l: "triple ?P (\<lambda>s. say f [] (on_con g s)) ?P" "triple ?P (say f []) ?P"
    if "0 \<notin> set (text_of f)" "37 \<notin> set (text_of f)" for f g
    using triple_on_con [OF f triple_say_literal [OF f that]] triple_say_literal [OF f that] by auto
  have n: "?P s' \<Longrightarrow> user_get_current s' = current_user s" for s' using screen_onlyD by (fastforce simp: user_get_current_def)
  have "text_of (''    WELCOME, %s!'' @ nl @ nl) = concat (map piece_format
      [Literal (text_of ''    WELCOME, ''), String (Some (current_user s)), Literal [33, 10, 10]])" by simp
  from triple_say [OF f _ this, of "[str_arg (current_user s)]"] assms(2)
  have w: "triple ?P (say (''    WELCOME, %s!'' @ nl @ nl) [str_arg (current_user s)]) ?P" by (simp add: str_arg_def)
  have u: "triple ?P (\<lambda>s. say (''    WELCOME, %s!'' @ nl @ nl) [str_arg (user_get_current (on_con g s))] (on_con g s)) ?P" for g
    using triple_on_con [OF f w, of g] n screen_free_on_con [OF f, of g] by (simp add: triple_def)
  let ?ls = "[''    > System status: OPTIMAL'' @ nl, ''    > Security level: ENFORCED'' @ nl, ''    > Network stack: ACTIVE'' @ nl @ nl]"
  have "triple ?P (foldo (\<lambda>l. say l []) ?ls) ?P" by (intro triple_foldo l(2)) auto
  note ls = triple_on_con [OF f this]
  have "triple ?P (print_welcome date) ?P" unfolding print_welcome_def Let_def
    by (intro triple_bind [where Q = ?P] triple_on_con [OF f triple_banner [OF f assms(1)]] u ls l triple_colour f) simp_all
  moreover have "?P s" by (simp add: screen_only_def set_con_def)
  ultimately show ?thesis using tripleD screen_onlyD by metis
qed

lemma start_state: "boot_inv ks (m_start a) (sys0 (machine0 a con) ks)"
  by (simp add: boot_inv_def sys0_def machine0_def m_start_def fresh_def rtl0_def fsys0_def SHELL_BUF_SIZE_def)

text \<open>C4. From power on through a whole session, on a machine with the RTL8139 card the emulator is started
  with or without one: over an interrupt controller, a keyboard controller, a configuration space and a
  card that behave as documented, \<open>kernel_main\<close> reaches the login with the timer, the keyboard and the
  cascade line enabled and, with a card, the card's line as a fourth; each has its handler and no other
  vector has one; interrupts are on, and the one interface is the card's, or else the virtual one, with
  the static address.  Nothing is mounted, so the login asks for no password but to set a new one: whoever
  types a name and any password, printable and of at most 30 characters each, gets the shell under that
  name; and when the first line typed there starts with \<open>logout\<close>, the shell ends and the login comes back,
  with the keys behind the line unread and still nothing mounted.  The machine has at most one such card,
  with a line from 3 to 15; \<open>a\<close> is the address of the allocator's array.  The byte that
  \<^verbatim>\<open>user.c:88\<close> writes behind \<open>current_user\<close> is not part of the model.\<close>

theorem power_on_session:
  assumes "pic_device hw" "kbc_device n hw" "bus_with hw nw" "a \<noteq> 0" "0 \<notin> set date"
    and "plain_text x" "plain_text y" "length x < 31" "length y < 31"
    and "edit_line (SHELL_BUF_SIZE - 1) [] ks = Some (t, rest)" "words t = text_of ''logout'' # ws"
  shows "\<exists>s s'. kernel_start hw gdt idt isr irq mem date magic info (sys0 (machine0 a con) (x @ 10 # y @ 10 # ks)) = Some s \<and>
    enabled (trace (mach s)) = {0, 1, 2} \<union> card_lines nw \<and> isr_handlers (mach s) = boot_handlers nw \<and>
    hd (trace (mach s)) = Sti \<and> interfaces (nets (mach s)) = [boot_netif nw] \<and> default_iface (nets (mach s)) = Some 0 \<and>
    session junk date s = Some s' \<and> user_get_current s' = x \<and> keys s' = rest \<and> mount_list (files s') = []"
proof -
  let ?ks = "x @ 10 # y @ 10 # ks"
  from tripleD [OF triple_kernel_start [OF assms(1-5)] start_state] obtain s where
    s: "kernel_start hw gdt idt isr irq mem date magic info (sys0 (machine0 a con) ?ks) = Some s" "boot_inv ?ks (m_ready nw) s"
    by blast
  then have m: "mount_list (files s) = []" "keys s = ?ks" "length (shell_input s) = SHELL_BUF_SIZE" "cwd s = [47]"
    and r: "enabled (trace (mach s)) = {0, 1, 2} \<union> card_lines nw" "isr_handlers (mach s) = boot_handlers nw"
      "hd (trace (mach s)) = Sti" "interfaces (nets (mach s)) = [boot_netif nw]" "default_iface (nets (mach s)) = Some 0"
    by (auto simp: boot_inv_def m_ready_def m_net_def m_lines_def)
  from unmounted_login [OF m(1) assms(6-9) m(2), of junk] obtain c where
    l: "user_login_sequence junk s = Some (set_con c (s\<lparr>keys := ks, current_user := x\<rparr>))" by blast
  let ?l = "set_con c (s\<lparr>keys := ks, current_user := x\<rparr>)"
  have "0 \<notin> set (current_user ?l)" using plain_not_zero [OF assms(6)] by simp
  from print_welcome_returns [OF assms(5) this] obtain d where w: "print_welcome date ?l = Some (set_con d ?l)" by blast
  have "edit_line (SHELL_BUF_SIZE - 1) [] (keys (set_con d ?l)) = Some (t, rest)" "length (shell_input (set_con d ?l)) = SHELL_BUF_SIZE"
    "0 \<notin> set (current_user (set_con d ?l))" "0 \<notin> set (cwd (set_con d ?l))"
    using assms(10) m(3,4) plain_not_zero [OF assms(6)] by simp_all
  from logout_returns [OF this(1) assms(11) this(2-4)] obtain e line b where
    "shell_run (set_con d ?l) = Some (set_con e ((set_con d ?l)\<lparr>keys := rest, shell_input := line, argv := b\<rparr>))" by blast
  then have "session junk date s = Some (set_con e ((set_con d ?l)\<lparr>keys := rest, shell_input := line, argv := b\<rparr>))"
    using l w by (simp add: session_def)
  then show ?thesis using s(1) r m(1) by (intro exI conjI) (assumption | simp add: user_get_current_def)+
qed

text \<open>With the emulator's card, on line 11, and without a card.\<close>

theorem power_on_session_witness:
  "(\<exists>s s'. kernel_start demo_bus 0 0 (\<lambda>_. 0) (\<lambda>_. 0) (\<lambda>_. 0) (text_of ''today'') 0 \<lparr>mb_flags = 0, mmap_length = 0, mmap_addr = 0\<rparr>
      (sys0 (machine0 0x200000 blank_console) (text_of ''me'' @ 10 # text_of ''pw'' @ 10 # text_of ''logout'' @ [10])) = Some s \<and>
    enabled (trace (mach s)) = {0, 1, 2, 11} \<and> if_name (hd (interfaces (nets (mach s)))) = text_of ''eth0'' \<and>
    session [] (text_of ''today'') s = Some s' \<and> user_get_current s' = text_of ''me'') \<and>
   (\<exists>s s'. kernel_start demo_pic 0 0 (\<lambda>_. 0) (\<lambda>_. 0) (\<lambda>_. 0) (text_of ''today'') 0 \<lparr>mb_flags = 0, mmap_length = 0, mmap_addr = 0\<rparr>
      (sys0 (machine0 0x200000 blank_console) (text_of ''me'' @ 10 # text_of ''pw'' @ 10 # text_of ''logout'' @ [10])) = Some s \<and>
    enabled (trace (mach s)) = {0, 1, 2} \<and> if_name (hd (interfaces (nets (mach s)))) = text_of ''demo'' \<and>
    session [] (text_of ''today'') s = Some s' \<and> user_get_current s' = text_of ''me'')"
proof -
  have p: "plain_text (text_of ''me'')" "plain_text (text_of ''pw'')" by (simp_all add: plain_text_def)
  have e: "edit_line (SHELL_BUF_SIZE - 1) [] (text_of ''logout'' @ [10]) = Some (text_of ''logout'', [])"
    by (simp add: SHELL_BUF_SIZE_def)
  have w: "words (text_of ''logout'') = text_of ''logout'' # []" by (simp add: words.simps is_blank_def)
  have d: "0 \<notin> set (text_of ''today'')" "length (text_of ''me'') < 31" "length (text_of ''pw'') < 31" "(0x200000 :: u32) \<noteq> 0" by simp_all
  have l: "{0, 1, 2} \<union> card_lines (Some demo_card) = {0, 1, 2, 11}" "{0, 1, 2} \<union> card_lines None = {0, 1, 2}"
    "if_name (boot_netif (Some demo_card)) = text_of ''eth0''" "if_name (boot_netif None) = text_of ''demo''"
    by (auto simp: card_lines_def demo_card_def boot_netif_def hardware_netif_def rtl_interface_def virtual_netif_def)
  note emulator = power_on_session [OF demo_bus_devices demo_bus_card d(4,1) p d(2,3) e w, unfolded l(1)]
  note bare = power_on_session [OF demo_pic_device kbc_demo_pic demo_pic_bus d(4,1) p d(2,3) e w, unfolded l(2)]
  from emulator [where gdt = 0 and idt = 0 and isr = "\<lambda>_. 0" and irq = "\<lambda>_. 0" and mem = "\<lambda>_. 0" and magic = 0
      and info = "\<lparr>mb_flags = 0, mmap_length = 0, mmap_addr = 0\<rparr>" and con = blank_console and junk = "[]"] obtain s s' where "kernel_start demo_bus 0 0 (\<lambda>_. 0) (\<lambda>_. 0) (\<lambda>_. 0) (text_of ''today'') 0 \<lparr>mb_flags = 0, mmap_length = 0, mmap_addr = 0\<rparr>
      (sys0 (machine0 0x200000 blank_console) (text_of ''me'' @ 10 # text_of ''pw'' @ 10 # text_of ''logout'' @ [10])) = Some s"
    "enabled (trace (mach s)) = {0, 1, 2, 11}" "interfaces (nets (mach s)) = [boot_netif (Some demo_card)]"
    "session [] (text_of ''today'') s = Some s'" "user_get_current s' = text_of ''me''" by (elim exE conjE) (rule that)
  moreover from bare [where gdt = 0 and idt = 0 and isr = "\<lambda>_. 0" and irq = "\<lambda>_. 0" and mem = "\<lambda>_. 0" and magic = 0
      and info = "\<lparr>mb_flags = 0, mmap_length = 0, mmap_addr = 0\<rparr>" and con = blank_console and junk = "[]"] obtain u u' where "kernel_start demo_pic 0 0 (\<lambda>_. 0) (\<lambda>_. 0) (\<lambda>_. 0) (text_of ''today'') 0 \<lparr>mb_flags = 0, mmap_length = 0, mmap_addr = 0\<rparr>
      (sys0 (machine0 0x200000 blank_console) (text_of ''me'' @ 10 # text_of ''pw'' @ 10 # text_of ''logout'' @ [10])) = Some u"
    "enabled (trace (mach u)) = {0, 1, 2}" "interfaces (nets (mach u)) = [boot_netif None]"
    "session [] (text_of ''today'') u = Some u'" "user_get_current u' = text_of ''me''" by (elim exE conjE) (rule that)
  ultimately show ?thesis using l(3,4) by (intro conjI exI [of _ s] exI [of _ s'] exI [of _ u] exI [of _ u'])
      (simp_all only: list.sel(1))
qed

end
