(* ===== verification/Rtl_Spec.thy ===== *)
theory Rtl_Spec
  imports Drivers_Spec
begin

text \<open>
  The receive path of the network card: what the interrupt handler does with the frames in the ring.
\<close>

section \<open>The ring\<close>

text \<open>Where the card puts the frame after the frame \<open>f\<close> at an offset: behind the header of four bytes, the
  frame and its checksum of four bytes, at the next multiple of four, in a ring of 8 KB.\<close>

definition ring_next :: "nat \<Rightarrow> bytes \<Rightarrow> nat" where
  "ring_next off f = (off + 4 + length f + 4 + 3) div 4 * 4 mod 8192"

text \<open>The frames a receive buffer holds from an offset on: each behind a header with the status, whose
  lowest bit says that it is intact, and the length with the checksum.\<close>

fun ring_holds :: "bytes \<Rightarrow> nat \<Rightarrow> bytes list \<Rightarrow> bool" where
  "ring_holds buf off [] \<longleftrightarrow> True"
| "ring_holds buf off (f # fs) \<longleftrightarrow>
     (let header = drop off buf
      in 4 \<le> length header \<and> rd16 header 0 AND 1 \<noteq> 0 \<and> length f + 4 < 65536 \<and>
         rd16 header 2 = of_nat (length f + 4) \<and> take (length f) (drop 4 header) = f \<and>
         ring_holds buf (ring_next off f) fs)"

text \<open>Handing the frames to the network one after the other, and the offset behind them.\<close>

fun deliver :: "nat \<Rightarrow> bytes \<Rightarrow> nat \<Rightarrow> bytes list \<Rightarrow> net \<Rightarrow> net option" where
  "deliver i buf off [] st = Some st"
| "deliver i buf off (f # fs) st =
     do { st \<leftarrow> netif_recv i (drop (off + 4) buf) (of_nat (length f)) st;
          deliver i buf (ring_next off f) fs st }"

text \<open>The offsets behind each of the frames, and behind the last of them.\<close>

fun ring_ends :: "nat \<Rightarrow> bytes list \<Rightarrow> nat list" where
  "ring_ends off [] = []"
| "ring_ends off (f # fs) = ring_next off f # ring_ends (ring_next off f) fs"

definition ring_end :: "nat \<Rightarrow> bytes list \<Rightarrow> nat" where
  "ring_end off fs = last (off # ring_ends off fs)"

lemma ring_end_simps [simp]: "ring_end off [] = off" "ring_end off (f # fs) = ring_end (ring_next off f) fs"
  by (simp_all add: ring_end_def)

text \<open>The room a frame takes in the ring; frames that take less than the whole ring end where they
  did not begin.\<close>

definition ring_slot :: "bytes \<Rightarrow> nat" where
  "ring_slot f = (4 + length f + 4 + 3) div 4 * 4"

lemma ring_next_slot: "4 dvd off \<Longrightarrow> ring_next off f = (off + ring_slot f) mod 8192 \<and> 4 dvd ring_next off f"
proof -
  assume "4 dvd off"
  then obtain k where k: "off = 4 * k" by (auto simp: dvd_def)
  have "4 * k + 4 + length f + 4 + 3 = (4 + length f + 4 + 3) + 4 * k" by simp
  then have "(4 * k + 4 + length f + 4 + 3) div 4 = k + (4 + length f + 4 + 3) div 4"
    by (simp only: div_mult_self2)
  then have e: "ring_next off f = (off + ring_slot f) mod 8192"
    unfolding ring_next_def ring_slot_def k by (simp add: distrib_right mult.commute)
  have "4 dvd (off + ring_slot f) mod 8192"
    using \<open>4 dvd off\<close> by (intro dvd_mod dvd_add) (simp_all add: ring_slot_def)
  then show ?thesis using e by simp
qed

lemma ring_end_slots: "4 dvd off \<Longrightarrow> off < 8192 \<Longrightarrow> ring_end off fs = (off + (\<Sum>f\<leftarrow>fs. ring_slot f)) mod 8192"
proof (induction fs arbitrary: off)
  case (Cons f fs)
  note n = ring_next_slot [OF Cons.prems(1), of f]
  have "ring_next off f < 8192" by (simp add: ring_next_def)
  from Cons.IH [OF conjunct2 [OF n] this] show ?case
    using n by (simp add: mod_add_left_eq add.assoc)
qed simp

lemma ring_end_moves:
  assumes "4 dvd off" "off < 8192" "(\<Sum>f\<leftarrow>f # fs. ring_slot f) < 8192"
  shows "off \<noteq> ring_end off (f # fs)"
proof
  assume "off = ring_end off (f # fs)"
  then have "(off + (\<Sum>f\<leftarrow>f # fs. ring_slot f)) mod 8192 = off"
    using ring_end_slots [OF assms(1,2), of "f # fs"] by simp
  moreover have "0 < ring_slot f" by (simp add: ring_slot_def)
  ultimately show False using assms(2,3) by (auto simp: mod_if split: if_splits)
qed

lemma next_offset:
  assumes "unat off < 8192" "length f + 4 < 65536"
  shows "unat (next_rx_offset off (of_nat (length f + 4))) = ring_next (unat off) f"
proof -
  have "unat (of_nat (length f + 4) :: u16) = length f + 4"
    using assms(2) by (simp only: unat_of_nat) (simp add: take_bit_nat_eq_self)
  then have "unat (next_rx_offset off (of_nat (length f + 4))) = (unat off + (length f + 4) + 7) div 4 * 4 mod 8192"
    using unat_next_rx_offset [OF assms(1)] by simp
  moreover have "unat off + (length f + 4) + 7 = unat off + 4 + length f + 4 + 3" by simp
  ultimately show ?thesis by (simp only: ring_next_def)
qed

section \<open>The card\<close>

text \<open>The read pointers the driver has given the card, newest first: the card adds 16 to a value written
  to its CAPR register and reads on from there in the ring. Before the first one it is at offset 0.\<close>

fun read_pointers :: "u16 \<Rightarrow> io_trace \<Rightarrow> nat list" where
  "read_pointers p [] = []"
| "read_pointers p (e # t) =
     (case e of Outw q v \<Rightarrow> if q = p then unat (v + 16) mod 8192 # read_pointers p t else read_pointers p t
      | _ \<Rightarrow> read_pointers p t)"

definition read_pointer :: "u16 \<Rightarrow> io_trace \<Rightarrow> nat" where
  "read_pointer p t = hd (read_pointers p t @ [0])"

lemma read_pointers_simps [simp]:
  "read_pointers p (outw p v t) = unat (v + 16) mod 8192 # read_pointers p t"
  "q \<noteq> p \<Longrightarrow> read_pointers p (outw q v t) = read_pointers p t"
  "read_pointers p (snd (inb hw q t)) = read_pointers p t" "read_pointers p (snd (inw hw q t)) = read_pointers p t"
  by (auto simp: outw_def inb_def inw_def)

text \<open>The card reports an empty buffer exactly when its read pointer has reached the end of the frames
  it has written, and it writes no further frame meanwhile.\<close>

definition card_gives :: "rtl \<Rightarrow> nat \<Rightarrow> bytes \<Rightarrow> device \<Rightarrow> (io_trace \<Rightarrow> bytes) \<Rightarrow> bool" where
  "card_gives r fin buf hw dma \<longleftrightarrow>
     (\<forall>t. dma t = buf \<and>
       ((ucast (hw t (rtl_port r RTL_REG_CMD)) :: u8) AND CMD_RX_EMPTY = 0 \<longleftrightarrow> read_pointer (rtl_port r RTL_REG_CAPR) t \<noteq> fin))"

text \<open>What the handler changes in the driver's state and its port accesses: the offset and the read pointers.\<close>

definition rx_result :: "machine \<Rightarrow> net \<Rightarrow> nat list \<Rightarrow> machine \<Rightarrow> bool" where
  "rx_result m n ends m' \<longleftrightarrow>
     m' = m\<lparr>nets := n, nic := (nic m)\<lparr>rx_offset := of_nat (last (unat (rx_offset (nic m)) # ends))\<rparr>, trace := trace m'\<rparr> \<and>
     read_pointers (rtl_port (nic m) RTL_REG_CAPR) (trace m') = rev ends @ read_pointers (rtl_port (nic m) RTL_REG_CAPR) (trace m)"

lemma acknowledged:
  fixes off :: u32
  assumes "unat off < 8192"
  shows "unat ((ucast off :: u16) - 16 + 16) mod 8192 = unat off"
proof -
  have "unat (ucast off :: u16) = unat off mod 65536" by (simp add: unsigned_ucast_eq take_bit_eq_mod)
  then show ?thesis using assms by simp
qed

lemma rtl_port_offset [simp]: "rtl_port (r\<lparr>rx_offset := off\<rparr>) reg = rtl_port r reg"
  by (simp add: rtl_port_def)

lemma frame_length: "length f + 4 < 65536 \<Longrightarrow> ucast (of_nat (length f + 4) :: u16) - 4 = (of_nat (length f) :: u32)"
proof -
  assume "length f + 4 < 65536"
  then have "unat (ucast (of_nat (length f + 4) :: u16) :: u32) = length f + 4"
    by (simp only: unsigned_ucast_eq unat_of_nat) (simp add: take_bit_nat_eq_self)
  moreover have "unat (of_nat (length f + 4) :: u32) = length f + 4"
    using \<open>length f + 4 < 65536\<close> by (simp only: unat_of_nat) (simp add: take_bit_nat_eq_self)
  ultimately have "(ucast (of_nat (length f + 4) :: u16) :: u32) = of_nat (length f + 4)"
    by (simp only: unat_eq_unat_iff [symmetric])
  then show ?thesis by simp
qed

lemma rx_step_frame:
  assumes "card_gives (nic m) fin buf hw dma" "read_pointer (rtl_port (nic m) RTL_REG_CAPR) (trace m) \<noteq> fin"
    and "ring_holds buf (unat (rx_offset (nic m))) (f # fs)" "rtl_netif (nic m) = Some i" "unat (rx_offset (nic m)) < 8192"
  shows "case netif_recv i (drop (unat (rx_offset (nic m)) + 4) buf) (of_nat (length f)) (nets m) of
      None \<Rightarrow> rx_step hw dma m = None
    | Some st \<Rightarrow> \<exists>m'. rx_step hw dma m = Some (True, m') \<and> rx_result m st [ring_next (unat (rx_offset (nic m))) f] m'"
proof -
  define h where "h = drop (unat (rx_offset (nic m))) buf"
  define len where "len = (of_nat (length f + 4) :: u16)"
  have lf: "length f + 4 < 65536" using assms(3) by (simp add: Let_def)
  from frame_length [OF this] have l: "ucast len - 4 = (of_nat (length f) :: u32)" unfolding len_def .
  have f: "\<not> length h < 4" "rd16 h 0 AND 1 \<noteq> 0" "rd16 h 2 = len"
    using assms(3) unfolding h_def len_def by (simp_all only: ring_holds.simps Let_def not_less simp_thms)
  have e: "(ucast (hw (trace m) (rtl_port (nic m) RTL_REG_CMD)) :: u8) AND CMD_RX_EMPTY = 0"
    using assms(1,2) by (simp add: card_gives_def)
  have d: "drop (unat (rx_offset (nic m))) (dma t) = h" for t using assms(1) by (simp add: card_gives_def h_def)
  have b: "drop (unat (rx_offset (nic m)) + 4) buf = drop 4 h" by (simp add: h_def add.commute)
  let ?t = "snd (inb hw (rtl_port (nic m) RTL_REG_CMD) (trace m))"
  let ?off = "next_rx_offset (rx_offset (nic m)) len"
  have nx: "unat ?off = ring_next (unat (rx_offset (nic m))) f" unfolding len_def by (rule next_offset [OF assms(5) lf])
  then have small: "unat ?off < 8192" by (simp add: ring_next_def)
  have off: "of_nat (ring_next (unat (rx_offset (nic m))) f) = ?off" unfolding nx [symmetric] by simp
  have "rx_step hw dma m = (case netif_recv i (drop 4 h) (of_nat (length f)) (nets m) of
      None \<Rightarrow> None
    | Some st \<Rightarrow> Some (True, m\<lparr>nets := st, nic := (nic m)\<lparr>rx_offset := ?off\<rparr>,
        trace := outw (rtl_port (nic m) RTL_REG_CAPR) (ucast ?off - 16) ?t\<rparr>))"
    using f l e assms(4) by (simp add: rx_step_def Let_def split_beta d inb_def split: option.splits)
  then show ?thesis unfolding b using acknowledged [OF small] nx
    by (auto simp: rx_result_def off split: option.splits)
qed

lemma rx_result_trans:
  assumes "rx_result m n es m'" "rx_result m' n' es' m''"
  shows "rx_result m n' (es @ es') m''"
proof -
  let ?off = "\<lambda>m es. of_nat (last (unat (rx_offset (nic m)) # es)) :: u32"
  obtain t where m': "m' = m\<lparr>nets := n, nic := (nic m)\<lparr>rx_offset := ?off m es\<rparr>, trace := t\<rparr>"
    using assms(1) unfolding rx_result_def by blast
  have "m'' = m'\<lparr>nets := n', nic := (nic m')\<lparr>rx_offset := ?off m' es'\<rparr>, trace := trace m''\<rparr>"
    using assms(2) unfolding rx_result_def by blast
  moreover have "?off m' es' = ?off m (es @ es')" unfolding m' by (cases "es' = []") auto
  ultimately have "m'' = m\<lparr>nets := n', nic := (nic m)\<lparr>rx_offset := ?off m (es @ es')\<rparr>, trace := trace m''\<rparr>"
    unfolding m' by (cases m) simp
  then show ?thesis using assms m' by (simp add: rx_result_def)
qed

lemma rx_result_state:
  assumes "rx_result m n es m'"
  shows "nets m' = n" "rx_offset (nic m') = of_nat (last (unat (rx_offset (nic m)) # es))" "rtl_netif (nic m') = rtl_netif (nic m)"
    "rtl_port (nic m') reg = rtl_port (nic m) reg"
    "read_pointers (rtl_port (nic m) RTL_REG_CAPR) (trace m') = rev es @ read_pointers (rtl_port (nic m) RTL_REG_CAPR) (trace m)"
proof -
  obtain t where "m' = m\<lparr>nets := n, nic := (nic m)\<lparr>rx_offset := of_nat (last (unat (rx_offset (nic m)) # es))\<rparr>, trace := t\<rparr>"
    using assms unfolding rx_result_def by blast
  then show "nets m' = n" "rx_offset (nic m') = of_nat (last (unat (rx_offset (nic m)) # es))" "rtl_netif (nic m') = rtl_netif (nic m)"
    "rtl_port (nic m') reg = rtl_port (nic m) reg" by simp_all
  show "read_pointers (rtl_port (nic m) RTL_REG_CAPR) (trace m') = rev es @ read_pointers (rtl_port (nic m) RTL_REG_CAPR) (trace m)"
    using assms unfolding rx_result_def by blast
qed

text \<open>Between two interrupts: driver and card agree where the next frame is, inside the ring.\<close>

definition in_step :: "machine \<Rightarrow> bool" where
  "in_step m \<longleftrightarrow> read_pointer (rtl_port (nic m) RTL_REG_CAPR) (trace m) = unat (rx_offset (nic m)) \<and>
     unat (rx_offset (nic m)) < 8192 \<and> 4 dvd unat (rx_offset (nic m))"

lemma rx_result_in_step:
  assumes "rx_result m n [ring_next (unat (rx_offset (nic m))) f] m'" "in_step m"
  shows "in_step m'" "unat (rx_offset (nic m')) = ring_next (unat (rx_offset (nic m))) f"
proof -
  note q = rx_result_state [OF assms(1)]
  let ?o = "ring_next (unat (rx_offset (nic m))) f"
  have s: "?o < 8192" by (simp add: ring_next_def)
  show o: "unat (rx_offset (nic m')) = ?o"
    using s unfolding q(2) by (simp add: unat_of_nat take_bit_nat_eq_self)
  have "4 dvd ?o" using ring_next_slot assms(2) unfolding in_step_def by blast
  then show "in_step m'" unfolding in_step_def o q(4) using s by (simp add: read_pointer_def q(5))
qed

lemma rx_loop_delivers:
  assumes "card_gives (nic m) (ring_end (unat (rx_offset (nic m))) fs) buf hw dma" "(\<Sum>f\<leftarrow>fs. ring_slot f) < 8192"
    and "ring_holds buf (unat (rx_offset (nic m))) fs" "rtl_netif (nic m) = Some i" "in_step m"
  shows "case deliver i buf (unat (rx_offset (nic m))) fs (nets m) of
      None \<Rightarrow> rx_loop hw dma m = None
    | Some st \<Rightarrow> \<exists>m'. rx_loop hw dma m = Some m' \<and> rx_result m st (ring_ends (unat (rx_offset (nic m))) fs) m'"
  using assms
proof (induction fs arbitrary: m)
  case Nil
  have "(ucast (hw (trace m) (rtl_port (nic m) RTL_REG_CMD)) :: u8) AND CMD_RX_EMPTY \<noteq> 0"
    using Nil.prems(1,5) by (simp add: card_gives_def in_step_def)
  then have "rx_step hw dma m = Some (False, m\<lparr>trace := snd (inb hw (rtl_port (nic m) RTL_REG_CMD) (trace m))\<rparr>)"
    by (simp add: rx_step_def Let_def split_beta inb_def)
  then show ?case by (subst rx_loop.simps) (simp add: rx_result_def)
next
  case (Cons f fs)
  let ?off = "unat (rx_offset (nic m))"
  have in_ring: "4 dvd ?off" "?off < 8192" using Cons.prems(5) by (simp_all add: in_step_def)
  have "read_pointer (rtl_port (nic m) RTL_REG_CAPR) (trace m) \<noteq> ring_end ?off (f # fs)"
    using ring_end_moves [OF in_ring Cons.prems(2)] Cons.prems(5) by (simp add: in_step_def)
  note step = rx_step_frame [OF Cons.prems(1) this Cons.prems(3,4) in_ring(2)]
  show ?case
  proof (cases "netif_recv i (drop (?off + 4) buf) (of_nat (length f)) (nets m)")
    case None
    then show ?thesis using step by (subst rx_loop.simps) simp
  next
    case (Some st)
    then obtain m1 where s: "rx_step hw dma m = Some (True, m1)"
      and r: "rx_result m st [ring_next ?off f] m1" using step by auto
    note q = rx_result_state [OF r] and step1 = rx_result_in_step [OF r Cons.prems(5)]
    note nx = step1(2)
    have "card_gives (nic m1) (ring_end (unat (rx_offset (nic m1))) fs) buf hw dma"
      using Cons.prems(1) by (simp add: card_gives_def q(4) nx)
    moreover have "(\<Sum>f\<leftarrow>fs. ring_slot f) < 8192" using Cons.prems(2) by simp
    moreover have "ring_holds buf (unat (rx_offset (nic m1))) fs" using Cons.prems(3) nx by (simp add: Let_def)
    moreover have "rtl_netif (nic m1) = Some i" using Cons.prems(4) q(3) by simp
    ultimately have IH: "case deliver i buf (unat (rx_offset (nic m1))) fs (nets m1) of
      None \<Rightarrow> rx_loop hw dma m1 = None
    | Some st \<Rightarrow> \<exists>m'. rx_loop hw dma m1 = Some m' \<and> rx_result m1 st (ring_ends (unat (rx_offset (nic m1))) fs) m'"
      using step1(1) by (rule Cons.IH)
    have l: "rx_loop hw dma m = rx_loop hw dma m1" using s by (subst rx_loop.simps) simp
    have "deliver i buf ?off (f # fs) (nets m) = deliver i buf (unat (rx_offset (nic m1))) fs (nets m1)"
      using Some q(1) nx by simp
    then show ?thesis using IH rx_result_trans [OF r] unfolding l nx
      by (auto split: option.splits)
  qed
qed

text \<open>C13. Receiving: when the card interrupts with frames in its ring, which take less than the whole
  ring, the handler returns after handing exactly these frames, each once and in their order, to the
  network, and it gives each of them back to the card in turn: the read pointers it writes are the
  offsets behind the frames, the last of which is where driver and card go on; nothing else of the
  machine changes.  The card is assumed to compare the read pointer it was given (the value of CAPR
  plus 16) with the end of its frames, and to write no further frame while the handler runs. (Handing a
  frame over is undefined where the network reads behind the buffer, and so is the handler then.)\<close>

theorem rtl8139_delivers_in_order:
  assumes "card_gives (nic m) (ring_end (unat (rx_offset (nic m))) frames) buf hw dma"
    and "(\<Sum>f\<leftarrow>frames. ring_slot f) < 8192"
    and "ring_holds buf (unat (rx_offset (nic m))) frames" "rtl_netif (nic m) = Some i" "in_step m"
    and "(ucast (hw (trace m) (rtl_port (nic m) RTL_REG_ISR)) :: u16) AND ISR_ROK \<noteq> 0"
  shows "case deliver i buf (unat (rx_offset (nic m))) frames (nets m) of
      None \<Rightarrow> rtl8139_handler hw dma m = None
    | Some st \<Rightarrow> \<exists>m'. rtl8139_handler hw dma m = Some m' \<and>
        rx_result m st (ring_ends (unat (rx_offset (nic m))) frames) m'"
proof -
  let ?p = "rtl_port (nic m) RTL_REG_ISR"
  let ?m = "m\<lparr>trace := outw ?p (fst (inw hw ?p (trace m))) (snd (inw hw ?p (trace m)))\<rparr>"
  have p: "?p \<noteq> rtl_port (nic m) RTL_REG_CAPR" by (simp add: rtl_port_def RTL_REG_ISR_def RTL_REG_CAPR_def)
  have h: "rtl8139_handler hw dma m = rx_loop hw dma ?m"
    using assms(6) by (simp add: rtl8139_handler_def split_beta Let_def inw_def)
  have "card_gives (nic ?m) (ring_end (unat (rx_offset (nic ?m))) frames) buf hw dma" "(\<Sum>f\<leftarrow>frames. ring_slot f) < 8192"
    "ring_holds buf (unat (rx_offset (nic ?m))) frames" "rtl_netif (nic ?m) = Some i" "in_step ?m"
    using assms(1-5) p by (simp_all add: in_step_def read_pointer_def)
  from rx_loop_delivers [OF this] have "case deliver i buf (unat (rx_offset (nic m))) frames (nets m) of
      None \<Rightarrow> rx_loop hw dma ?m = None
    | Some st \<Rightarrow> \<exists>m'. rx_loop hw dma ?m = Some m' \<and> rx_result ?m st (ring_ends (unat (rx_offset (nic m))) frames) m'"
    by (simp cong: option.case_cong)
  moreover have "rx_result ?m st es m' \<Longrightarrow> rx_result m st es m'" for st es m'
    using p by (simp add: rx_result_def)
  ultimately show ?thesis unfolding h by (auto split: option.splits)
qed

text \<open>A card with one frame of 60 bytes, of a protocol the stack ignores.\<close>

definition demo_ring :: bytes where
  "demo_ring = [1, 0, 64, 0] @ replicate 60 0 @ replicate 36 0"

definition demo_nic :: rtl where
  "demo_nic = rtl0\<lparr>io_base := 0xC000, rtl_netif := Some 0\<rparr>"

definition demo_card :: device where
  "demo_card t p =
     (if p = rtl_port demo_nic RTL_REG_CMD then (if read_pointer (rtl_port demo_nic RTL_REG_CAPR) t \<noteq> 68 then 0 else 1)
      else if p = rtl_port demo_nic RTL_REG_ISR then 1 else 0)"

definition demo_machine :: machine where
  "demo_machine = (machine0 0x200000 blank_console)\<lparr>nic := demo_nic,
     nets := snd (netif_register (rtl_interface (replicate 6 0)) net0)\<rparr>"

theorem rtl8139_delivers_in_order_witness:
  "\<exists>m'. rtl8139_handler demo_card (\<lambda>_. demo_ring) demo_machine = Some m' \<and>
    rx_packets (interfaces (nets m') ! 0) = 1 \<and> rx_offset (nic m') = 68 \<and>
    read_pointers (rtl_port demo_nic RTL_REG_CAPR) (trace m') = [68]"
proof -
  let ?f = "replicate 60 (0::u8)"
  have m: "nic demo_machine = demo_nic" "trace demo_machine = []" "rx_offset demo_nic = 0" "rtl_netif demo_nic = Some 0"
    by (simp_all add: demo_machine_def machine0_def demo_nic_def rtl0_def)
  have e: "ring_end 0 [?f] = 68" "ring_ends 0 [?f] = [68]" by (simp_all add: ring_next_def)
  have "card_gives (nic demo_machine) (ring_end (unat (rx_offset (nic demo_machine))) [?f]) demo_ring demo_card (\<lambda>_. demo_ring)"
    using e by (simp add: m card_gives_def demo_card_def CMD_RX_EMPTY_def)
  moreover have "(\<Sum>f\<leftarrow>[?f]. ring_slot f) < 8192" by (simp add: ring_slot_def)
  moreover have "ring_holds demo_ring (unat (rx_offset (nic demo_machine))) [?f]" unfolding m by code_simp
  moreover have "rtl_netif (nic demo_machine) = Some 0" "in_step demo_machine" by (simp_all add: m in_step_def read_pointer_def)
  moreover have "(ucast (demo_card (trace demo_machine) (rtl_port (nic demo_machine) RTL_REG_ISR)) :: u16) AND ISR_ROK \<noteq> 0"
    unfolding m by code_simp
  ultimately have "case deliver 0 demo_ring (unat (rx_offset (nic demo_machine))) [?f] (nets demo_machine) of
      None \<Rightarrow> rtl8139_handler demo_card (\<lambda>_. demo_ring) demo_machine = None
    | Some st \<Rightarrow> \<exists>m'. rtl8139_handler demo_card (\<lambda>_. demo_ring) demo_machine = Some m' \<and>
        rx_result demo_machine st (ring_ends (unat (rx_offset (nic demo_machine))) [?f]) m'"
    by (rule rtl8139_delivers_in_order)
  moreover have "map_option (\<lambda>st. rx_packets (interfaces st ! 0)) (deliver 0 demo_ring (unat (rx_offset (nic demo_machine))) [?f] (nets demo_machine)) = Some 1"
    unfolding m by code_simp
  ultimately obtain st m' where r: "rtl8139_handler demo_card (\<lambda>_. demo_ring) demo_machine = Some m'"
    and q: "rx_result demo_machine st (ring_ends 0 [?f]) m'" and n: "rx_packets (interfaces st ! 0) = 1"
    by (auto simp: m split: option.splits)
  show ?thesis using r n rx_result_state(1,2,5) [OF q] unfolding m e by simp
qed

end
