(* ===== verification/Memory_Info.thy ===== *)
theory Memory_Info
  imports Buddy Heap Klog_Spec
begin

text \<open>
  The reports of the memory managers: \<open>pmm_dump_info\<close> of \<^verbatim>\<open>kernel/mm/pmm.c\<close> and
  \<^verbatim>\<open>mm.c\<close>, and \<open>heap_dump_info\<close> of \<^verbatim>\<open>heap.c\<close>.
\<close>

definition pmm_dump_zone :: "pmm \<Rightarrow> zone_id \<times> string \<Rightarrow> console \<Rightarrow> console option" where
  "pmm_dump_zone st z c =
     klog LOG_INFO ''pmm'' ''  Zone[%s]: total=%u pages, free=%u pages''
       [str_arg (text_of (snd z)), Arg32 (z_total_pages (zones st (fst z))), Arg32 (z_free_pages (zones st (fst z)))] c"

definition pmm_dump_info :: "pmm \<Rightarrow> console \<Rightarrow> console option" where
  "pmm_dump_info st c =
     do { let s = pmm_get_stats st;
          c \<leftarrow> klog LOG_INFO ''pmm'' ''Memory: %u MB total, %u MB free''
            [Arg32 (s_total_phys s div (1024 * 1024)), Arg32 (s_free_phys s div (1024 * 1024))] c;
          foldo (pmm_dump_zone st) [(DMA, ''DMA''), (NORMAL, ''Normal''), (HIGHMEM, ''HighMem'')] c }"

definition stub_pmm_dump_info :: "console \<Rightarrow> console option" where
  "stub_pmm_dump_info c = klog LOG_INFO ''MM'' ''Physical Memory Manager (stub)'' [] c"

definition heap_dump_info :: "heap \<Rightarrow> console \<Rightarrow> console option" where
  "heap_dump_info h c =
     klog LOG_INFO ''heap'' ''Heap: used=%u KB, free=%u KB, allocs=%u, frees=%u''
       [Arg32 (used_bytes (heap_stat h) div 1024), Arg32 (free_bytes (heap_stat h) div 1024),
        Arg32 (alloc_count (heap_stat h)), Arg32 (free_count (heap_stat h))] c"

text \<open>The report of the heap is one line with the numbers of its statistics.\<close>

lemma heap_dump_info_line:
  "heap_dump_info h c = Some (fold console_putchar (log_text LOG_INFO ''heap''
     [Literal (text_of ''Heap: used=''), Unsigned (used_bytes (heap_stat h) div 1024),
      Literal (text_of '' KB, free=''), Unsigned (free_bytes (heap_stat h) div 1024),
      Literal (text_of '' KB, allocs=''), Unsigned (alloc_count (heap_stat h)),
      Literal (text_of '', frees=''), Unsigned (free_count (heap_stat h))]) c)"
  unfolding heap_dump_info_def by (intro klog_pieces) simp_all

lemma pmm_dump_zone_line:
  assumes "0 \<notin> set (text_of (snd z))"
  shows "pmm_dump_zone st z c = Some (fold console_putchar (log_text LOG_INFO ''pmm''
     [Literal (text_of ''  Zone[''), String (Some (text_of (snd z))), Literal (text_of '']: total=''),
      Unsigned (z_total_pages (zones st (fst z))), Literal (text_of '' pages, free=''),
      Unsigned (z_free_pages (zones st (fst z))), Literal (text_of '' pages'')]) c)"
  unfolding pmm_dump_zone_def using assms by (intro klog_pieces) (simp_all add: str_arg_def)

end
