(* ===== verification/Spec2Isabelle.thy ===== *)
theory Spec2Isabelle
  imports C_String Buddy_Spec Vmm_Spec Heap_Spec Keyboard_Spec Console_Spec Printf_Spec Vfs_Spec Net_Spec
    Interrupts_Spec Drivers_Spec Shell_Spec Files_Spec Login_Spec Boot_Spec Rtl_Spec Memory_Info
begin

text \<open>
  A verification development of EarlnuxOS, a small 32-bit x86 kernel written in C.

  \<^bold>\<open>The program and its parts.\<close>  \<^verbatim>\<open>kernel/kernel.c\<close> boots the machine (console, memory map,
  processor tables, interrupt controller, timer, keyboard, filesystem, network) and then loops over
  login and shell.  The parts below it are a string library and formatted output, memory management
  (a buddy allocator of page frames, page tables, a heap; the build itself links a bump allocator in
  their place), a RAM filesystem behind a virtual filesystem, a network stack with one card driver, and
  the interrupt-driven drivers.  The keyboard handler and the reader share a ring buffer, the card's
  handler feeds the network stack, the filesystem and the card take memory from the bump allocator, and
  everything that is printed goes through the console.

  \<^bold>\<open>Conventions\<close> (\<^theory_text>\<open>Earlnux_Prelude\<close>).  Machine integers are words of their width, so
  wrap-around is that of the code.  \<^theory_text>\<open>None\<close> is undefined behaviour of the C code (an access
  outside an object, signed overflow, a division by zero, a freed object) and, in the polling loops of
  the drivers, a loop that does not end; the results NULL and -1 of the code are ordinary values.  The
  static data of a file is a record that its operations take and return.

  \<^bold>\<open>Theories.\<close>
  \<^item> \<^theory_text>\<open>Memory\<close>: the byte-addressed memory with 32-bit accesses.
  \<^item> \<^theory_text>\<open>C_String\<close>: \<^verbatim>\<open>kernel/lib/string.c\<close>; \<^theory_text>\<open>Digits\<close>: the positional notation
    its number functions are compared with.
  \<^item> \<^theory_text>\<open>Linked_Lists\<close>, \<^theory_text>\<open>Buddy\<close>, \<^theory_text>\<open>Buddy_Lists\<close>,
    \<^theory_text>\<open>Buddy_Blocks\<close>, \<^theory_text>\<open>Buddy_Inv\<close>, \<^theory_text>\<open>Buddy_Ops\<close>,
    \<^theory_text>\<open>Buddy_Init\<close>, \<^theory_text>\<open>Buddy_Spec\<close>: \<^verbatim>\<open>kernel/mm/pmm.c\<close>, from the
    doubly linked free lists to the allocator as a set of disjoint blocks.
  \<^item> \<^theory_text>\<open>Vmm\<close>, \<^theory_text>\<open>Vmm_Spec\<close>: \<^verbatim>\<open>kernel/mm/vmm.c\<close>, page tables in
    memory as a translation of addresses.
  \<^item> \<^theory_text>\<open>Heap\<close>, \<^theory_text>\<open>Heap_Inv\<close>, \<^theory_text>\<open>Heap_Ops\<close>, \<^theory_text>\<open>Heap_Spec\<close>:
    \<^verbatim>\<open>kernel/mm/heap.c\<close>; \<^theory_text>\<open>Bump_Heap\<close>: \<^verbatim>\<open>kernel/mm/mm.c\<close>.
  \<^item> \<^theory_text>\<open>Keyboard\<close>, \<^theory_text>\<open>Keyboard_Spec\<close>: \<^verbatim>\<open>kernel/drivers/keyboard.c\<close>, the ring
    buffer under every interleaving of the interrupt handler with the reader.
  \<^item> \<^theory_text>\<open>Console\<close>, \<^theory_text>\<open>Console_Spec\<close>: \<^verbatim>\<open>kernel/console.c\<close>;
    \<^theory_text>\<open>Printf\<close>, \<^theory_text>\<open>Printf_Spec\<close>: \<^verbatim>\<open>kernel/lib/printf.c\<close>;
    \<^theory_text>\<open>Klog\<close>, \<^theory_text>\<open>Klog_Spec\<close>: \<^verbatim>\<open>kernel/klog.c\<close>, whose messages the
    drivers print; \<^theory_text>\<open>Memory_Info\<close>: the reports of the memory managers.
  \<^item> \<^theory_text>\<open>Fs_Base\<close>, \<^theory_text>\<open>Ramfs\<close>, \<^theory_text>\<open>Ramfs_Spec\<close>, \<^theory_text>\<open>Vfs\<close>,
    \<^theory_text>\<open>Vfs_Spec\<close>: \<^verbatim>\<open>kernel/fs/vfs.h\<close>, \<^verbatim>\<open>ramfs.c\<close> and \<^verbatim>\<open>vfs.c\<close>;
    \<^theory_text>\<open>Fs_Inv\<close>, \<^theory_text>\<open>Fs_Sound\<close>, \<^theory_text>\<open>Fs_Tree\<close>: the well-formed states, their
    preservation by every operation, and lookups in the tree of directories.
  \<^item> \<^theory_text>\<open>Net\<close>, \<^theory_text>\<open>Net_Spec\<close>: \<^verbatim>\<open>kernel/net\<close>.
  \<^item> \<^theory_text>\<open>Ports\<close>, \<^theory_text>\<open>Interrupts\<close>, \<^theory_text>\<open>Interrupts_Spec\<close>,
    \<^theory_text>\<open>Drivers\<close>, \<^theory_text>\<open>Drivers_Spec\<close>, \<^theory_text>\<open>Rtl_Spec\<close>: \<^verbatim>\<open>kernel/arch/x86\<close> and
    \<^verbatim>\<open>kernel/drivers\<close>.  Devices are a parameter that answers port reads from the accesses made so far.
  \<^item> \<^theory_text>\<open>Shell_Math\<close>: \<^verbatim>\<open>kernel/shell_math.c\<close>; \<^theory_text>\<open>Shell\<close>: the shell of
    \<^verbatim>\<open>kernel/kernel.c\<close> with all its commands, \<open>panic\<close> and \<^verbatim>\<open>ps.c\<close>, over one
    record of the machine, the filesystem, the keys still to come and the static data of the shell;
    \<^theory_text>\<open>Kernel_Main\<close>: \<^verbatim>\<open>user.c\<close>, the memory map, and \<^verbatim>\<open>kernel_main\<close> with its
    steps, messages and sessions.
    \<^theory_text>\<open>Shell_Spec\<close>: the line editor, the words and what a line does; \<^theory_text>\<open>Path_Spec\<close>: path resolution;
    \<^theory_text>\<open>Files_Spec\<close>: the commands on files down to the inodes; \<^theory_text>\<open>Login_Spec\<close>: login and logout;
    \<^theory_text>\<open>Machine_Start\<close>: the machine's part of the start-up as total-correctness triples, the bus
    scan and the set-up of the network card among them; \<^theory_text>\<open>Boot_Spec\<close>: the start-up of the system and a
    whole session from power on.

  \<^bold>\<open>What the lemmas show.\<close>  Each \<^verbatim>\<open>_Spec\<close> theory holds the properties of its part: the
  memory allocators never hand out the same memory twice (and the inputs on which they go wrong: a memory
  map with a high region, \<open>normal_region_allocated_twice\<close>; the kernel's own pages, \<open>kernel_pages_handed_out\<close>;
  sizes near 4 GB, \<open>kmalloc_huge_request\<close>; stale back links, \<open>kfree_stale_link_overlap\<close>), page mapping
  changes exactly one translation and identity mapping maps each page of its range to itself, the string and number functions compute the documented results
  inside their objects, the keyboard delivers what was typed in order, the console stays on the screen,
  formatted output prints its pieces and the buffer version truncates it, a file reads back what was
  written, descriptors and mount points are chosen as documented, the texts of network addresses read back and
  the checksum of an echo reply passes the receiver's sum over the packet (\<open>packet_sum\<close>), the interrupt controller is a set of enabled lines, the uptime counts the timer's
  interrupts, and the card's interrupt hands over the frames in its ring in order and moves the card's
  read pointer (\<open>read_pointers\<close>) behind each. For the filesystem
  there is a well-formedness predicate (the heap in range, buffers that match their sizes,
  directories that form a forest below the mounted roots) that every operation keeps and under which
  none has undefined behaviour, as long as the calls satisfy \<open>op_ok\<close>, which names the calls that the code
  does not survive; on top of it the shell's commands are composed from end to end: what
  \<open>write\<close> writes \<open>cat\<close> prints.
  From power on, over documented devices, with the network card the emulator is started with or without
  one, the start-up is shown to reach the login, which accepts anyone, and a session to end with its logout.  Interfaces are locales
  (a queue, a byte file, the linked lists) that are interpreted on the code's model.

  \<^bold>\<open>Bounds and fuel.\<close>  Loops are structural recursion or have a termination proof by a measure;
  the identity mapping loop, the lookup of a filesystem type, and the polling loops of the drivers are
  partial functions with a theorem that they return.  The bound 10000 of the keyboard controller's waits,
  the digit buffers of 32 and 64 characters, and the array sizes are those of the code.

  \<^bold>\<open>Not modelled.\<close>  Assembly, the boot loader's protocol and the linker script; translation
  look-aside flushes, and the processor's own use of the page tables: the tables are reached through their
  physical addresses and \<open>vm_paging\<close> is recorded but not consulted, so the fault on a table that is not
  mapped once paging is on is outside the model; the log messages of the filesystem, of the receiving network functions and of the
  memory managers that are not linked (the other components print theirs); headers without code
  (processor feature flags, structures of protocols that have no implementation); files that are not part
  of the build (\<^verbatim>\<open>kernel/net/stubs.c\<close>, \<^verbatim>\<open>kernel/net/net.h\<close>); the web page and its fonts.
  The calls of \<open>strncpy\<close> in \<open>resolve_path\<close> (\<^verbatim>\<open>kernel.c:178\<close>, \<^verbatim>\<open>200\<close>), \<open>cmd_cd\<close>
  (\<^verbatim>\<open>kernel.c:427\<close>) and \<open>user_login_sequence\<close> (\<^verbatim>\<open>user.c:88\<close>) are given the size of their
  arrays and write one byte behind them whenever the source is shorter (\<^theory_text>\<open>strncpy_writes_past_n\<close>): paths and
  names are strings in the model of the shell, and that byte is not part of it; the theorems about these
  functions describe what the strings become.

  \<^bold>\<open>Where the model is not the code to the letter.\<close>  The array of page descriptors is a total function, so
  an access behind its end, or to the list of an order above the maximum, is not undefined in the model of
  \<^verbatim>\<open>pmm.c\<close>; the theorems there are about memory maps whose pages have descriptors and about frees of
  allocated blocks.  The receive loop of the card is undefined in the model when the
  interface could not be registered, where the code would go on with the unregistered one; the table of
  interfaces is empty when the card is set up, so this does not arise (\<open>rtl8139_init_state\<close>).  The
  documented interrupt controller answers a read of a data port with the byte written last, which is the mask
  for every read the program does, as it reads only after the masks were written.  A command that halts the
  machine does not return, and the shell's step is then \<open>None\<close>.
\<close>

end
